(* ===== verification/Prelude.thy ===== *)
theory Prelude
  imports Main "HOL-Library.List_Lexorder" "HOL-Library.Char_ord"
begin

text \<open>
  Shared vocabulary of the development: Go's 64-bit signed integers as HOL integers with the
  wrap-around written out, the ASCII case mapping behind \<^verbatim>\<open>lower(email)\<close>, and the handful of
  list operations that a relational table needs (rows selected, updated and counted by a
  predicate). The collections \<open>table_simps\<close> and \<open>op_defs\<close> carry the proofs of the store
  theories.
\<close>

named_theorems table_simps
  "rewrite rules for tables held as lists of rows"

named_theorems op_defs
  "definitions of store operations, unfolded when an operation is run"

named_theorems op_elims
  "inversion rules for store operations that returned successfully"

section \<open>Go integers\<close>

text \<open>Go's \<open>int\<close> (on the 64-bit targets of the backend) and \<open>int64\<close>: addition and
  subtraction wrap around.\<close>

definition wrap64 :: "int \<Rightarrow> int" where
  "wrap64 x = (x + 2 ^ 63) mod 2 ^ 64 - 2 ^ 63"

definition add64 :: "int \<Rightarrow> int \<Rightarrow> int" where
  "add64 a b = wrap64 (a + b)"

definition sub64 :: "int \<Rightarrow> int \<Rightarrow> int" where
  "sub64 a b = wrap64 (a - b)"

definition int64_range :: "int \<Rightarrow> bool" where
  "int64_range x \<longleftrightarrow> - (2 ^ 63) \<le> x \<and> x < 2 ^ 63"

text \<open>Postgres' \<^verbatim>\<open>integer\<close> columns hold 32 bits; a NULL is always storable.\<close>

definition int4_range :: "int \<Rightarrow> bool" where
  "int4_range x \<longleftrightarrow> - (2 ^ 31) \<le> x \<and> x < 2 ^ 31"

definition int4_column :: "int option \<Rightarrow> bool" where
  "int4_column v \<longleftrightarrow> (case v of None \<Rightarrow> True | Some x \<Rightarrow> int4_range x)"

lemma wrap64_id [simp]: "int64_range x \<Longrightarrow> wrap64 x = x"
  by (simp add: wrap64_def int64_range_def)

lemma wrap64_range: "int64_range (wrap64 x)"
proof -
  have "0 \<le> (x + 2 ^ 63) mod 2 ^ 64" and "(x + 2 ^ 63) mod 2 ^ 64 < 2 ^ 64"
    by simp_all
  then show ?thesis
    by (simp add: wrap64_def int64_range_def)
qed

lemma wrap64_wrap64_add [simp]: "wrap64 (wrap64 x + y) = wrap64 (x + y)"
proof -
  have "((x + 2 ^ 63) mod 2 ^ 64 - 2 ^ 63 + y + 2 ^ 63) mod 2 ^ 64
      = ((x + 2 ^ 63) mod 2 ^ 64 + y) mod (2 ^ 64 :: int)"
    by (simp add: algebra_simps)
  also have "\<dots> = (x + 2 ^ 63 + y) mod 2 ^ 64"
    by (simp only: mod_add_left_eq)
  also have "\<dots> = (x + y + 2 ^ 63) mod 2 ^ 64"
    by (simp add: algebra_simps)
  finally show ?thesis
    by (simp only: wrap64_def)
qed

lemma add64_eq: "int64_range (a + b) \<Longrightarrow> add64 a b = a + b"
  by (simp add: add64_def)

lemma add64_nonneg:
  "\<lbrakk>0 \<le> a; 0 \<le> b; a + b < 2 ^ 63\<rbrakk> \<Longrightarrow> add64 a b = a + b"
  by (simp add: add64_eq int64_range_def)

section \<open>ASCII text\<close>

definition lower_char :: "char \<Rightarrow> char" where
  "lower_char c = (if 65 \<le> (of_char c :: nat) \<and> (of_char c :: nat) \<le> 90
                   then char_of (of_char c + (32 :: nat)) else c)"

definition lower_str :: "string \<Rightarrow> string" where
  "lower_str s = map lower_char s"

lemma lower_char_idem [simp]: "lower_char (lower_char c) = lower_char c"
  by (simp add: lower_char_def)

lemma lower_str_idem [simp]: "lower_str (lower_str s) = lower_str s"
  by (simp add: lower_str_def)

section \<open>Tables as lists of rows\<close>

definition update_where :: "('r \<Rightarrow> bool) \<Rightarrow> ('r \<Rightarrow> 'r) \<Rightarrow> 'r list \<Rightarrow> 'r list" where
  "update_where P f rs = map (\<lambda>r. if P r then f r else r) rs"

definition delete_where :: "('r \<Rightarrow> bool) \<Rightarrow> 'r list \<Rightarrow> 'r list" where
  "delete_where P rs = filter (\<lambda>r. \<not> P r) rs"

definition count_where :: "('r \<Rightarrow> bool) \<Rightarrow> 'r list \<Rightarrow> nat" where
  "count_where P rs = length (filter P rs)"

definition exists_where :: "('r \<Rightarrow> bool) \<Rightarrow> 'r list \<Rightarrow> bool" where
  "exists_where P rs \<longleftrightarrow> (\<exists>r \<in> set rs. P r)"

lemma length_update_where [simp]: "length (update_where P f rs) = length rs"
  by (simp add: update_where_def)

lemma update_where_Nil [simp]: "update_where P f [] = []"
  by (simp add: update_where_def)

lemma update_where_Cons [simp]:
  "update_where P f (r # rs) = (if P r then f r else r) # update_where P f rs"
  by (simp add: update_where_def)

lemma set_update_where:
  "set (update_where P f rs) = (\<lambda>r. if P r then f r else r) ` set rs"
  by (simp add: update_where_def)

lemma in_update_where:
  "r \<in> set (update_where P f rs) \<longleftrightarrow>
     (\<exists>r0 \<in> set rs. r = (if P r0 then f r0 else r0))"
  by (auto simp: set_update_where)

lemma update_where_cong:
  "(\<And>r. r \<in> set rs \<Longrightarrow> P r = Q r) \<Longrightarrow> update_where P f rs = update_where Q f rs"
  by (simp add: update_where_def)

lemma update_where_memI:
  "\<lbrakk>rs' = update_where P f rs; r \<in> set rs; P r\<rbrakk> \<Longrightarrow> f r \<in> set rs'"
  by (force simp: set_update_where)

lemma update_where_none [simp]: "\<forall>r \<in> set rs. \<not> P r \<Longrightarrow> update_where P f rs = rs"
  by (induction rs) auto

lemma map_update_where [table_simps]:
  "(\<And>r. g (f r) = g r) \<Longrightarrow> map g (update_where P f rs) = map g rs"
  by (induction rs) auto

lemma filter_update_where_other:
  "\<lbrakk>\<And>r. r \<in> set rs \<Longrightarrow> P r \<Longrightarrow> \<not> Q r; \<And>r. r \<in> set rs \<Longrightarrow> P r \<Longrightarrow> \<not> Q (f r)\<rbrakk>
   \<Longrightarrow> filter Q (update_where P f rs) = filter Q rs"
  by (induction rs) auto

lemma count_where_0_iff: "count_where P rs = 0 \<longleftrightarrow> (\<forall>r \<in> set rs. \<not> P r)"
  by (induction rs) (auto simp: count_where_def)

lemma count_where_pos_iff: "0 < count_where P rs \<longleftrightarrow> (\<exists>r \<in> set rs. P r)"
  using count_where_0_iff[of P rs] by auto

lemma set_delete_where [simp]: "set (delete_where P rs) = {r \<in> set rs. \<not> P r}"
  by (auto simp: delete_where_def)

lemma distinct_map_delete_where: "distinct (map g rs) \<Longrightarrow> distinct (map g (delete_where P rs))"
  by (simp add: delete_where_def distinct_map_filter)

lemma exists_where_code [code]: "exists_where P rs = list_ex P rs"
  by (simp add: exists_where_def list_ex_iff)

lemma exists_where_simps [simp]:
  "exists_where P [] \<longleftrightarrow> False"
  "exists_where P (r # rs) \<longleftrightarrow> P r \<or> exists_where P rs"
  by (auto simp: exists_where_def)

text \<open>A key column that holds distinct values picks at most one row.\<close>

lemma distinct_key_unique:
  "\<lbrakk>distinct (map k rs); r \<in> set rs; r' \<in> set rs; k r = k r'\<rbrakk> \<Longrightarrow> r = r'"
  by (metis distinct_map inj_onD)

lemma filter_distinct_key:
  assumes "distinct (map k rs)" and "r \<in> set rs"
  shows "filter (\<lambda>x. k x = k r) rs = [r]"
  using assms
proof (induction rs)
  case Nil
  then show ?case by simp
next
  case (Cons x xs)
  show ?case
  proof (cases "x = r")
    case True
    with Cons.prems have "\<forall>y \<in> set xs. k y \<noteq> k r"
      by (auto simp: image_iff)
    then have "filter (\<lambda>y. k y = k r) xs = []"
      by (simp add: filter_empty_conv)
    with True show ?thesis by simp
  next
    case False
    with Cons.prems have "r \<in> set xs" and "k x \<noteq> k r"
      by (auto simp: image_iff)
    with Cons show ?thesis by simp
  qed
qed

lemma filter_distinct_key_conj:
  assumes "distinct (map k rs)" and "r \<in> set rs" and "Q r"
  shows "filter (\<lambda>x. k x = k r \<and> Q x) rs = [r]"
proof -
  have "filter (\<lambda>x. k x = k r \<and> Q x) rs = filter Q (filter (\<lambda>x. k x = k r) rs)"
    by (simp add: conj_commute)
  with assms show ?thesis
    by (simp add: filter_distinct_key)
qed

end
