(* ===== verification/Store_Model.thy ===== *)
theory Store_Model
  imports Prelude
begin

text \<open>
  The data model of the store (\<^verbatim>\<open>backend/internal/store/store.go\<close>) and the way
  \<^verbatim>\<open>postgres.go\<close> runs statements against Postgres.

  Every row type of the schema is a record whose fields are the Go struct's; the tables are
  lists of rows in insertion order. A column whose values a CHECK constraint of
  \<^verbatim>\<open>backend/migrations\<close> enumerates is a datatype, every other text column is a
  \<^typ>\<open>string\<close>, and \<^verbatim>\<open>ORDER BY\<close> a text column is the bytewise order (the C collation).
  Times are nanoseconds as \<^typ>\<open>int\<close>.

  An operation is a function from the database to a result and the next database. A statement
  may fail (a lost connection, a malformed argument): which statements fail is decided by the
  fault script \<open>faults\<close> of the state, one entry per statement, an empty script meaning
  that no further statement fails. A failed statement has no effect on the tables. The
  identifiers \<^verbatim>\<open>gen_random_uuid()\<close> draws are the sequence \<open>uuids\<close>, and \<^verbatim>\<open>now()\<close>
  is \<open>clock\<close>.
\<close>

section \<open>Rows\<close>

datatype scope_type = TenantScope | ProjectScope
datatype owner_status = Pending | Active | Tombstoned
datatype job_kind = Recurring | OneShot
datatype job_status = Scheduled | Running | Failed | Succeeded | Cancelled
datatype missed_policy = CatchUp | Skip | RunLate
datatype schedule_scope = ResourceSchedule | ProjectSchedule | SetSchedule
datatype ttl_action = TTLStop | TTLDelete

record user =
  u_id :: string
  u_email :: string
  u_display_name :: string
  u_password_hash :: "string option"
  u_password_algo :: "string option"
  u_is_platform_admin :: bool
  u_totp_enabled :: bool
  u_disabled :: bool
  u_created_at :: int
  u_updated_at :: int

record tenant =
  t_id :: string
  t_name :: string
  t_slug :: string
  t_created_at :: int
  t_updated_at :: int

record project =
  p_id :: string
  p_tenant_id :: string
  p_name :: string
  p_slug :: string
  p_pool_id :: string
  p_created_at :: int
  p_updated_at :: int

record membership =
  m_id :: string
  m_user_id :: string
  m_scope_type :: scope_type
  m_scope_id :: string
  m_role :: string
  m_created_at :: int
  m_updated_at :: int

record alloc =
  a_vcpu :: int
  a_ram_mb :: int
  a_disk_gb :: int

record quota_usage =
  use_vcpu :: int
  use_ram_mb :: int
  use_disk_gb :: int
  use_count :: int

record ownership =
  o_id :: string
  o_tenant_id :: string
  o_project_id :: string
  o_vmid :: int
  o_guest_type :: string
  o_node :: string
  o_created_by :: "string option"
  o_status :: owner_status
  o_pve_upid :: "string option"
  o_reserved_vcpu :: "int option"
  o_reserved_ram_mb :: "int option"
  o_reserved_disk_gb :: "int option"
  o_auto_stopped :: bool
  o_expired_at :: "int option"
  o_set_id :: "string option"
  o_role :: "string option"
  o_created_at :: int
  o_updated_at :: int

record quota =
  q_id :: string
  q_scope_type :: scope_type
  q_scope_id :: string
  q_max_vcpu :: "int option"
  q_max_ram_mb :: "int option"
  q_max_disk_gb :: "int option"
  q_max_count :: "int option"
  q_created_at :: int
  q_updated_at :: int

record session =
  s_id :: string
  s_token_hash :: string
  s_user_id :: string
  s_active_tenant_id :: "string option"
  s_created_at :: int
  s_last_seen_at :: int
  s_absolute_expires_at :: int
  s_revoked_at :: "int option"
  s_ip :: "string option"
  s_user_agent :: "string option"

record invitation =
  i_id :: string
  i_token_hash :: string
  i_email :: string
  i_scope_type :: scope_type
  i_scope_id :: string
  i_role :: string
  i_invited_by :: "string option"
  i_expires_at :: int
  i_accepted_at :: "int option"
  i_created_at :: int
  i_updated_at :: int

record totp_secret =
  ts_user_id :: string
  ts_secret_encrypted :: string
  ts_confirmed_at :: "int option"

record recovery_code =
  rc_user_id :: string
  rc_code_hash :: string
  rc_used_at :: "int option"

record login_challenge =
  lc_id :: string
  lc_token_hash :: string
  lc_user_id :: string
  lc_attempts :: int
  lc_created_at :: int
  lc_expires_at :: int
  lc_consumed_at :: "int option"
  lc_ip :: "string option"
  lc_user_agent :: "string option"

record audit_entry =
  ae_id :: string
  ae_ts :: int
  ae_actor_user_id :: "string option"
  ae_actor_system :: "string option"
  ae_tenant_id :: "string option"
  ae_project_id :: "string option"
  ae_action :: string
  ae_target_type :: "string option"
  ae_target_id :: "string option"
  ae_outcome :: string
  ae_ip :: "string option"
  ae_detail :: "string option"

record job =
  j_id :: string
  j_kind :: job_kind
  j_handler :: string
  j_tenant_id :: "string option"
  j_project_id :: "string option"
  j_vmid :: "int option"
  j_payload :: string
  j_cron :: "string option"
  j_timezone :: "string option"
  j_run_at :: int
  j_status :: job_status
  j_attempts :: int
  j_max_attempts :: int
  j_last_error :: "string option"
  j_locked_at :: "int option"
  j_locked_by :: "string option"
  j_missed_policy :: missed_policy
  j_created_at :: int
  j_updated_at :: int

record schedule =
  sc_id :: string
  sc_scope :: schedule_scope
  sc_tenant_id :: string
  sc_project_id :: string
  sc_vmid :: "int option"
  sc_set_id :: "string option"
  sc_shutdown_time :: string
  sc_auto_start_time :: "string option"
  sc_days_of_week :: "int list"
  sc_timezone :: string
  sc_grace_seconds :: int
  sc_enabled :: bool
  sc_opt_out :: bool
  sc_created_by :: "string option"
  sc_created_at :: int
  sc_updated_at :: int

record ttl =
  tl_id :: string
  tl_tenant_id :: string
  tl_project_id :: string
  tl_vmid :: int
  tl_expires_at :: int
  tl_action :: ttl_action
  tl_warned_24h :: bool
  tl_warned_1h :: bool
  tl_original_duration :: int
  tl_created_by :: "string option"
  tl_created_at :: int
  tl_updated_at :: int

record ttl_policy =
  tp_tenant_id :: string
  tp_project_id :: string
  tp_default_ttl :: "int option"
  tp_max_ttl :: int
  tp_created_at :: int
  tp_updated_at :: int

record deployment_set =
  ds_id :: string
  ds_tenant_id :: string
  ds_project_id :: string
  ds_service_id :: string
  ds_status :: string
  ds_created_at :: int
  ds_updated_at :: int

section \<open>The database\<close>

record tables =
  users :: "user list"
  tenants :: "tenant list"
  projects :: "project list"
  memberships :: "membership list"
  ownerships :: "ownership list"
  quotas :: "quota list"
  sessions :: "session list"
  invitations :: "invitation list"
  totp_secrets :: "totp_secret list"
  recovery_codes :: "recovery_code list"
  login_challenges :: "login_challenge list"
  audit_log :: "audit_entry list"
  jobs :: "job list"
  schedules :: "schedule list"
  ttls :: "ttl list"
  ttl_policies :: "ttl_policy list"
  deployment_sets :: "deployment_set list"

record db =
  tabs :: tables
  faults :: "bool list"
  clock :: int
  uuids :: "nat \<Rightarrow> string"
  drawn :: nat
  in_tx :: bool
  locks :: "int list"

record quota_exceeded =
  qe_scope :: scope_type
  qe_dimension :: string
  qe_limit :: int
  qe_used :: int
  qe_requested :: int

datatype store_error =
    ErrNotFound
  | ErrConflict
  | ErrGuestPending
  | ErrQuotaExceeded quota_exceeded
  | ErrSnapshotMiss int
  | ErrLockOutsideTx
  | ErrCaller string
  | ErrDB

text \<open>\<open>ErrCaller\<close> is an error of the caller's own that a transaction body returns through \<^verbatim>\<open>WithTx\<close>.\<close>

type_synonym 'a op = "db \<Rightarrow> (store_error + 'a) \<times> db"

section \<open>Running statements\<close>

definition ret :: "'a \<Rightarrow> 'a op" where
  "ret x d = (Inr x, d)"

definition raise :: "store_error \<Rightarrow> 'a op" where
  "raise e d = (Inl e, d)"

text \<open>\<open>bind_op\<close> is Go's early return: an error of the first operation is the result.\<close>

definition bind_op :: "'a op \<Rightarrow> ('a \<Rightarrow> 'b op) \<Rightarrow> 'b op" where
  "bind_op m k d = (case m d of (Inl e, d') \<Rightarrow> (Inl e, d') | (Inr x, d') \<Rightarrow> k x d')"

text \<open>\<open>attempt\<close> hands the error to the caller as a value, for the code that inspects it.\<close>

definition attempt :: "'a op \<Rightarrow> (store_error + 'a) op" where
  "attempt m d = (case m d of (r, d') \<Rightarrow> (Inr r, d'))"

definition pop_fault :: "db \<Rightarrow> db" where
  "pop_fault d = d\<lparr>faults := tl (faults d)\<rparr>"

definition next_fails :: "db \<Rightarrow> bool" where
  "next_fails d = (case faults d of [] \<Rightarrow> False | b # _ \<Rightarrow> b)"

definition stmt :: "'a op \<Rightarrow> 'a op" where
  "stmt f d = (if next_fails d then (Inl ErrDB, pop_fault d) else f (pop_fault d))"

text \<open>The four shapes of statement the store issues: a query over the tables; an UPDATE or
  DELETE, whose answer is the number of rows it affected; an INSERT \<dots> RETURNING, which draws
  an identifier and may be refused by a constraint.\<close>

definition query :: "(tables \<Rightarrow> 'a) \<Rightarrow> 'a op" where
  "query f = stmt (\<lambda>d. (Inr (f (tabs d)), d))"

definition query_now :: "(int \<Rightarrow> tables \<Rightarrow> 'a) \<Rightarrow> 'a op" where
  "query_now f = stmt (\<lambda>d. (Inr (f (clock d) (tabs d)), d))"

definition exec :: "(int \<Rightarrow> tables \<Rightarrow> 'a \<times> tables) \<Rightarrow> 'a op" where
  "exec f = stmt (\<lambda>d. case f (clock d) (tabs d) of (x, tb) \<Rightarrow> (Inr x, d\<lparr>tabs := tb\<rparr>))"

definition insert_row ::
  "(string \<Rightarrow> int \<Rightarrow> tables \<Rightarrow> store_error + 'r \<times> tables) \<Rightarrow> 'r op" where
  "insert_row f = stmt (\<lambda>d.
     let d' = d\<lparr>drawn := Suc (drawn d)\<rparr> in
     case f (uuids d (drawn d)) (clock d) (tabs d) of
       Inl e \<Rightarrow> (Inl e, d')
     | Inr (r, tb) \<Rightarrow> (Inr r, d'\<lparr>tabs := tb\<rparr>))"

text \<open>A statement that a constraint may refuse (a DELETE of a row other rows refer to).\<close>

definition exec_checked :: "(int \<Rightarrow> tables \<Rightarrow> store_error + 'a \<times> tables) \<Rightarrow> 'a op" where
  "exec_checked f = stmt (\<lambda>d. case f (clock d) (tabs d) of
       Inl e \<Rightarrow> (Inl e, d)
     | Inr (x, tb) \<Rightarrow> (Inr x, d\<lparr>tabs := tb\<rparr>))"

text \<open>A one-row query (\<^verbatim>\<open>QueryRow(...).Scan\<close>): no row is \<open>ErrNotFound\<close>.\<close>

definition first_row :: "'r list \<Rightarrow> 'r op" where
  "first_row rs = (case rs of [] \<Rightarrow> raise ErrNotFound | r # _ \<Rightarrow> ret r)"

definition query_row :: "(tables \<Rightarrow> 'r list) \<Rightarrow> 'r op" where
  "query_row f = bind_op (query f) first_row"

text \<open>\<^verbatim>\<open>tag.RowsAffected() == 0\<close> is \<open>ErrNotFound\<close>.\<close>

definition affected_or_missing :: "nat \<Rightarrow> unit op" where
  "affected_or_missing n = (if n = 0 then raise ErrNotFound else ret ())"

section \<open>Transactions\<close>

text \<open>\<open>WithTx\<close>: joins the transaction the store is already in; otherwise begins one, restores
  the tables when the body or the commit fails, and releases the advisory locks either way.\<close>

definition WithTx :: "'a op \<Rightarrow> 'a op" where
  "WithTx body d =
     (if in_tx d then body d
      else if next_fails d then (Inl ErrDB, pop_fault d)
      else let saved = tabs d in
        (case body ((pop_fault d)\<lparr>in_tx := True\<rparr>) of
           (Inl e, d') \<Rightarrow> (Inl e, d'\<lparr>tabs := saved, in_tx := False, locks := []\<rparr>)
         | (Inr x, d') \<Rightarrow>
             if next_fails d'
             then (Inl ErrDB, (pop_fault d')\<lparr>tabs := saved, in_tx := False, locks := []\<rparr>)
             else (Inr x, (pop_fault d')\<lparr>in_tx := False, locks := []\<rparr>)))"

definition AdvisoryLock :: "int \<Rightarrow> unit op" where
  "AdvisoryLock key d =
     (if \<not> in_tx d then (Inl ErrLockOutsideTx, d)
      else stmt (\<lambda>d. (Inr (), d\<lparr>locks := key # locks d\<rparr>)) d)"

section \<open>Reasoning about operations\<close>

lemma ret_run [simp]: "ret x d = (Inr x, d)"
  by (simp add: ret_def)

lemma raise_run [simp]: "raise e d = (Inl e, d)"
  by (simp add: raise_def)

lemma bind_op_Inr_iff [op_elims]:
  "bind_op m k d = (Inr y, d') \<longleftrightarrow> (\<exists>x d1. m d = (Inr x, d1) \<and> k x d1 = (Inr y, d'))"
  by (auto simp: bind_op_def split: prod.splits sum.splits)

lemma bind_op_run:
  "m d = (Inr x, d1) \<Longrightarrow> bind_op m k d = k x d1"
  "m d = (Inl e, d1) \<Longrightarrow> bind_op m k d = (Inl e, d1)"
  by (simp_all add: bind_op_def)

lemma attempt_Inr_iff [op_elims]:
  "attempt m d = (Inr r, d') \<longleftrightarrow> m d = (r, d')"
  by (auto simp: attempt_def split: prod.splits)

lemma attempt_run [simp]: "attempt m d = (Inr (fst (m d)), snd (m d))"
  by (simp add: attempt_def split: prod.split)

lemma pop_fault_simps [simp]:
  "tabs (pop_fault d) = tabs d" "clock (pop_fault d) = clock d"
  "uuids (pop_fault d) = uuids d" "drawn (pop_fault d) = drawn d"
  "in_tx (pop_fault d) = in_tx d" "locks (pop_fault d) = locks d"
  "faults (pop_fault d) = tl (faults d)"
  by (simp_all add: pop_fault_def)

lemma no_faults_run [simp]:
  "faults d = [] \<Longrightarrow> next_fails d = False"
  "faults d = [] \<Longrightarrow> pop_fault d = d"
  by (simp_all add: next_fails_def pop_fault_def)

lemma stmt_Inr_iff [op_elims]:
  "stmt f d = (Inr x, d') \<longleftrightarrow> \<not> next_fails d \<and> f (pop_fault d) = (Inr x, d')"
  by (auto simp: stmt_def)

lemma query_Inr_iff [op_elims]:
  "query f d = (Inr x, d') \<longleftrightarrow> \<not> next_fails d \<and> x = f (tabs d) \<and> d' = pop_fault d"
  by (auto simp: query_def stmt_def)

lemma query_now_Inr_iff [op_elims]:
  "query_now f d = (Inr x, d') \<longleftrightarrow>
     \<not> next_fails d \<and> x = f (clock d) (tabs d) \<and> d' = pop_fault d"
  by (auto simp: query_now_def stmt_def)

lemma exec_Inr_iff [op_elims]:
  "exec f d = (Inr x, d') \<longleftrightarrow> \<not> next_fails d \<and>
     (\<exists>tb. f (clock d) (tabs d) = (x, tb) \<and> d' = (pop_fault d)\<lparr>tabs := tb\<rparr>)"
  by (auto simp: exec_def stmt_def split: prod.splits)

lemma exec_checked_Inr_iff [op_elims]:
  "exec_checked f d = (Inr x, d') \<longleftrightarrow> \<not> next_fails d \<and>
     (\<exists>tb. f (clock d) (tabs d) = Inr (x, tb) \<and> d' = (pop_fault d)\<lparr>tabs := tb\<rparr>)"
  by (auto simp: exec_checked_def stmt_def split: prod.splits sum.splits)

lemma insert_row_Inr_iff [op_elims]:
  "insert_row f d = (Inr r, d') \<longleftrightarrow> \<not> next_fails d \<and>
     (\<exists>tb. f (uuids d (drawn d)) (clock d) (tabs d) = Inr (r, tb) \<and>
           d' = (pop_fault d)\<lparr>drawn := Suc (drawn d), tabs := tb\<rparr>)"
  by (auto simp: insert_row_def stmt_def Let_def split: prod.splits sum.splits)

lemma first_row_Inr_iff [op_elims]:
  "first_row rs d = (Inr r, d') \<longleftrightarrow> d' = d \<and> rs \<noteq> [] \<and> r = hd rs"
  by (auto simp: first_row_def split: list.splits)

lemma affected_Inr_iff [op_elims]:
  "affected_or_missing n d = (Inr u, d') \<longleftrightarrow> d' = d \<and> n \<noteq> 0"
  by (auto simp: affected_or_missing_def)

lemma query_row_Inr_iff [op_elims]:
  "query_row f d = (Inr r, d') \<longleftrightarrow>
     \<not> next_fails d \<and> d' = pop_fault d \<and> f (tabs d) \<noteq> [] \<and> r = hd (f (tabs d))"
  by (auto simp: query_row_def op_elims)

text \<open>Runs without faults, for evaluation.\<close>

lemma query_ok [simp]: "faults d = [] \<Longrightarrow> query f d = (Inr (f (tabs d)), d)"
  by (simp add: query_def stmt_def)

lemma query_now_ok [simp]: "faults d = [] \<Longrightarrow> query_now f d = (Inr (f (clock d) (tabs d)), d)"
  by (simp add: query_now_def stmt_def)

lemma exec_ok [simp]:
  "faults d = [] \<Longrightarrow> exec f d =
     (case f (clock d) (tabs d) of (x, tb) \<Rightarrow> (Inr x, d\<lparr>tabs := tb\<rparr>))"
  by (simp add: exec_def stmt_def)

lemma exec_checked_ok [simp]:
  "faults d = [] \<Longrightarrow> exec_checked f d =
     (case f (clock d) (tabs d) of Inl e \<Rightarrow> (Inl e, d) | Inr (x, tb) \<Rightarrow> (Inr x, d\<lparr>tabs := tb\<rparr>))"
  by (simp add: exec_checked_def stmt_def split: sum.split)

lemma insert_row_ok [simp]:
  "faults d = [] \<Longrightarrow> insert_row f d =
     (case f (uuids d (drawn d)) (clock d) (tabs d) of
        Inl e \<Rightarrow> (Inl e, d\<lparr>drawn := Suc (drawn d)\<rparr>)
      | Inr (r, tb) \<Rightarrow> (Inr r, d\<lparr>drawn := Suc (drawn d), tabs := tb\<rparr>))"
  by (simp add: insert_row_def stmt_def Let_def split: sum.split)

lemma query_row_ok [simp]:
  "faults d = [] \<Longrightarrow> query_row f d =
     (case f (tabs d) of [] \<Rightarrow> (Inl ErrNotFound, d) | r # _ \<Rightarrow> (Inr r, d))"
  by (simp add: query_row_def bind_op_def first_row_def split: list.split)

text \<open>\<open>succeeds run P\<close>: the run returned a result and a state with property \<open>P\<close>.\<close>

definition succeeds :: "(store_error + 'a) \<times> db \<Rightarrow> ('a \<Rightarrow> db \<Rightarrow> bool) \<Rightarrow> bool" where
  "succeeds res P \<longleftrightarrow> (case res of (Inr x, d') \<Rightarrow> P x d' | (Inl e, d') \<Rightarrow> False)"

lemma succeedsE:
  assumes "succeeds res P"
  obtains x d' where "res = (Inr x, d')" "P x d'"
  using assms by (auto simp: succeeds_def split: prod.splits sum.splits)

lemma succeedsI: "\<lbrakk>res = (Inr x, d'); P x d'\<rbrakk> \<Longrightarrow> succeeds res P"
  by (simp add: succeeds_def)

section \<open>Failure leaves the tables alone\<close>

text \<open>\<open>fail_safe m\<close>: whenever \<open>m\<close> returns an error, the tables are those it started from.
  Every operation of the store that is one statement, and every operation that is one
  transaction, has this property.\<close>

definition fail_safe :: "'a op \<Rightarrow> bool" where
  "fail_safe m \<longleftrightarrow> (\<forall>d e d'. m d = (Inl e, d') \<longrightarrow> tabs d' = tabs d)"

definition read_only :: "'a op \<Rightarrow> bool" where
  "read_only m \<longleftrightarrow> (\<forall>d r d'. m d = (r, d') \<longrightarrow> tabs d' = tabs d)"

lemma read_only_fail_safe: "read_only m \<Longrightarrow> fail_safe m"
  by (auto simp: read_only_def fail_safe_def)

lemma read_onlyD: "read_only m \<Longrightarrow> tabs (snd (m d)) = tabs d"
  by (metis prod.collapse read_only_def)

lemma fail_safeD: "\<lbrakk>fail_safe m; fst (m d) = Inl e\<rbrakk> \<Longrightarrow> tabs (snd (m d)) = tabs d"
  by (metis prod.collapse fail_safe_def)

lemma read_only_ret [intro, simp]: "read_only (ret x)"
  by (simp add: read_only_def)

lemma read_only_raise [intro, simp]: "read_only (raise e)"
  by (simp add: read_only_def)

lemma read_only_query [intro, simp]: "read_only (query f)"
  by (auto simp: read_only_def query_def stmt_def)

lemma read_only_query_now [intro, simp]: "read_only (query_now f)"
  by (auto simp: read_only_def query_now_def stmt_def)

lemma read_only_first_row [intro, simp]: "read_only (first_row rs)"
  by (auto simp: first_row_def split: list.split)

lemma read_only_affected [intro, simp]: "read_only (affected_or_missing n)"
  by (auto simp: affected_or_missing_def)

lemma read_only_bind [intro]:
  "\<lbrakk>read_only m; \<And>x. read_only (k x)\<rbrakk> \<Longrightarrow> read_only (bind_op m k)"
  unfolding read_only_def bind_op_def by (fastforce split: prod.splits sum.splits)

lemma read_only_query_row [intro, simp]: "read_only (query_row f)"
  unfolding query_row_def by (rule read_only_bind) simp_all

lemma read_only_attempt [intro]: "read_only m \<Longrightarrow> read_only (attempt m)"
  by (simp add: read_only_def [of "attempt m"] read_onlyD)

lemma read_only_lock [intro, simp]: "read_only (AdvisoryLock key)"
  by (auto simp: read_only_def AdvisoryLock_def stmt_def)

lemma fail_safe_exec [intro, simp]: "fail_safe (exec f)"
  by (auto simp: fail_safe_def exec_def stmt_def split: if_splits prod.splits)

lemma fail_safe_exec_checked [intro, simp]: "fail_safe (exec_checked f)"
  by (auto simp: fail_safe_def exec_checked_def stmt_def split: if_splits prod.splits sum.splits)

lemma fail_safe_insert_row [intro, simp]: "fail_safe (insert_row f)"
  by (auto simp: fail_safe_def insert_row_def stmt_def Let_def split: if_splits prod.splits sum.splits)

lemma fail_safe_bind_read_only [intro]:
  "\<lbrakk>read_only m; \<And>x. fail_safe (k x)\<rbrakk> \<Longrightarrow> fail_safe (bind_op m k)"
  unfolding fail_safe_def read_only_def bind_op_def by (fastforce split: prod.splits sum.splits)

lemma exec_affected_fail_safe:
  assumes "\<And>t tb tb'. f t tb = (0, tb') \<Longrightarrow> tb' = tb"
  shows "fail_safe (bind_op (exec f) affected_or_missing)"
  using assms
  by (auto simp: fail_safe_def bind_op_def exec_def stmt_def affected_or_missing_def
        split: if_splits prod.splits sum.splits)

text \<open>Begun outside a transaction, a transaction that returns an error has restored the tables,
  whatever its body did and whichever statement failed.\<close>

lemma WithTx_atomic:
  "\<lbrakk>\<not> in_tx d; WithTx body d = (Inl e, d')\<rbrakk> \<Longrightarrow> tabs d' = tabs d"
  by (auto simp: WithTx_def Let_def split: if_splits prod.splits sum.splits)

lemma WithTx_Inr_iff:
  "\<not> in_tx d \<Longrightarrow> WithTx body d = (Inr x, d') \<longleftrightarrow>
     \<not> next_fails d \<and>
     (\<exists>d1. body ((pop_fault d)\<lparr>in_tx := True\<rparr>) = (Inr x, d1) \<and> \<not> next_fails d1 \<and>
           d' = (pop_fault d1)\<lparr>in_tx := False, locks := []\<rparr>)"
  by (auto simp: WithTx_def Let_def split: prod.splits sum.splits)

lemma WithTx_joins: "in_tx d \<Longrightarrow> WithTx body d = body d"
  by (simp add: WithTx_def)

lemma WithTx_closes:
  "\<lbrakk>\<not> in_tx d; WithTx body d = (r, d'); \<not> next_fails d\<rbrakk> \<Longrightarrow> \<not> in_tx d' \<and> locks d' = []"
  by (auto simp: WithTx_def Let_def split: if_splits prod.splits sum.splits)

lemma AdvisoryLock_Inr_iff [op_elims]:
  "AdvisoryLock key d = (Inr u, d') \<longleftrightarrow>
     in_tx d \<and> \<not> next_fails d \<and> d' = (pop_fault d)\<lparr>locks := key # locks d\<rparr>"
  by (auto simp: AdvisoryLock_def stmt_def)

lemma AdvisoryLock_ok [simp]:
  "\<lbrakk>in_tx d; faults d = []\<rbrakk> \<Longrightarrow> AdvisoryLock key d = (Inr (), d\<lparr>locks := key # locks d\<rparr>)"
  by (simp add: AdvisoryLock_def stmt_def)

end
