(* ===== verification/Samples.thy ===== *)
theory Samples
  imports Store_Model
begin

text \<open>
  Concrete databases on which the witnesses of the development run: the empty schema, and a
  small installation with two tenants. Identifiers are drawn from \<open>sample_uuids\<close>; row
  \<open>n\<close> of the sequence is a string of \<open>n\<close> letters, so no two agree.
\<close>

definition empty_tables :: tables where
  "empty_tables = \<lparr>users = [], tenants = [], projects = [], memberships = [], ownerships = [],
     quotas = [], sessions = [], invitations = [], totp_secrets = [], recovery_codes = [],
     login_challenges = [], audit_log = [], jobs = [], schedules = [], ttls = [],
     ttl_policies = [], deployment_sets = []\<rparr>"

definition sample_uuids :: "nat \<Rightarrow> string" where
  "sample_uuids n = replicate n CHR ''x''"

lemma inj_sample_uuids [simp]: "inj sample_uuids"
  by (rule injI) (metis length_replicate sample_uuids_def)

definition sample_project :: "string \<Rightarrow> string \<Rightarrow> project" where
  "sample_project t p = \<lparr>p_id = p, p_tenant_id = t, p_name = p, p_slug = p, p_pool_id = ''pc-'' @ p,
     p_created_at = 0, p_updated_at = 0\<rparr>"

definition sample_user :: "string \<Rightarrow> string \<Rightarrow> user" where
  "sample_user i mail = \<lparr>u_id = i, u_email = mail, u_display_name = mail, u_password_hash = None,
     u_password_algo = None, u_is_platform_admin = False, u_totp_enabled = False,
     u_disabled = False, u_created_at = 0, u_updated_at = 0\<rparr>"

definition sample_tenant :: "string \<Rightarrow> tenant" where
  "sample_tenant t = \<lparr>t_id = t, t_name = t, t_slug = t, t_created_at = 0, t_updated_at = 0\<rparr>"

definition sample_ownership :: "string \<Rightarrow> string \<Rightarrow> string \<Rightarrow> int \<Rightarrow> owner_status \<Rightarrow> ownership" where
  "sample_ownership i t p v st = \<lparr>o_id = i, o_tenant_id = t, o_project_id = p, o_vmid = v,
     o_guest_type = ''qemu'', o_node = ''pve1'', o_created_by = None, o_status = st,
     o_pve_upid = None, o_reserved_vcpu = Some 2, o_reserved_ram_mb = Some 1024,
     o_reserved_disk_gb = Some 10, o_auto_stopped = False, o_expired_at = None, o_set_id = None,
     o_role = None, o_created_at = 0, o_updated_at = 0\<rparr>"

definition sample_quota :: "scope_type \<Rightarrow> string \<Rightarrow> int \<Rightarrow> quota" where
  "sample_quota st sid n = \<lparr>q_id = sid, q_scope_type = st, q_scope_id = sid, q_max_vcpu = Some n,
     q_max_ram_mb = Some (1024 * n), q_max_disk_gb = None, q_max_count = Some n,
     q_created_at = 0, q_updated_at = 0\<rparr>"

definition sample_tables :: tables where
  "sample_tables = empty_tables\<lparr>
     users := [sample_user ''u1'' ''ann@example.org'', sample_user ''u2'' ''bob@example.org''],
     tenants := [sample_tenant ''t1'', sample_tenant ''t2''],
     projects := [sample_project ''t1'' ''p1'', sample_project ''t1'' ''p1b'', sample_project ''t2'' ''p2''],
     quotas := [sample_quota TenantScope ''t1'' 8, sample_quota ProjectScope ''p1'' 4]\<rparr>"

definition sample_db :: "tables \<Rightarrow> db" where
  "sample_db tb = \<lparr>tabs = tb, faults = [], clock = 1000, uuids = sample_uuids, drawn = 10,
     in_tx = False, locks = []\<rparr>"

lemma sample_db_simps [simp]:
  "tabs (sample_db tb) = tb" "faults (sample_db tb) = []" "clock (sample_db tb) = 1000"
  "uuids (sample_db tb) = sample_uuids" "drawn (sample_db tb) = 10" "in_tx (sample_db tb) = False"
  "locks (sample_db tb) = []"
  by (simp_all add: sample_db_def)

lemma sample_uuid_drawn [simp]: "sample_uuids n \<in> sample_uuids ` {..<m} \<longleftrightarrow> n < m"
  using inj_sample_uuids by (auto simp: inj_def)

lemmas sample_defs = sample_tables_def empty_tables_def sample_project_def sample_user_def
  sample_tenant_def sample_ownership_def sample_quota_def

end
