(* ===== verification/Store_Ownership.thy ===== *)
theory Store_Ownership
  imports Samples
begin

text \<open>
  The \<^verbatim>\<open>resource_ownership\<close> aggregate (\<^verbatim>\<open>OwnershipStore\<close> of \<^verbatim>\<open>store.go\<close>, implemented in
  \<^verbatim>\<open>postgres.go\<close>): the map from a VMID to the project and tenant that own it. The theory
  translates every operation of the aggregate, states the invariant of the table (one row per
  VMID, identifiers unique, every row's tenant is its project's tenant) and shows that each
  operation keeps it, gives the behaviour of \<open>CreateOwnership\<close> on every branch, and
  collects what the clients of the aggregate rely on in the locale \<open>ownership_store\<close>.
\<close>

section \<open>Operations\<close>

record create_ownership_params =
  co_tenant_id :: string
  co_project_id :: string
  co_vmid :: int
  co_guest_type :: string
  co_node :: string
  co_created_by :: "string option"
  co_status :: owner_status
  co_reserved_vcpu :: "int option"
  co_reserved_ram_mb :: "int option"
  co_reserved_disk_gb :: "int option"
  co_set_id :: "string option"
  co_role :: "string option"

definition live_status :: "owner_status \<Rightarrow> bool" where
  "live_status s \<longleftrightarrow> s = Active \<or> s = Pending"

definition project_of_tenant :: "string \<Rightarrow> string \<Rightarrow> tables \<Rightarrow> bool" where
  "project_of_tenant t p tb \<longleftrightarrow>
     exists_where (\<lambda>r. p_tenant_id r = t \<and> p_id r = p) (projects tb)"

text \<open>The constraints of the table: the CHECK on \<^verbatim>\<open>guest_type\<close>, the width of the
  \<^verbatim>\<open>integer\<close> columns \<^verbatim>\<open>vmid\<close> and \<^verbatim>\<open>reserved_vcpu\<close>, and the foreign keys
  \<^verbatim>\<open>(tenant_id, project_id) -> projects\<close>, \<^verbatim>\<open>created_by -> users\<close> and
  \<^verbatim>\<open>deployment_set_id -> deployment_set\<close>.\<close>

definition guest_type_ok :: "string \<Rightarrow> bool" where
  "guest_type_ok g \<longleftrightarrow> g = ''qemu'' \<or> g = ''lxc''"

definition ownership_columns :: "create_ownership_params \<Rightarrow> bool" where
  "ownership_columns p \<longleftrightarrow> guest_type_ok (co_guest_type p) \<and> int4_range (co_vmid p) \<and>
     int4_column (co_reserved_vcpu p)"

definition ownership_fks :: "create_ownership_params \<Rightarrow> tables \<Rightarrow> bool" where
  "ownership_fks p tb \<longleftrightarrow>
     project_of_tenant (co_tenant_id p) (co_project_id p) tb \<and>
     (case co_created_by p of None \<Rightarrow> True
      | Some u \<Rightarrow> exists_where (\<lambda>r. u_id r = u) (users tb)) \<and>
     (case co_set_id p of None \<Rightarrow> True
      | Some s \<Rightarrow> exists_where (\<lambda>r. ds_id r = s) (deployment_sets tb))"

definition new_ownership :: "create_ownership_params \<Rightarrow> string \<Rightarrow> int \<Rightarrow> ownership" where
  "new_ownership p uid now =
     \<lparr>o_id = uid, o_tenant_id = co_tenant_id p, o_project_id = co_project_id p,
      o_vmid = co_vmid p, o_guest_type = co_guest_type p, o_node = co_node p,
      o_created_by = co_created_by p, o_status = co_status p, o_pve_upid = None,
      o_reserved_vcpu = co_reserved_vcpu p, o_reserved_ram_mb = co_reserved_ram_mb p,
      o_reserved_disk_gb = co_reserved_disk_gb p, o_auto_stopped = False,
      o_expired_at = None, o_set_id = co_set_id p, o_role = co_role p,
      o_created_at = now, o_updated_at = now\<rparr>"

text \<open>\<^verbatim>\<open>ON CONFLICT (vmid) DO UPDATE SET ...\<close>: everything but \<^verbatim>\<open>id\<close>, \<^verbatim>\<open>vmid\<close> and
  \<^verbatim>\<open>created_at\<close> is replaced.\<close>

definition revived_ownership :: "create_ownership_params \<Rightarrow> int \<Rightarrow> ownership \<Rightarrow> ownership" where
  "revived_ownership p now o1 = o1\<lparr>
      o_tenant_id := co_tenant_id p, o_project_id := co_project_id p,
      o_guest_type := co_guest_type p, o_node := co_node p,
      o_created_by := co_created_by p, o_status := co_status p,
      o_reserved_vcpu := co_reserved_vcpu p, o_reserved_ram_mb := co_reserved_ram_mb p,
      o_reserved_disk_gb := co_reserved_disk_gb p, o_set_id := co_set_id p,
      o_role := co_role p, o_pve_upid := None, o_auto_stopped := False,
      o_expired_at := None, o_updated_at := now\<rparr>"

definition upsert_ownership ::
  "create_ownership_params \<Rightarrow> string \<Rightarrow> int \<Rightarrow> tables \<Rightarrow> store_error + ownership \<times> tables" where
  "upsert_ownership p uid now tb =
     (if \<not> ownership_columns p then Inl ErrDB
      else case filter (\<lambda>r. o_vmid r = co_vmid p) (ownerships tb) of
        [] \<Rightarrow>
          (let r = new_ownership p uid now in
           if ownership_fks p tb then Inr (r, tb\<lparr>ownerships := ownerships tb @ [r]\<rparr>)
           else Inl ErrDB)
      | r0 # _ \<Rightarrow>
          (if o_status r0 \<noteq> Tombstoned then Inl ErrConflict
           else if ownership_fks p tb
           then Inr (revived_ownership p now r0,
                     tb\<lparr>ownerships := update_where (\<lambda>r. o_vmid r = co_vmid p)
                                        (revived_ownership p now) (ownerships tb)\<rparr>)
           else Inl ErrDB))"

definition CreateOwnership :: "create_ownership_params \<Rightarrow> ownership op" where
  "CreateOwnership p = insert_row (upsert_ownership p)"

definition GetOwnershipByVMID :: "int \<Rightarrow> ownership op" where
  "GetOwnershipByVMID vmid = query_row (\<lambda>tb. filter (\<lambda>r. o_vmid r = vmid) (ownerships tb))"

text \<open>\<^verbatim>\<open>UPDATE resource_ownership SET ... WHERE ...\<close> and its affected-row count.\<close>

definition update_ownerships ::
  "(ownership \<Rightarrow> bool) \<Rightarrow> (int \<Rightarrow> ownership \<Rightarrow> ownership) \<Rightarrow> int \<Rightarrow> tables \<Rightarrow> nat \<times> tables" where
  "update_ownerships P f now tb =
     (count_where P (ownerships tb),
      tb\<lparr>ownerships := update_where P (f now) (ownerships tb)\<rparr>)"

definition FinalizeOwnership :: "string \<Rightarrow> string \<Rightarrow> unit op" where
  "FinalizeOwnership i upid =
     bind_op (exec (update_ownerships (\<lambda>r. o_id r = i \<and> o_status r = Pending)
                (\<lambda>now r. r\<lparr>o_status := Active, o_pve_upid := Some upid, o_updated_at := now\<rparr>)))
       affected_or_missing"

definition ReleaseOwnership :: "string \<Rightarrow> unit op" where
  "ReleaseOwnership i =
     bind_op (exec (\<lambda>now tb.
         let P = (\<lambda>r. o_id r = i \<and> o_status r = Pending) in
         (count_where P (ownerships tb), tb\<lparr>ownerships := delete_where P (ownerships tb)\<rparr>)))
       affected_or_missing"

definition TombstoneOwnership :: "string \<Rightarrow> unit op" where
  "TombstoneOwnership i =
     bind_op (exec (update_ownerships (\<lambda>r. o_id r = i)
                (\<lambda>now r. r\<lparr>o_status := Tombstoned, o_updated_at := now\<rparr>)))
       affected_or_missing"

definition GetLiveOwnershipForTenant :: "string \<Rightarrow> int \<Rightarrow> ownership op" where
  "GetLiveOwnershipForTenant tenant vmid =
     query_row (\<lambda>tb. filter (\<lambda>r. o_vmid r = vmid \<and> o_tenant_id r = tenant \<and>
                                live_status (o_status r)) (ownerships tb))"

text \<open>Postgres' GREATEST ignores NULLs; an argument wider than the \<^verbatim>\<open>integer\<close> column does not
  encode.\<close>

definition greatest :: "int option \<Rightarrow> int option \<Rightarrow> int option" where
  "greatest a b = (case a of None \<Rightarrow> b
     | Some x \<Rightarrow> (case b of None \<Rightarrow> Some x | Some y \<Rightarrow> Some (max x y)))"

definition SetOwnershipReservation ::
  "string \<Rightarrow> int \<Rightarrow> int option \<Rightarrow> int option \<Rightarrow> int option \<Rightarrow> unit op" where
  "SetOwnershipReservation tenant vmid rv rr rd =
     (if \<not> int4_column rv then raise ErrDB
      else bind_op (exec (update_ownerships
                (\<lambda>r. o_vmid r = vmid \<and> o_tenant_id r = tenant \<and> live_status (o_status r))
                (\<lambda>now r. r\<lparr>o_reserved_vcpu := greatest (o_reserved_vcpu r) rv,
                            o_reserved_ram_mb := greatest (o_reserved_ram_mb r) rr,
                            o_reserved_disk_gb := greatest (o_reserved_disk_gb r) rd,
                            o_updated_at := now\<rparr>)))
        affected_or_missing)"

definition SetAutoStopped :: "int \<Rightarrow> bool \<Rightarrow> unit op" where
  "SetAutoStopped vmid v =
     bind_op (exec (update_ownerships (\<lambda>r. o_vmid r = vmid)
                (\<lambda>now r. r\<lparr>o_auto_stopped := v, o_updated_at := now\<rparr>)))
       affected_or_missing"

definition SetExpiredAt :: "int \<Rightarrow> int option \<Rightarrow> unit op" where
  "SetExpiredAt vmid at =
     bind_op (exec (update_ownerships (\<lambda>r. o_vmid r = vmid)
                (\<lambda>now r. r\<lparr>o_expired_at := at, o_updated_at := now\<rparr>)))
       affected_or_missing"

definition ListOwnershipByTenant :: "string \<Rightarrow> ownership list op" where
  "ListOwnershipByTenant t =
     query (\<lambda>tb. sort_key o_vmid (filter (\<lambda>r. o_tenant_id r = t) (ownerships tb)))"

definition ListOwnershipByProject :: "string \<Rightarrow> ownership list op" where
  "ListOwnershipByProject p =
     query (\<lambda>tb. sort_key o_vmid (filter (\<lambda>r. o_project_id r = p) (ownerships tb)))"

definition ListActiveVMIDs :: "int set op" where
  "ListActiveVMIDs =
     query (\<lambda>tb. set (map o_vmid (filter (\<lambda>r. live_status (o_status r)) (ownerships tb))))"

definition ListStalePendingOwnership :: "int \<Rightarrow> ownership list op" where
  "ListStalePendingOwnership older_than =
     query (\<lambda>tb. sort_key o_created_at
       (filter (\<lambda>r. o_status r = Pending \<and> o_created_at r < older_than) (ownerships tb)))"

definition CountActiveOwnershipByProject :: "string \<Rightarrow> nat op" where
  "CountActiveOwnershipByProject p =
     query (\<lambda>tb. count_where (\<lambda>r. o_project_id r = p \<and> live_status (o_status r))
                   (ownerships tb))"

section \<open>The table invariant\<close>

text \<open>Identifiers in the table have been drawn already and are distinct, a VMID has at most one
  row, and every row's tenant is the tenant of its project.\<close>

definition wf_ownerships :: "db \<Rightarrow> bool" where
  "wf_ownerships d \<longleftrightarrow>
     inj (uuids d) \<and>
     distinct (map o_vmid (ownerships (tabs d))) \<and>
     distinct (map o_id (ownerships (tabs d))) \<and>
     (\<forall>r \<in> set (ownerships (tabs d)).
        o_id r \<in> uuids d ` {..<drawn d} \<and>
        project_of_tenant (o_tenant_id r) (o_project_id r) (tabs d))"

lemma wf_ownershipsD:
  assumes "wf_ownerships d"
  shows "inj (uuids d)" "distinct (map o_vmid (ownerships (tabs d)))"
    "distinct (map o_id (ownerships (tabs d)))"
    "r \<in> set (ownerships (tabs d)) \<Longrightarrow> o_id r \<in> uuids d ` {..<drawn d}"
    "r \<in> set (ownerships (tabs d)) \<Longrightarrow>
       project_of_tenant (o_tenant_id r) (o_project_id r) (tabs d)"
  using assms by (auto simp: wf_ownerships_def)

lemma fresh_uuid: "wf_ownerships d \<Longrightarrow> uuids d (drawn d) \<notin> o_id ` set (ownerships (tabs d))"
  unfolding wf_ownerships_def by (fastforce simp: inj_on_def)

lemma drawn_mono: "\<lbrakk>x \<in> u ` {..<n}; n \<le> m\<rbrakk> \<Longrightarrow> x \<in> u ` {..<(m :: nat)}"
  by auto

lemma project_of_tenant_ownerships [simp]:
  "project_of_tenant t p (tb\<lparr>ownerships := os\<rparr>) = project_of_tenant t p tb"
  by (simp add: project_of_tenant_def)

text \<open>The invariant reads the ownership and project tables and the identifier source only.\<close>

lemma wf_ownerships_cong:
  assumes "wf_ownerships d" and "uuids d' = uuids d" and "drawn d \<le> drawn d'"
    and "ownerships (tabs d') = ownerships (tabs d)" and "projects (tabs d') = projects (tabs d)"
  shows "wf_ownerships d'"
  using assms unfolding wf_ownerships_def project_of_tenant_def
  by (fastforce simp: image_iff)

lemma wf_ownerships_update:
  assumes wf: "wf_ownerships d"
    and keys: "\<And>r. o_id (f r) = o_id r" "\<And>r. o_vmid (f r) = o_vmid r"
    and own: "\<And>r. P r \<Longrightarrow> project_of_tenant (o_tenant_id r) (o_project_id r) (tabs d) \<Longrightarrow>
               project_of_tenant (o_tenant_id (f r)) (o_project_id (f r)) (tabs d)"
    and d': "uuids d' = uuids d" "drawn d \<le> drawn d'"
      "tabs d' = (tabs d)\<lparr>ownerships := update_where P f (ownerships (tabs d))\<rparr>"
  shows "wf_ownerships d'"
proof -
  have "o_id r \<in> uuids d' ` {..<drawn d'} \<and>
        project_of_tenant (o_tenant_id r) (o_project_id r) (tabs d')"
    if "r \<in> set (ownerships (tabs d'))" for r
  proof -
    have "r \<in> set (update_where P f (ownerships (tabs d)))"
      using that d'(3) by simp
    then obtain r0 where
      r0: "r0 \<in> set (ownerships (tabs d))" "r = (if P r0 then f r0 else r0)"
      unfolding in_update_where by blast
    then have "o_id r = o_id r0" using keys by simp
    moreover have "project_of_tenant (o_tenant_id r) (o_project_id r) (tabs d')"
      using r0 own wf_ownershipsD(5)[OF wf r0(1)] d'(3) by auto
    ultimately show ?thesis
      using drawn_mono[OF wf_ownershipsD(4)[OF wf r0(1)] d'(2)] d'(1) by simp
  qed
  with wf show ?thesis
    using d' keys by (auto simp: wf_ownerships_def table_simps)
qed

lemma wf_ownerships_delete:
  assumes wf: "wf_ownerships d"
    and d': "uuids d' = uuids d" "drawn d \<le> drawn d'"
      "tabs d' = (tabs d)\<lparr>ownerships := delete_where P (ownerships (tabs d))\<rparr>"
  shows "wf_ownerships d'"
  using wf d' drawn_mono[OF wf_ownershipsD(4)[OF wf] d'(2)] unfolding wf_ownerships_def
  by (auto simp: distinct_map_delete_where)

lemma wf_ownerships_insert:
  assumes wf: "wf_ownerships d" and keys: "o_id r = uuids d (drawn d)"
    "o_vmid r \<notin> o_vmid ` set (ownerships (tabs d))"
    and own: "project_of_tenant (o_tenant_id r) (o_project_id r) (tabs d)"
    and d': "uuids d' = uuids d" "drawn d' = Suc (drawn d)"
      "tabs d' = (tabs d)\<lparr>ownerships := ownerships (tabs d) @ [r]\<rparr>"
  shows "wf_ownerships d'"
  using wf d' keys own fresh_uuid[OF wf] unfolding wf_ownerships_def
  by (auto simp: image_iff lessThan_Suc)

lemmas ownership_updates =
  FinalizeOwnership_def TombstoneOwnership_def SetOwnershipReservation_def
  SetAutoStopped_def SetExpiredAt_def

lemma update_ownerships_wf:
  assumes wf: "wf_ownerships d"
    and keys: "\<And>n r. o_id (f n r) = o_id r" "\<And>n r. o_vmid (f n r) = o_vmid r"
      "\<And>n r. o_tenant_id (f n r) = o_tenant_id r" "\<And>n r. o_project_id (f n r) = o_project_id r"
  shows "wf_ownerships (snd (bind_op (exec (update_ownerships P f)) affected_or_missing d))"
proof (cases "next_fails d")
  case True
  then show ?thesis
    using wf by (auto simp: bind_op_def exec_def stmt_def elim: wf_ownerships_cong)
next
  case False
  then have "snd (bind_op (exec (update_ownerships P f)) affected_or_missing d)
      = (pop_fault d)\<lparr>tabs := snd (update_ownerships P f (clock d) (tabs d))\<rparr>"
    by (simp add: bind_op_def exec_def stmt_def update_ownerships_def affected_or_missing_def)
  then show ?thesis
    using keys by (auto simp: update_ownerships_def
        intro!: wf_ownerships_update[OF wf, where P = P and f = "f (clock d)"])
qed

lemma ownership_updates_wf:
  assumes "wf_ownerships d"
  shows "wf_ownerships (snd (FinalizeOwnership i upid d))"
    "wf_ownerships (snd (TombstoneOwnership i d))"
    "wf_ownerships (snd (SetOwnershipReservation t v rv rr rd d))"
    "wf_ownerships (snd (SetAutoStopped v b d))"
    "wf_ownerships (snd (SetExpiredAt v at d))"
  unfolding ownership_updates using assms by (auto intro!: update_ownerships_wf)

lemma ReleaseOwnership_wf:
  assumes wf: "wf_ownerships d"
  shows "wf_ownerships (snd (ReleaseOwnership i d))"
proof (cases "next_fails d")
  case True
  then show ?thesis
    using wf by (auto simp: ReleaseOwnership_def bind_op_def exec_def stmt_def
        elim: wf_ownerships_cong)
next
  case False
  then show ?thesis
    by (auto simp: ReleaseOwnership_def bind_op_def exec_def stmt_def Let_def
        affected_or_missing_def intro!: wf_ownerships_delete[OF wf])
qed

subsection \<open>Creating a row\<close>

text \<open>The three outcomes of the statement that is not refused: a first row for the VMID, a
  tombstoned row revived in place, and the conflict with a live row.\<close>

lemma upsert_ownership_Inr:
  assumes "upsert_ownership p uid now tb = Inr (r, tb')"
    and dist: "distinct (map o_vmid (ownerships tb))"
  obtains
    (fresh) "co_vmid p \<notin> o_vmid ` set (ownerships tb)" "r = new_ownership p uid now"
      "tb' = tb\<lparr>ownerships := ownerships tb @ [r]\<rparr>"
      "ownership_fks p tb"
  | (revived) r0 where "r0 \<in> set (ownerships tb)" "o_vmid r0 = co_vmid p"
      "o_status r0 = Tombstoned" "r = revived_ownership p now r0"
      "tb' = tb\<lparr>ownerships := update_where (\<lambda>x. o_vmid x = co_vmid p)
                 (revived_ownership p now) (ownerships tb)\<rparr>"
      "ownership_fks p tb"
proof (cases "filter (\<lambda>r. o_vmid r = co_vmid p) (ownerships tb)")
  case Nil
  then have "co_vmid p \<notin> o_vmid ` set (ownerships tb)"
    by (force simp: filter_empty_conv)
  with Nil assms(1) show ?thesis
    using fresh by (auto simp: upsert_ownership_def Let_def split: if_splits)
next
  case (Cons r0 rs)
  then have "r0 \<in> set (ownerships tb)" "o_vmid r0 = co_vmid p"
    by (auto simp: filter_eq_Cons_iff)
  with Cons assms(1) show ?thesis
    using revived[of r0] by (auto simp: upsert_ownership_def split: if_splits)
qed

lemma new_ownership_simps [simp]:
  "o_id (new_ownership p uid now) = uid" "o_vmid (new_ownership p uid now) = co_vmid p"
  "o_tenant_id (new_ownership p uid now) = co_tenant_id p"
  "o_project_id (new_ownership p uid now) = co_project_id p"
  "o_status (new_ownership p uid now) = co_status p"
  "o_reserved_vcpu (new_ownership p uid now) = co_reserved_vcpu p"
  "o_reserved_ram_mb (new_ownership p uid now) = co_reserved_ram_mb p"
  "o_reserved_disk_gb (new_ownership p uid now) = co_reserved_disk_gb p"
  "o_set_id (new_ownership p uid now) = co_set_id p"
  "o_role (new_ownership p uid now) = co_role p"
  "o_created_at (new_ownership p uid now) = now"
  by (simp_all add: new_ownership_def)

lemma revived_ownership_simps [simp]:
  "o_id (revived_ownership p now r) = o_id r" "o_vmid (revived_ownership p now r) = o_vmid r"
  "o_tenant_id (revived_ownership p now r) = co_tenant_id p"
  "o_project_id (revived_ownership p now r) = co_project_id p"
  "o_status (revived_ownership p now r) = co_status p"
  "o_reserved_vcpu (revived_ownership p now r) = co_reserved_vcpu p"
  "o_reserved_ram_mb (revived_ownership p now r) = co_reserved_ram_mb p"
  "o_reserved_disk_gb (revived_ownership p now r) = co_reserved_disk_gb p"
  "o_set_id (revived_ownership p now r) = co_set_id p"
  "o_role (revived_ownership p now r) = co_role p"
  "o_created_at (revived_ownership p now r) = o_created_at r"
  by (simp_all add: revived_ownership_def)

lemma ownership_fks_project: "ownership_fks p tb \<Longrightarrow>
    project_of_tenant (co_tenant_id p) (co_project_id p) tb"
  by (simp add: ownership_fks_def)

text \<open>What a caller of \<open>CreateOwnership\<close> gets: the VMID had no live row, it now has exactly
  the returned one, and the rows of every other VMID are the same ones in the same order.\<close>

lemma CreateOwnership_Inr:
  assumes wf: "wf_ownerships d" and run: "CreateOwnership p d = (Inr r, d')"
  shows "wf_ownerships d'"
    and "r \<in> set (ownerships (tabs d'))"
    and "o_vmid r = co_vmid p" "o_tenant_id r = co_tenant_id p"
      "o_project_id r = co_project_id p" "o_status r = co_status p"
      "o_reserved_vcpu r = co_reserved_vcpu p" "o_reserved_ram_mb r = co_reserved_ram_mb p"
      "o_reserved_disk_gb r = co_reserved_disk_gb p" "o_set_id r = co_set_id p"
      "o_role r = co_role p"
    and "\<forall>x \<in> set (ownerships (tabs d)). o_vmid x = co_vmid p \<longrightarrow> o_status x = Tombstoned"
    and "filter (\<lambda>x. o_vmid x \<noteq> co_vmid p) (ownerships (tabs d'))
       = filter (\<lambda>x. o_vmid x \<noteq> co_vmid p) (ownerships (tabs d))"
    and "tabs d' = (tabs d)\<lparr>ownerships := ownerships (tabs d')\<rparr>"
    and "clock d' = clock d" "in_tx d' = in_tx d" "locks d' = locks d" "uuids d' = uuids d"
proof -
  obtain tb where up: "upsert_ownership p (uuids d (drawn d)) (clock d) (tabs d) = Inr (r, tb)"
    and d': "d' = (pop_fault d)\<lparr>drawn := Suc (drawn d), tabs := tb\<rparr>"
    using run by (auto simp: CreateOwnership_def op_elims)
  have dist: "distinct (map o_vmid (ownerships (tabs d)))"
    using wf by (rule wf_ownershipsD)
  have "wf_ownerships d' \<and> r \<in> set (ownerships (tabs d')) \<and> o_vmid r = co_vmid p \<and>
      (\<forall>x \<in> set (ownerships (tabs d)). o_vmid x = co_vmid p \<longrightarrow> o_status x = Tombstoned) \<and>
      filter (\<lambda>x. o_vmid x \<noteq> co_vmid p) (ownerships (tabs d'))
       = filter (\<lambda>x. o_vmid x \<noteq> co_vmid p) (ownerships (tabs d)) \<and>
      tabs d' = (tabs d)\<lparr>ownerships := ownerships (tabs d')\<rparr>"
    using up dist
  proof (cases rule: upsert_ownership_Inr)
    case fresh
    then show ?thesis
      by (auto simp: d' image_iff intro!: wf_ownerships_insert[OF wf]
          intro: ownership_fks_project)
  next
    case (revived r0)
    have "wf_ownerships d'"
      using revived
      by (auto simp: d' intro: ownership_fks_project
          intro!: wf_ownerships_update[OF wf, where P = "\<lambda>x. o_vmid x = co_vmid p"
                    and f = "revived_ownership p (clock d)"])
    moreover have "r \<in> set (ownerships (tabs d'))"
      using revived by (force simp: d' set_update_where)
    moreover have "filter (\<lambda>x. o_vmid x \<noteq> co_vmid p) (ownerships (tabs d'))
       = filter (\<lambda>x. o_vmid x \<noteq> co_vmid p) (ownerships (tabs d))"
      using revived by (auto simp: d' intro!: filter_update_where_other)
    moreover have "\<forall>x \<in> set (ownerships (tabs d)). o_vmid x = co_vmid p \<longrightarrow> o_status x = Tombstoned"
      using revived distinct_key_unique[OF dist] by metis
    ultimately show ?thesis
      using revived by (simp add: d')
  qed
  moreover have "o_tenant_id r = co_tenant_id p \<and> o_project_id r = co_project_id p \<and>
      o_status r = co_status p \<and> o_reserved_vcpu r = co_reserved_vcpu p \<and>
      o_reserved_ram_mb r = co_reserved_ram_mb p \<and>
      o_reserved_disk_gb r = co_reserved_disk_gb p \<and> o_set_id r = co_set_id p \<and>
      o_role r = co_role p"
    using up dist by (cases rule: upsert_ownership_Inr) simp_all
  ultimately show "wf_ownerships d'" "r \<in> set (ownerships (tabs d'))"
    "o_vmid r = co_vmid p" "o_tenant_id r = co_tenant_id p"
    "o_project_id r = co_project_id p" "o_status r = co_status p"
    "o_reserved_vcpu r = co_reserved_vcpu p" "o_reserved_ram_mb r = co_reserved_ram_mb p"
    "o_reserved_disk_gb r = co_reserved_disk_gb p" "o_set_id r = co_set_id p"
    "o_role r = co_role p"
    "\<forall>x \<in> set (ownerships (tabs d)). o_vmid x = co_vmid p \<longrightarrow> o_status x = Tombstoned"
    "filter (\<lambda>x. o_vmid x \<noteq> co_vmid p) (ownerships (tabs d'))
       = filter (\<lambda>x. o_vmid x \<noteq> co_vmid p) (ownerships (tabs d))"
    "tabs d' = (tabs d)\<lparr>ownerships := ownerships (tabs d')\<rparr>"
    by simp_all
  show "clock d' = clock d" "in_tx d' = in_tx d" "locks d' = locks d" "uuids d' = uuids d"
    by (simp_all add: d')
qed

lemma CreateOwnership_wf:
  assumes wf: "wf_ownerships d"
  shows "wf_ownerships (snd (CreateOwnership p d))"
proof (cases "CreateOwnership p d")
  case (Pair r d')
  show ?thesis
  proof (cases r)
    case (Inr x)
    with Pair wf show ?thesis by (auto intro: CreateOwnership_Inr(1))
  next
    case (Inl e)
    with Pair have "tabs d' = tabs d"
      by (auto simp: CreateOwnership_def fail_safe_def intro: fail_safe_insert_row[unfolded fail_safe_def, rule_format])
    moreover have "uuids d' = uuids d" "drawn d \<le> drawn d'"
      using Pair Inl by (auto simp: CreateOwnership_def insert_row_def stmt_def Let_def
          split: if_splits sum.splits)
    ultimately show ?thesis
      using Pair wf by (auto elim: wf_ownerships_cong)
  qed
qed

subsection \<open>Settling and removing a row\<close>

lemma ownership_id_unique:
  "\<lbrakk>wf_ownerships d; r \<in> set (ownerships (tabs d)); r' \<in> set (ownerships (tabs d)); o_id r = o_id r'\<rbrakk>
   \<Longrightarrow> r = r'"
  using distinct_key_unique wf_ownershipsD(3) by metis

lemma ReleaseOwnership_Inr:
  assumes wf: "wf_ownerships d" and run: "ReleaseOwnership i d = (Inr u, d')"
  obtains r where "r \<in> set (ownerships (tabs d))" "o_id r = i" "o_status r = Pending"
    "tabs d' = (tabs d)\<lparr>ownerships := filter (\<lambda>x. o_id x \<noteq> i) (ownerships (tabs d))\<rparr>"
    "clock d' = clock d" "uuids d' = uuids d" "drawn d' = drawn d" "in_tx d' = in_tx d"
proof -
  let ?P = "\<lambda>r. o_id r = i \<and> o_status r = Pending"
  from run have n: "count_where ?P (ownerships (tabs d)) \<noteq> 0"
    and d': "d' = (pop_fault d)\<lparr>tabs := (tabs d)\<lparr>ownerships := delete_where ?P (ownerships (tabs d))\<rparr>\<rparr>"
    by (auto simp: ReleaseOwnership_def op_elims Let_def)
  from n obtain r where r: "r \<in> set (ownerships (tabs d))" "?P r"
    by (auto simp: count_where_0_iff)
  have "delete_where ?P (ownerships (tabs d)) = filter (\<lambda>x. o_id x \<noteq> i) (ownerships (tabs d))"
    unfolding delete_where_def
    by (rule filter_cong [OF refl]) (metis ownership_id_unique[OF wf] r)
  with r d' show ?thesis
    by (intro that[of r]) simp_all
qed

lemma FinalizeOwnership_Inr:
  assumes run: "FinalizeOwnership i upid d = (Inr u, d')"
  shows "\<exists>r \<in> set (ownerships (tabs d)). o_id r = i \<and> o_status r = Pending"
    and "tabs d' = (tabs d)\<lparr>ownerships := update_where (\<lambda>r. o_id r = i \<and> o_status r = Pending)
           (\<lambda>r. r\<lparr>o_status := Active, o_pve_upid := Some upid, o_updated_at := clock d\<rparr>)
           (ownerships (tabs d))\<rparr>"
  using run by (auto simp: FinalizeOwnership_def op_elims update_ownerships_def count_where_pos_iff)

lemma TombstoneOwnership_Inr:
  assumes run: "TombstoneOwnership i d = (Inr u, d')"
  shows "\<exists>r \<in> set (ownerships (tabs d)). o_id r = i"
    and "tabs d' = (tabs d)\<lparr>ownerships := update_where (\<lambda>r. o_id r = i)
           (\<lambda>r. r\<lparr>o_status := Tombstoned, o_updated_at := clock d\<rparr>) (ownerships (tabs d))\<rparr>"
  using run by (auto simp: TombstoneOwnership_def op_elims update_ownerships_def count_where_pos_iff)

section \<open>Runs of the aggregate\<close>

text \<open>A step of the aggregate is any of its writing operations, under any fault script, or the
  passing of time; runs are the finite sequences of steps, so they include every interleaving
  of the statements of concurrent requests.\<close>

inductive ownership_step :: "db \<Rightarrow> db \<Rightarrow> bool" where
  create: "ownership_step d (snd (CreateOwnership p d))"
| finalize: "ownership_step d (snd (FinalizeOwnership i upid d))"
| release: "ownership_step d (snd (ReleaseOwnership i d))"
| tombstone: "ownership_step d (snd (TombstoneOwnership i d))"
| reservation: "ownership_step d (snd (SetOwnershipReservation t v rv rr rd d))"
| auto_stopped: "ownership_step d (snd (SetAutoStopped v b d))"
| expired: "ownership_step d (snd (SetExpiredAt v at d))"
| time: "clock d \<le> t \<Longrightarrow> ownership_step d (d\<lparr>clock := t, faults := fs\<rparr>)"

lemma ownership_step_wf: "ownership_step d d' \<Longrightarrow> wf_ownerships d \<Longrightarrow> wf_ownerships d'"
proof (induction rule: ownership_step.induct)
  case (time d t fs)
  then show ?case by (auto elim: wf_ownerships_cong)
qed (auto intro: CreateOwnership_wf ReleaseOwnership_wf ownership_updates_wf)

lemma ownership_run_wf: "ownership_step\<^sup>*\<^sup>* d d' \<Longrightarrow> wf_ownerships d \<Longrightarrow> wf_ownerships d'"
  by (induction rule: rtranclp_induct) (auto intro: ownership_step_wf)

text \<open>How one step may change the row with a given identifier: a live row keeps its tenant,
  project and VMID; only a pending row becomes active; only a tombstoned row is handed on.\<close>

definition row_successor :: "ownership \<Rightarrow> ownership \<Rightarrow> bool" where
  "row_successor r r' \<longleftrightarrow> o_id r' = o_id r \<and> o_vmid r' = o_vmid r \<and>
     (o_status r = Tombstoned \<or>
      (o_tenant_id r' = o_tenant_id r \<and> o_project_id r' = o_project_id r \<and>
       (o_status r' = o_status r \<or> o_status r' = Tombstoned \<or>
        o_status r = Pending \<and> o_status r' = Active)))"

lemma row_successor_refl [simp]: "row_successor r r"
  by (simp add: row_successor_def)

definition rows_successor :: "ownership list \<Rightarrow> ownership list \<Rightarrow> bool" where
  "rows_successor os os' \<longleftrightarrow>
     (\<forall>r \<in> set os. \<forall>r' \<in> set os'. o_id r' = o_id r \<longrightarrow> row_successor r r')"

lemma rows_successor_refl:
  "distinct (map o_id os) \<Longrightarrow> set os' \<subseteq> set os \<Longrightarrow> rows_successor os os'"
  unfolding rows_successor_def using distinct_key_unique row_successor_refl by (metis subsetD)

lemma rows_successor_update:
  assumes dist: "distinct (map o_id os)" and ids: "\<And>r. o_id (f r) = o_id r"
    and f: "\<And>r. r \<in> set os \<Longrightarrow> P r \<Longrightarrow> row_successor r (f r)"
  shows "rows_successor os (update_where P f os)"
  unfolding rows_successor_def
proof (intro ballI impI)
  fix r r' assume r: "r \<in> set os" and r': "r' \<in> set (update_where P f os)" "o_id r' = o_id r"
  then obtain r0 where r0: "r0 \<in> set os" "r' = (if P r0 then f r0 else r0)"
    unfolding in_update_where by blast
  with r' ids have "o_id r0 = o_id r" by (auto split: if_splits)
  with distinct_key_unique[OF dist r0(1) r] have "r0 = r" by simp
  with r0 f r show "row_successor r r'" by auto
qed

lemma update_op_rows:
  "ownerships (tabs (snd (bind_op (exec (update_ownerships P f)) affected_or_missing d)))
     \<in> {ownerships (tabs d), update_where P (f (clock d)) (ownerships (tabs d))}"
  by (auto simp: bind_op_def exec_def stmt_def update_ownerships_def affected_or_missing_def)

lemma update_op_successor:
  assumes wf: "wf_ownerships d" and ids: "\<And>n r. o_id (f n r) = o_id r"
    and f: "\<And>n r. P r \<Longrightarrow> row_successor r (f n r)"
  shows "rows_successor (ownerships (tabs d))
     (ownerships (tabs (snd (bind_op (exec (update_ownerships P f)) affected_or_missing d))))"
proof -
  note dist = wf_ownershipsD(3)[OF wf]
  have "rows_successor (ownerships (tabs d)) (ownerships (tabs d))"
    using dist by (rule rows_successor_refl) simp
  moreover have "rows_successor (ownerships (tabs d))
      (update_where P (f (clock d)) (ownerships (tabs d)))"
    using dist ids f by (rule rows_successor_update)
  ultimately show ?thesis
    using update_op_rows[of P f d] by auto
qed

lemma CreateOwnership_successor:
  assumes wf: "wf_ownerships d"
  shows "rows_successor (ownerships (tabs d)) (ownerships (tabs (snd (CreateOwnership p d))))"
proof (cases "\<exists>r d'. CreateOwnership p d = (Inr r, d')")
  case True
  then obtain r d' where run: "CreateOwnership p d = (Inr r, d')" by blast
  then obtain tb where up: "upsert_ownership p (uuids d (drawn d)) (clock d) (tabs d) = Inr (r, tb)"
    and d': "tabs d' = tb"
    by (auto simp: CreateOwnership_def op_elims)
  note dist = wf_ownershipsD(2)[OF wf]
  from up dist show ?thesis
  proof (cases rule: upsert_ownership_Inr)
    case fresh
    have "o_id x \<noteq> o_id r" if "x \<in> set (ownerships (tabs d))" for x
      using fresh(2) fresh_uuid[OF wf] that by (metis image_eqI new_ownership_simps(1))
    then have "\<forall>x \<in> set (ownerships (tabs d)). o_id r \<noteq> o_id x"
      by metis
    then show ?thesis
      using fresh(3) run d' rows_successor_refl[OF wf_ownershipsD(3)[OF wf] order_refl]
      by (auto simp: rows_successor_def)
  next
    case (revived r0)
    have "row_successor x (revived_ownership p (clock d) x)"
      if "x \<in> set (ownerships (tabs d))" "o_vmid x = co_vmid p" for x
      using distinct_key_unique[OF dist that(1) revived(1)] that revived(2,3)
      by (simp add: row_successor_def)
    then show ?thesis
      using run d' revived(5) rows_successor_update[OF wf_ownershipsD(3)[OF wf]] by auto
  qed
next
  case False
  then have "tabs (snd (CreateOwnership p d)) = tabs d"
    by (metis CreateOwnership_def fail_safeD fail_safe_insert_row obj_sumE prod.collapse)
  then show ?thesis
    by (simp add: rows_successor_refl[OF wf_ownershipsD(3)[OF wf]])
qed

lemma ReleaseOwnership_successor:
  assumes wf: "wf_ownerships d"
  shows "rows_successor (ownerships (tabs d)) (ownerships (tabs (snd (ReleaseOwnership i d))))"
  by (intro rows_successor_refl wf_ownershipsD(3)[OF wf])
    (auto simp: ReleaseOwnership_def bind_op_def exec_def stmt_def Let_def affected_or_missing_def
        split: if_splits)

lemma ownership_step_successor:
  "ownership_step d d' \<Longrightarrow> wf_ownerships d \<Longrightarrow>
   rows_successor (ownerships (tabs d)) (ownerships (tabs d'))"
proof (induction rule: ownership_step.induct)
  case (time d t fs)
  then show ?case by (simp add: rows_successor_refl[OF wf_ownershipsD(3)])
qed (auto intro: CreateOwnership_successor ReleaseOwnership_successor
        rows_successor_refl[OF wf_ownershipsD(3)]
      simp: ownership_updates row_successor_def intro!: update_op_successor)

section \<open>The interface of the aggregate\<close>

text \<open>What the deployment engine, the reconciler and the authorization chain rely on, over any
  implementation of the aggregate: \<open>rows\<close> is the table a state stands for.\<close>

locale ownership_store =
  fixes invar :: "'s \<Rightarrow> bool"
    and rows :: "'s \<Rightarrow> ownership list"
    and create :: "create_ownership_params \<Rightarrow> 's \<Rightarrow> (store_error + ownership) \<times> 's"
    and finalize :: "string \<Rightarrow> string \<Rightarrow> 's \<Rightarrow> (store_error + unit) \<times> 's"
    and release :: "string \<Rightarrow> 's \<Rightarrow> (store_error + unit) \<times> 's"
    and tombstone :: "string \<Rightarrow> 's \<Rightarrow> (store_error + unit) \<times> 's"
  assumes vmid_key: "invar s \<Longrightarrow> distinct (map o_vmid (rows s))"
    and id_key: "invar s \<Longrightarrow> distinct (map o_id (rows s))"
    and create_ok: "\<lbrakk>invar s; create p s = (Inr r, s')\<rbrakk> \<Longrightarrow>
      invar s' \<and> r \<in> set (rows s') \<and> o_vmid r = co_vmid p \<and> o_status r = co_status p \<and>
      o_tenant_id r = co_tenant_id p"
    and create_vacant: "\<lbrakk>invar s; create p s = (Inr r, s'); x \<in> set (rows s);
      o_vmid x = co_vmid p\<rbrakk> \<Longrightarrow> o_status x = Tombstoned"
    and release_ok: "\<lbrakk>invar s; release i s = (Inr u, s')\<rbrakk> \<Longrightarrow>
      invar s' \<and> rows s' = filter (\<lambda>x. o_id x \<noteq> i) (rows s)"
    and release_pending: "\<lbrakk>invar s; release i s = (Inr u, s'); x \<in> set (rows s); o_id x = i\<rbrakk>
      \<Longrightarrow> o_status x = Pending"
    and finalize_ok: "\<lbrakk>invar s; finalize i upid s = (Inr u, s'); x \<in> set (rows s); o_id x = i\<rbrakk>
      \<Longrightarrow> invar s' \<and> (\<exists>y \<in> set (rows s'). o_id y = i \<and> o_vmid y = o_vmid x \<and>
            o_tenant_id y = o_tenant_id x \<and> o_status y = Active)"
    and tombstone_ok: "\<lbrakk>invar s; tombstone i s = (Inr u, s'); x \<in> set (rows s); o_id x = i\<rbrakk>
      \<Longrightarrow> invar s' \<and> (\<exists>y \<in> set (rows s'). o_id y = i \<and> o_vmid y = o_vmid x \<and>
            o_status y = Tombstoned)"
begin

lemma create_exclusive:
  assumes "invar s" and "create p s = (Inr r, s1)" and "co_status p \<noteq> Tombstoned"
    and "co_vmid q = co_vmid p"
  shows "create q s1 \<noteq> (Inr r2, s2)"
  using assms create_ok create_vacant by metis

lemma create_release_vacates:
  assumes "invar s" and c: "create p s = (Inr r, s1)" and "release (o_id r) s1 = (Inr u, s2)"
    and x: "x \<in> set (rows s2)"
  shows "o_vmid x \<noteq> co_vmid p"
proof
  assume "o_vmid x = co_vmid p"
  moreover have "invar s1" "r \<in> set (rows s1)" "o_vmid r = co_vmid p"
    using assms(1) c create_ok by metis+
  moreover have "x \<in> set (rows s1)" "o_id x \<noteq> o_id r"
    using release_ok[OF \<open>invar s1\<close> assms(3)] x by auto
  ultimately show False
    using distinct_key_unique[OF vmid_key] by metis
qed

lemma finalized_not_released:
  assumes "invar s" and c: "create p s = (Inr r, s1)"
    and f: "finalize (o_id r) upid s1 = (Inr u, s2)"
  shows "release (o_id r) s2 \<noteq> (Inr v, s3)"
proof
  assume rel: "release (o_id r) s2 = (Inr v, s3)"
  have "invar s1" "r \<in> set (rows s1)"
    using assms(1) c create_ok by metis+
  then obtain y where "invar s2" "y \<in> set (rows s2)" "o_id y = o_id r" "o_status y = Active"
    using finalize_ok[OF _ f] by blast
  with release_pending[OF _ rel] show False by fastforce
qed

lemma tombstoned_reusable:
  assumes "invar s" and t: "tombstone i s = (Inr u, s1)" and "x \<in> set (rows s)" "o_id x = i"
    and y: "y \<in> set (rows s1)" "o_vmid y = o_vmid x"
  shows "o_status y = Tombstoned"
  using tombstone_ok[OF assms(1-4)] y distinct_key_unique[OF vmid_key] by metis

end

interpretation pg_own: ownership_store wf_ownerships "\<lambda>d. ownerships (tabs d)"
  CreateOwnership FinalizeOwnership ReleaseOwnership TombstoneOwnership
proof (unfold_locales, goal_cases)
  case (1 s) then show ?case by (rule wf_ownershipsD)
next
  case (2 s) then show ?case by (rule wf_ownershipsD)
next
  case (3 s p r s') then show ?case using CreateOwnership_Inr(1-6)[OF 3] by simp
next
  case (4 s p r s' x) then show ?case using CreateOwnership_Inr(12)[OF 4(1,2)] by simp
next
  case (5 s i u s')
  then have "wf_ownerships s'" using ReleaseOwnership_wf[OF 5(1), of i] by simp
  with 5 show ?case by (auto elim: ReleaseOwnership_Inr)
next
  case (6 s i u s' x)
  from 6(1,2) obtain r where "r \<in> set (ownerships (tabs s))" "o_id r = i" "o_status r = Pending"
    by (rule ReleaseOwnership_Inr)
  with 6 ownership_id_unique show ?case by metis
next
  case (7 s i upid u s' x)
  have x: "o_status x = Pending"
    using FinalizeOwnership_Inr(1)[OF 7(2)] 7 ownership_id_unique by metis
  have "wf_ownerships s'" using ownership_updates_wf(1)[OF 7(1), of i upid] 7(2) by simp
  moreover have "x\<lparr>o_status := Active, o_pve_upid := Some upid, o_updated_at := clock s\<rparr>
      \<in> set (ownerships (tabs s'))"
    using FinalizeOwnership_Inr(2)[OF 7(2)] x 7(3,4)
    by (auto intro: update_where_memI[where f = "\<lambda>r. r\<lparr>o_status := Active, o_pve_upid := Some upid,
          o_updated_at := clock s\<rparr>"])
  ultimately show ?case using 7(4) by (auto intro: bexI[rotated])
next
  case (8 s i u s' x)
  have "wf_ownerships s'" using ownership_updates_wf(2)[OF 8(1), of i] 8(2) by simp
  moreover have "x\<lparr>o_status := Tombstoned, o_updated_at := clock s\<rparr> \<in> set (ownerships (tabs s'))"
    using TombstoneOwnership_Inr(2)[OF 8(2)] 8(3,4)
    by (auto intro: update_where_memI[where f = "\<lambda>r. r\<lparr>o_status := Tombstoned,
          o_updated_at := clock s\<rparr>"])
  ultimately show ?case using 8(4) by (auto intro: bexI[rotated])
qed

section \<open>Properties of the aggregate\<close>

definition sample_create :: "int \<Rightarrow> create_ownership_params" where
  "sample_create v = \<lparr>co_tenant_id = ''t1'', co_project_id = ''p1'', co_vmid = v,
     co_guest_type = ''qemu'', co_node = ''pve1'', co_created_by = None, co_status = Pending,
     co_reserved_vcpu = Some 2, co_reserved_ram_mb = Some 1024, co_reserved_disk_gb = Some 10,
     co_set_id = None, co_role = None\<rparr>"

abbreviation owned_db :: "owner_status \<Rightarrow> db" where
  "owned_db st \<equiv> sample_db (sample_tables\<lparr>ownerships :=
     [sample_ownership (sample_uuids 1) ''t2'' ''p2'' 100 st]\<rparr>)"

lemma owned_db_wf: "wf_ownerships (owned_db st)"
  by (simp add: wf_ownerships_def sample_defs project_of_tenant_def)

text \<open>C7: every sequence of ownership operations, under any statement failures and any passing of
  time, keeps the invariant of the table: one row per VMID, unique identifiers, and every row's
  tenant is the tenant of its project.\<close>

theorem ownership_runs_keep_invariant:
  "\<lbrakk>ownership_step\<^sup>*\<^sup>* d d'; wf_ownerships d\<rbrakk> \<Longrightarrow> wf_ownerships d'"
  by (rule ownership_run_wf)

theorem ownership_runs_keep_invariant_witness:
  "wf_ownerships (snd (TombstoneOwnership (sample_uuids 1) (snd (CreateOwnership (sample_create 7)
     (owned_db Active)))))"
  by (rule ownership_runs_keep_invariant[OF _ owned_db_wf[of Active]])
    (meson ownership_step.create ownership_step.tombstone r_into_rtranclp rtranclp.rtrancl_into_rtrancl)

text \<open>C8: a live guest never changes hands. In one operation of the aggregate the row with a given
  identifier keeps its VMID; unless it was tombstoned it also keeps its tenant and project, and
  its status moves only from pending to active or to tombstoned.\<close>

theorem live_row_keeps_owner:
  assumes "ownership_step d d'" and "wf_ownerships d" and "r \<in> set (ownerships (tabs d))"
    and "r' \<in> set (ownerships (tabs d'))" and "o_id r' = o_id r"
  shows "o_vmid r' = o_vmid r \<and> (o_status r = Tombstoned \<or>
     o_tenant_id r' = o_tenant_id r \<and> o_project_id r' = o_project_id r \<and>
     (o_status r', o_status r) \<in> {(Pending, Pending), (Active, Active), (Active, Pending),
        (Tombstoned, Pending), (Tombstoned, Active)})"
proof -
  have "row_successor r r'"
    using ownership_step_successor[OF assms(1,2)] assms(3-5) by (auto simp: rows_successor_def)
  then show ?thesis
    by (cases "o_status r"; cases "o_status r'") (auto simp: row_successor_def)
qed

theorem live_row_keeps_owner_witness:
  "\<exists>r'. r' \<in> set (ownerships (tabs (snd (FinalizeOwnership (sample_uuids 1) ''UPID'' (owned_db Pending))))) \<and>
     o_tenant_id r' = ''t2'' \<and> o_status r' = Active"
proof -
  let ?d = "owned_db Pending" and ?r = "sample_ownership (sample_uuids 1) ''t2'' ''p2'' 100 Pending"
  let ?r' = "?r\<lparr>o_status := Active, o_pve_upid := Some ''UPID'', o_updated_at := 1000\<rparr>"
  have r': "?r' \<in> set (ownerships (tabs (snd (FinalizeOwnership (sample_uuids 1) ''UPID'' ?d))))"
    by code_simp
  have "?r \<in> set (ownerships (tabs ?d))" by simp
  from live_row_keeps_owner[OF ownership_step.finalize owned_db_wf this r'] r'
  show ?thesis by (intro exI[of _ ?r']) (simp add: sample_ownership_def)
qed

text \<open>\<^verbatim>\<open>CreateOwnership\<close> takes a VMID exactly when nobody holds it. When no statement fails and
  the request satisfies the table's constraints, it returns the new row if the VMID has no row
  or only a tombstoned one, and the conflict error if a pending or active row holds it.\<close>

theorem CreateOwnership_outcome:
  assumes wf: "wf_ownerships d" and "faults d = []" and "ownership_columns p"
    and "ownership_fks p (tabs d)"
  shows "if \<exists>r \<in> set (ownerships (tabs d)). o_vmid r = co_vmid p \<and> live_status (o_status r)
     then CreateOwnership p d = (Inl ErrConflict, d\<lparr>drawn := Suc (drawn d)\<rparr>)
     else succeeds (CreateOwnership p d) (\<lambda>r d'. o_vmid r = co_vmid p \<and>
       o_tenant_id r = co_tenant_id p \<and> o_status r = co_status p \<and>
       filter (\<lambda>x. o_vmid x = co_vmid p) (ownerships (tabs d')) = [r])"
proof (cases "filter (\<lambda>r. o_vmid r = co_vmid p) (ownerships (tabs d))")
  case Nil
  then have free: "\<not> (\<exists>r \<in> set (ownerships (tabs d)). o_vmid r = co_vmid p \<and> live_status (o_status r))"
    by (auto simp: filter_empty_conv)
  with Nil assms(2-4) show ?thesis
    by (simp add: CreateOwnership_def upsert_ownership_def Let_def succeeds_def)
next
  case (Cons r0 rs)
  then have r0: "r0 \<in> set (ownerships (tabs d))" "o_vmid r0 = co_vmid p"
    by (auto simp: filter_eq_Cons_iff)
  note dist = wf_ownershipsD(2)[OF wf]
  have uniq: "r = r0" if "r \<in> set (ownerships (tabs d))" "o_vmid r = co_vmid p" for r
    using distinct_key_unique[OF dist that(1) r0(1)] that(2) r0(2) by simp
  show ?thesis
  proof (cases "o_status r0 = Tombstoned")
    case False
    with Cons assms(2-4) r0 show ?thesis
      by (cases "o_status r0") (auto simp: CreateOwnership_def upsert_ownership_def live_status_def)
  next
    case True
    have "\<not> (\<exists>r \<in> set (ownerships (tabs d)). o_vmid r = co_vmid p \<and> live_status (o_status r))"
      using uniq True by (auto simp: live_status_def)
    moreover have "succeeds (CreateOwnership p d) (\<lambda>r d'. CreateOwnership p d = (Inr r, d'))"
      using Cons True assms(2-4) by (simp add: CreateOwnership_def upsert_ownership_def succeeds_def)
    moreover have "filter (\<lambda>x. o_vmid x = co_vmid p) (ownerships (tabs d')) = [r]"
      if "CreateOwnership p d = (Inr r, d')" for r d'
      using CreateOwnership_Inr(1-3)[OF wf that] filter_distinct_key[of o_vmid _ r]
        wf_ownershipsD(2)[of d'] by simp
    ultimately show ?thesis
      using CreateOwnership_Inr(3,4,6)[OF wf] by (auto elim!: succeedsE intro!: succeedsI)
  qed
qed

theorem CreateOwnership_outcome_witness:
  "fst (CreateOwnership (sample_create 100) (owned_db Active)) = Inl ErrConflict \<and>
   succeeds (CreateOwnership (sample_create 100) (owned_db Tombstoned)) (\<lambda>r d'. o_tenant_id r = ''t1'')"
proof -
  have "ownership_columns (sample_create 100)" "ownership_fks (sample_create 100) (tabs (owned_db st))" for st
    by (simp_all add: ownership_columns_def sample_create_def guest_type_ok_def int4_range_def
        int4_column_def ownership_fks_def project_of_tenant_def sample_defs)
  from CreateOwnership_outcome[OF owned_db_wf _ this, of Active]
    CreateOwnership_outcome[OF owned_db_wf _ this, of Tombstoned]
  show ?thesis
    by (auto simp: sample_defs sample_create_def live_status_def elim!: succeedsE intro!: succeedsI)
qed

text \<open>a reservation settles once. A VMID taken by a successful create cannot be taken by a second
  create; once the first create has been finalized its row cannot be released any more, and if
  it is released instead, no row holds the VMID.\<close>

theorem reservation_settles_once:
  assumes "wf_ownerships d" and "CreateOwnership p d = (Inr r, d1)" and "co_status p = Pending"
  shows "(co_vmid q = co_vmid p \<longrightarrow> CreateOwnership q d1 \<noteq> (Inr r2, d2)) \<and>
    (FinalizeOwnership (o_id r) upid d1 = (Inr (), d2) \<longrightarrow> ReleaseOwnership (o_id r) d2 \<noteq> (Inr (), d3)) \<and>
    (ReleaseOwnership (o_id r) d1 = (Inr (), d2) \<longrightarrow>
       (\<forall>x \<in> set (ownerships (tabs d2)). o_vmid x \<noteq> co_vmid p))"
  using pg_own.create_exclusive[OF assms(1,2)] pg_own.finalized_not_released[OF assms(1,2)]
    pg_own.create_release_vacates[OF assms(1,2)] assms(3) by auto

theorem reservation_settles_once_witness:
  "succeeds (CreateOwnership (sample_create 5) (owned_db Active)) (\<lambda>r d1.
     \<forall>r2 d2. CreateOwnership (sample_create 5) d1 \<noteq> (Inr r2, d2))"
proof -
  have "succeeds (CreateOwnership (sample_create 5) (owned_db Active)) (\<lambda>r d1. True)"
    by code_simp
  then show ?thesis
  proof (rule succeedsE)
    fix r d1 assume run: "CreateOwnership (sample_create 5) (owned_db Active) = (Inr r, d1)"
    have "co_status (sample_create 5) = Pending" by (simp add: sample_create_def)
    from reservation_settles_once[OF owned_db_wf run this, of "sample_create 5"] show ?thesis
      by (intro succeedsI[OF run]) blast
  qed
qed

end
