(* ===== verification/Store_Quota.thy ===== *)
theory Store_Quota
  imports Store_Ownership "HOL-Library.Word"
begin

text \<open>
  The quota aggregate (\<^verbatim>\<open>backend/internal/store/quota.go\<close>): usage accounting over ownership
  rows and the live snapshot, the per-scope caps, and the three reservations that admit new
  allocations under the tenant's advisory lock (a create, a batch of set members, a growth).

  Sums are Go's: they wrap at 64 bits. \<open>true_usage\<close> is the sum the accounting means, over
  unbounded integers; the theorems relate the two. The locale \<open>quota_gate\<close> is what the two
  per-scope checks promise and is interpreted on both.
\<close>

unbundle bit_operations_syntax

section \<open>The advisory key\<close>

definition fnv64a_step :: "64 word \<Rightarrow> char \<Rightarrow> 64 word" where
  "fnv64a_step h c = (h XOR of_nat (of_char c)) * 1099511628211"

definition fnv64a :: "string \<Rightarrow> 64 word" where
  "fnv64a s = foldl fnv64a_step 14695981039346656037 s"

definition AdvisoryKeyTenant :: "string \<Rightarrow> int" where
  "AdvisoryKeyTenant tenant = sint (fnv64a tenant)"

section \<open>Quota rows\<close>

record upsert_quota_params =
  uq_scope_type :: scope_type
  uq_scope_id :: string
  uq_max_vcpu :: "int option"
  uq_max_ram_mb :: "int option"
  uq_max_disk_gb :: "int option"
  uq_max_count :: "int option"

definition quota_rows :: "scope_type \<Rightarrow> string \<Rightarrow> tables \<Rightarrow> quota list" where
  "quota_rows st sid tb = filter (\<lambda>q. q_scope_type q = st \<and> q_scope_id q = sid) (quotas tb)"

definition GetQuota :: "scope_type \<Rightarrow> string \<Rightarrow> quota op" where
  "GetQuota st sid = query_row (quota_rows st sid)"

definition set_limits :: "upsert_quota_params \<Rightarrow> int \<Rightarrow> quota \<Rightarrow> quota" where
  "set_limits p now q = q\<lparr>q_max_vcpu := uq_max_vcpu p, q_max_ram_mb := uq_max_ram_mb p,
     q_max_disk_gb := uq_max_disk_gb p, q_max_count := uq_max_count p, q_updated_at := now\<rparr>"

definition upsert_quota_row ::
  "upsert_quota_params \<Rightarrow> string \<Rightarrow> int \<Rightarrow> tables \<Rightarrow> store_error + quota \<times> tables" where
  "upsert_quota_row p uid now tb =
     (if \<not> (int4_column (uq_max_vcpu p) \<and> int4_column (uq_max_count p)) then Inl ErrDB
      else case quota_rows (uq_scope_type p) (uq_scope_id p) tb of
        [] \<Rightarrow>
          (let q = \<lparr>q_id = uid, q_scope_type = uq_scope_type p, q_scope_id = uq_scope_id p,
                    q_max_vcpu = uq_max_vcpu p, q_max_ram_mb = uq_max_ram_mb p,
                    q_max_disk_gb = uq_max_disk_gb p, q_max_count = uq_max_count p,
                    q_created_at = now, q_updated_at = now\<rparr> in
           Inr (q, tb\<lparr>quotas := quotas tb @ [q]\<rparr>))
      | q0 # _ \<Rightarrow>
          Inr (set_limits p now q0,
               tb\<lparr>quotas := update_where
                    (\<lambda>q. q_scope_type q = uq_scope_type p \<and> q_scope_id q = uq_scope_id p)
                    (set_limits p now) (quotas tb)\<rparr>))"

definition UpsertQuota :: "upsert_quota_params \<Rightarrow> quota op" where
  "UpsertQuota p = insert_row (upsert_quota_row p)"

section \<open>Usage\<close>

type_synonym snapshot = "int \<rightharpoonup> alloc"

definition zero_alloc :: alloc where
  "zero_alloc = \<lparr>a_vcpu = 0, a_ram_mb = 0, a_disk_gb = 0\<rparr>"

definition zero_usage :: quota_usage where
  "zero_usage = \<lparr>use_vcpu = 0, use_ram_mb = 0, use_disk_gb = 0, use_count = 0\<rparr>"

text \<open>The reserved value where it is set and above the live one.\<close>

definition raised_to :: "int \<Rightarrow> int option \<Rightarrow> int" where
  "raised_to a r = (case r of None \<Rightarrow> a | Some v \<Rightarrow> if v > a then v else a)"

definition or_zero :: "int option \<Rightarrow> int" where
  "or_zero r = (case r of None \<Rightarrow> 0 | Some v \<Rightarrow> v)"

definition usageOfRow ::
  "owner_status \<Rightarrow> int \<Rightarrow> snapshot \<Rightarrow> int option \<Rightarrow> int option \<Rightarrow> int option \<Rightarrow> alloc option" where
  "usageOfRow status vmid snap rv rr rd = (case status of
     Active \<Rightarrow> (case snap vmid of
        None \<Rightarrow> None
      | Some a \<Rightarrow> Some \<lparr>a_vcpu = raised_to (a_vcpu a) rv, a_ram_mb = raised_to (a_ram_mb a) rr,
                         a_disk_gb = raised_to (a_disk_gb a) rd\<rparr>)
   | Pending \<Rightarrow> Some \<lparr>a_vcpu = or_zero rv, a_ram_mb = or_zero rr, a_disk_gb = or_zero rd\<rparr>
   | Tombstoned \<Rightarrow> None)"

definition addAlloc :: "quota_usage \<Rightarrow> alloc \<Rightarrow> quota_usage" where
  "addAlloc u a = \<lparr>use_vcpu = add64 (use_vcpu u) (a_vcpu a),
     use_ram_mb = add64 (use_ram_mb u) (a_ram_mb a),
     use_disk_gb = add64 (use_disk_gb u) (a_disk_gb a), use_count = add64 (use_count u) 1\<rparr>"

text \<open>A read of a Go map: the zero value where the key is absent.\<close>

definition project_usage :: "(string \<rightharpoonup> quota_usage) \<Rightarrow> string \<Rightarrow> quota_usage" where
  "project_usage m p = (case m p of None \<Rightarrow> zero_usage | Some u \<Rightarrow> u)"

definition row_alloc :: "snapshot \<Rightarrow> ownership \<Rightarrow> alloc option" where
  "row_alloc snap r = usageOfRow (o_status r) (o_vmid r) snap
     (o_reserved_vcpu r) (o_reserved_ram_mb r) (o_reserved_disk_gb r)"

definition usage_step ::
  "snapshot \<Rightarrow> quota_usage \<times> (string \<rightharpoonup> quota_usage) \<Rightarrow> ownership \<Rightarrow>
   quota_usage \<times> (string \<rightharpoonup> quota_usage)" where
  "usage_step snap acc r = (case row_alloc snap r of
      None \<Rightarrow> acc
    | Some a \<Rightarrow> (addAlloc (fst acc) a,
        (snd acc)(o_project_id r \<mapsto> addAlloc (project_usage (snd acc) (o_project_id r)) a)))"

definition ComputeUsage :: "string \<Rightarrow> snapshot \<Rightarrow> (quota_usage \<times> (string \<rightharpoonup> quota_usage)) op" where
  "ComputeUsage tenant snap = query (\<lambda>tb.
     foldl (usage_step snap) (zero_usage, Map.empty)
       (filter (\<lambda>r. o_tenant_id r = tenant \<and> live_status (o_status r)) (ownerships tb)))"

section \<open>The per-scope checks\<close>

definition exceeds :: "int option \<Rightarrow> int \<Rightarrow> int \<Rightarrow> bool" where
  "exceeds limit used requested \<longleftrightarrow>
     (case limit of None \<Rightarrow> False | Some m \<Rightarrow> add64 used requested > m)"

definition exceeded :: "scope_type \<Rightarrow> string \<Rightarrow> int option \<Rightarrow> int \<Rightarrow> int \<Rightarrow> quota_exceeded" where
  "exceeded scope dim limit used requested =
     \<lparr>qe_scope = scope, qe_dimension = dim, qe_limit = or_zero limit, qe_used = used,
      qe_requested = requested\<rparr>"

definition checkQuota ::
  "scope_type \<Rightarrow> quota option \<Rightarrow> quota_usage \<Rightarrow> alloc \<Rightarrow> quota_exceeded option" where
  "checkQuota scope qo u delta = (case qo of None \<Rightarrow> None | Some q \<Rightarrow>
     if exceeds (q_max_vcpu q) (use_vcpu u) (a_vcpu delta)
     then Some (exceeded scope ''vcpu'' (q_max_vcpu q) (use_vcpu u) (a_vcpu delta))
     else if exceeds (q_max_ram_mb q) (use_ram_mb u) (a_ram_mb delta)
     then Some (exceeded scope ''ram_mb'' (q_max_ram_mb q) (use_ram_mb u) (a_ram_mb delta))
     else if exceeds (q_max_disk_gb q) (use_disk_gb u) (a_disk_gb delta)
     then Some (exceeded scope ''disk_gb'' (q_max_disk_gb q) (use_disk_gb u) (a_disk_gb delta))
     else if exceeds (q_max_count q) (use_count u) 1
     then Some (exceeded scope ''count'' (q_max_count q) (use_count u) 1)
     else None)"

definition checkGrowth ::
  "scope_type \<Rightarrow> quota option \<Rightarrow> quota_usage \<Rightarrow> alloc \<Rightarrow> quota_exceeded option" where
  "checkGrowth scope qo u delta = (case qo of None \<Rightarrow> None | Some q \<Rightarrow>
     if exceeds (q_max_vcpu q) (use_vcpu u) (a_vcpu delta)
     then Some (exceeded scope ''vcpu'' (q_max_vcpu q) (use_vcpu u) (a_vcpu delta))
     else if exceeds (q_max_ram_mb q) (use_ram_mb u) (a_ram_mb delta)
     then Some (exceeded scope ''ram_mb'' (q_max_ram_mb q) (use_ram_mb u) (a_ram_mb delta))
     else if exceeds (q_max_disk_gb q) (use_disk_gb u) (a_disk_gb delta)
     then Some (exceeded scope ''disk_gb'' (q_max_disk_gb q) (use_disk_gb u) (a_disk_gb delta))
     else None)"

text \<open>\<^verbatim>\<open>if err := check(...); err != nil { return err }\<close>.\<close>

definition guard_quota :: "quota_exceeded option \<Rightarrow> unit op" where
  "guard_quota v = (case v of None \<Rightarrow> ret () | Some e \<Rightarrow> raise (ErrQuotaExceeded e))"

text \<open>A missing quota row is no limit; every other error is returned.\<close>

definition quota_or_unlimited :: "scope_type \<Rightarrow> string \<Rightarrow> quota option op" where
  "quota_or_unlimited st sid = bind_op (attempt (GetQuota st sid)) (\<lambda>r. case r of
      Inr q \<Rightarrow> ret (Some q)
    | Inl e \<Rightarrow> (if e = ErrNotFound then ret None else raise e))"

section \<open>Reservations\<close>

record reserve_params =
  ro_tenant_id :: string
  ro_project_id :: string
  ro_vmid :: int
  ro_guest_type :: string
  ro_node :: string
  ro_created_by :: "string option"
  ro_reserved :: alloc

definition pending_params :: "string \<Rightarrow> string \<Rightarrow> int \<Rightarrow> string \<Rightarrow> string \<Rightarrow> string option \<Rightarrow> alloc \<Rightarrow>
  string option \<Rightarrow> string option \<Rightarrow> create_ownership_params" where
  "pending_params t p vmid g n by a set_id role =
     \<lparr>co_tenant_id = t, co_project_id = p, co_vmid = vmid, co_guest_type = g, co_node = n,
      co_created_by = by, co_status = Pending, co_reserved_vcpu = Some (a_vcpu a),
      co_reserved_ram_mb = Some (a_ram_mb a), co_reserved_disk_gb = Some (a_disk_gb a),
      co_set_id = set_id, co_role = role\<rparr>"

definition reservation_of :: "reserve_params \<Rightarrow> create_ownership_params" where
  "reservation_of p = pending_params (ro_tenant_id p) (ro_project_id p) (ro_vmid p)
     (ro_guest_type p) (ro_node p) (ro_created_by p) (ro_reserved p) None None"

text \<open>The common prefix of the reservations' transactions: the usage of the tenant and of the
  project, and the two caps (project first).\<close>

definition load_scopes :: "string \<Rightarrow> string \<Rightarrow> snapshot \<Rightarrow>
  ((quota_usage \<times> quota_usage) \<times> quota option \<times> quota option) op" where
  "load_scopes tenant project snap =
     bind_op (ComputeUsage tenant snap) (\<lambda>(tu, by_project).
     bind_op (quota_or_unlimited ProjectScope project) (\<lambda>pq.
     bind_op (quota_or_unlimited TenantScope tenant) (\<lambda>tq.
     ret ((project_usage by_project project, tu), pq, tq))))"

definition ReserveOwnership :: "snapshot \<Rightarrow> reserve_params \<Rightarrow> ownership op" where
  "ReserveOwnership snap p = WithTx (
     bind_op (AdvisoryLock (AdvisoryKeyTenant (ro_tenant_id p))) (\<lambda>_.
     bind_op (load_scopes (ro_tenant_id p) (ro_project_id p) snap) (\<lambda>((pu, tu), pq, tq).
     bind_op (guard_quota (checkQuota ProjectScope pq pu (ro_reserved p))) (\<lambda>_.
     bind_op (guard_quota (checkQuota TenantScope tq tu (ro_reserved p))) (\<lambda>_.
     CreateOwnership (reservation_of p))))))"

subsection \<open>Batches\<close>

record batch_member =
  bm_vmid :: int
  bm_guest_type :: string
  bm_node :: string
  bm_role :: string
  bm_reserved :: alloc

record batch_params =
  rb_tenant_id :: string
  rb_project_id :: string
  rb_set_id :: string
  rb_created_by :: "string option"
  rb_members :: "batch_member list"

primrec check_members ::
  "quota option \<Rightarrow> quota option \<Rightarrow> quota_usage \<Rightarrow> quota_usage \<Rightarrow> batch_member list \<Rightarrow>
   quota_exceeded option" where
  "check_members pq tq pu tu [] = None"
| "check_members pq tq pu tu (m # ms) =
     (case checkQuota ProjectScope pq pu (bm_reserved m) of
        Some e \<Rightarrow> Some e
      | None \<Rightarrow> (case checkQuota TenantScope tq tu (bm_reserved m) of
          Some e \<Rightarrow> Some e
        | None \<Rightarrow> check_members pq tq (addAlloc pu (bm_reserved m)) (addAlloc tu (bm_reserved m)) ms))"

definition member_params :: "batch_params \<Rightarrow> batch_member \<Rightarrow> create_ownership_params" where
  "member_params p m = pending_params (rb_tenant_id p) (rb_project_id p) (bm_vmid m)
     (bm_guest_type m) (bm_node m) (rb_created_by p) (bm_reserved m)
     (Some (rb_set_id p)) (Some (bm_role m))"

primrec create_all :: "create_ownership_params list \<Rightarrow> ownership list op" where
  "create_all [] = ret []"
| "create_all (c # cs) =
     bind_op (CreateOwnership c) (\<lambda>o1. bind_op (create_all cs) (\<lambda>os. ret (o1 # os)))"

definition ReserveOwnershipBatch :: "snapshot \<Rightarrow> batch_params \<Rightarrow> ownership list op" where
  "ReserveOwnershipBatch snap p = WithTx (
     bind_op (AdvisoryLock (AdvisoryKeyTenant (rb_tenant_id p))) (\<lambda>_.
     bind_op (load_scopes (rb_tenant_id p) (rb_project_id p) snap) (\<lambda>((pu, tu), pq, tq).
     bind_op (guard_quota (check_members pq tq pu tu (rb_members p))) (\<lambda>_.
     create_all (map (member_params p) (rb_members p))))))"

subsection \<open>Growth\<close>

record growth_params =
  rg_tenant_id :: string
  rg_project_id :: string
  rg_vmid :: int
  rg_target_vcpu :: int
  rg_target_ram_mb :: int
  rg_grow_disk_gb :: int

definition EffectiveFootprint :: "alloc \<Rightarrow> ownership \<Rightarrow> alloc" where
  "EffectiveFootprint live own =
     \<lparr>a_vcpu = raised_to (a_vcpu live) (o_reserved_vcpu own),
      a_ram_mb = raised_to (a_ram_mb live) (o_reserved_ram_mb own),
      a_disk_gb = raised_to (a_disk_gb live) (o_reserved_disk_gb own)\<rparr>"

definition GrowthCharge :: "alloc \<Rightarrow> growth_params \<Rightarrow> alloc" where
  "GrowthCharge eff p =
     \<lparr>a_vcpu = (if rg_target_vcpu p > a_vcpu eff then sub64 (rg_target_vcpu p) (a_vcpu eff) else 0),
      a_ram_mb = (if rg_target_ram_mb p > a_ram_mb eff
                  then sub64 (rg_target_ram_mb p) (a_ram_mb eff) else 0),
      a_disk_gb = (if rg_grow_disk_gb p > 0 then rg_grow_disk_gb p else 0)\<rparr>"

definition charged :: "int \<Rightarrow> int \<Rightarrow> int option" where
  "charged eff charge = (if charge > 0 then Some (add64 eff charge) else None)"

definition ReservationValues :: "alloc \<Rightarrow> alloc \<Rightarrow> int option \<times> int option \<times> int option" where
  "ReservationValues eff charge =
     (charged (a_vcpu eff) (a_vcpu charge), charged (a_ram_mb eff) (a_ram_mb charge),
      charged (a_disk_gb eff) (a_disk_gb charge))"

text \<open>The check and the write for the guest \<open>own\<close>, whose live size is \<open>live\<close>.\<close>

definition grow_guest :: "snapshot \<Rightarrow> growth_params \<Rightarrow> alloc \<Rightarrow> ownership \<Rightarrow> unit op" where
  "grow_guest snap p live own =
     (if o_status own = Pending then raise ErrGuestPending
      else let eff = EffectiveFootprint live own; charge = GrowthCharge eff p in
        if charge = zero_alloc then ret ()
        else bind_op (load_scopes (rg_tenant_id p) (rg_project_id p) snap) (\<lambda>((pu, tu), pq, tq).
          bind_op (guard_quota (checkGrowth ProjectScope pq pu charge)) (\<lambda>_.
          bind_op (guard_quota (checkGrowth TenantScope tq tu charge)) (\<lambda>_.
          case ReservationValues eff charge of (rv, rr, rd) \<Rightarrow>
            SetOwnershipReservation (rg_tenant_id p) (rg_vmid p) rv rr rd))))"

definition ReserveGuestGrowth :: "snapshot \<Rightarrow> growth_params \<Rightarrow> unit op" where
  "ReserveGuestGrowth snap p = WithTx (
     bind_op (AdvisoryLock (AdvisoryKeyTenant (rg_tenant_id p))) (\<lambda>_.
     case snap (rg_vmid p) of
       None \<Rightarrow> raise (ErrSnapshotMiss (rg_vmid p))
     | Some live \<Rightarrow>
         bind_op (GetLiveOwnershipForTenant (rg_tenant_id p) (rg_vmid p)) (grow_guest snap p live)))"

section \<open>The usage the accounting means\<close>

datatype dim = DimVCPU | DimRAM | DimDisk | DimCount

fun alloc_dim :: "dim \<Rightarrow> alloc \<Rightarrow> int" where
  "alloc_dim DimVCPU a = a_vcpu a"
| "alloc_dim DimRAM a = a_ram_mb a"
| "alloc_dim DimDisk a = a_disk_gb a"
| "alloc_dim DimCount a = 1"

fun usage_dim :: "dim \<Rightarrow> quota_usage \<Rightarrow> int" where
  "usage_dim DimVCPU u = use_vcpu u"
| "usage_dim DimRAM u = use_ram_mb u"
| "usage_dim DimDisk u = use_disk_gb u"
| "usage_dim DimCount u = use_count u"

fun limit_dim :: "dim \<Rightarrow> quota \<Rightarrow> int option" where
  "limit_dim DimVCPU q = q_max_vcpu q"
| "limit_dim DimRAM q = q_max_ram_mb q"
| "limit_dim DimDisk q = q_max_disk_gb q"
| "limit_dim DimCount q = q_max_count q"

definition contribution :: "snapshot \<Rightarrow> dim \<Rightarrow> ownership \<Rightarrow> int" where
  "contribution snap dim r = (case row_alloc snap r of None \<Rightarrow> 0 | Some a \<Rightarrow> alloc_dim dim a)"

definition true_usage :: "snapshot \<Rightarrow> (ownership \<Rightarrow> bool) \<Rightarrow> dim \<Rightarrow> tables \<Rightarrow> int" where
  "true_usage snap sel dim tb =
     (\<Sum>r\<leftarrow>ownerships tb. if sel r then contribution snap dim r else 0)"

definition of_tenant :: "string \<Rightarrow> ownership \<Rightarrow> bool" where
  "of_tenant t r \<longleftrightarrow> o_tenant_id r = t"

definition of_project :: "string \<Rightarrow> string \<Rightarrow> ownership \<Rightarrow> bool" where
  "of_project t p r \<longleftrightarrow> o_tenant_id r = t \<and> o_project_id r = p"

definition quota_of :: "scope_type \<Rightarrow> string \<Rightarrow> tables \<Rightarrow> quota option" where
  "quota_of st sid tb = (case quota_rows st sid tb of [] \<Rightarrow> None | q # _ \<Rightarrow> Some q)"

lemma quota_of_ownerships [simp]: "quota_of st sid (tb\<lparr>ownerships := os\<rparr>) = quota_of st sid tb"
  by (simp add: quota_of_def quota_rows_def)

lemma contribution_tombstoned [simp]: "o_status r = Tombstoned \<Longrightarrow> contribution snap dim r = 0"
  by (simp add: contribution_def row_alloc_def usageOfRow_def)

lemma addAlloc_dim [simp]:
  "usage_dim dim (addAlloc u a) = add64 (usage_dim dim u) (alloc_dim dim a)"
  by (cases dim) (simp_all add: addAlloc_def)

lemma zero_usage_dim [simp]: "usage_dim dim zero_usage = 0"
  by (cases dim) (simp_all add: zero_usage_def)

lemma add64_wrap64: "add64 (wrap64 x) y = wrap64 (x + y)"
  by (simp add: add64_def)

lemma project_usage_upd [simp]:
  "project_usage (m(p \<mapsto> u)) p' = (if p' = p then u else project_usage m p')"
  by (simp add: project_usage_def)

lemma usage_step_dims:
  assumes "usage_dim dim (fst acc) = wrap64 x" and "usage_dim dim (project_usage (snd acc) p) = wrap64 y"
  shows "usage_dim dim (fst (usage_step snap acc r)) = wrap64 (x + contribution snap dim r)"
    and "usage_dim dim (project_usage (snd (usage_step snap acc r)) p)
       = wrap64 (y + (if o_project_id r = p then contribution snap dim r else 0))"
  using assms by (auto simp: usage_step_def contribution_def add64_wrap64 split: option.split)

lemma usage_fold_dims:
  assumes "usage_dim dim (fst acc) = wrap64 x" and "usage_dim dim (project_usage (snd acc) p) = wrap64 y"
  shows "usage_dim dim (fst (foldl (usage_step snap) acc rs))
       = wrap64 (x + (\<Sum>r\<leftarrow>rs. contribution snap dim r)) \<and>
     usage_dim dim (project_usage (snd (foldl (usage_step snap) acc rs)) p)
       = wrap64 (y + (\<Sum>r\<leftarrow>rs. if o_project_id r = p then contribution snap dim r else 0))"
  using assms
proof (induction rs arbitrary: acc x y)
  case Nil
  then show ?case by simp
next
  case (Cons r rs)
  show ?case
    using Cons.IH[OF usage_step_dims[OF Cons.prems, of snap r]] by (simp add: add.assoc)
qed

lemma not_live_status: "\<not> live_status s \<Longrightarrow> s = Tombstoned"
  by (cases s) (simp_all add: live_status_def)

lemma wrap64_0: "wrap64 0 = 0"
  by (simp add: int64_range_def)

text \<open>The accounting of the code is the intended sum, wrapped at 64 bits.\<close>

lemma ComputeUsage_Inr:
  assumes "ComputeUsage tenant snap d = (Inr (tu, bp), d')"
  shows "d' = pop_fault d"
    and "usage_dim dim tu = wrap64 (true_usage snap (of_tenant tenant) dim (tabs d))"
    and "usage_dim dim (project_usage bp p)
       = wrap64 (true_usage snap (of_project tenant p) dim (tabs d))"
proof -
  let ?rs = "filter (\<lambda>r. o_tenant_id r = tenant \<and> live_status (o_status r)) (ownerships (tabs d))"
  let ?acc = "(zero_usage, Map.empty)"
  show "d' = pop_fault d"
    using assms by (simp add: ComputeUsage_def op_elims)
  have run: "foldl (usage_step snap) ?acc ?rs = (tu, bp)"
    using assms by (simp add: ComputeUsage_def op_elims)
  have "usage_dim dim (fst ?acc) = wrap64 0" "usage_dim dim (project_usage (snd ?acc) p) = wrap64 0"
    by (simp_all only: fst_conv snd_conv project_usage_def option.case zero_usage_dim wrap64_0)
  from usage_fold_dims[OF this, of snap ?rs] run
  have sums: "usage_dim dim tu = wrap64 (\<Sum>r\<leftarrow>?rs. contribution snap dim r)"
    "usage_dim dim (project_usage bp p)
      = wrap64 (\<Sum>r\<leftarrow>?rs. if o_project_id r = p then contribution snap dim r else 0)"
    by simp_all
  show "usage_dim dim tu = wrap64 (true_usage snap (of_tenant tenant) dim (tabs d))"
    unfolding sums(1) true_usage_def sum_list_map_filter'
    by (intro arg_cong[of _ _ wrap64] arg_cong[of _ _ sum_list] map_cong refl)
      (auto simp: of_tenant_def dest: not_live_status)
  show "usage_dim dim (project_usage bp p)
       = wrap64 (true_usage snap (of_project tenant p) dim (tabs d))"
    unfolding sums(2) true_usage_def sum_list_map_filter'
    by (intro arg_cong[of _ _ wrap64] arg_cong[of _ _ sum_list] map_cong refl)
      (auto simp: of_project_def dest: not_live_status)
qed

lemma quota_or_unlimited_Inr:
  "quota_or_unlimited st sid d = (Inr x, d') \<Longrightarrow> x = quota_of st sid (tabs d) \<and> d' = pop_fault d"
  by (auto simp: quota_or_unlimited_def bind_op_def GetQuota_def query_row_def query_def stmt_def
      first_row_def quota_of_def split: if_splits list.splits sum.splits)

lemma load_scopes_Inr:
  assumes "load_scopes t p snap d = (Inr ((pu, tu), pq, tq), d')"
  shows "pq = quota_of ProjectScope p (tabs d)" and "tq = quota_of TenantScope t (tabs d)"
    and "usage_dim dim tu = wrap64 (true_usage snap (of_tenant t) dim (tabs d))"
    and "usage_dim dim pu = wrap64 (true_usage snap (of_project t p) dim (tabs d))"
    and "tabs d' = tabs d" "clock d' = clock d" "uuids d' = uuids d" "drawn d' = drawn d"
      "in_tx d' = in_tx d" "locks d' = locks d"
  using assms
  by (auto simp: load_scopes_def op_elims dest!: quota_or_unlimited_Inr
      simp: ComputeUsage_Inr dest: ComputeUsage_Inr(1))

lemma guard_quota_Inr_iff [op_elims]: "guard_quota v d = (Inr u, d') \<longleftrightarrow> v = None \<and> d' = d"
  by (auto simp: guard_quota_def split: option.splits)

section \<open>What the checks promise\<close>

text \<open>A gate compares, in every dimension it covers, usage plus charge against the cap: it
  admits exactly when no covered cap is passed, and a refusal names a cap that is.\<close>

locale quota_gate =
  fixes check :: "scope_type \<Rightarrow> quota option \<Rightarrow> quota_usage \<Rightarrow> alloc \<Rightarrow> quota_exceeded option"
    and dims :: "dim set"
  assumes admits_iff: "check sc qo u a = None \<longleftrightarrow>
      (\<forall>q dim m. qo = Some q \<longrightarrow> dim \<in> dims \<longrightarrow> limit_dim dim q = Some m \<longrightarrow>
         add64 (usage_dim dim u) (alloc_dim dim a) \<le> m)"
    and refusal: "check sc qo u a = Some e \<Longrightarrow>
      \<exists>q dim. qo = Some q \<and> dim \<in> dims \<and> limit_dim dim q = Some (qe_limit e) \<and>
        qe_scope e = sc \<and> qe_used e = usage_dim dim u \<and> qe_requested e = alloc_dim dim a \<and>
        qe_limit e < add64 (qe_used e) (qe_requested e)"
begin

lemma unlimited_admits: "check sc None u a = None"
  by (simp add: admits_iff)

lemma admitted_within:
  assumes "check sc (Some q) u a = None" and "dim \<in> dims" and "limit_dim dim q = Some m"
    and "usage_dim dim u = wrap64 t" and "int64_range (t + alloc_dim dim a)"
  shows "t + alloc_dim dim a \<le> m"
  using assms admits_iff[of sc "Some q" u a] by (auto simp: add64_wrap64)

lemma refused_over:
  assumes "check sc qo u a = Some e"
    and "\<And>dim. usage_dim dim u = wrap64 (t dim)"
    and "\<And>dim. int64_range (t dim + alloc_dim dim a)"
  shows "\<exists>q dim m. qo = Some q \<and> limit_dim dim q = Some m \<and> m < t dim + alloc_dim dim a"
proof -
  obtain q dim where "qo = Some q" "limit_dim dim q = Some (qe_limit e)"
      "qe_used e = usage_dim dim u" "qe_requested e = alloc_dim dim a"
      "qe_limit e < add64 (qe_used e) (qe_requested e)"
    using refusal[OF assms(1)] by blast
  moreover from this have "qe_limit e < t dim + alloc_dim dim a"
    using assms(2)[of dim] assms(3)[of dim] by (simp add: add64_wrap64)
  ultimately show ?thesis by blast
qed

end

lemma exceeds_iff: "exceeds l u r \<longleftrightarrow> (\<exists>m. l = Some m \<and> m < add64 u r)"
  by (auto simp: exceeds_def split: option.split)

lemma all_dims: "(\<forall>dim. P dim) \<longleftrightarrow> P DimVCPU \<and> P DimRAM \<and> P DimDisk \<and> P DimCount"
  by (metis dim.exhaust)

lemma UNIV_dim: "UNIV = {DimVCPU, DimRAM, DimDisk, DimCount}"
  by (auto intro: dim.exhaust)

lemma exceeded_refusal:
  assumes "qo = Some q" and "\<exists>dim \<in> dims.
      exceeds (limit_dim dim q) (usage_dim dim u) (alloc_dim dim a) \<and>
      (\<exists>nm. e = exceeded sc nm (limit_dim dim q) (usage_dim dim u) (alloc_dim dim a))"
  shows "\<exists>q dim. qo = Some q \<and> dim \<in> dims \<and> limit_dim dim q = Some (qe_limit e) \<and>
     qe_scope e = sc \<and> qe_used e = usage_dim dim u \<and> qe_requested e = alloc_dim dim a \<and>
     qe_limit e < add64 (qe_used e) (qe_requested e)"
proof -
  obtain dim nm m where "dim \<in> dims" "limit_dim dim q = Some m"
      "m < add64 (usage_dim dim u) (alloc_dim dim a)"
      "e = exceeded sc nm (limit_dim dim q) (usage_dim dim u) (alloc_dim dim a)"
    using assms(2) unfolding exceeds_iff by blast
  with assms(1) show ?thesis
    by (intro exI[of _ q] exI[of _ dim]) (simp add: exceeded_def or_zero_def)
qed

interpretation create_gate: quota_gate checkQuota UNIV
proof (unfold_locales, goal_cases)
  case (1 sc qo u a)
  then show ?case
    by (cases qo) (auto simp: checkQuota_def exceeds_iff all_dims not_less)
next
  case (2 sc qo u a e)
  then obtain q where "qo = Some q" by (cases qo) (simp_all add: checkQuota_def)
  moreover from this 2 have "\<exists>dim \<in> UNIV.
      exceeds (limit_dim dim q) (usage_dim dim u) (alloc_dim dim a) \<and>
      (\<exists>nm. e = exceeded sc nm (limit_dim dim q) (usage_dim dim u) (alloc_dim dim a))"
    by (simp add: checkQuota_def UNIV_dim split: if_splits) blast+
  ultimately show ?case by (rule exceeded_refusal)
qed

interpretation growth_gate: quota_gate checkGrowth "{DimVCPU, DimRAM, DimDisk}"
proof (unfold_locales, goal_cases)
  case (1 sc qo u a)
  then show ?case
    by (cases qo) (auto simp: checkGrowth_def exceeds_iff all_dims not_less)
next
  case (2 sc qo u a e)
  then obtain q where "qo = Some q" by (cases qo) (simp_all add: checkGrowth_def)
  moreover from this 2 have "\<exists>dim \<in> {DimVCPU, DimRAM, DimDisk}.
      exceeds (limit_dim dim q) (usage_dim dim u) (alloc_dim dim a) \<and>
      (\<exists>nm. e = exceeded sc nm (limit_dim dim q) (usage_dim dim u) (alloc_dim dim a))"
    by (simp add: checkGrowth_def split: if_splits) blast+
  ultimately show ?case by (rule exceeded_refusal)
qed

section \<open>Sums over the ownership table\<close>

lemma sum_list_update_unique:
  fixes g :: "'r \<Rightarrow> int"
  assumes "distinct (map k rs)" and "r0 \<in> set rs"
  shows "(\<Sum>r\<leftarrow>update_where (\<lambda>x. k x = k r0) f rs. g r) = (\<Sum>r\<leftarrow>rs. g r) - g r0 + g (f r0)"
  using assms
proof (induction rs)
  case Nil
  then show ?case by simp
next
  case (Cons x xs)
  show ?case
  proof (cases "k x = k r0")
    case True
    with Cons.prems have "\<forall>r \<in> set xs. k r \<noteq> k r0" and "x = r0"
      by (auto simp: image_iff)
    then show ?thesis by simp
  next
    case False
    with Cons.prems have "r0 \<in> set xs" by auto
    with Cons False show ?thesis by simp
  qed
qed

text \<open>A quantity that tombstoned rows do not carry grows by exactly the created row's share.\<close>

lemma CreateOwnership_sum:
  fixes g :: "ownership \<Rightarrow> int"
  assumes wf: "wf_ownerships d" and run: "CreateOwnership p d = (Inr r, d')"
    and g: "\<And>x. o_status x = Tombstoned \<Longrightarrow> g x = 0"
  shows "(\<Sum>x\<leftarrow>ownerships (tabs d'). g x) = (\<Sum>x\<leftarrow>ownerships (tabs d). g x) + g r"
proof -
  obtain tb where up: "upsert_ownership p (uuids d (drawn d)) (clock d) (tabs d) = Inr (r, tb)"
    and d': "tabs d' = tb"
    using run by (auto simp: CreateOwnership_def op_elims)
  have dist: "distinct (map o_vmid (ownerships (tabs d)))"
    using wf by (rule wf_ownershipsD)
  from up dist show ?thesis
  proof (cases rule: upsert_ownership_Inr)
    case fresh
    then show ?thesis by (simp add: d')
  next
    case (revived r0)
    have "(\<Sum>x\<leftarrow>update_where (\<lambda>x. o_vmid x = o_vmid r0) (revived_ownership p (clock d))
              (ownerships (tabs d)). g x) = (\<Sum>x\<leftarrow>ownerships (tabs d). g x) - g r0 + g r"
      using sum_list_update_unique[OF dist revived(1), of g] revived(4) by simp
    then show ?thesis
      using revived g[OF revived(3)] by (simp add: d')
  qed
qed

lemma CreateOwnership_true_usage:
  assumes "wf_ownerships d" and "CreateOwnership p d = (Inr r, d')"
  shows "true_usage snap sel dim (tabs d') = true_usage snap sel dim (tabs d)
     + (if sel r then contribution snap dim r else 0)"
  unfolding true_usage_def by (rule CreateOwnership_sum[OF assms]) simp

lemma pending_params_simps [simp]:
  "co_tenant_id (pending_params t p v g n b a si ro) = t"
  "co_project_id (pending_params t p v g n b a si ro) = p"
  "co_vmid (pending_params t p v g n b a si ro) = v"
  "co_status (pending_params t p v g n b a si ro) = Pending"
  "co_reserved_vcpu (pending_params t p v g n b a si ro) = Some (a_vcpu a)"
  "co_reserved_ram_mb (pending_params t p v g n b a si ro) = Some (a_ram_mb a)"
  "co_reserved_disk_gb (pending_params t p v g n b a si ro) = Some (a_disk_gb a)"
  "co_set_id (pending_params t p v g n b a si ro) = si"
  "co_role (pending_params t p v g n b a si ro) = ro"
  by (simp_all add: pending_params_def)

lemma contribution_pending:
  assumes "o_status r = Pending" and "o_reserved_vcpu r = Some (a_vcpu a)"
    and "o_reserved_ram_mb r = Some (a_ram_mb a)" and "o_reserved_disk_gb r = Some (a_disk_gb a)"
  shows "contribution snap dim r = alloc_dim dim a"
  using assms by (cases dim) (simp_all add: contribution_def row_alloc_def usageOfRow_def or_zero_def)

text \<open>The charge of a created pending row in each scope.\<close>

lemma create_pending_usage:
  assumes "wf_ownerships d"
    and "CreateOwnership (pending_params t p v g n b a si ro) d = (Inr r, d')"
  shows "true_usage snap (of_tenant t) dim (tabs d')
       = true_usage snap (of_tenant t) dim (tabs d) + alloc_dim dim a"
    and "true_usage snap (of_project t p) dim (tabs d')
       = true_usage snap (of_project t p) dim (tabs d) + alloc_dim dim a"
  using CreateOwnership_Inr(4-9)[OF assms] contribution_pending[of r a snap dim]
  by (simp_all add: CreateOwnership_true_usage[OF assms] of_tenant_def of_project_def)

end
