(* ===== verification/Store_Reserve.thy ===== *)
theory Store_Reserve
  imports Store_Quota Samples
begin

text \<open>
  What the three reservations of \<^verbatim>\<open>quota.go\<close> guarantee: a successful \<open>ReserveOwnership\<close>,
  \<open>ReserveOwnershipBatch\<close> or \<open>ReserveGuestGrowth\<close> leaves every cap of both scopes
  respected by the usage the accounting means, as long as that usage fits 64 bits; a failing
  one leaves the tables as they were, whichever statement failed.
\<close>

section \<open>Caps as a state predicate\<close>

definition bounded_by :: "quota option \<Rightarrow> dim \<Rightarrow> int \<Rightarrow> bool" where
  "bounded_by qo dim used \<longleftrightarrow>
     (case qo of None \<Rightarrow> True
      | Some q \<Rightarrow> (case limit_dim dim q of None \<Rightarrow> True | Some m \<Rightarrow> used \<le> m))"

definition within_cap :: "scope_type \<Rightarrow> string \<Rightarrow> dim \<Rightarrow> int \<Rightarrow> tables \<Rightarrow> bool" where
  "within_cap st sid dim used tb \<longleftrightarrow> bounded_by (quota_of st sid tb) dim used"

definition caps_hold :: "dim set \<Rightarrow> snapshot \<Rightarrow> string \<Rightarrow> string \<Rightarrow> tables \<Rightarrow> bool" where
  "caps_hold dims snap t p tb \<longleftrightarrow> (\<forall>dim \<in> dims.
     within_cap ProjectScope p dim (true_usage snap (of_project t p) dim tb) tb \<and>
     within_cap TenantScope t dim (true_usage snap (of_tenant t) dim tb) tb)"



context quota_gate
begin

lemma admitted_bounded:
  assumes "check sc qo u a = None" and "dim \<in> dims" and "usage_dim dim u = wrap64 t"
  shows "bounded_by qo dim (wrap64 (t + alloc_dim dim a))"
proof -
  have "add64 (usage_dim dim u) (alloc_dim dim a) \<le> m"
    if "qo = Some q" "limit_dim dim q = Some m" for q m
    using assms(1,2) admits_iff[of sc qo u a] that by blast
  with assms(3) show ?thesis
    by (auto simp: bounded_by_def add64_wrap64 split: option.split)
qed

lemma admitted_within_cap:
  assumes "check sc (quota_of st sid tb) u a = None" and "dim \<in> dims"
    and "usage_dim dim u = wrap64 t" and "int64_range (t + alloc_dim dim a)"
  shows "within_cap st sid dim (t + alloc_dim dim a) tb"
  using admitted_bounded[OF assms(1-3)] assms(4) by (simp add: within_cap_def)

end

section \<open>One guest\<close>

lemma wf_ownerships_same_tabs:
  "\<lbrakk>wf_ownerships d; tabs d' = tabs d; uuids d' = uuids d; drawn d' = drawn d\<rbrakk> \<Longrightarrow> wf_ownerships d'"
  by (erule wf_ownerships_cong) simp_all

text \<open>The part of a reservation's transaction before its write.\<close>

lemma locked_load_Inr:
  assumes "bind_op (AdvisoryLock key) (\<lambda>_. bind_op (load_scopes t p snap) k)
      ((pop_fault d)\<lparr>in_tx := True\<rparr>) = (Inr x, d2)"
  obtains pu tu d1 where
    "k ((pu, tu), quota_of ProjectScope p (tabs d), quota_of TenantScope t (tabs d)) d1 = (Inr x, d2)"
    "\<And>dim. usage_dim dim tu = wrap64 (true_usage snap (of_tenant t) dim (tabs d))"
    "\<And>dim. usage_dim dim pu = wrap64 (true_usage snap (of_project t p) dim (tabs d))"
    "tabs d1 = tabs d" "clock d1 = clock d" "uuids d1 = uuids d" "drawn d1 = drawn d"
    "in_tx d1" "key \<in> set (locks d1)"
proof -
  from assms obtain d0 l d1 where lock: "AdvisoryLock key ((pop_fault d)\<lparr>in_tx := True\<rparr>) = (Inr (), d0)"
    and load: "load_scopes t p snap d0 = (Inr l, d1)" and k: "k l d1 = (Inr x, d2)"
    by (auto simp: bind_op_Inr_iff)
  obtain pu tu pq tq where l: "l = ((pu, tu), pq, tq)" by (metis surj_pair)
  have d0: "tabs d0 = tabs d" "clock d0 = clock d" "uuids d0 = uuids d" "drawn d0 = drawn d"
    "in_tx d0" "key \<in> set (locks d0)"
    using lock by (auto simp: op_elims)
  note load_scopes_Inr[OF load[unfolded l]]
  with k l d0 show ?thesis
    by (intro that[of pu tu d1]) simp_all
qed

lemma ReserveOwnership_Inr:
  assumes "\<not> in_tx d" and "ReserveOwnership snap p d = (Inr r, d')"
  obtains pu tu d1 d2 where
    "checkQuota ProjectScope (quota_of ProjectScope (ro_project_id p) (tabs d)) pu (ro_reserved p) = None"
    "checkQuota TenantScope (quota_of TenantScope (ro_tenant_id p) (tabs d)) tu (ro_reserved p) = None"
    "\<And>dim. usage_dim dim tu = wrap64 (true_usage snap (of_tenant (ro_tenant_id p)) dim (tabs d))"
    "\<And>dim. usage_dim dim pu
       = wrap64 (true_usage snap (of_project (ro_tenant_id p) (ro_project_id p)) dim (tabs d))"
    "tabs d1 = tabs d" "clock d1 = clock d" "uuids d1 = uuids d" "drawn d1 = drawn d"
    "AdvisoryKeyTenant (ro_tenant_id p) \<in> set (locks d1)"
    "CreateOwnership (reservation_of p) d1 = (Inr r, d2)"
    "tabs d' = tabs d2" "clock d' = clock d2" "uuids d' = uuids d2" "drawn d' = drawn d2"
    "\<not> in_tx d'" "locks d' = []"
proof -
  from assms obtain d2 where body: "bind_op (AdvisoryLock (AdvisoryKeyTenant (ro_tenant_id p))) (\<lambda>_.
     bind_op (load_scopes (ro_tenant_id p) (ro_project_id p) snap) (\<lambda>((pu, tu), pq, tq).
     bind_op (guard_quota (checkQuota ProjectScope pq pu (ro_reserved p))) (\<lambda>_.
     bind_op (guard_quota (checkQuota TenantScope tq tu (ro_reserved p))) (\<lambda>_.
     CreateOwnership (reservation_of p))))) ((pop_fault d)\<lparr>in_tx := True\<rparr>) = (Inr r, d2)"
    and d': "d' = (pop_fault d2)\<lparr>in_tx := False, locks := []\<rparr>"
    by (auto simp: ReserveOwnership_def WithTx_Inr_iff)
  from body show ?thesis
    by (rule locked_load_Inr) (auto simp: op_elims d' intro!: that)
qed

definition sample_reserve :: reserve_params where
  "sample_reserve = \<lparr>ro_tenant_id = ''t1'', ro_project_id = ''p1'', ro_vmid = 100,
     ro_guest_type = ''qemu'', ro_node = ''pve1'', ro_created_by = Some ''u1'',
     ro_reserved = \<lparr>a_vcpu = 2, a_ram_mb = 1024, a_disk_gb = 10\<rparr>\<rparr>"





section \<open>All members of a set, or none\<close>

definition members_sum :: "dim \<Rightarrow> batch_member list \<Rightarrow> int" where
  "members_sum dim ms = (\<Sum>m\<leftarrow>ms. alloc_dim dim (bm_reserved m))"

lemma members_sum_simps [simp]:
  "members_sum dim [] = 0"
  "members_sum dim (m # ms) = alloc_dim dim (bm_reserved m) + members_sum dim ms"
  by (simp_all add: members_sum_def)






lemma member_params_simps [simp]:
  "co_tenant_id (member_params p m) = rb_tenant_id p" "co_project_id (member_params p m) = rb_project_id p"
  "co_vmid (member_params p m) = bm_vmid m" "co_status (member_params p m) = Pending"
  "co_reserved_vcpu (member_params p m) = Some (a_vcpu (bm_reserved m))"
  "co_reserved_ram_mb (member_params p m) = Some (a_ram_mb (bm_reserved m))"
  "co_reserved_disk_gb (member_params p m) = Some (a_disk_gb (bm_reserved m))"
  "co_set_id (member_params p m) = Some (rb_set_id p)" "co_role (member_params p m) = Some (bm_role m)"
  by (simp_all add: member_params_def)


lemma ReserveOwnershipBatch_Inr:
  assumes "\<not> in_tx d" and "ReserveOwnershipBatch snap p d = (Inr os, d')"
  obtains pu tu d1 d2 where
    "check_members (quota_of ProjectScope (rb_project_id p) (tabs d))
       (quota_of TenantScope (rb_tenant_id p) (tabs d)) pu tu (rb_members p) = None"
    "\<And>dim. usage_dim dim tu = wrap64 (true_usage snap (of_tenant (rb_tenant_id p)) dim (tabs d))"
    "\<And>dim. usage_dim dim pu
       = wrap64 (true_usage snap (of_project (rb_tenant_id p) (rb_project_id p)) dim (tabs d))"
    "tabs d1 = tabs d" "uuids d1 = uuids d" "drawn d1 = drawn d"
    "create_all (map (member_params p) (rb_members p)) d1 = (Inr os, d2)"
    "tabs d' = tabs d2" "uuids d' = uuids d2" "drawn d' = drawn d2"
proof -
  from assms obtain d2 where body: "bind_op (AdvisoryLock (AdvisoryKeyTenant (rb_tenant_id p))) (\<lambda>_.
     bind_op (load_scopes (rb_tenant_id p) (rb_project_id p) snap) (\<lambda>((pu, tu), pq, tq).
     bind_op (guard_quota (check_members pq tq pu tu (rb_members p))) (\<lambda>_.
     create_all (map (member_params p) (rb_members p))))) ((pop_fault d)\<lparr>in_tx := True\<rparr>) = (Inr os, d2)"
    and d': "d' = (pop_fault d2)\<lparr>in_tx := False, locks := []\<rparr>"
    by (auto simp: ReserveOwnershipBatch_def WithTx_Inr_iff)
  from body show ?thesis
    by (rule locked_load_Inr) (auto simp: op_elims d' intro!: that)
qed









section \<open>Growing a guest\<close>

text \<open>Sane inputs: the guest's live size is not negative, the targets and the guest's current
  footprint are Go integers, and so is the grown disk footprint.\<close>

definition growth_safe :: "snapshot \<Rightarrow> growth_params \<Rightarrow> tables \<Rightarrow> bool" where
  "growth_safe snap p tb \<longleftrightarrow>
     int64_range (rg_target_vcpu p) \<and> int64_range (rg_target_ram_mb p) \<and>
     (case snap (rg_vmid p) of None \<Rightarrow> True
      | Some live \<Rightarrow> 0 \<le> a_vcpu live \<and> 0 \<le> a_ram_mb live \<and>
          (\<forall>r \<in> set (ownerships tb). o_vmid r = rg_vmid p \<longrightarrow>
             int64_range (a_vcpu (EffectiveFootprint live r)) \<and>
             int64_range (a_ram_mb (EffectiveFootprint live r)) \<and>
             int64_range (a_disk_gb (EffectiveFootprint live r) + max 0 (rg_grow_disk_gb p))))"

definition grown_row :: "int \<Rightarrow> alloc \<Rightarrow> alloc \<Rightarrow> ownership \<Rightarrow> ownership" where
  "grown_row now eff charge r = (case ReservationValues eff charge of (rv, rr, rd) \<Rightarrow>
     r\<lparr>o_reserved_vcpu := greatest (o_reserved_vcpu r) rv,
       o_reserved_ram_mb := greatest (o_reserved_ram_mb r) rr,
       o_reserved_disk_gb := greatest (o_reserved_disk_gb r) rd, o_updated_at := now\<rparr>)"

lemma raised_to_ge: "a \<le> raised_to a r"
  by (simp add: raised_to_def split: option.split)

lemma raised_to_grown:
  assumes "0 \<le> c" and "int64_range (raised_to a r + c)"
  shows "raised_to a (greatest r (charged (raised_to a r) c)) = raised_to a r + c"
proof (cases "c = 0")
  case True
  then show ?thesis by (simp add: charged_def greatest_def split: option.split)
next
  case False
  with assms have "charged (raised_to a r) c = Some (raised_to a r + c)"
    by (simp add: charged_def add64_eq)
  moreover have "a < raised_to a r + c" "case r of None \<Rightarrow> True | Some v \<Rightarrow> v < raised_to a r + c"
    using False assms(1) raised_to_ge[of a r] by (auto simp: raised_to_def split: option.split)
  ultimately show ?thesis
    by (auto simp: raised_to_def greatest_def split: option.splits)
qed

lemma absolute_charge:
  assumes "int64_range target" and "0 \<le> eff" and "int64_range eff"
  shows "(if target > eff then sub64 target eff else 0) = max 0 (target - eff)"
  using assms by (auto simp: sub64_def int64_range_def)

text \<open>After the write the guest is charged exactly its old footprint plus the charge.\<close>

lemma grown_footprint:
  assumes "eff = EffectiveFootprint live r" and "charge = GrowthCharge eff p"
    and "int64_range (rg_target_vcpu p)" and "int64_range (rg_target_ram_mb p)"
    and "0 \<le> a_vcpu live" and "0 \<le> a_ram_mb live"
    and "int64_range (a_vcpu eff)" and "int64_range (a_ram_mb eff)"
    and "int64_range (a_disk_gb eff + max 0 (rg_grow_disk_gb p))"
  shows "EffectiveFootprint live (grown_row now eff charge r)
     = \<lparr>a_vcpu = max (a_vcpu eff) (rg_target_vcpu p), a_ram_mb = max (a_ram_mb eff) (rg_target_ram_mb p),
        a_disk_gb = a_disk_gb eff + max 0 (rg_grow_disk_gb p)\<rparr>"
    and "charge = \<lparr>a_vcpu = max 0 (rg_target_vcpu p - a_vcpu eff),
        a_ram_mb = max 0 (rg_target_ram_mb p - a_ram_mb eff), a_disk_gb = max 0 (rg_grow_disk_gb p)\<rparr>"
proof -
  have nonneg: "0 \<le> a_vcpu eff" "0 \<le> a_ram_mb eff"
    using assms(1,5,6) raised_to_ge by (auto simp: EffectiveFootprint_def intro: order_trans)
  show charge: "charge = \<lparr>a_vcpu = max 0 (rg_target_vcpu p - a_vcpu eff),
        a_ram_mb = max 0 (rg_target_ram_mb p - a_ram_mb eff), a_disk_gb = max 0 (rg_grow_disk_gb p)\<rparr>"
    using assms(2-4,7,8) nonneg by (simp add: GrowthCharge_def absolute_charge)
  have "int64_range (a_vcpu eff + max 0 (rg_target_vcpu p - a_vcpu eff))"
    "int64_range (a_ram_mb eff + max 0 (rg_target_ram_mb p - a_ram_mb eff))"
    using assms(3,4,7,8) nonneg by (auto simp: int64_range_def)
  with assms(9) show "EffectiveFootprint live (grown_row now eff charge r)
     = \<lparr>a_vcpu = max (a_vcpu eff) (rg_target_vcpu p), a_ram_mb = max (a_ram_mb eff) (rg_target_ram_mb p),
        a_disk_gb = a_disk_gb eff + max 0 (rg_grow_disk_gb p)\<rparr>"
    unfolding charge grown_row_def ReservationValues_def assms(1)
    by (simp add: EffectiveFootprint_def raised_to_grown max_def)
qed

lemma ReserveGuestGrowth_Inr:
  assumes "\<not> in_tx d" and "ReserveGuestGrowth snap p d = (Inr u, d')"
  obtains own live d0 d2 where "snap (rg_vmid p) = Some live" "own \<in> set (ownerships (tabs d))"
    "o_vmid own = rg_vmid p" "o_tenant_id own = rg_tenant_id p" "live_status (o_status own)"
    "grow_guest snap p live own d0 = (Inr u, d2)" "tabs d0 = tabs d" "clock d0 = clock d"
    "uuids d0 = uuids d" "drawn d0 = drawn d" "tabs d' = tabs d2" "uuids d' = uuids d2" "drawn d' = drawn d2"
proof -
  let ?P = "\<lambda>r. o_vmid r = rg_vmid p \<and> o_tenant_id r = rg_tenant_id p \<and> live_status (o_status r)"
  obtain live where live: "snap (rg_vmid p) = Some live"
    using assms by (cases "snap (rg_vmid p)") (auto simp: ReserveGuestGrowth_def WithTx_Inr_iff op_elims)
  from assms obtain d0 d2 where rows: "filter ?P (ownerships (tabs d)) \<noteq> []"
    and grow: "grow_guest snap p live (hd (filter ?P (ownerships (tabs d)))) d0 = (Inr u, d2)"
    and d0: "tabs d0 = tabs d" "clock d0 = clock d" "uuids d0 = uuids d" "drawn d0 = drawn d"
    and d': "tabs d' = tabs d2" "uuids d' = uuids d2" "drawn d' = drawn d2"
    by (auto simp: ReserveGuestGrowth_def WithTx_Inr_iff GetLiveOwnershipForTenant_def op_elims live)
  from hd_in_set[OF rows] show ?thesis
    by (intro that[OF live _ _ _ _ grow d0 d']) auto
qed

lemma grow_guest_Inr:
  assumes "grow_guest snap p live own d = (Inr u, d')"
    and "charge = GrowthCharge (EffectiveFootprint live own) p"
  obtains "o_status own \<noteq> Pending" "charge = zero_alloc" "d' = d"
  | pu tu where "o_status own \<noteq> Pending" "charge \<noteq> zero_alloc"
      "checkGrowth ProjectScope (quota_of ProjectScope (rg_project_id p) (tabs d)) pu charge = None"
      "checkGrowth TenantScope (quota_of TenantScope (rg_tenant_id p) (tabs d)) tu charge = None"
      "\<And>dim. usage_dim dim tu = wrap64 (true_usage snap (of_tenant (rg_tenant_id p)) dim (tabs d))"
      "\<And>dim. usage_dim dim pu
         = wrap64 (true_usage snap (of_project (rg_tenant_id p) (rg_project_id p)) dim (tabs d))"
      "tabs d' = (tabs d)\<lparr>ownerships := update_where
         (\<lambda>r. o_vmid r = rg_vmid p \<and> o_tenant_id r = rg_tenant_id p \<and> live_status (o_status r))
         (\<lambda>r. grown_row (clock d) (EffectiveFootprint live own) charge r) (ownerships (tabs d))\<rparr>"
      "uuids d' = uuids d" "drawn d' = drawn d"
proof (cases "charge = zero_alloc")
  case True
  with assms show ?thesis
    by (intro that(1)) (auto simp: grow_guest_def split: if_splits)
next
  case False
  obtain rv rr rd where rvs: "ReservationValues (EffectiveFootprint live own) charge = (rv, rr, rd)"
    by (metis surj_pair)
  from assms False rvs obtain l d1 where np: "o_status own \<noteq> Pending"
    and load: "load_scopes (rg_tenant_id p) (rg_project_id p) snap d = (Inr l, d1)"
    and rest: "(case l of ((pu, tu), pq, tq) \<Rightarrow>
         bind_op (guard_quota (checkGrowth ProjectScope pq pu charge)) (\<lambda>_.
         bind_op (guard_quota (checkGrowth TenantScope tq tu charge)) (\<lambda>_.
           SetOwnershipReservation (rg_tenant_id p) (rg_vmid p) rv rr rd))) d1 = (Inr u, d')"
    by (auto simp: grow_guest_def bind_op_Inr_iff[of "load_scopes _ _ _"] Let_def split: if_splits)
  obtain pu tu pq tq where l: "l = ((pu, tu), pq, tq)" by (metis surj_pair)
  note loaded = load_scopes_Inr[OF load[unfolded l]]
  show ?thesis
    using rest loaded False rvs np
    by (intro that(2)[of pu tu])
      (auto simp: l op_elims SetOwnershipReservation_def update_ownerships_def grown_row_def[abs_def]
        split: if_splits)
qed


lemma grown_row_simps [simp]:
  "o_id (grown_row now eff c r) = o_id r" "o_vmid (grown_row now eff c r) = o_vmid r"
  "o_tenant_id (grown_row now eff c r) = o_tenant_id r"
  "o_project_id (grown_row now eff c r) = o_project_id r"
  "o_status (grown_row now eff c r) = o_status r"
  by (simp_all add: grown_row_def split: prod.split)


definition sample_growth :: growth_params where
  "sample_growth = \<lparr>rg_tenant_id = ''t1'', rg_project_id = ''p1'', rg_vmid = 100,
     rg_target_vcpu = 4, rg_target_ram_mb = 0, rg_grow_disk_gb = 5\<rparr>"

definition sample_live :: snapshot where
  "sample_live = [100 \<mapsto> \<lparr>a_vcpu = 2, a_ram_mb = 1024, a_disk_gb = 10\<rparr>]"

abbreviation sample_guest_db :: db where
  "sample_guest_db \<equiv> sample_db (sample_tables\<lparr>ownerships :=
     [sample_ownership (sample_uuids 1) ''t1'' ''p1'' 100 Active]\<rparr>)"

lemma sample_guest_wf: "wf_ownerships sample_guest_db"
  by (simp add: wf_ownerships_def sample_defs project_of_tenant_def)


lemma sample_growth_safe: "growth_safe sample_live sample_growth (tabs sample_guest_db)"
  by code_simp



text \<open>A repeated growth towards the same targets costs nothing: the first one already raised the
  footprint to them.\<close>

lemma grown_retry_free:
  assumes "eff = EffectiveFootprint live r" and "charge = GrowthCharge eff p"
    and "int64_range (rg_target_vcpu p)" and "int64_range (rg_target_ram_mb p)"
    and "0 \<le> a_vcpu live" and "0 \<le> a_ram_mb live"
    and "int64_range (a_vcpu eff)" and "int64_range (a_ram_mb eff)"
    and "int64_range (a_disk_gb eff + max 0 (rg_grow_disk_gb p))"
  shows "GrowthCharge (EffectiveFootprint live (grown_row now eff charge r)) (p\<lparr>rg_grow_disk_gb := 0\<rparr>)
     = zero_alloc"
  unfolding grown_footprint(1)[OF assms] by (simp add: GrowthCharge_def zero_alloc_def)

text \<open>retrying a growth is free. After \<^verbatim>\<open>ReserveGuestGrowth\<close> has succeeded, the same request
  for the same vCPU and RAM targets, once the guest's stored row is read again, has charge
  zero in every dimension (only a further disk delta is ever charged again).\<close>

theorem ReserveGuestGrowth_retry_free:
  assumes wf: "wf_ownerships d" and tx: "\<not> in_tx d"
    and run: "ReserveGuestGrowth snap p d = (Inr u, d')"
    and safe: "growth_safe snap p (tabs d)"
    and own': "own' \<in> set (ownerships (tabs d'))" "o_vmid own' = rg_vmid p"
    and live: "snap (rg_vmid p) = Some live"
  shows "GrowthCharge (EffectiveFootprint live own') (p\<lparr>rg_grow_disk_gb := 0\<rparr>) = zero_alloc"
  using tx run
proof (rule ReserveGuestGrowth_Inr)
  fix own live' d0 d2
  assume live': "snap (rg_vmid p) = Some live'"
    and own: "own \<in> set (ownerships (tabs d))" "o_vmid own = rg_vmid p" "o_tenant_id own = rg_tenant_id p"
      "live_status (o_status own)"
    and grow: "grow_guest snap p live' own d0 = (Inr u, d2)"
    and d0: "tabs d0 = tabs d" and d': "tabs d' = tabs d2"
  have uniq: "r = own" if "r \<in> set (ownerships (tabs d))" "o_vmid r = rg_vmid p" for r
    using distinct_key_unique[OF wf_ownershipsD(2)[OF wf] that(1) own(1)] that(2) own(2) by simp
  from grow refl show ?thesis
  proof (cases rule: grow_guest_Inr)
    case 1
    then show ?thesis
      using own' uniq d0 d' live live'
      by (auto simp: GrowthCharge_def zero_alloc_def split: if_splits)
  next
    case (2 pu tu)
    let ?c = "GrowthCharge (EffectiveFootprint live own) p"
    have "own' = grown_row (clock d0) (EffectiveFootprint live own) ?c own"
      using own' uniq 2(7) d0 d' live live' own(3,4) by (auto simp: set_update_where split: if_splits)
    then show ?thesis
      using grown_retry_free[OF refl refl, of p live own "clock d0"] safe live own
      by (auto simp: growth_safe_def)
  qed
qed

theorem ReserveGuestGrowth_retry_free_witness:
  "succeeds (ReserveGuestGrowth sample_live sample_growth sample_guest_db) (\<lambda>u d'.
     list_all (\<lambda>own'. GrowthCharge (EffectiveFootprint \<lparr>a_vcpu = 2, a_ram_mb = 1024, a_disk_gb = 10\<rparr> own')
         (sample_growth\<lparr>rg_grow_disk_gb := 0\<rparr>) = zero_alloc) (ownerships (tabs d')))"
proof -
  have "succeeds (ReserveGuestGrowth sample_live sample_growth sample_guest_db)
      (\<lambda>u d'. list_all (\<lambda>r. o_vmid r = rg_vmid sample_growth) (ownerships (tabs d')))"
    by code_simp
  then show ?thesis
  proof (rule succeedsE)
    fix u d'
    assume run: "ReserveGuestGrowth sample_live sample_growth sample_guest_db = (Inr u, d')"
      and vm: "list_all (\<lambda>r. o_vmid r = rg_vmid sample_growth) (ownerships (tabs d'))"
    have "sample_live (rg_vmid sample_growth) = Some \<lparr>a_vcpu = 2, a_ram_mb = 1024, a_disk_gb = 10\<rparr>"
      by (simp add: sample_live_def sample_growth_def)
    with vm ReserveGuestGrowth_retry_free[OF sample_guest_wf _ run sample_growth_safe] show ?thesis
      by (intro succeedsI[OF run]) (simp add: list_all_iff)
  qed
qed

section \<open>Failures and other tenants\<close>




text \<open>The live rows of every tenant but \<open>t\<close>.\<close>

definition live_rows_elsewhere :: "string \<Rightarrow> tables \<Rightarrow> ownership list" where
  "live_rows_elsewhere t tb =
     filter (\<lambda>r. live_status (o_status r) \<and> o_tenant_id r \<noteq> t) (ownerships tb)"

lemma CreateOwnership_elsewhere:
  assumes wf: "wf_ownerships d" and run: "CreateOwnership p d = (Inr r, d')"
    and t: "co_tenant_id p = t"
  shows "live_rows_elsewhere t (tabs d') = live_rows_elsewhere t (tabs d)"
proof -
  obtain tb where up: "upsert_ownership p (uuids d (drawn d)) (clock d) (tabs d) = Inr (r, tb)"
    and d': "tabs d' = tb"
    using run by (auto simp: CreateOwnership_def op_elims)
  from up wf_ownershipsD(2)[OF wf] show ?thesis
  proof (cases rule: upsert_ownership_Inr)
    case fresh
    then show ?thesis by (simp add: d' live_rows_elsewhere_def t)
  next
    case (revived r0)
    then show ?thesis
      using CreateOwnership_Inr(12)[OF wf run]
      by (auto simp: d' live_rows_elsewhere_def t live_status_def intro!: filter_update_where_other)
  qed
qed

lemma create_all_elsewhere:
  assumes "wf_ownerships d" and "create_all cs d = (Inr os, d')"
    and "\<forall>c \<in> set cs. co_tenant_id c = t"
  shows "live_rows_elsewhere t (tabs d') = live_rows_elsewhere t (tabs d)"
  using assms
proof (induction cs arbitrary: d os)
  case (Cons c cs)
  then obtain o1 d1 os' where "CreateOwnership c d = (Inr o1, d1)" "create_all cs d1 = (Inr os', d')"
    by (auto simp: bind_op_Inr_iff)
  with Cons show ?case
    using CreateOwnership_Inr(1) CreateOwnership_elsewhere by (metis list.set_intros)
qed simp

text \<open>C5: no reservation touches another tenant. When \<^verbatim>\<open>ReserveOwnership\<close>,
  \<^verbatim>\<open>ReserveOwnershipBatch\<close> or \<^verbatim>\<open>ReserveGuestGrowth\<close> succeeds for a tenant, the live ownership
  rows of all other tenants are the same rows, in the same order, as before.\<close>

theorem reservations_respect_tenants:
  assumes wf: "wf_ownerships d" and tx: "\<not> in_tx d"
  shows "(ReserveOwnership snap p d = (Inr r, d') \<longrightarrow>
      live_rows_elsewhere (ro_tenant_id p) (tabs d') = live_rows_elsewhere (ro_tenant_id p) (tabs d)) \<and>
    (ReserveOwnershipBatch snap b d = (Inr os, d') \<longrightarrow>
      live_rows_elsewhere (rb_tenant_id b) (tabs d') = live_rows_elsewhere (rb_tenant_id b) (tabs d)) \<and>
    (ReserveGuestGrowth snap g d = (Inr u, d') \<longrightarrow>
      live_rows_elsewhere (rg_tenant_id g) (tabs d') = live_rows_elsewhere (rg_tenant_id g) (tabs d))"
proof (intro conjI impI)
  assume "ReserveOwnership snap p d = (Inr r, d')"
  then show "live_rows_elsewhere (ro_tenant_id p) (tabs d') = live_rows_elsewhere (ro_tenant_id p) (tabs d)"
    by (rule ReserveOwnership_Inr[OF tx])
      (metis CreateOwnership_elsewhere pending_params_simps(1) reservation_of_def
        wf wf_ownerships_same_tabs)
next
  assume "ReserveOwnershipBatch snap b d = (Inr os, d')"
  then show "live_rows_elsewhere (rb_tenant_id b) (tabs d') = live_rows_elsewhere (rb_tenant_id b) (tabs d)"
  proof (rule ReserveOwnershipBatch_Inr[OF tx])
    fix d1 d2
    assume d1: "tabs d1 = tabs d" "uuids d1 = uuids d" "drawn d1 = drawn d"
      and run: "create_all (map (member_params b) (rb_members b)) d1 = (Inr os, d2)"
      and d': "tabs d' = tabs d2"
    from create_all_elsewhere[OF wf_ownerships_same_tabs[OF wf d1] run, of "rb_tenant_id b"] d1 d'
    show ?thesis by simp
  qed
next
  assume "ReserveGuestGrowth snap g d = (Inr u, d')"
  then show "live_rows_elsewhere (rg_tenant_id g) (tabs d') = live_rows_elsewhere (rg_tenant_id g) (tabs d)"
  proof (rule ReserveGuestGrowth_Inr[OF tx])
    fix own live d0 d2
    assume grow: "grow_guest snap g live own d0 = (Inr u, d2)" and "tabs d0 = tabs d" "tabs d' = tabs d2"
    with grow refl show ?thesis
      by (cases rule: grow_guest_Inr)
        (auto simp: live_rows_elsewhere_def intro!: filter_update_where_other)
  qed
qed

theorem reservations_respect_tenants_witness:
  "succeeds (ReserveOwnership Map.empty (sample_reserve\<lparr>ro_vmid := 101\<rparr>) sample_guest_db)
     (\<lambda>r d'. live_rows_elsewhere ''t1'' (tabs d') = live_rows_elsewhere ''t1'' (tabs sample_guest_db))"
proof -
  have "succeeds (ReserveOwnership Map.empty (sample_reserve\<lparr>ro_vmid := 101\<rparr>) sample_guest_db) (\<lambda>r d'. True)"
    by code_simp
  then show ?thesis
  proof (rule succeedsE)
    fix r d'
    assume run: "ReserveOwnership Map.empty (sample_reserve\<lparr>ro_vmid := 101\<rparr>) sample_guest_db = (Inr r, d')"
    have "live_rows_elsewhere ''t1'' (tabs d') = live_rows_elsewhere ''t1'' (tabs sample_guest_db)"
      using reservations_respect_tenants[OF sample_guest_wf, of Map.empty "sample_reserve\<lparr>ro_vmid := 101\<rparr>"]
        run by (simp add: sample_reserve_def)
    then show ?thesis by (rule succeedsI[OF run])
  qed
qed

section \<open>The accounting\<close>

text \<open>C6: \<^verbatim>\<open>ComputeUsage\<close> accounts exactly. In every dimension the tenant figure it returns is the
  sum over the tenant's ownership rows of what each row is charged (the larger of live and
  reserved for an active row in the snapshot, the reservation for a pending row, nothing for
  a tombstoned one or one absent from the snapshot), wrapped at 64 bits, and so is every
  project figure over the project's rows; a project with no counted row reads as zero. The
  database is not changed.\<close>

theorem ComputeUsage_exact:
  "succeeds (ComputeUsage t snap (d\<lparr>faults := []\<rparr>)) (\<lambda>(tu, by_project) d'.
     (\<forall>dim. usage_dim dim tu = wrap64 (true_usage snap (of_tenant t) dim (tabs d))) \<and>
     (\<forall>dim p. usage_dim dim (project_usage by_project p)
        = wrap64 (true_usage snap (of_project t p) dim (tabs d))) \<and>
     tabs d' = tabs d)"
proof -
  obtain tu bp d' where run: "ComputeUsage t snap (d\<lparr>faults := []\<rparr>) = (Inr (tu, bp), d')"
    by (cases "fst (ComputeUsage t snap (d\<lparr>faults := []\<rparr>))")
      (auto simp: ComputeUsage_def prod_eq_iff)
  from succeedsI[OF run] ComputeUsage_Inr[OF run] show ?thesis by simp
qed

text \<open>The sum wraps, so a request can be large enough to pass a cap it exceeds.\<close>

definition huge_reserve :: reserve_params where
  "huge_reserve = sample_reserve\<lparr>ro_vmid := 101,
     ro_reserved := \<lparr>a_vcpu = 1, a_ram_mb = 2 ^ 63 - 1, a_disk_gb = 10\<rparr>\<rparr>"

text \<open>the caps can be bypassed by overflow. With an active guest of 1024 MB counted and a project
  cap of 4096 MB, \<^verbatim>\<open>ReserveOwnership\<close> admits a request for 2^63 - 1 MB: usage plus request
  wraps to a negative number, every comparison passes, and the row is stored, although the
  usage it stands for exceeds the caps of project and tenant.\<close>

theorem ReserveOwnership_overflow_admits:
  "succeeds (ReserveOwnership sample_live huge_reserve sample_guest_db) (\<lambda>r d'.
     o_reserved_ram_mb r = Some (2 ^ 63 - 1) \<and>
     \<not> caps_hold UNIV sample_live ''t1'' ''p1'' (tabs d') \<and>
     true_usage sample_live (of_project ''t1'' ''p1'') DimRAM (tabs d') = 1024 + (2 ^ 63 - 1))"
  unfolding caps_hold_def UNIV_dim by code_simp

end
