(* ===== verification/Go_Lib.thy ===== *)
theory Go_Lib
  imports Prelude "HOL-Library.AList"
begin

text \<open>
  The functions of Go's standard library that the modelled code calls: \<^verbatim>\<open>strconv.Atoi\<close>,
  decimal formatting, \<^verbatim>\<open>net.SplitHostPort\<close>, \<^verbatim>\<open>strings.TrimSpace\<close> and friends, and the part of
  \<^verbatim>\<open>encoding/json\<close> that renders flat objects. Strings are taken as ASCII.
\<close>

section \<open>Durations\<close>

text \<open>Nanoseconds, as in package \<^verbatim>\<open>time\<close>; \<open>zero_time\<close> is \<^verbatim>\<open>time.Time{}\<close> on the Unix scale.\<close>

definition second :: int where "second = 1000000000"
definition minute :: int where "minute = 60 * second"
definition hour :: int where "hour = 60 * minute"

text \<open>\<^verbatim>\<open>int(d.Seconds())\<close> truncates towards zero.\<close>

definition whole_seconds :: "int \<Rightarrow> int" where
  "whole_seconds d = (if d < 0 then - ((- d) div second) else d div second)"

definition zero_time :: int where "zero_time = - 62135596800 * second"

section \<open>Numbers\<close>

definition digit_val :: "char \<Rightarrow> nat option" where
  "digit_val c = (if 48 \<le> (of_char c :: nat) \<and> (of_char c :: nat) \<le> 57
                  then Some (of_char c - 48) else None)"

fun digits_val :: "nat \<Rightarrow> string \<Rightarrow> nat option" where
  "digits_val acc [] = Some acc"
| "digits_val acc (c # cs) = (case digit_val c of
     None \<Rightarrow> None | Some v \<Rightarrow> digits_val (10 * acc + v) cs)"

text \<open>\<^verbatim>\<open>strconv.Atoi\<close>: an optional sign, at least one decimal digit, the value in 64 bits.\<close>

definition atoi_digits :: "string \<Rightarrow> nat option" where
  "atoi_digits s = (if s = [] then None else digits_val 0 s)"

definition atoi :: "string \<Rightarrow> int option" where
  "atoi s =
     (let r = (case s of
          c # cs \<Rightarrow> if c = CHR ''-'' then map_option (\<lambda>n. - int n) (atoi_digits cs)
                    else if c = CHR ''+'' then map_option int (atoi_digits cs)
                    else map_option int (atoi_digits s)
        | [] \<Rightarrow> None)
      in case r of None \<Rightarrow> None | Some v \<Rightarrow> if int64_range v then Some v else None)"

fun nat_digits :: "nat \<Rightarrow> string" where
  "nat_digits n = (if n < 10 then [char_of (48 + n)]
                   else nat_digits (n div 10) @ [char_of (48 + n mod 10)])"

declare nat_digits.simps [simp del]

definition itoa :: "int \<Rightarrow> string" where
  "itoa n = (if n < 0 then CHR ''-'' # nat_digits (nat (- n)) else nat_digits (nat n))"

text \<open>The same digits from binary integers, for evaluation.\<close>

definition digit_char :: "int \<Rightarrow> char" where
  "digit_char d = (if d = 0 then CHR ''0'' else if d = 1 then CHR ''1'' else if d = 2 then CHR ''2'' else if d = 3 then CHR ''3''
     else if d = 4 then CHR ''4'' else if d = 5 then CHR ''5'' else if d = 6 then CHR ''6'' else if d = 7 then CHR ''7''
     else if d = 8 then CHR ''8'' else CHR ''9'')"

fun int_digits :: "int \<Rightarrow> string" where
  "int_digits n = (if n < 10 then [digit_char n] else int_digits (n div 10) @ [digit_char (n mod 10)])"

declare int_digits.simps [simp del]

lemma digit_char_eq:
  assumes "0 \<le> d" "d < 10"
  shows "digit_char d = char_of (48 + nat d)"
proof -
  have "d = 0 \<or> d = 1 \<or> d = 2 \<or> d = 3 \<or> d = 4 \<or> d = 5 \<or> d = 6 \<or> d = 7 \<or> d = 8 \<or> d = 9" using assms by presburger
  then show ?thesis by (elim disjE; simp add: digit_char_def; code_simp)
qed

lemma int_digits_eq: "0 \<le> n \<Longrightarrow> int_digits n = nat_digits (nat n)"
proof (induction n rule: int_digits.induct)
  case (1 n)
  show ?case
  proof (cases "n < 10")
    case True
    with 1(2) show ?thesis by (simp add: int_digits.simps[of n] nat_digits.simps[of "nat n"] digit_char_eq nat_less_iff)
  next
    case False
    with 1 have "int_digits (n div 10) = nat_digits (nat n div 10)" by (simp add: nat_div_distrib)
    moreover have "digit_char (n mod 10) = char_of (48 + nat n mod 10)"
      using 1(2) by (simp add: digit_char_eq nat_mod_distrib)
    ultimately show ?thesis using False by (simp add: int_digits.simps[of n] nat_digits.simps[of "nat n"] nat_less_iff)
  qed
qed

lemma itoa_code [code]: "itoa n = (if n < 0 then CHR ''-'' # int_digits (- n) else int_digits n)"
  by (simp add: itoa_def int_digits_eq)

lemma digit_val_char [simp]: "n < 10 \<Longrightarrow> digit_val (char_of (48 + n)) = Some n"
  by (simp add: digit_val_def)

lemma digits_val_append:
  "digits_val acc (xs @ ys) = (case digits_val acc xs of None \<Rightarrow> None | Some v \<Rightarrow> digits_val v ys)"
  by (induction xs arbitrary: acc) (auto split: option.split)

lemma digits_val_nat_digits: "digits_val 0 (nat_digits n) = Some n"
proof (induction n rule: nat_digits.induct)
  case (1 n)
  show ?case
  proof (cases "n < 10")
    case True
    then show ?thesis by (simp add: nat_digits.simps[of n])
  next
    case False
    with 1 show ?thesis by (subst nat_digits.simps) (simp add: digits_val_append)
  qed
qed

lemma nat_digits_hd: "\<exists>(d :: nat) ds. nat_digits n = char_of (48 + d) # ds \<and> d < 10"
proof (induction n rule: nat_digits.induct)
  case (1 n)
  show ?case
  proof (cases "n < 10")
    case True
    then show ?thesis by (subst nat_digits.simps) (intro exI[of _ n], simp)
  next
    case False
    with 1 obtain d :: nat and ds where "nat_digits (n div 10) = char_of (48 + d) # ds" "d < 10" by blast
    with False show ?thesis by (subst nat_digits.simps) (intro exI[of _ d], simp)
  qed
qed

text \<open>Formatting and parsing are inverse on every Go integer.\<close>

lemma atoi_itoa: "int64_range n \<Longrightarrow> atoi (itoa n) = Some n"
proof -
  assume r: "int64_range n"
  obtain d :: nat and ds where hd: "nat_digits (nat n) = char_of (48 + d) # ds" "d < 10"
    using nat_digits_hd by blast
  obtain e es where tl: "nat_digits (nat (- n)) = e # es"
    using nat_digits_hd by metis
  have "char_of (48 + d) \<noteq> CHR ''-''" "char_of (48 + d) \<noteq> CHR ''+''"
    using hd(2) by (auto simp: char_of_eq_iff take_bit_eq_mod)
  with r hd(1) tl show ?thesis
    using digits_val_nat_digits[of "nat n"] digits_val_nat_digits[of "nat (- n)"]
    by (simp add: atoi_def itoa_def atoi_digits_def)
qed

section \<open>Strings\<close>

definition last_index :: "char \<Rightarrow> string \<Rightarrow> nat option" where
  "last_index c s = (case filter (\<lambda>i. s ! i = c) (rev [0..<length s]) of [] \<Rightarrow> None | i # _ \<Rightarrow> Some i)"

definition first_index :: "char \<Rightarrow> string \<Rightarrow> nat option" where
  "first_index c s = (case filter (\<lambda>i. s ! i = c) [0..<length s] of [] \<Rightarrow> None | i # _ \<Rightarrow> Some i)"

definition is_space :: "char \<Rightarrow> bool" where
  "is_space c \<longleftrightarrow> (of_char c :: nat) \<in> {9, 10, 11, 12, 13, 32}"

definition TrimSpace :: "string \<Rightarrow> string" where
  "TrimSpace s = rev (dropWhile is_space (rev (dropWhile is_space s)))"

definition HasPrefix :: "string \<Rightarrow> string \<Rightarrow> bool" where
  "HasPrefix s p \<longleftrightarrow> take (length p) s = p"

definition EqualFold :: "string \<Rightarrow> string \<Rightarrow> bool" where
  "EqualFold a b \<longleftrightarrow> lower_str a = lower_str b"

section \<open>Addresses\<close>

text \<open>\<^verbatim>\<open>net.SplitHostPort\<close>: the last colon separates the port; a bracketed host must be closed right
  before it, and an unbracketed one may hold no further colon.\<close>

definition SplitHostPort :: "string \<Rightarrow> (string \<times> string) option" where
  "SplitHostPort hp = (case last_index CHR '':'' hp of
      None \<Rightarrow> None
    | Some i \<Rightarrow>
        if hp \<noteq> [] \<and> hd hp = CHR ''['' then
          (case first_index CHR '']'' hp of
             None \<Rightarrow> None
           | Some e \<Rightarrow>
               if e + 1 = i \<and> CHR ''['' \<notin> set (drop 1 hp) \<and> CHR '']'' \<notin> set (drop (e + 1) hp)
               then Some (drop 1 (take e hp), drop (i + 1) hp) else None)
        else if CHR '':'' \<in> set (take i hp) \<or> CHR ''['' \<in> set hp \<or> CHR '']'' \<in> set hp then None
        else Some (take i hp, drop (i + 1) hp))"

section \<open>JSON\<close>

text \<open>\<open>JRaw\<close> is a value that is already encoded.\<close>

datatype json = JNum int | JStr string | JBool bool | JRaw string

definition hex_digit :: "nat \<Rightarrow> char" where
  "hex_digit n = (if n < 10 then char_of (48 + n) else char_of (87 + n))"

definition escaped :: "string \<Rightarrow> string" where
  "escaped s = char_of (92 :: nat) # s"

definition json_escape :: "char \<Rightarrow> string" where
  "json_escape c = (let n = (of_char c :: nat) in
     if n = 34 \<or> n = 92 then escaped [c]
     else if n = 8 then escaped ''b'' else if n = 12 then escaped ''f''
     else if n = 10 then escaped ''n'' else if n = 13 then escaped ''r''
     else if n = 9 then escaped ''t''
     else if n < 32 \<or> n = 60 \<or> n = 62 \<or> n = 38
     then escaped (''u00'' @ [hex_digit (n div 16), hex_digit (n mod 16)])
     else [c])"

text \<open>The same on binary integers, for evaluation.\<close>

lemma json_escape_code [code]:
  "json_escape c = (let n = (of_char c :: int) in
     if n = 34 \<or> n = 92 then escaped [c]
     else if n = 8 then escaped ''b'' else if n = 12 then escaped ''f''
     else if n = 10 then escaped ''n'' else if n = 13 then escaped ''r''
     else if n = 9 then escaped ''t''
     else if n < 32 \<or> n = 60 \<or> n = 62 \<or> n = 38
     then escaped (''u00'' @ [hex_digit (nat n div 16), hex_digit (nat n mod 16)])
     else [c])"
proof -
  have n: "(of_char c :: int) = int (of_char c)" by (rule of_nat_of_char[symmetric])
  show ?thesis unfolding json_escape_def Let_def n nat_int by (simp add: int_eq_iff_numeral)
qed

definition json_string :: "string \<Rightarrow> string" where
  "json_string s = [char_of (34 :: nat)] @ concat (map json_escape s) @ [char_of (34 :: nat)]"

fun json_value :: "json \<Rightarrow> string" where
  "json_value (JNum n) = itoa n"
| "json_value (JStr s) = json_string s"
| "json_value (JBool b) = (if b then ''true'' else ''false'')"
| "json_value (JRaw s) = s"

fun join_with :: "string \<Rightarrow> string list \<Rightarrow> string" where
  "join_with sep [] = []"
| "join_with sep [x] = x"
| "join_with sep (x # y # ys) = x @ sep @ join_with sep (y # ys)"

text \<open>\<^verbatim>\<open>json.Marshal\<close> of a Go map: keys in order.\<close>

definition json_object :: "(string \<times> json) list \<Rightarrow> string" where
  "json_object kvs = ''{'' @ join_with '','' (map (\<lambda>(k, v). json_string k @ '':'' @ json_value v)
     (sort_key fst kvs)) @ ''}''"

end
