(* ===== verification/Store_Jobs.thy ===== *)
theory Store_Jobs
  imports Samples Go_Lib
begin

text \<open>
  The job queue (\<^verbatim>\<open>JobStore\<close> of \<^verbatim>\<open>store.go\<close>, implemented in \<^verbatim>\<open>store/jobs.go\<close>). The theory
  translates every operation, states the invariant of the table (a claim is stamped exactly on
  running jobs, live jobs have attempts left), shows that it holds in every run, that terminal
  jobs never change again, and what a claim returns. The locale \<open>work_queue\<close> is what the
  scheduler relies on.
\<close>

section \<open>Operations\<close>

record enqueue_params =
  ej_kind :: job_kind
  ej_handler :: string
  ej_tenant_id :: "string option"
  ej_project_id :: "string option"
  ej_vmid :: "int option"
  ej_payload :: string
  ej_cron :: "string option"
  ej_timezone :: "string option"
  ej_run_at :: int
  ej_max_attempts :: int
  ej_missed_policy :: "missed_policy option"

definition job_owner_ok :: "enqueue_params \<Rightarrow> tables \<Rightarrow> bool" where
  "job_owner_ok p tb \<longleftrightarrow>
     (ej_tenant_id p = None \<longleftrightarrow> ej_project_id p = None) \<and> (ej_project_id p = None \<longleftrightarrow> ej_vmid p = None) \<and>
     (case (ej_tenant_id p, ej_project_id p) of
        (Some t, Some pr) \<Rightarrow> exists_where (\<lambda>r. p_tenant_id r = t \<and> p_id r = pr) (projects tb)
      | _ \<Rightarrow> True)"

definition job_max_attempts :: "enqueue_params \<Rightarrow> int" where
  "job_max_attempts p = (if ej_max_attempts p \<le> 0 then 5 else ej_max_attempts p)"

definition new_job :: "enqueue_params \<Rightarrow> string \<Rightarrow> int \<Rightarrow> job" where
  "new_job p uid now = \<lparr>j_id = uid, j_kind = ej_kind p, j_handler = ej_handler p,
     j_tenant_id = ej_tenant_id p, j_project_id = ej_project_id p, j_vmid = ej_vmid p,
     j_payload = ej_payload p, j_cron = ej_cron p, j_timezone = ej_timezone p,
     j_run_at = ej_run_at p, j_status = Scheduled, j_attempts = 0,
     j_max_attempts = job_max_attempts p, j_last_error = None, j_locked_at = None,
     j_locked_by = None,
     j_missed_policy = (case ej_missed_policy p of None \<Rightarrow> CatchUp | Some m \<Rightarrow> m),
     j_created_at = now, j_updated_at = now\<rparr>"

definition EnqueueJob :: "enqueue_params \<Rightarrow> job op" where
  "EnqueueJob p = insert_row (\<lambda>uid now tb.
     if job_owner_ok p tb \<and> int4_column (ej_vmid p) \<and> int4_range (job_max_attempts p)
     then Inr (new_job p uid now, tb\<lparr>jobs := jobs tb @ [new_job p uid now]\<rparr>)
     else Inl ErrDB)"

text \<open>The subquery of \<open>ClaimDueJobs\<close>: due scheduled jobs, oldest first, up to the limit. The
  rows come back as stored after the update.\<close>

definition due :: "int \<Rightarrow> job \<Rightarrow> bool" where
  "due now j \<longleftrightarrow> j_status j = Scheduled \<and> j_run_at j \<le> now"

definition due_ids :: "int \<Rightarrow> int \<Rightarrow> job list \<Rightarrow> string list" where
  "due_ids now limit js = map j_id (take (nat limit) (sort_key j_run_at (filter (due now) js)))"

definition claimed_job :: "int \<Rightarrow> string \<Rightarrow> int \<Rightarrow> job \<Rightarrow> job" where
  "claimed_job now by t j = j\<lparr>j_status := Running, j_locked_at := Some now, j_locked_by := Some by,
     j_updated_at := t\<rparr>"

definition ClaimDueJobs :: "int \<Rightarrow> int \<Rightarrow> string \<Rightarrow> job list op" where
  "ClaimDueJobs now limit by = exec (\<lambda>t tb.
     let ids = due_ids now (if limit \<le> 0 then 10 else limit) (jobs tb);
         js = update_where (\<lambda>j. j_id j \<in> set ids) (claimed_job now by t) (jobs tb)
     in (filter (\<lambda>j. j_id j \<in> set ids) js, tb\<lparr>jobs := js\<rparr>))"

definition update_jobs :: "(job \<Rightarrow> bool) \<Rightarrow> (int \<Rightarrow> job \<Rightarrow> job) \<Rightarrow> int \<Rightarrow> tables \<Rightarrow> nat \<times> tables" where
  "update_jobs P f now tb =
     (count_where P (jobs tb), tb\<lparr>jobs := update_where P (f now) (jobs tb)\<rparr>)"

definition unlocked :: "job_status \<Rightarrow> int \<Rightarrow> job \<Rightarrow> job" where
  "unlocked st t j = j\<lparr>j_status := st, j_locked_at := None, j_locked_by := None, j_updated_at := t\<rparr>"

definition ReclaimStaleRunning :: "int \<Rightarrow> nat op" where
  "ReclaimStaleRunning older_than = exec (update_jobs
     (\<lambda>j. j_status j = Running \<and> (case j_locked_at j of None \<Rightarrow> False | Some l \<Rightarrow> l < older_than))
     (unlocked Scheduled))"

definition CompleteJob :: "string \<Rightarrow> unit op" where
  "CompleteJob i = bind_op (exec (update_jobs (\<lambda>j. j_id j = i \<and> j_status j = Running)
     (unlocked Succeeded))) (\<lambda>_. ret ())"

definition RescheduleRecurring :: "string \<Rightarrow> int \<Rightarrow> unit op" where
  "RescheduleRecurring i next_run = bind_op (exec (update_jobs (\<lambda>j. j_id j = i \<and> j_status j = Running)
     (\<lambda>t j. (unlocked Scheduled t j)\<lparr>j_run_at := next_run, j_attempts := 0, j_last_error := None\<rparr>)))
     (\<lambda>_. ret ())"

definition failed_job :: "string \<Rightarrow> int \<Rightarrow> int \<Rightarrow> job \<Rightarrow> job" where
  "failed_job err retry_at t j =
     (let dead = j_attempts j + 1 \<ge> j_max_attempts j in
      (unlocked (if dead then Failed else Scheduled) t j)\<lparr>j_attempts := j_attempts j + 1,
        j_last_error := Some err, j_run_at := (if dead then j_run_at j else retry_at)\<rparr>)"

text \<open>The answer is whether the job was dead-lettered; no row is a lost race, not an error.\<close>

definition FailJob :: "string \<Rightarrow> string \<Rightarrow> int \<Rightarrow> bool op" where
  "FailJob i err retry_at = exec (\<lambda>t tb.
     let P = (\<lambda>j. j_id j = i \<and> j_status j = Running) in
     (case filter P (jobs tb) of
        [] \<Rightarrow> False
      | j # _ \<Rightarrow> j_status (failed_job err retry_at t j) = Failed,
      tb\<lparr>jobs := update_where P (failed_job err retry_at t) (jobs tb)\<rparr>))"

definition BumpScheduledRunAt :: "string \<Rightarrow> int \<Rightarrow> unit op" where
  "BumpScheduledRunAt i run_at =
     bind_op (exec (update_jobs (\<lambda>j. j_id j = i \<and> j_status j = Scheduled)
       (\<lambda>t j. j\<lparr>j_run_at := run_at, j_updated_at := t\<rparr>))) affected_or_missing"

definition live_job :: "job \<Rightarrow> bool" where
  "live_job j \<longleftrightarrow> j_status j = Scheduled \<or> j_status j = Running"

definition CancelJobsForVMID :: "int \<Rightarrow> nat op" where
  "CancelJobsForVMID vmid =
     exec (update_jobs (\<lambda>j. j_vmid j = Some vmid \<and> live_job j) (unlocked Cancelled))"

text \<open>SQL's LIKE: \<^verbatim>\<open>%\<close> any text, \<^verbatim>\<open>_\<close> any character, a backslash quotes the next one.\<close>

fun sql_like :: "string \<Rightarrow> string \<Rightarrow> bool" where
  "sql_like [] s \<longleftrightarrow> s = []"
| "sql_like (c # p) s \<longleftrightarrow>
     (if c = CHR ''%'' then sql_like p s \<or> (case s of [] \<Rightarrow> False | _ # cs \<Rightarrow> sql_like (c # p) cs)
      else if c = CHR ''_'' then (case s of [] \<Rightarrow> False | _ # cs \<Rightarrow> sql_like p cs)
      else if c = char_of (92 :: nat) \<and> p \<noteq> [] then
        (case s of [] \<Rightarrow> False | d # cs \<Rightarrow> d = hd p \<and> sql_like (tl p) cs)
      else (case s of [] \<Rightarrow> False | d # cs \<Rightarrow> d = c \<and> sql_like p cs))"

definition CancelJobsForVMIDByPrefix :: "int \<Rightarrow> string \<Rightarrow> nat op" where
  "CancelJobsForVMIDByPrefix vmid prefix =
     exec (update_jobs (\<lambda>j. j_vmid j = Some vmid \<and> live_job j \<and> sql_like (prefix @ ''%'') (j_handler j))
       (unlocked Cancelled))"

definition GetJob :: "string \<Rightarrow> job op" where
  "GetJob i = query_row (\<lambda>tb. filter (\<lambda>j. j_id j = i) (jobs tb))"

record job_filter =
  jf_tenant_id :: string
  jf_status :: "job_status option"
  jf_vmid :: "int option"
  jf_limit :: int

definition ListJobs :: "job_filter \<Rightarrow> job list op" where
  "ListJobs f = query (\<lambda>tb.
     take (nat (if jf_limit f \<le> 0 then 100 else jf_limit f))
       (rev (sort_key j_run_at (sort_key j_id (filter (\<lambda>j.
          (jf_tenant_id f = '''' \<or> j_tenant_id j = Some (jf_tenant_id f)) \<and>
          (case jf_status f of None \<Rightarrow> True | Some st \<Rightarrow> j_status j = st) \<and>
          (case jf_vmid f of None \<Rightarrow> True | Some v \<Rightarrow> j_vmid j = Some v)) (jobs tb))))))"

section \<open>The table invariant\<close>

definition wf_job :: "job \<Rightarrow> bool" where
  "wf_job j \<longleftrightarrow> (j_status j = Running \<longleftrightarrow> j_locked_at j \<noteq> None) \<and>
     (j_status j = Running \<longleftrightarrow> j_locked_by j \<noteq> None) \<and>
     0 \<le> j_attempts j \<and> 1 \<le> j_max_attempts j \<and> j_attempts j \<le> j_max_attempts j \<and>
     (live_job j \<longrightarrow> j_attempts j < j_max_attempts j) \<and>
     (j_status j = Failed \<longrightarrow> j_attempts j = j_max_attempts j)"

definition wf_jobs :: "db \<Rightarrow> bool" where
  "wf_jobs d \<longleftrightarrow> inj (uuids d) \<and> distinct (map j_id (jobs (tabs d))) \<and>
     (\<forall>j \<in> set (jobs (tabs d)). wf_job j \<and> j_id j \<in> uuids d ` {..<drawn d})"

lemma wf_jobsD:
  assumes "wf_jobs d"
  shows "inj (uuids d)" "distinct (map j_id (jobs (tabs d)))"
    "j \<in> set (jobs (tabs d)) \<Longrightarrow> wf_job j"
    "j \<in> set (jobs (tabs d)) \<Longrightarrow> j_id j \<in> uuids d ` {..<drawn d}"
  using assms by (auto simp: wf_jobs_def)

lemma wf_jobs_update:
  assumes wf: "wf_jobs d" and ids: "\<And>j. j_id (f j) = j_id j"
    and f: "\<And>j. wf_job j \<Longrightarrow> P j \<Longrightarrow> wf_job (f j)"
    and d': "uuids d' = uuids d" "drawn d' = drawn d"
      "jobs (tabs d') = update_where P f (jobs (tabs d))"
  shows "wf_jobs d'"
  using wf ids f d' unfolding wf_jobs_def by (auto simp: table_simps in_update_where)

lemma wf_jobs_cong:
  "\<lbrakk>wf_jobs d; uuids d' = uuids d; drawn d \<le> drawn d'; jobs (tabs d') = jobs (tabs d)\<rbrakk> \<Longrightarrow> wf_jobs d'"
  unfolding wf_jobs_def by fastforce

lemma exec_update_jobs:
  "snd (exec (update_jobs P f) d) \<in>
     {pop_fault d, (pop_fault d)\<lparr>tabs := (tabs d)\<lparr>jobs := update_where P (f (clock d)) (jobs (tabs d))\<rparr>\<rparr>}"
  by (simp add: exec_def stmt_def update_jobs_def)

lemma bind_exec_snd:
  assumes "\<And>x d. snd (k x d) = d"
  shows "snd (bind_op (exec f) k d) = snd (exec f d)"
  using assms by (simp add: bind_op_def split: prod.split sum.split)

lemma affected_snd [simp]: "snd (affected_or_missing n d) = d"
  by (simp add: affected_or_missing_def)

section \<open>One operation on one job\<close>

text \<open>What any operation may do to a job: only a live one changes, it keeps its identity, and its
  status takes one of the arrows of the state machine.\<close>

definition job_arrows :: "(job_status \<times> job_status) set" where
  "job_arrows = {(Scheduled, Running), (Running, Scheduled), (Running, Succeeded), (Running, Failed),
     (Scheduled, Scheduled), (Scheduled, Cancelled), (Running, Cancelled)}"

definition job_next :: "job \<Rightarrow> job \<Rightarrow> bool" where
  "job_next j j' \<longleftrightarrow> j_id j' = j_id j \<and> j_kind j' = j_kind j \<and> j_handler j' = j_handler j \<and>
     j_vmid j' = j_vmid j \<and> j_tenant_id j' = j_tenant_id j \<and> j_max_attempts j' = j_max_attempts j \<and>
     live_job j \<and> (j_status j, j_status j') \<in> job_arrows \<and> (wf_job j \<longrightarrow> wf_job j')"

lemma unlocked_simps [simp]:
  "j_id (unlocked st t j) = j_id j" "j_status (unlocked st t j) = st" "j_kind (unlocked st t j) = j_kind j"
  "j_handler (unlocked st t j) = j_handler j" "j_vmid (unlocked st t j) = j_vmid j"
  "j_tenant_id (unlocked st t j) = j_tenant_id j" "j_max_attempts (unlocked st t j) = j_max_attempts j"
  "j_attempts (unlocked st t j) = j_attempts j" "j_locked_at (unlocked st t j) = None"
  "j_locked_by (unlocked st t j) = None" "j_run_at (unlocked st t j) = j_run_at j"
  by (simp_all add: unlocked_def)

lemma failed_job_simps [simp]:
  "j_id (failed_job e r t j) = j_id j" "j_kind (failed_job e r t j) = j_kind j"
  "j_handler (failed_job e r t j) = j_handler j" "j_vmid (failed_job e r t j) = j_vmid j"
  "j_tenant_id (failed_job e r t j) = j_tenant_id j" "j_max_attempts (failed_job e r t j) = j_max_attempts j"
  "j_attempts (failed_job e r t j) = j_attempts j + 1" "j_locked_at (failed_job e r t j) = None"
  "j_locked_by (failed_job e r t j) = None" "j_last_error (failed_job e r t j) = Some e"
  "j_status (failed_job e r t j) = (if j_attempts j + 1 \<ge> j_max_attempts j then Failed else Scheduled)"
  "j_run_at (failed_job e r t j) = (if j_attempts j + 1 \<ge> j_max_attempts j then j_run_at j else r)"
  by (simp_all add: failed_job_def Let_def)

lemma claimed_job_simps [simp]:
  "j_id (claimed_job n b t j) = j_id j" "j_kind (claimed_job n b t j) = j_kind j"
  "j_handler (claimed_job n b t j) = j_handler j" "j_vmid (claimed_job n b t j) = j_vmid j"
  "j_tenant_id (claimed_job n b t j) = j_tenant_id j" "j_max_attempts (claimed_job n b t j) = j_max_attempts j"
  "j_attempts (claimed_job n b t j) = j_attempts j" "j_status (claimed_job n b t j) = Running"
  "j_locked_at (claimed_job n b t j) = Some n" "j_locked_by (claimed_job n b t j) = Some b"
  "j_run_at (claimed_job n b t j) = j_run_at j"
  by (simp_all add: claimed_job_def)

lemmas job_next_defs = job_next_def job_arrows_def live_job_def wf_job_def

lemma job_next_claim: "due now j \<Longrightarrow> job_next j (claimed_job n b t j)"
  by (auto simp: job_next_defs due_def)

lemma job_next_unlock:
  "\<lbrakk>j_status j = Running; st = Scheduled \<or> st = Succeeded\<rbrakk> \<Longrightarrow> job_next j (unlocked st t j)"
  by (auto simp: job_next_defs)

lemma job_next_cancel: "live_job j \<Longrightarrow> job_next j (unlocked Cancelled t j)"
  by (auto simp: job_next_defs)

lemma job_next_reschedule:
  "j_status j = Running \<Longrightarrow>
   job_next j ((unlocked Scheduled t j)\<lparr>j_run_at := n, j_attempts := 0, j_last_error := None\<rparr>)"
  by (auto simp: job_next_defs)

lemma job_next_fail: "j_status j = Running \<Longrightarrow> job_next j (failed_job e r t j)"
  by (auto simp: job_next_defs)

lemma job_next_bump: "j_status j = Scheduled \<Longrightarrow> job_next j (j\<lparr>j_run_at := r, j_updated_at := t\<rparr>)"
  by (auto simp: job_next_defs)

text \<open>The jobs a claim picks are due.\<close>

lemma due_ids_due:
  assumes "distinct (map j_id js)" and "j \<in> set js" and "j_id j \<in> set (due_ids now n js)"
  shows "due now j"
proof -
  obtain k where k: "k \<in> set (take (nat n) (sort_key j_run_at (filter (due now) js)))" "j_id k = j_id j"
    using assms(3) by (auto simp: due_ids_def)
  then have "k \<in> set js" "due now k"
    using in_set_takeD by fastforce+
  with distinct_key_unique[OF assms(1) _ assms(2) k(2)] show ?thesis by auto
qed

section \<open>Runs of the queue\<close>

inductive job_step :: "db \<Rightarrow> db \<Rightarrow> bool" where
  enqueue: "job_step d (snd (EnqueueJob p d))"
| claim: "job_step d (snd (ClaimDueJobs now limit by d))"
| reclaim: "job_step d (snd (ReclaimStaleRunning t d))"
| complete: "job_step d (snd (CompleteJob i d))"
| reschedule: "job_step d (snd (RescheduleRecurring i n d))"
| fail: "job_step d (snd (FailJob i e r d))"
| bump: "job_step d (snd (BumpScheduledRunAt i r d))"
| cancel: "job_step d (snd (CancelJobsForVMID v d))"
| cancel_prefix: "job_step d (snd (CancelJobsForVMIDByPrefix v pre d))"
| time: "clock d \<le> t \<Longrightarrow> job_step d (d\<lparr>clock := t, faults := fs\<rparr>)"

text \<open>Every step but an insertion is an update of live jobs along the arrows.\<close>

definition updates_to :: "db \<Rightarrow> db \<Rightarrow> bool" where
  "updates_to d d' \<longleftrightarrow> uuids d' = uuids d \<and> drawn d \<le> drawn d' \<and>
     (\<exists>P f. jobs (tabs d') = update_where P f (jobs (tabs d)) \<and>
       (\<forall>j \<in> set (jobs (tabs d)). P j \<longrightarrow> job_next j (f j)))"

lemma updates_to_same:
  "\<lbrakk>uuids d' = uuids d; drawn d \<le> drawn d'; jobs (tabs d') = jobs (tabs d)\<rbrakk> \<Longrightarrow> updates_to d d'"
  unfolding updates_to_def by (intro conjI exI[of _ "\<lambda>_. False"]) simp_all

lemma updates_toI:
  "\<lbrakk>jobs (tabs d') = update_where P f (jobs (tabs d)); uuids d' = uuids d; drawn d' = drawn d;
    \<And>j. j \<in> set (jobs (tabs d)) \<Longrightarrow> P j \<Longrightarrow> job_next j (f j)\<rbrakk> \<Longrightarrow> updates_to d d'"
  unfolding updates_to_def by auto

lemma updates_to_exec:
  assumes "\<And>j t. j \<in> set (jobs (tabs d)) \<Longrightarrow> P j \<Longrightarrow> job_next j (f t j)"
  shows "updates_to d (snd (exec (update_jobs P f) d))"
proof (cases "next_fails d")
  case True
  then show ?thesis by (auto simp: exec_def stmt_def intro: updates_to_same)
next
  case False
  then have "jobs (tabs (snd (exec (update_jobs P f) d))) = update_where P (f (clock d)) (jobs (tabs d))"
    "uuids (snd (exec (update_jobs P f) d)) = uuids d" "drawn (snd (exec (update_jobs P f) d)) = drawn d"
    by (simp_all add: exec_def stmt_def update_jobs_def)
  then show ?thesis using assms by (rule updates_toI)
qed

lemma updates_to_claim:
  assumes "distinct (map j_id (jobs (tabs d)))"
  shows "updates_to d (snd (ClaimDueJobs now limit by d))"
proof (cases "next_fails d")
  case True
  then show ?thesis by (auto simp: ClaimDueJobs_def exec_def stmt_def intro: updates_to_same)
next
  case False
  let ?ids = "due_ids now (if limit \<le> 0 then 10 else limit) (jobs (tabs d))"
  have "jobs (tabs (snd (ClaimDueJobs now limit by d)))
      = update_where (\<lambda>j. j_id j \<in> set ?ids) (claimed_job now by (clock d)) (jobs (tabs d))"
    "uuids (snd (ClaimDueJobs now limit by d)) = uuids d" "drawn (snd (ClaimDueJobs now limit by d)) = drawn d"
    using False by (simp_all add: ClaimDueJobs_def exec_def stmt_def Let_def)
  then show ?thesis
  proof (rule updates_toI)
    fix j assume "j \<in> set (jobs (tabs d))" "j_id j \<in> set ?ids"
    from due_ids_due[OF assms this] show "job_next j (claimed_job now by (clock d) j)"
      by (rule job_next_claim)
  qed
qed

lemma updates_to_fail: "updates_to d (snd (FailJob i e r d))"
proof (cases "next_fails d")
  case True
  then show ?thesis by (auto simp: FailJob_def exec_def stmt_def intro: updates_to_same)
next
  case False
  then have "jobs (tabs (snd (FailJob i e r d)))
      = update_where (\<lambda>j. j_id j = i \<and> j_status j = Running) (failed_job e r (clock d)) (jobs (tabs d))"
    "uuids (snd (FailJob i e r d)) = uuids d" "drawn (snd (FailJob i e r d)) = drawn d"
    by (simp_all add: FailJob_def exec_def stmt_def Let_def)
  then show ?thesis
    by (rule updates_toI) (simp add: job_next_fail)
qed

lemma job_step_update:
  assumes "job_step d d'" and "wf_jobs d"
  shows "(\<exists>p. d' = snd (EnqueueJob p d)) \<or> updates_to d d'"
  using assms
proof (cases rule: job_step.cases)
  case (time t fs)
  then show ?thesis by (auto intro: updates_to_same)
next
  case (claim now limit who)
  then show ?thesis using updates_to_claim[OF wf_jobsD(2)[OF assms(2)]] by blast
qed (auto simp: CompleteJob_def RescheduleRecurring_def BumpScheduledRunAt_def bind_exec_snd
      ReclaimStaleRunning_def CancelJobsForVMID_def CancelJobsForVMIDByPrefix_def
      intro!: updates_to_exec updates_to_fail
      intro: job_next_unlock job_next_reschedule job_next_bump job_next_cancel)

lemma job_step_cases:
  assumes "job_step d d'" and "wf_jobs d"
  obtains (insert) p where "d' = snd (EnqueueJob p d)" | (update) "updates_to d d'"
  using job_step_update[OF assms] by blast

lemma EnqueueJob_wf:
  assumes wf: "wf_jobs d"
  shows "wf_jobs (snd (EnqueueJob p d))"
proof (cases "EnqueueJob p d")
  case (Pair r d')
  show ?thesis
  proof (cases r)
    case (Inl e)
    with Pair have "jobs (tabs d') = jobs (tabs d)" "uuids d' = uuids d" "drawn d \<le> drawn d'"
      by (auto simp: EnqueueJob_def insert_row_def stmt_def Let_def split: if_splits)
    with wf Pair show ?thesis by (auto intro: wf_jobs_cong)
  next
    case (Inr j)
    with Pair have j: "j = new_job p (uuids d (drawn d)) (clock d)" "jobs (tabs d') = jobs (tabs d) @ [j]"
      "uuids d' = uuids d" "drawn d' = Suc (drawn d)"
      by (auto simp: EnqueueJob_def op_elims split: if_splits)
    have "uuids d (drawn d) \<notin> j_id ` set (jobs (tabs d))"
      using wf by (fastforce simp: wf_jobs_def inj_on_def)
    with wf j Pair show ?thesis
      unfolding wf_jobs_def
      by (auto simp: new_job_def wf_job_def live_job_def job_max_attempts_def lessThan_Suc image_iff)
  qed
qed

lemma updates_to_wf:
  assumes "wf_jobs d" and "updates_to d d'"
  shows "wf_jobs d'"
proof -
  obtain P f where js: "jobs (tabs d') = update_where P f (jobs (tabs d))"
    and next_j: "\<And>j. j \<in> set (jobs (tabs d)) \<Longrightarrow> P j \<Longrightarrow> job_next j (f j)"
    and u: "uuids d' = uuids d" "drawn d \<le> drawn d'"
    using assms(2) by (auto simp: updates_to_def)
  have "map j_id (jobs (tabs d')) = map j_id (jobs (tabs d))"
    unfolding js update_where_def using next_j by (auto simp: job_next_def)
  moreover have "wf_job j' \<and> j_id j' \<in> uuids d' ` {..<drawn d'}" if j': "j' \<in> set (jobs (tabs d'))" for j'
  proof -
    obtain j where j: "j \<in> set (jobs (tabs d))" "j' = (if P j then f j else j)"
      using j' unfolding js in_update_where by blast
    then have "wf_job j'" "j_id j' = j_id j"
      using next_j[of j] wf_jobsD(3)[OF assms(1), of j] by (auto simp: job_next_def)
    moreover have "uuids d ` {..<drawn d} \<subseteq> uuids d' ` {..<drawn d'}"
      using u by auto
    ultimately show ?thesis
      using wf_jobsD(4)[OF assms(1) j(1)] by auto
  qed
  ultimately show ?thesis
    using wf_jobsD(1,2)[OF assms(1)] u by (simp add: wf_jobs_def)
qed

lemma job_step_wf: "job_step d d' \<Longrightarrow> wf_jobs d \<Longrightarrow> wf_jobs d'"
  by (erule job_step_cases) (auto intro: EnqueueJob_wf updates_to_wf)

text \<open>How a job with a given identifier looks after one step.\<close>

lemma job_step_next:
  assumes step: "job_step d d'" and wf: "wf_jobs d"
    and j: "j \<in> set (jobs (tabs d))" and j': "j' \<in> set (jobs (tabs d'))" "j_id j' = j_id j"
  shows "j' = j \<or> job_next j j'"
  using step wf
proof (cases rule: job_step_cases)
  case (insert p)
  have "wf_jobs d'" using job_step_wf[OF step wf] .
  moreover have "j \<in> set (jobs (tabs d'))"
    using insert j by (auto simp: EnqueueJob_def insert_row_def stmt_def Let_def)
  ultimately show ?thesis
    using distinct_key_unique[OF wf_jobsD(2)] j' by blast
next
  case update
  then obtain P f where js: "jobs (tabs d') = update_where P f (jobs (tabs d))"
    and next_j: "\<And>j. j \<in> set (jobs (tabs d)) \<Longrightarrow> P j \<Longrightarrow> job_next j (f j)"
    by (auto simp: updates_to_def)
  obtain k where k: "k \<in> set (jobs (tabs d))" "j' = (if P k then f k else k)"
    using j'(1) unfolding js in_update_where by blast
  then have "j_id k = j_id j"
    using j'(2) next_j[of k] by (auto simp: job_next_def split: if_splits)
  with distinct_key_unique[OF wf_jobsD(2)[OF wf] k(1) j] k next_j[of k] show ?thesis
    by (auto split: if_splits)
qed

lemma job_step_keeps_ids:
  assumes "job_step d d'" and "wf_jobs d"
  shows "j_id ` set (jobs (tabs d)) \<subseteq> j_id ` set (jobs (tabs d'))"
  using assms
proof (cases rule: job_step_cases)
  case (insert p)
  then show ?thesis by (auto simp: EnqueueJob_def insert_row_def stmt_def Let_def)
next
  case update
  then obtain P f where js: "jobs (tabs d') = update_where P f (jobs (tabs d))"
    and next_j: "\<And>j. j \<in> set (jobs (tabs d)) \<Longrightarrow> P j \<Longrightarrow> j_id (f j) = j_id j"
    by (auto simp: updates_to_def job_next_def)
  have "map j_id (jobs (tabs d')) = map j_id (jobs (tabs d))"
    unfolding js update_where_def using next_j by auto
  then show ?thesis by (metis list.set_map subset_refl)
qed

lemma terminal_kept:
  assumes "job_step d d'" and wf: "wf_jobs d" and j: "j \<in> set (jobs (tabs d))" "\<not> live_job j"
  shows "j \<in> set (jobs (tabs d'))"
proof -
  obtain j' where "j' \<in> set (jobs (tabs d'))" "j_id j' = j_id j"
    using subsetD[OF job_step_keeps_ids[OF assms(1) wf] imageI[OF j(1)]] by (auto simp: eq_commute)
  with job_step_next[OF assms(1) wf j(1) this] j(2) show ?thesis
    by (auto simp: job_next_def)
qed

section \<open>Claims\<close>


lemma ClaimDueJobs_Inr:
  assumes "ClaimDueJobs now limit who d = (Inr js, d')"
  shows "jobs (tabs d') = update_where (\<lambda>j. j_id j \<in> set (due_ids now (if limit \<le> 0 then 10 else limit) (jobs (tabs d))))
       (claimed_job now who (clock d)) (jobs (tabs d))"
    and "js = filter (\<lambda>j. j_id j \<in> set (due_ids now (if limit \<le> 0 then 10 else limit) (jobs (tabs d)))) (jobs (tabs d'))"
    and "uuids d' = uuids d" "drawn d' = drawn d" "clock d' = clock d"
    and "tabs d' = (tabs d)\<lparr>jobs := jobs (tabs d')\<rparr>"
  using assms by (auto simp: ClaimDueJobs_def op_elims Let_def)





definition sample_job :: "string \<Rightarrow> int \<Rightarrow> job_status \<Rightarrow> job" where
  "sample_job i t st = \<lparr>j_id = i, j_kind = OneShot, j_handler = ''ttl.expire'', j_tenant_id = Some ''t1'',
     j_project_id = Some ''p1'', j_vmid = Some 100, j_payload = ''{}'', j_cron = None, j_timezone = None,
     j_run_at = t, j_status = st, j_attempts = 0, j_max_attempts = 2, j_last_error = None,
     j_locked_at = (if st = Running then Some 5 else None), j_locked_by = (if st = Running then Some ''a'' else None),
     j_missed_policy = RunLate, j_created_at = 0, j_updated_at = 0\<rparr>"

abbreviation job_db :: db where
  "job_db \<equiv> sample_db (sample_tables\<lparr>jobs := [sample_job (sample_uuids 1) 30 Scheduled,
     sample_job (sample_uuids 2) 20 Scheduled, sample_job (sample_uuids 3) 10 Succeeded]\<rparr>)"

lemma job_db_wf: "wf_jobs job_db"
  by (simp add: wf_jobs_def wf_job_def live_job_def sample_job_def inj_eq[OF inj_sample_uuids])


section \<open>The interface the scheduler relies on\<close>

locale work_queue =
  fixes invar :: "'s \<Rightarrow> bool"
    and rows :: "'s \<Rightarrow> job list"
    and step :: "'s \<Rightarrow> 's \<Rightarrow> bool"
    and claim :: "int \<Rightarrow> int \<Rightarrow> string \<Rightarrow> 's \<Rightarrow> (store_error + job list) \<times> 's"
  assumes keys: "invar s \<Longrightarrow> distinct (map j_id (rows s))"
    and step_invar: "\<lbrakk>step s s'; invar s\<rbrakk> \<Longrightarrow> invar s'"
    and frozen: "\<lbrakk>step s s'; invar s; j \<in> set (rows s); \<not> live_job j\<rbrakk> \<Longrightarrow> j \<in> set (rows s')"
    and claim_step: "step s (snd (claim now n who s))"
    and claimed: "\<lbrakk>invar s; claim now n who s = (Inr js, s'); j \<in> set js\<rbrakk> \<Longrightarrow>
      j \<in> set (rows s') \<and> j_status j = Running \<and>
      (\<exists>j0 \<in> set (rows s). j_id j0 = j_id j \<and> j_status j0 = Scheduled)"
begin

lemma run_invar: "\<lbrakk>step\<^sup>*\<^sup>* s s'; invar s\<rbrakk> \<Longrightarrow> invar s'"
  by (induction rule: rtranclp_induct) (auto intro: step_invar)

lemma run_frozen: "\<lbrakk>step\<^sup>*\<^sup>* s s'; invar s; j \<in> set (rows s); \<not> live_job j\<rbrakk> \<Longrightarrow> j \<in> set (rows s')"
  by (induction rule: rtranclp_induct) (auto intro: frozen run_invar)

text \<open>Two workers that claim one after the other never hold the same job.\<close>

lemma claims_disjoint:
  assumes "invar s" and "claim now n who s = (Inr js, s1)" and "claim now' n' who' s1 = (Inr js', s2)"
    and "j \<in> set js" and "j' \<in> set js'"
  shows "j_id j \<noteq> j_id j'"
proof
  assume eq: "j_id j = j_id j'"
  have s1: "invar s1" using step_invar[OF claim_step assms(1)] assms(2) by (metis snd_conv)
  obtain j0 where "j0 \<in> set (rows s1)" "j_id j0 = j_id j'" "j_status j0 = Scheduled"
    using claimed[OF s1 assms(3,5)] by blast
  moreover have "j \<in> set (rows s1)" "j_status j = Running"
    using claimed[OF assms(1,2,4)] by auto
  ultimately show False
    using distinct_key_unique[OF keys[OF s1]] eq by fastforce
qed

end

lemma ClaimDueJobs_claimed:
  assumes wf: "wf_jobs d" and run: "ClaimDueJobs now n who d = (Inr js, d')" and "j \<in> set js"
  shows "j \<in> set (jobs (tabs d')) \<and> j_status j = Running \<and>
    (\<exists>j0 \<in> set (jobs (tabs d)). j_id j0 = j_id j \<and> j_status j0 = Scheduled)"
proof -
  let ?in = "\<lambda>j. j_id j \<in> set (due_ids now (if n \<le> 0 then 10 else n) (jobs (tabs d)))"
  have j: "j \<in> set (jobs (tabs d'))" "?in j"
    using assms(3) unfolding ClaimDueJobs_Inr(2)[OF run] by simp_all
  then obtain j0 where j0: "j0 \<in> set (jobs (tabs d))" "j = (if ?in j0 then claimed_job now who (clock d) j0 else j0)"
    unfolding ClaimDueJobs_Inr(1)[OF run] in_update_where by blast
  with j(2) have "?in j0" by (auto split: if_splits)
  with j0 j(1) due_ids_due[OF wf_jobsD(2)[OF wf] j0(1)] show ?thesis
    by (auto simp: due_def)
qed

interpretation pg_jobs: work_queue wf_jobs "\<lambda>d. jobs (tabs d)" job_step ClaimDueJobs
proof (unfold_locales, goal_cases)
  case (1 s) then show ?case by (rule wf_jobsD)
next
  case (2 s s') then show ?case by (rule job_step_wf)
next
  case (3 s s' j) then show ?case by (rule terminal_kept)
next
  case (4 s now n who) show ?case by (rule job_step.claim)
next
  case (5 s now n who js s' j) then show ?case by (rule ClaimDueJobs_claimed)
qed

text \<open>C14: the job queue keeps its invariant and never reopens a finished job. Over any sequence of
  queue operations, with any statement failures, identifiers stay unique, a job carries a claim
  exactly while it runs, a scheduled or running job always has attempts left, a failed one has
  used all of them; and a job that has succeeded, failed or been cancelled stays in the table
  exactly as it is.\<close>

theorem job_runs_safe:
  assumes "job_step\<^sup>*\<^sup>* d d'" and "wf_jobs d"
  shows "wf_jobs d' \<and> (\<forall>j. j \<in> set (jobs (tabs d)) \<and> j_status j \<in> {Succeeded, Failed, Cancelled}
     \<longrightarrow> j \<in> set (jobs (tabs d')))"
  using pg_jobs.run_invar[OF assms] pg_jobs.run_frozen[OF assms] by (auto simp: live_job_def)

theorem job_runs_safe_witness:
  "sample_job (sample_uuids 3) 10 Succeeded \<in>
     set (jobs (tabs (snd (FailJob (sample_uuids 3) ''late'' 99 (snd (ClaimDueJobs 50 5 ''b'' job_db))))))"
proof -
  have "job_step\<^sup>*\<^sup>* job_db (snd (FailJob (sample_uuids 3) ''late'' 99 (snd (ClaimDueJobs 50 5 ''b'' job_db))))"
    by (meson job_step.claim job_step.fail r_into_rtranclp rtranclp.rtrancl_into_rtrancl)
  from job_runs_safe[OF this job_db_wf] show ?thesis
    by (auto simp: sample_job_def)
qed

text \<open>two schedulers never run the same job at once. Jobs returned by a claim are not returned by
  a later claim, as long as no operation in between has put them back.\<close>

theorem claims_never_overlap:
  assumes "wf_jobs d" and "ClaimDueJobs now n who d = (Inr js, d1)"
    and "ClaimDueJobs now' n' who' d1 = (Inr js', d2)"
  shows "j_id ` set js \<inter> j_id ` set js' = {}"
  using pg_jobs.claims_disjoint[OF assms] by auto

theorem claims_never_overlap_witness:
  "succeeds (ClaimDueJobs 50 1 ''a'' job_db) (\<lambda>js d1. succeeds (ClaimDueJobs 50 5 ''b'' d1)
     (\<lambda>js' d2. j_id ` set js \<inter> j_id ` set js' = {} \<and> length js' = 1))"
proof -
  have "succeeds (ClaimDueJobs 50 1 ''a'' job_db) (\<lambda>js d1. succeeds (ClaimDueJobs 50 5 ''b'' d1)
     (\<lambda>js' d2. length js' = 1))"
    by code_simp
  then show ?thesis
  proof (elim succeedsE)
    fix js d1 js' d2
    assume run: "ClaimDueJobs 50 1 ''a'' job_db = (Inr js, d1)" "ClaimDueJobs 50 5 ''b'' d1 = (Inr js', d2)"
      and "length js' = 1"
    with claims_never_overlap[OF job_db_wf run] show ?thesis
      by (intro succeedsI[OF run(1)] succeedsI[OF run(2)]) simp
  qed
qed

text \<open>After a guest's jobs are cancelled none of them is live.\<close>

lemma CancelJobsForVMID_clears:
  assumes "CancelJobsForVMID v d = (Inr n, d')" and "j \<in> set (jobs (tabs d'))" and "j_vmid j = Some v"
  shows "\<not> live_job j"
  using assms
  by (auto simp: CancelJobsForVMID_def op_elims update_jobs_def set_update_where live_job_def split: if_splits)

end
