(* ===== verification/Scheduler.thy ===== *)
theory Scheduler
  imports Store_Jobs
begin

text \<open>
  The job scheduler (\<^verbatim>\<open>internal/scheduler/scheduler.go\<close>): one tick reclaims stale claims, claims due
  jobs and processes each of them to a settled state. Job handlers are arbitrary functions of the
  job and the database that return, fail or panic. A tick processes its jobs in claim order; the
  code runs up to \<^verbatim>\<open>MaxConcurrent\<close> of them at a time. The cron library and the time-zone
  database are parameters of \<open>NextCron\<close>. Errors of the settling statements are logged by the
  code, so the settling functions return the database alone.
\<close>

section \<open>Configuration\<close>

record scheduler =
  sd_instance :: string
  sd_claim_limit :: int
  sd_max_concurrent :: int
  sd_handler_timeout :: int
  sd_stale_after :: int
  sd_base_backoff :: int
  sd_max_backoff :: int
  sd_missed_threshold :: int

definition or_default :: "int \<Rightarrow> int \<Rightarrow> int" where
  "or_default v dflt = (if v > 0 then v else dflt)"

definition instanceID :: "scheduler \<Rightarrow> string" where
  "instanceID s = (if sd_instance s \<noteq> '''' then sd_instance s else ''scheduler'')"

definition claimLimit :: "scheduler \<Rightarrow> int" where
  "claimLimit s = or_default (sd_claim_limit s) 20"

definition maxConcurrent :: "scheduler \<Rightarrow> int" where
  "maxConcurrent s = or_default (sd_max_concurrent s) 8"

definition handlerTimeout :: "scheduler \<Rightarrow> int" where
  "handlerTimeout s = or_default (sd_handler_timeout s) (10 * minute)"

definition staleAfter :: "scheduler \<Rightarrow> int" where
  "staleAfter s = or_default (sd_stale_after s) (15 * minute)"

definition missedThreshold :: "scheduler \<Rightarrow> int" where
  "missedThreshold s = or_default (sd_missed_threshold s) (2 * minute)"

section \<open>Backoff and cron\<close>

fun backoff_loop :: "nat \<Rightarrow> int \<Rightarrow> int \<Rightarrow> int" where
  "backoff_loop 0 d m = d"
| "backoff_loop (Suc n) d m = (if d < m then backoff_loop n (wrap64 (d * 2)) m else d)"

definition backoff :: "scheduler \<Rightarrow> int \<Rightarrow> int" where
  "backoff s attempts =
     (let base = or_default (sd_base_backoff s) (30 * second);
          m = or_default (sd_max_backoff s) hour;
          d = backoff_loop (nat attempts) base m
      in if d > m then m else d)"

text \<open>\<open>parse\<close> is \<^verbatim>\<open>cron.ParseStandard\<close>: an error text or the schedule, which maps a location and a time
  to the next activation; \<open>load\<close> is \<^verbatim>\<open>time.LoadLocation\<close>; \<open>utc\<close> is \<^verbatim>\<open>time.UTC\<close>.\<close>

record 'loc cron_lib =
  parse_standard :: "string \<Rightarrow> string + ('loc \<Rightarrow> int \<Rightarrow> int)"
  load_location :: "string \<Rightarrow> string + 'loc"
  utc :: "'loc"

definition go_quote :: "string \<Rightarrow> string" where
  "go_quote s = [char_of (34 :: nat)] @
     concat (map (\<lambda>c. if c = char_of (34 :: nat) \<or> c = char_of (92 :: nat) then [char_of (92 :: nat), c] else [c]) s)
     @ [char_of (34 :: nat)]"

definition NextCron :: "'loc cron_lib \<Rightarrow> string \<Rightarrow> string \<Rightarrow> int \<Rightarrow> string + int" where
  "NextCron lib expr tz after = (case parse_standard lib expr of
      Inl e \<Rightarrow> Inl (''parse cron '' @ go_quote expr @ '': '' @ e)
    | Inr sched \<Rightarrow>
        if tz = '''' then Inr (sched (utc lib) after)
        else (case load_location lib tz of
            Inl e \<Rightarrow> Inl (''load timezone '' @ go_quote tz @ '': '' @ e)
          | Inr loc \<Rightarrow> Inr (sched loc after)))"

section \<open>Processing a job\<close>

datatype handler_result = HandlerOK | HandlerError string | HandlerPanic string

type_synonym job_handler = "job \<Rightarrow> db \<Rightarrow> handler_result \<times> db"

definition fail :: "scheduler \<Rightarrow> job \<Rightarrow> int \<Rightarrow> string \<Rightarrow> db \<Rightarrow> db" where
  "fail s j now cause d = snd (FailJob (j_id j) cause (now + backoff s (j_attempts j)) d)"

definition reschedule :: "'loc cron_lib \<Rightarrow> scheduler \<Rightarrow> job \<Rightarrow> int \<Rightarrow> db \<Rightarrow> db" where
  "reschedule lib s j now d = (case j_cron j of
      None \<Rightarrow> fail s j now ''recurring job has no cron expression'' d
    | Some c \<Rightarrow>
        if c = '''' then fail s j now ''recurring job has no cron expression'' d
        else (case NextCron lib c (case j_timezone j of None \<Rightarrow> '''' | Some tz \<Rightarrow> tz) now of
            Inl e \<Rightarrow> fail s j now (''compute next cron: '' @ e) d
          | Inr n \<Rightarrow> snd (RescheduleRecurring (j_id j) n d)))"

definition settleSuccess :: "'loc cron_lib \<Rightarrow> scheduler \<Rightarrow> job \<Rightarrow> int \<Rightarrow> db \<Rightarrow> db" where
  "settleSuccess lib s j now d =
     (if j_kind j = Recurring then reschedule lib s j now d else snd (CompleteJob (j_id j) d))"

definition settleSkip :: "'loc cron_lib \<Rightarrow> scheduler \<Rightarrow> job \<Rightarrow> int \<Rightarrow> db \<Rightarrow> db" where
  "settleSkip lib s j now d =
     (if j_kind j = Recurring then reschedule lib s j now d else snd (CompleteJob (j_id j) d))"

text \<open>The error of a handler, whether it came from a panic, and the database it left.\<close>

definition runHandler :: "job_handler \<Rightarrow> job \<Rightarrow> db \<Rightarrow> (string option \<times> bool) \<times> db" where
  "runHandler h j d = (case h j d of
      (HandlerOK, d1) \<Rightarrow> ((None, False), d1)
    | (HandlerError e, d1) \<Rightarrow> ((Some e, False), d1)
    | (HandlerPanic v, d1) \<Rightarrow> ((Some (''handler panicked: '' @ v), True), d1))"

text \<open>\<open>cancelled\<close> says whether the tick's context was cancelled when the handler returned.\<close>

definition process :: "'loc cron_lib \<Rightarrow> scheduler \<Rightarrow> (string \<Rightarrow> job_handler option) \<Rightarrow> bool \<Rightarrow>
  job \<Rightarrow> int \<Rightarrow> db \<Rightarrow> db" where
  "process lib s handlers cancelled j now d =
     (if j_missed_policy j = Skip \<and> now - j_run_at j > missedThreshold s then settleSkip lib s j now d
      else case handlers (j_handler j) of
        None \<Rightarrow> fail s j now (''no handler registered for '' @ go_quote (j_handler j)) d
      | Some h \<Rightarrow> (case runHandler h j d of
            ((Some err, panicked), d1) \<Rightarrow>
              if \<not> panicked \<and> cancelled then d1 else fail s j now err d1
          | ((None, panicked), d1) \<Rightarrow> settleSuccess lib s j now d1))"

definition Tick :: "'loc cron_lib \<Rightarrow> scheduler \<Rightarrow> (string \<Rightarrow> job_handler option) \<Rightarrow> bool \<Rightarrow> int \<Rightarrow>
  db \<Rightarrow> nat \<times> db" where
  "Tick lib s handlers cancelled now d =
     (let d1 = snd (ReclaimStaleRunning (now - staleAfter s) d) in
      case ClaimDueJobs now (claimLimit s) (instanceID s) d1 of
        (Inl e, d2) \<Rightarrow> (0, d2)
      | (Inr claimed, d2) \<Rightarrow>
          (length claimed, foldl (\<lambda>d j. process lib s handlers cancelled j now d) d2 claimed))"

section \<open>Backoff in closed form\<close>

lemma one_le_two_power [simp]: "1 \<le> (2 :: int) ^ n"
  by (rule one_le_power) simp

lemma backoff_loop_closed:
  assumes "0 < d" and "m < 2 ^ 62" and "d \<le> m"
  shows "min m (backoff_loop n d m) = min m (d * 2 ^ n)"
  using assms
proof (induction n arbitrary: d)
  case 0
  then show ?case by simp
next
  case (Suc n)
  consider "d = m" | "d < m" "d * 2 \<le> m" | "d < m" "m < d * 2"
    using Suc.prems by linarith
  then show ?case
  proof cases
    case 1
    moreover have "m * 1 \<le> m * 2 ^ Suc n"
      using Suc.prems 1 by (intro mult_left_mono one_le_two_power) simp
    ultimately show ?thesis by (simp add: min_def)
  next
    case 2
    moreover have "wrap64 (d * 2) = d * 2"
      using Suc.prems by (intro wrap64_id) (simp add: int64_range_def)
    ultimately show ?thesis
      using Suc.IH[of "d * 2"] Suc.prems by (simp add: mult.assoc)
  next
    case 3
    moreover have "wrap64 (d * 2) = d * 2"
      using Suc.prems by (intro wrap64_id) (simp add: int64_range_def)
    moreover have "backoff_loop n (d * 2) m = d * 2"
      using 3 by (cases n) simp_all
    moreover have "m \<le> d * (2 * 2 ^ n)"
      using Suc.prems 3 mult_left_mono[OF one_le_two_power[of n], of "d * 2"] by (simp only: mult.assoc) linarith
    ultimately show ?thesis
      by (simp add: min_def mult.assoc)
  qed
qed

text \<open>retries back off exponentially and the delay is capped. With the base no larger than the cap
  and the cap below 2^62 nanoseconds (146 years), the delay after n failures is the base times
  2^n, or the cap once that is larger; the doubling never overflows.\<close>

theorem backoff_closed:
  assumes "base = or_default (sd_base_backoff s) (30 * second)" and "m = or_default (sd_max_backoff s) hour"
    and "base \<le> m" and "m < 2 ^ 62"
  shows "backoff s attempts = min m (base * 2 ^ nat attempts)"
proof -
  have "0 < base" using assms(1) by (simp add: or_default_def second_def split: if_splits)
  moreover have "backoff s attempts = min m (backoff_loop (nat attempts) base m)"
    by (simp add: backoff_def Let_def min_def assms(1,2)[symmetric])
  ultimately show ?thesis using backoff_loop_closed assms(3,4) by simp
qed

definition default_scheduler :: scheduler where
  "default_scheduler = \<lparr>sd_instance = '''', sd_claim_limit = 0, sd_max_concurrent = 0, sd_handler_timeout = 0,
     sd_stale_after = 0, sd_base_backoff = 0, sd_max_backoff = 0, sd_missed_threshold = 0\<rparr>"

theorem backoff_closed_witness:
  "backoff default_scheduler 3 = 240 * second \<and> backoff default_scheduler 10 = hour"
  using backoff_closed[of "30 * second" default_scheduler hour 3] backoff_closed[of "30 * second" default_scheduler hour 10]
  by (simp add: or_default_def default_scheduler_def hour_def minute_def second_def)

section \<open>What processing does to the queue\<close>

text \<open>The settling statements, all guarded on the job still running under this identifier.\<close>

definition running :: "string \<Rightarrow> job \<Rightarrow> bool" where
  "running i j \<longleftrightarrow> j_id j = i \<and> j_status j = Running"

definition running_ids :: "db \<Rightarrow> string set" where
  "running_ids d = {j_id j |j. j \<in> set (jobs (tabs d)) \<and> j_status j = Running}"

lemma CompleteJob_ok:
  "faults d = [] \<Longrightarrow> snd (CompleteJob i d) =
     d\<lparr>tabs := (tabs d)\<lparr>jobs := update_where (running i) (unlocked Succeeded (clock d)) (jobs (tabs d))\<rparr>\<rparr>"
  by (simp add: CompleteJob_def bind_op_def update_jobs_def running_def[abs_def])

lemma RescheduleRecurring_ok:
  "faults d = [] \<Longrightarrow> snd (RescheduleRecurring i n d) =
     d\<lparr>tabs := (tabs d)\<lparr>jobs := update_where (running i) (\<lambda>j. (unlocked Scheduled (clock d) j)\<lparr>j_run_at := n,
       j_attempts := 0, j_last_error := None\<rparr>) (jobs (tabs d))\<rparr>\<rparr>"
  by (simp add: RescheduleRecurring_def bind_op_def update_jobs_def running_def[abs_def])

lemma fail_ok:
  "faults d = [] \<Longrightarrow> fail s j now e d =
     d\<lparr>tabs := (tabs d)\<lparr>jobs := update_where (running (j_id j))
       (failed_job e (now + backoff s (j_attempts j)) (clock d)) (jobs (tabs d))\<rparr>\<rparr>"
  by (simp add: fail_def FailJob_def Let_def running_def[abs_def])

lemmas settle_ok = CompleteJob_ok RescheduleRecurring_ok fail_ok

text \<open>A settling function takes its own job out of the running ones and no other job into them.\<close>

definition settles :: "string \<Rightarrow> db \<Rightarrow> db \<Rightarrow> bool" where
  "settles i d d' \<longleftrightarrow> faults d' = [] \<and> running_ids d' \<subseteq> running_ids d - {i}"

lemma settles_update:
  assumes "faults d = []" and "\<And>j. j_status (f j) \<noteq> Running"
  shows "settles i d (d\<lparr>tabs := (tabs d)\<lparr>jobs := update_where (running i) f (jobs (tabs d))\<rparr>\<rparr>)"
  using assms by (auto simp: settles_def running_ids_def running_def set_update_where split: if_splits)

lemma settles_fail: "faults d = [] \<Longrightarrow> settles (j_id j) d (fail s j now e d)"
  by (simp add: fail_ok settles_update)

lemma settles_complete: "faults d = [] \<Longrightarrow> settles i d (snd (CompleteJob i d))"
  by (simp add: CompleteJob_ok settles_update)

lemma settles_reschedule: "faults d = [] \<Longrightarrow> settles (j_id j) d (reschedule lib s j now d)"
  by (simp add: reschedule_def settles_fail RescheduleRecurring_ok settles_update split: option.split sum.split)

lemma settles_settle:
  "faults d = [] \<Longrightarrow> settles (j_id j) d (settleSuccess lib s j now d)"
  "faults d = [] \<Longrightarrow> settles (j_id j) d (settleSkip lib s j now d)"
  by (simp_all add: settleSuccess_def settleSkip_def settles_reschedule settles_complete)

lemma settles_trans:
  "\<lbrakk>settles i d1 d'; running_ids d1 \<subseteq> running_ids d\<rbrakk> \<Longrightarrow> settles i d d'"
  by (auto simp: settles_def)

text \<open>What a handler is trusted with: it may cancel, enqueue and move jobs, but it claims none.\<close>

definition handler_ok :: "job_handler \<Rightarrow> bool" where
  "handler_ok h \<longleftrightarrow> (\<forall>j d. faults d = [] \<longrightarrow>
     faults (snd (h j d)) = [] \<and> running_ids (snd (h j d)) \<subseteq> running_ids d)"

lemma runHandler_ok:
  assumes "handler_ok h" and "faults d = []" and "runHandler h j d = (r, d1)"
  shows "faults d1 = [] \<and> running_ids d1 \<subseteq> running_ids d"
proof -
  have "d1 = snd (h j d)"
    using assms(3) by (auto simp: runHandler_def split: prod.splits handler_result.splits)
  with assms(1,2) show ?thesis by (simp add: handler_ok_def)
qed

lemma process_settles_own:
  assumes "faults d = []" and "\<And>n h. handlers n = Some h \<Longrightarrow> handler_ok h"
  shows "settles (j_id j) d (process lib s handlers False j now d)"
proof (cases "handlers (j_handler j)")
  case None
  with assms(1) show ?thesis by (simp add: process_def settles_settle settles_fail)
next
  case (Some h)
  obtain e p d1 where r: "runHandler h j d = ((e, p), d1)" by (metis prod.exhaust)
  have d1: "faults d1 = []" "running_ids d1 \<subseteq> running_ids d"
    using runHandler_ok[OF assms(2)[OF Some] assms(1) r] by auto
  show ?thesis
    using Some r assms(1) d1
    by (auto simp: process_def settles_settle split: option.split
        intro: settles_trans[OF _ d1(2)] settles_fail settles_settle)
qed

lemma process_all_settles:
  assumes "faults d = []" and "\<And>n h. handlers n = Some h \<Longrightarrow> handler_ok h"
  shows "running_ids (foldl (\<lambda>d j. process lib s handlers False j now d) d js) \<subseteq> running_ids d - j_id ` set js"
  using assms(1)
proof (induction js arbitrary: d)
  case (Cons j js)
  have "settles (j_id j) d (process lib s handlers False j now d)"
    using process_settles_own[OF Cons.prems assms(2)] .
  with Cons.IH[of "process lib s handlers False j now d"] show ?case
    by (auto simp: settles_def)
qed simp

lemma reclaim_running_ids:
  assumes "faults d = []"
  shows "running_ids (snd (ReclaimStaleRunning t d)) \<subseteq>
     {j_id j |j. j \<in> set (jobs (tabs d)) \<and> j_status j = Running \<and> (\<forall>l. j_locked_at j = Some l \<longrightarrow> t \<le> l)}"
    and "faults (snd (ReclaimStaleRunning t d)) = []"
proof -
  let ?stale = "\<lambda>j. j_status j = Running \<and> (case j_locked_at j of None \<Rightarrow> False | Some l \<Rightarrow> l < t)"
  have run: "snd (ReclaimStaleRunning t d) =
      d\<lparr>tabs := (tabs d)\<lparr>jobs := update_where ?stale (unlocked Scheduled (clock d)) (jobs (tabs d))\<rparr>\<rparr>"
    using assms by (simp add: ReclaimStaleRunning_def update_jobs_def)
  then show "faults (snd (ReclaimStaleRunning t d)) = []" using assms by simp
  have "j \<in> set (jobs (tabs d)) \<and> (\<forall>l. j_locked_at j = Some l \<longrightarrow> t \<le> l)"
    if mem: "j \<in> set (update_where ?stale (unlocked Scheduled (clock d)) (jobs (tabs d)))" and st: "j_status j = Running" for j
  proof -
    obtain k where k: "k \<in> set (jobs (tabs d))" "j = (if ?stale k then unlocked Scheduled (clock d) k else k)"
      using mem[unfolded in_update_where] by (rule bexE)
    with st have "\<not> ?stale k" by auto
    with k st show ?thesis by auto
  qed
  then show "running_ids (snd (ReclaimStaleRunning t d)) \<subseteq>
     {j_id j |j. j \<in> set (jobs (tabs d)) \<and> j_status j = Running \<and> (\<forall>l. j_locked_at j = Some l \<longrightarrow> t \<le> l)}"
    unfolding run running_ids_def by auto
qed

lemma claim_running_ids:
  assumes "ClaimDueJobs now n who d = (Inr js, d')"
  shows "running_ids d' \<subseteq> running_ids d \<union> j_id ` set js"
  unfolding running_ids_def using ClaimDueJobs_Inr(2)[OF assms]
  by (auto simp: ClaimDueJobs_Inr(1)[OF assms] set_update_where image_iff split: if_splits)

text \<open>a tick settles every job it claims. With no store failure and no shutdown, and handlers that
  claim no job themselves, whatever the handlers return and even if they panic, a job that is
  still running after the tick was running before it under a claim that is not stale: no
  claimed job is lost, and no stale claim survives unless it was taken up and settled.\<close>

theorem Tick_settles:
  assumes "faults d = []" and handlers: "\<forall>n h. handlers n = Some h \<longrightarrow> handler_ok h"
    and tick: "Tick lib s handlers False now d = (n, d')"
    and "j' \<in> set (jobs (tabs d'))" and "j_status j' = Running"
  shows "\<exists>j \<in> set (jobs (tabs d)). j_id j = j_id j' \<and> j_status j = Running \<and>
     (\<forall>l. j_locked_at j = Some l \<longrightarrow> now - staleAfter s \<le> l)"
proof -
  let ?d1 = "snd (ReclaimStaleRunning (now - staleAfter s) d)"
  note d1 = reclaim_running_ids[OF assms(1), of "now - staleAfter s"]
  obtain js d2 where claim: "ClaimDueJobs now (claimLimit s) (instanceID s) ?d1 = (Inr js, d2)"
    using d1(2) by (simp add: ClaimDueJobs_def Let_def)
  with d1(2) have "faults d2 = []" by (auto simp: ClaimDueJobs_def Let_def)
  moreover have "d' = foldl (\<lambda>d j. process lib s handlers False j now d) d2 js"
    using tick claim by (simp add: Tick_def Let_def)
  ultimately have "running_ids d' \<subseteq> running_ids d2 - j_id ` set js"
    using process_all_settles[of d2 handlers] handlers by blast
  also have "\<dots> \<subseteq> running_ids ?d1" using claim_running_ids[OF claim] by blast
  finally have "j_id j' \<in> running_ids ?d1"
    using assms(4,5) by (auto simp: running_ids_def)
  with d1(1) show ?thesis by fastforce
qed

definition sample_cron :: "unit cron_lib" where
  "sample_cron = \<lparr>parse_standard = (\<lambda>e. if e = ''* * * * *'' then Inr (\<lambda>_ t. (t div minute + 1) * minute) else Inl ''bad''),
     load_location = (\<lambda>_. Inl ''unknown''), utc = ()\<rparr>"

definition sample_handlers :: "string \<Rightarrow> job_handler option" where
  "sample_handlers n = (if n = ''ttl.expire'' then Some (\<lambda>j d. (if j_run_at j < 25 then HandlerOK else HandlerPanic ''boom'', d))
     else None)"

lemma sample_handlers_ok: "sample_handlers n = Some h \<Longrightarrow> handler_ok h"
  by (auto simp: sample_handlers_def handler_ok_def split: if_splits)

abbreviation ticking_db :: db where
  "ticking_db \<equiv> sample_db (sample_tables\<lparr>jobs := [sample_job (sample_uuids 1) 30 Scheduled,
     sample_job (sample_uuids 2) 20 Scheduled, (sample_job (sample_uuids 3) 10 Running)\<lparr>j_locked_at := Some hour\<rparr>]\<rparr>)"

theorem Tick_settles_witness:
  "let (n, d') = Tick sample_cron default_scheduler sample_handlers False hour ticking_db in n = 2 \<and>
     map j_status (jobs (tabs d')) = [Scheduled, Succeeded, Running] \<and>
     (\<exists>j \<in> set (jobs (tabs ticking_db)). j_id j = sample_uuids 3 \<and> j_status j = Running)"
proof -
  have out: "let (n, d') = Tick sample_cron default_scheduler sample_handlers False hour ticking_db in n = 2 \<and>
     map j_status (jobs (tabs d')) = [Scheduled, Succeeded, Running] \<and>
     map j_id (jobs (tabs d')) = map sample_uuids [1, 2, 3]"
    by code_simp
  obtain n d' where run: "Tick sample_cron default_scheduler sample_handlers False hour ticking_db = (n, d')"
    by force
  with out have d': "n = 2" "map j_status (jobs (tabs d')) = [Scheduled, Succeeded, Running]"
    "map j_id (jobs (tabs d')) = map sample_uuids [1, 2, 3]" by auto
  then have "length (jobs (tabs d')) = 3" by (metis length_map length_Cons list.size(3) numeral_3_eq_3)
  then obtain a b c where js: "jobs (tabs d') = [a, b, c]" by (auto simp: numeral_3_eq_3 length_Suc_conv)
  with d' have "c \<in> set (jobs (tabs d'))" "j_status c = Running" "j_id c = sample_uuids 3" by auto
  with Tick_settles[OF _ _ run, of c] d' run show ?thesis by (auto simp: sample_handlers_ok)
qed

section \<open>The outcome of one job\<close>

lemma update_where_own:
  assumes "distinct (map j_id js)" and "j \<in> set js" and "j_status j = Running"
  shows "update_where (running (j_id j)) f js = update_where (\<lambda>k. k = j) f js"
  using assms distinct_key_unique[OF assms(1) _ assms(2)]
  by (intro update_where_cong) (auto simp: running_def)

text \<open>the outcome of one job is decided by its handler's result. For a running job whose handler
  leaves the queue alone: success ends a one-shot job as succeeded and puts a recurring one
  back at the next cron activation with its attempts reset; an error or a panic counts one
  attempt, records the message, and either retries after the backoff or dead-letters the job
  once its attempts are used up. No other job changes.\<close>

theorem process_outcome:
  assumes wf: "wf_jobs d" and j: "j \<in> set (jobs (tabs d))" "j_status j = Running"
    and due: "\<not> (j_missed_policy j = Skip \<and> now - j_run_at j > missedThreshold s)"
    and h: "handlers (j_handler j) = Some h" "h j d = (r, d1)"
    and d1: "faults d1 = []" "jobs (tabs d1) = jobs (tabs d)"
  shows "\<exists>j'. jobs (tabs (process lib s handlers False j now d)) = update_where (\<lambda>k. k = j) (\<lambda>_. j') (jobs (tabs d)) \<and>
     (r = HandlerOK \<and> j_kind j = OneShot \<longrightarrow> j' = unlocked Succeeded (clock d1) j) \<and>
     (\<forall>c n. r = HandlerOK \<and> j_kind j = Recurring \<and> j_cron j = Some c \<and> c \<noteq> '''' \<and>
        NextCron lib c (case j_timezone j of None \<Rightarrow> '''' | Some tz \<Rightarrow> tz) now = Inr n \<longrightarrow>
        j_status j' = Scheduled \<and> j_run_at j' = n \<and> j_attempts j' = 0 \<and> j_last_error j' = None) \<and>
     (\<forall>e. r = HandlerError e \<or> (\<exists>v. r = HandlerPanic v \<and> e = ''handler panicked: '' @ v) \<longrightarrow>
        j_attempts j' = j_attempts j + 1 \<and> j_last_error j' = Some e \<and> j_locked_by j' = None \<and>
        (if j_attempts j + 1 < j_max_attempts j
         then j_status j' = Scheduled \<and> j_run_at j' = now + backoff s (j_attempts j)
         else j_status j' = Failed))"
proof -
  note own = update_where_own[OF wf_jobsD(2)[OF wf] j]
  have const: "update_where (\<lambda>k. k = j) f (jobs (tabs d)) = update_where (\<lambda>k. k = j) (\<lambda>_. f j) (jobs (tabs d))" for f
    by (simp add: update_where_def)
  have failing: "\<exists>j'. jobs (tabs (fail s j now e d1)) = update_where (\<lambda>k. k = j) (\<lambda>_. j') (jobs (tabs d)) \<and>
      j' = failed_job e (now + backoff s (j_attempts j)) (clock d1) j" for e
    using d1 own const by (simp add: fail_ok)
  have later: "\<exists>j'. jobs (tabs (snd (RescheduleRecurring (j_id j) n d1))) = update_where (\<lambda>k. k = j) (\<lambda>_. j') (jobs (tabs d)) \<and>
      j' = (unlocked Scheduled (clock d1) j)\<lparr>j_run_at := n, j_attempts := 0, j_last_error := None\<rparr>" for n
    using d1 own const[of "\<lambda>j. (unlocked Scheduled (clock d1) j)\<lparr>j_run_at := n, j_attempts := 0, j_last_error := None\<rparr>"]
    by (simp add: RescheduleRecurring_ok)
  show ?thesis
  proof (cases r)
    case HandlerOK
    have proc: "process lib s handlers False j now d = settleSuccess lib s j now d1"
      using due h HandlerOK by (auto simp: process_def runHandler_def)
    show ?thesis
    proof (cases "j_kind j")
      case OneShot
      then show ?thesis unfolding proc settleSuccess_def
        using d1 own const HandlerOK by (auto simp: CompleteJob_ok)
    next
      case Recurring
      show ?thesis unfolding proc settleSuccess_def reschedule_def
        using Recurring HandlerOK failing later
        by (fastforce split: option.splits sum.splits)
    qed
  next
    case (HandlerError e)
    then have "process lib s handlers False j now d = fail s j now e d1"
      using due h by (auto simp: process_def runHandler_def)
    with failing[of e] HandlerError show ?thesis by auto
  next
    case (HandlerPanic v)
    then have "process lib s handlers False j now d = fail s j now (''handler panicked: '' @ v) d1"
      using due h by (auto simp: process_def runHandler_def)
    with failing[of "''handler panicked: '' @ v"] HandlerPanic show ?thesis by auto
  qed
qed

abbreviation panicking_job :: job where
  "panicking_job \<equiv> sample_job (sample_uuids 1) 30 Running"

abbreviation panicking_db :: db where
  "panicking_db \<equiv> sample_db (sample_tables\<lparr>jobs := [panicking_job, sample_job (sample_uuids 2) 20 Scheduled]\<rparr>)"

theorem process_outcome_witness:
  "\<exists>j'. jobs (tabs (process sample_cron default_scheduler sample_handlers False panicking_job hour panicking_db))
       = [j', sample_job (sample_uuids 2) 20 Scheduled] \<and>
     j_status j' = Scheduled \<and> j_attempts j' = 1 \<and> j_run_at j' = hour + 30 * second \<and>
     j_last_error j' = Some ''handler panicked: boom''"
proof -
  have "wf_jobs panicking_db"
    by (simp add: wf_jobs_def wf_job_def live_job_def sample_job_def inj_eq[OF inj_sample_uuids])
  moreover obtain h where "sample_handlers (j_handler panicking_job) = Some h"
    "h panicking_job panicking_db = (HandlerPanic ''boom'', panicking_db)"
    by (simp add: sample_handlers_def sample_job_def)
  moreover have "backoff default_scheduler 0 = 30 * second" by code_simp
  moreover have "panicking_job \<noteq> sample_job (sample_uuids 2) 20 Scheduled" by (simp add: sample_job_def)
  ultimately show ?thesis
    using process_outcome[of panicking_db panicking_job default_scheduler hour sample_handlers h
        "HandlerPanic ''boom''" panicking_db sample_cron]
    by (auto simp: sample_job_def)
qed

end
