(* ===== verification/Store_Audit.thy ===== *)
theory Store_Audit
  imports Samples Go_Lib
begin

text \<open>
  The audit log: the two writes and the listing of \<^verbatim>\<open>store/quota.go\<close>, and the recorder of
  \<^verbatim>\<open>internal/auditz\<close> that wraps a mutation outside the tenant routes. An intent row is
  inserted before the mutation and only its outcome and detail are ever written afterwards.
\<close>

section \<open>The writes and the listing\<close>

record audit_intent =
  ai_actor_user_id :: "string option"
  ai_actor_system :: "string option"
  ai_tenant_id :: "string option"
  ai_project_id :: "string option"
  ai_action :: string
  ai_target_type :: "string option"
  ai_target_id :: "string option"
  ai_ip :: "string option"

definition references :: "('r \<Rightarrow> string) \<Rightarrow> string option \<Rightarrow> 'r list \<Rightarrow> bool" where
  "references k v rs \<longleftrightarrow> (case v of None \<Rightarrow> True | Some i \<Rightarrow> exists_where (\<lambda>r. k r = i) rs)"

definition intent_row :: "audit_intent \<Rightarrow> string \<Rightarrow> int \<Rightarrow> audit_entry" where
  "intent_row a uid now = \<lparr>ae_id = uid, ae_ts = now, ae_actor_user_id = ai_actor_user_id a,
     ae_actor_system = ai_actor_system a, ae_tenant_id = ai_tenant_id a,
     ae_project_id = ai_project_id a, ae_action = ai_action a, ae_target_type = ai_target_type a,
     ae_target_id = ai_target_id a, ae_outcome = ''pending'', ae_ip = ai_ip a, ae_detail = None\<rparr>"

definition InsertAuditIntent :: "audit_intent \<Rightarrow> string op" where
  "InsertAuditIntent a = insert_row (\<lambda>uid now tb.
     if references u_id (ai_actor_user_id a) (users tb) \<and>
        references t_id (ai_tenant_id a) (tenants tb) \<and>
        references p_id (ai_project_id a) (projects tb)
     then Inr (uid, tb\<lparr>audit_log := audit_log tb @ [intent_row a uid now]\<rparr>)
     else Inl ErrDB)"

definition FinalizeAudit :: "string \<Rightarrow> string \<Rightarrow> string option \<Rightarrow> unit op" where
  "FinalizeAudit i outcome detail =
     bind_op (exec (\<lambda>now tb.
        (count_where (\<lambda>e. ae_id e = i) (audit_log tb),
         tb\<lparr>audit_log := update_where (\<lambda>e. ae_id e = i)
              (\<lambda>e. e\<lparr>ae_outcome := outcome, ae_detail := detail\<rparr>) (audit_log tb)\<rparr>)))
       affected_or_missing"

record audit_query =
  aq_tenant_id :: string
  aq_before :: "int option"
  aq_limit :: int
  aq_project_id :: string
  aq_outcome :: string

definition audit_matches :: "audit_query \<Rightarrow> audit_entry \<Rightarrow> bool" where
  "audit_matches q e \<longleftrightarrow> ae_tenant_id e = Some (aq_tenant_id q) \<and>
     (case aq_before q of None \<Rightarrow> True | Some b \<Rightarrow> ae_ts e < b) \<and>
     (aq_project_id q = '''' \<or> ae_project_id e = Some (aq_project_id q)) \<and>
     (aq_outcome q = '''' \<or> ae_outcome e = aq_outcome q)"

text \<open>\<^verbatim>\<open>ORDER BY ts DESC, id DESC\<close>.\<close>

definition newest_first :: "audit_entry list \<Rightarrow> audit_entry list" where
  "newest_first es = rev (sort_key ae_ts (sort_key ae_id es))"

definition ListAudit :: "audit_query \<Rightarrow> audit_entry list op" where
  "ListAudit q = query (\<lambda>tb.
     take (nat (if aq_limit q \<le> 0 then 50 else aq_limit q))
       (newest_first (filter (audit_matches q) (audit_log tb))))"

section \<open>The recorder\<close>

definition nonEmpty :: "string \<Rightarrow> string option" where
  "nonEmpty s = (if s = '''' then None else Some s)"

definition OutcomeForStatus :: "int \<Rightarrow> string" where
  "OutcomeForStatus status =
     (if status = 0 \<or> 200 \<le> status \<and> status < 300 then ''success''
      else if 400 \<le> status \<and> status < 500 then ''denied'' else ''error'')"

record intent =
  in_action :: string
  in_actor_user_id :: string
  in_tenant_id :: string
  in_project_id :: string
  in_target_type :: string
  in_target_id :: string
  in_ip :: "string option"

definition Begin :: "intent \<Rightarrow> string op" where
  "Begin i = InsertAuditIntent \<lparr>ai_actor_user_id = nonEmpty (in_actor_user_id i), ai_actor_system = None,
     ai_tenant_id = nonEmpty (in_tenant_id i), ai_project_id = nonEmpty (in_project_id i),
     ai_action = in_action i, ai_target_type = nonEmpty (in_target_type i),
     ai_target_id = nonEmpty (in_target_id i), ai_ip = in_ip i\<rparr>"

text \<open>A failed finalize is logged and never returned.\<close>

definition Finalize :: "string \<Rightarrow> string \<Rightarrow> (string \<times> json) list \<Rightarrow> unit op" where
  "Finalize i outcome detail =
     bind_op (attempt (FinalizeAudit i outcome
        (if detail = [] then None else Some (json_object detail)))) (\<lambda>_. ret ())"

section \<open>The log only grows\<close>

text \<open>What of an entry is fixed when it is written: all but outcome and detail.\<close>

definition who_what_when :: "audit_entry \<Rightarrow> audit_entry" where
  "who_what_when e = e\<lparr>ae_outcome := '''', ae_detail := None\<rparr>"

lemma InsertAuditIntent_Inr:
  assumes "InsertAuditIntent a d = (Inr i, d')"
  shows "i = uuids d (drawn d)"
    and "tabs d' = (tabs d)\<lparr>audit_log := audit_log (tabs d) @ [intent_row a i (clock d)]\<rparr>"
    and "uuids d' = uuids d" "clock d' = clock d" "in_tx d' = in_tx d" "drawn d' = Suc (drawn d)"
      "locks d' = locks d"
  using assms by (auto simp: InsertAuditIntent_def op_elims split: if_splits)

lemma InsertAuditIntent_Inl:
  "InsertAuditIntent a d = (Inl e, d') \<Longrightarrow> tabs d' = tabs d"
  unfolding InsertAuditIntent_def using fail_safe_insert_row by (auto simp: fail_safe_def)

lemma FinalizeAudit_log:
  "map who_what_when (audit_log (tabs (snd (FinalizeAudit i out det d))))
     = map who_what_when (audit_log (tabs d))"
  by (auto simp: FinalizeAudit_def bind_op_def exec_def stmt_def affected_or_missing_def
      who_what_when_def map_update_where)

lemma FinalizeAudit_other_tables:
  "tabs (snd (FinalizeAudit i out det d))
     = (tabs d)\<lparr>audit_log := audit_log (tabs (snd (FinalizeAudit i out det d)))\<rparr>"
  by (auto simp: FinalizeAudit_def bind_op_def exec_def stmt_def affected_or_missing_def)

lemma FinalizeAudit_found:
  assumes "faults d = []" and "e \<in> set (audit_log (tabs d))" and "ae_id e = i"
  shows "fst (FinalizeAudit i out det d) = Inr ()"
    and "e\<lparr>ae_outcome := out, ae_detail := det\<rparr> \<in> set (audit_log (tabs (snd (FinalizeAudit i out det d))))"
proof -
  have "count_where (\<lambda>e. ae_id e = i) (audit_log (tabs d)) \<noteq> 0"
    using assms(2,3) by (auto simp: count_where_0_iff)
  then have run: "FinalizeAudit i out det d = (Inr (), d\<lparr>tabs := (tabs d)\<lparr>audit_log :=
      update_where (\<lambda>e. ae_id e = i) (\<lambda>e. e\<lparr>ae_outcome := out, ae_detail := det\<rparr>) (audit_log (tabs d))\<rparr>\<rparr>)"
    using assms(1) by (simp add: FinalizeAudit_def bind_op_def affected_or_missing_def)
  then show "fst (FinalizeAudit i out det d) = Inr ()" by simp
  show "e\<lparr>ae_outcome := out, ae_detail := det\<rparr> \<in> set (audit_log (tabs (snd (FinalizeAudit i out det d))))"
    using assms(2,3) run
    by (auto intro: update_where_memI[where f = "\<lambda>e. e\<lparr>ae_outcome := out, ae_detail := det\<rparr>"])
qed

text \<open>C12: the audit trail is append-only. Neither write of the store ever removes an entry or
  changes who did what and when: \<^verbatim>\<open>InsertAuditIntent\<close> leaves the log as it was or appends one
  entry with outcome pending, and \<^verbatim>\<open>FinalizeAudit\<close> changes at most the outcome and the detail of
  existing entries, whatever statement fails.\<close>

theorem audit_log_append_only:
  "(audit_log (tabs (snd (InsertAuditIntent a d))) = audit_log (tabs d) \<or>
    (\<exists>e. audit_log (tabs (snd (InsertAuditIntent a d))) = audit_log (tabs d) @ [e] \<and>
         ae_outcome e = ''pending'' \<and> ae_action e = ai_action a \<and> ae_ts e = clock d)) \<and>
   map who_what_when (audit_log (tabs (snd (FinalizeAudit i outcome detail d))))
     = map who_what_when (audit_log (tabs d))"
proof (cases "InsertAuditIntent a d")
  case (Pair r d')
  then show ?thesis
    by (cases r)
      (auto simp: FinalizeAudit_log intent_row_def dest: InsertAuditIntent_Inl InsertAuditIntent_Inr(2))
qed

section \<open>Paging\<close>

text \<open>paging through the audit log loses entries. Two entries of a tenant that carry the same
  timestamp and fall on a page boundary: the first page of size one shows the one with the larger
  id, and the page after it (the cursor is that entry's timestamp, compared strictly) shows
  neither, so the other entry is on no page.\<close>

theorem ListAudit_skips_ties:
  assumes log: "audit_log (tabs d) = [a, b]" and ten: "ae_tenant_id a = Some t" "ae_tenant_id b = Some t"
    and ts: "ae_ts a = ae_ts b" and ids: "ae_id a < ae_id b" and ff: "faults d = []"
  shows "ListAudit \<lparr>aq_tenant_id = t, aq_before = None, aq_limit = 1, aq_project_id = '''', aq_outcome = ''''\<rparr> d
       = (Inr [b], d) \<and>
     ListAudit \<lparr>aq_tenant_id = t, aq_before = Some (ae_ts b), aq_limit = 1, aq_project_id = '''', aq_outcome = ''''\<rparr> d
       = (Inr [], d)"
  using assms by (simp add: ListAudit_def audit_matches_def newest_first_def)

definition tie_entry :: "string \<Rightarrow> audit_entry" where
  "tie_entry i = \<lparr>ae_id = i, ae_ts = 7, ae_actor_user_id = None, ae_actor_system = None,
     ae_tenant_id = Some ''t1'', ae_project_id = None, ae_action = ''guest.start'', ae_target_type = None,
     ae_target_id = None, ae_outcome = ''success'', ae_ip = None, ae_detail = None\<rparr>"

theorem ListAudit_skips_ties_witness:
  "fst (ListAudit \<lparr>aq_tenant_id = ''t1'', aq_before = Some 7, aq_limit = 1, aq_project_id = '''', aq_outcome = ''''\<rparr>
     (sample_db (empty_tables\<lparr>audit_log := [tie_entry ''a'', tie_entry ''b'']\<rparr>))) = Inr []"
  using ListAudit_skips_ties[of "sample_db (empty_tables\<lparr>audit_log := [tie_entry ''a'', tie_entry ''b'']\<rparr>)"
      "tie_entry ''a''" "tie_entry ''b''" "''t1''"]
  by (simp add: tie_entry_def less_char_def)

end
