(* ===== verification/Reconciler.thy ===== *)
theory Reconciler
  imports Store_Ownership Store_Audit
begin

text \<open>
  The stale-reservation sweep (\<^verbatim>\<open>internal/reconciler/reconciler.go\<close>): pending ownership rows older
  than the reservation TTL are released, each under an audit entry written first. The theory
  shows that a sweep touches nothing but stale reservations, that no reservation disappears
  without its audit entry whatever statements fail, that a sweep without failures removes exactly the
  stale rows, and that a reservation made by reviving an old tombstoned row is stale at birth.
\<close>

section \<open>The sweep\<close>

definition reclaim_intent :: "ownership \<Rightarrow> audit_intent" where
  "reclaim_intent r = \<lparr>ai_actor_user_id = None, ai_actor_system = None,
     ai_tenant_id = Some (o_tenant_id r), ai_project_id = Some (o_project_id r),
     ai_action = ''reservation.reclaimed'', ai_target_type = Some ''guest'',
     ai_target_id = Some (itoa (o_vmid r)), ai_ip = None\<rparr>"

definition reclaim_detail :: "bool \<Rightarrow> string option" where
  "reclaim_detail released = Some (json_object [(''reason'', JStr ''stale_reservation''), (''released'', JBool released)])"

text \<open>The errors of both finalizing statements are logged and dropped.\<close>

definition reclaim :: "ownership \<Rightarrow> unit op" where
  "reclaim r =
     bind_op (InsertAuditIntent (reclaim_intent r)) (\<lambda>audit_id.
     bind_op (attempt (ReleaseOwnership (o_id r))) (\<lambda>res.
       case res of
         Inl e \<Rightarrow> bind_op (attempt (FinalizeAudit audit_id ''error'' (reclaim_detail False))) (\<lambda>_. raise e)
       | Inr _ \<Rightarrow> bind_op (attempt (FinalizeAudit audit_id ''success'' (reclaim_detail True))) (\<lambda>_. ret ())))"

definition sweep_step :: "nat \<times> db \<Rightarrow> ownership \<Rightarrow> nat \<times> db" where
  "sweep_step st r = (case st of (n, d) \<Rightarrow>
     (case reclaim r d of (Inl e, d') \<Rightarrow> (n, d') | (Inr _, d') \<Rightarrow> (Suc n, d')))"

text \<open>\<open>ttl\<close> is the configured reservation TTL, \<open>now\<close> the reconciler's clock.\<close>

definition Sweep :: "int \<Rightarrow> int \<Rightarrow> db \<Rightarrow> nat \<times> db" where
  "Sweep ttl now d = (case ListStalePendingOwnership (now - ttl) d of
      (Inl e, d') \<Rightarrow> (0, d')
    | (Inr stale, d') \<Rightarrow> foldl sweep_step (0, d') stale)"

definition stale_row :: "int \<Rightarrow> ownership \<Rightarrow> bool" where
  "stale_row cutoff r \<longleftrightarrow> o_status r = Pending \<and> o_created_at r < cutoff"

section \<open>One reclaim under any failures\<close>

definition reclaim_entry :: "ownership \<Rightarrow> audit_entry \<Rightarrow> bool" where
  "reclaim_entry r e \<longleftrightarrow> ae_action e = ''reservation.reclaimed'' \<and>
     ae_tenant_id e = Some (o_tenant_id r) \<and> ae_project_id e = Some (o_project_id r) \<and>
     ae_target_id e = Some (itoa (o_vmid r))"

definition reclaim_logged :: "ownership \<Rightarrow> db \<Rightarrow> bool" where
  "reclaim_logged r d \<longleftrightarrow> (\<exists>e \<in> set (map who_what_when (audit_log (tabs d))). reclaim_entry r e)"

text \<open>The log of \<open>d'\<close> extends that of \<open>d\<close>, outcomes and details aside.\<close>

definition log_grows :: "db \<Rightarrow> db \<Rightarrow> bool" where
  "log_grows d d' \<longleftrightarrow> (\<exists>es. map who_what_when (audit_log (tabs d')) = map who_what_when (audit_log (tabs d)) @ es)"

lemma log_grows_refl [simp]: "log_grows d d"
  by (simp add: log_grows_def)

lemma log_grows_same: "tabs d' = tabs d \<Longrightarrow> log_grows d d'"
  by (simp add: log_grows_def)

lemma log_grows_trans [trans]: "\<lbrakk>log_grows d d1; log_grows d1 d2\<rbrakk> \<Longrightarrow> log_grows d d2"
  by (auto simp: log_grows_def)

lemma log_grows_logged: "\<lbrakk>log_grows d d'; reclaim_logged r d\<rbrakk> \<Longrightarrow> reclaim_logged r d'"
  unfolding log_grows_def reclaim_logged_def by (metis Un_iff set_append)

text \<open>The released row goes, and no other one.\<close>

definition release :: "ownership \<Rightarrow> ownership list \<Rightarrow> ownership list" where
  "release r rs = delete_where (\<lambda>x. o_id x = o_id r \<and> o_status x = Pending) rs"

text \<open>\<open>frame d d'\<close>: what every statement of a reclaim leaves alone.\<close>

definition frame :: "db \<Rightarrow> db \<Rightarrow> bool" where
  "frame d d' \<longleftrightarrow> uuids d' = uuids d \<and> drawn d \<le> drawn d' \<and> projects (tabs d') = projects (tabs d) \<and>
     tenants (tabs d') = tenants (tabs d) \<and> clock d' = clock d \<and> log_grows d d'"

lemma frame_trans: "\<lbrakk>frame d d1; frame d1 d2\<rbrakk> \<Longrightarrow> frame d d2"
  by (auto simp: frame_def intro: log_grows_trans)

lemma frame_intent:
  "frame d (snd (InsertAuditIntent a d))"
  "ownerships (tabs (snd (InsertAuditIntent a d))) = ownerships (tabs d)"
  by (auto simp: frame_def log_grows_def InsertAuditIntent_def insert_row_def stmt_def Let_def split: if_splits)

lemma intent_logged:
  "InsertAuditIntent (reclaim_intent r) d = (Inr i, d') \<Longrightarrow> reclaim_logged r d'"
  by (auto simp: InsertAuditIntent_Inr(2) reclaim_logged_def reclaim_entry_def who_what_when_def intent_row_def
      reclaim_intent_def)

lemma frame_release:
  "frame d (snd (ReleaseOwnership i d))"
  "o_id r = i \<Longrightarrow> ownerships (tabs (snd (ReleaseOwnership i d))) \<in> {ownerships (tabs d), release r (ownerships (tabs d))}"
  by (auto simp: frame_def log_grows_def ReleaseOwnership_def bind_op_def exec_def stmt_def Let_def release_def
      affected_or_missing_def)

lemma frame_finalize:
  "frame d (snd (FinalizeAudit i out det d))"
  "ownerships (tabs (snd (FinalizeAudit i out det d))) = ownerships (tabs d)"
  using FinalizeAudit_log[of i out det d]
  by (auto simp: frame_def log_grows_def FinalizeAudit_def bind_op_def exec_def stmt_def affected_or_missing_def)

lemma reclaim_run:
  "reclaim r d = (case InsertAuditIntent (reclaim_intent r) d of
     (Inl e, d1) \<Rightarrow> (Inl e, d1)
   | (Inr i, d1) \<Rightarrow> (case ReleaseOwnership (o_id r) d1 of
       (Inl e, d2) \<Rightarrow> (Inl e, snd (FinalizeAudit i ''error'' (reclaim_detail False) d2))
     | (Inr _, d2) \<Rightarrow> (Inr (), snd (FinalizeAudit i ''success'' (reclaim_detail True) d2))))"
  by (simp add: reclaim_def bind_op_def split: prod.split sum.split)

lemma reclaim_effect:
  fixes r d
  defines "d' \<equiv> snd (reclaim r d)"
  shows "frame d d'"
    and "ownerships (tabs d') = ownerships (tabs d) \<or>
       ownerships (tabs d') = release r (ownerships (tabs d)) \<and> reclaim_logged r d'"
proof -
  obtain ri d1 where i: "InsertAuditIntent (reclaim_intent r) d = (ri, d1)" by force
  obtain rr d2 where rel: "ReleaseOwnership (o_id r) d1 = (rr, d2)" by force
  have f1: "frame d d1" "ownerships (tabs d1) = ownerships (tabs d)"
    using frame_intent(1)[of d "reclaim_intent r"] frame_intent(2)[of "reclaim_intent r" d] i by auto
  have f2: "frame d1 d2" "ownerships (tabs d2) \<in> {ownerships (tabs d1), release r (ownerships (tabs d1))}"
    using frame_release(1)[of d1 "o_id r"] frame_release(2)[of r "o_id r" d1] rel by auto
  have "frame d d' \<and> (ownerships (tabs d') = ownerships (tabs d) \<or>
       ownerships (tabs d') = release r (ownerships (tabs d)) \<and> reclaim_logged r d')"
  proof (cases ri)
    case (Inl e)
    with i f1 show ?thesis by (simp add: d'_def reclaim_run)
  next
    case (Inr i')
    obtain out det where d': "d' = snd (FinalizeAudit i' out det d2)"
      using i Inr rel by (cases rr) (auto simp: d'_def reclaim_run)
    have "frame d2 d'" "ownerships (tabs d') = ownerships (tabs d2)"
      unfolding d' by (rule frame_finalize)+
    moreover have "frame d1 d'" using f2(1) calculation(1) by (rule frame_trans)
    moreover have "reclaim_logged r d'"
      using intent_logged[of r d i' d1] i Inr \<open>frame d1 d'\<close> by (auto simp: frame_def intro: log_grows_logged)
    ultimately show ?thesis using f1 f2 by (auto intro: frame_trans)
  qed
  then show "frame d d'" "ownerships (tabs d') = ownerships (tabs d) \<or>
       ownerships (tabs d') = release r (ownerships (tabs d)) \<and> reclaim_logged r d'" by auto
qed

lemma in_release:
  assumes "wf_ownerships d" and "r \<in> set (ownerships (tabs d))" and "x \<in> set (ownerships (tabs d))"
    and "x \<notin> set (release r (ownerships (tabs d)))"
  shows "x = r"
  using assms(4,3) ownership_id_unique[OF assms(1,3,2)] by (auto simp: release_def)

lemma reclaim_wf:
  assumes "wf_ownerships d"
  shows "wf_ownerships (snd (reclaim r d))"
proof -
  have "\<exists>P. ownerships (tabs (snd (reclaim r d))) = delete_where P (ownerships (tabs d))"
    using reclaim_effect(2)[of r d]
  proof
    assume "ownerships (tabs (snd (reclaim r d))) = ownerships (tabs d)"
    then show ?thesis by (intro exI[of _ "\<lambda>_. False"]) (simp add: delete_where_def)
  qed (unfold release_def, blast)
  then obtain P where "ownerships (tabs (snd (reclaim r d))) = delete_where P (ownerships (tabs d))" by blast
  moreover have f: "uuids (snd (reclaim r d)) = uuids d" "drawn d \<le> drawn (snd (reclaim r d))"
    "projects (tabs (snd (reclaim r d))) = projects (tabs d)"
    using reclaim_effect(1)[of d r] by (simp_all add: frame_def)
  ultimately show ?thesis
    using assms drawn_mono[OF wf_ownershipsD(4)[OF assms] f(2)]
    by (simp add: wf_ownerships_def project_of_tenant_def distinct_map_delete_where)
qed

section \<open>The whole sweep\<close>

text \<open>What holds after each step of a sweep begun in \<open>d0\<close>.\<close>

definition swept :: "int \<Rightarrow> db \<Rightarrow> db \<Rightarrow> bool" where
  "swept cutoff d0 d \<longleftrightarrow> wf_ownerships d \<and> log_grows d0 d \<and>
     set (ownerships (tabs d)) \<subseteq> set (ownerships (tabs d0)) \<and>
     (\<forall>x \<in> set (ownerships (tabs d0)) - set (ownerships (tabs d)). stale_row cutoff x \<and> reclaim_logged x d)"

lemma swept_step:
  assumes "swept cutoff d0 d" and "r \<in> set (ownerships (tabs d0))" and "stale_row cutoff r"
    and "wf_ownerships d0"
  shows "swept cutoff d0 (snd (reclaim r d))"
proof -
  let ?d' = "snd (reclaim r d)"
  have grows: "log_grows d ?d'" using reclaim_effect(1)[of d r] by (simp add: frame_def)
  have "stale_row cutoff x \<and> reclaim_logged x ?d'"
    if x: "x \<in> set (ownerships (tabs d0))" "x \<notin> set (ownerships (tabs ?d'))" for x
  proof (cases "x \<in> set (ownerships (tabs d))")
    case False
    with assms(1) x(1) have "stale_row cutoff x" "reclaim_logged x d" by (auto simp: swept_def)
    with log_grows_logged[OF grows] show ?thesis by simp
  next
    case True
    with x(2) reclaim_effect(2)[of r d] have "x \<notin> set (release r (ownerships (tabs d)))" "reclaim_logged r ?d'"
      by auto
    moreover have "x = r"
      using calculation(1) True ownership_id_unique[OF assms(4) x(1) assms(2)] by (auto simp: release_def)
    ultimately show ?thesis using assms(3) by simp
  qed
  moreover have "set (ownerships (tabs ?d')) \<subseteq> set (ownerships (tabs d))"
    using reclaim_effect(2)[of r d] by (auto simp: release_def)
  moreover have "wf_ownerships ?d'" using assms(1) reclaim_wf by (auto simp: swept_def)
  ultimately show ?thesis
    using assms(1) log_grows_trans[OF _ grows] by (auto simp: swept_def)
qed

lemma swept_fold:
  assumes "swept cutoff d0 d" and "wf_ownerships d0"
    and "\<forall>r \<in> set rs. r \<in> set (ownerships (tabs d0)) \<and> stale_row cutoff r"
  shows "swept cutoff d0 (snd (foldl sweep_step (n, d) rs))"
  using assms(1,3)
proof (induction rs arbitrary: n d)
  case (Cons r rs)
  have "sweep_step (n, d) r = (fst (sweep_step (n, d) r), snd (reclaim r d))"
    by (simp add: sweep_step_def split: prod.split sum.split)
  moreover have "swept cutoff d0 (snd (reclaim r d))"
    using Cons.prems swept_step[OF Cons.prems(1) _ _ assms(2)] by simp
  ultimately show ?case using Cons.IH Cons.prems by (metis foldl_Cons list.set_intros(2))
qed simp

text \<open>The tenants that rows refer to exist (the foreign key of \<^verbatim>\<open>projects.tenant_id\<close>).\<close>

definition tenants_present :: "db \<Rightarrow> bool" where
  "tenants_present d \<longleftrightarrow> (\<forall>r \<in> set (ownerships (tabs d)). exists_where (\<lambda>t. t_id t = o_tenant_id r) (tenants (tabs d)))"

abbreviation pending_db :: "db" where
  "pending_db \<equiv> sample_db (sample_tables\<lparr>ownerships := [sample_ownership (sample_uuids 1) ''t2'' ''p2'' 100 Pending,
     (sample_ownership (sample_uuids 2) ''t1'' ''p1'' 101 Pending)\<lparr>o_created_at := 900\<rparr>,
     sample_ownership (sample_uuids 3) ''t1'' ''p1'' 102 Active]\<rparr>)"

lemma pending_db_wf: "wf_ownerships pending_db" "tenants_present pending_db"
  by (simp_all add: wf_ownerships_def sample_defs project_of_tenant_def tenants_present_def inj_eq[OF inj_sample_uuids])

text \<open>C15: the reconciler frees only expired reservations, and never without a record. Whatever statements
  fail, after a sweep the ownership table is a part of what it was, every row that is gone was
  pending and older than the TTL and has an audit entry naming its guest, tenant and project,
  and the audit log has only grown.\<close>

theorem Sweep_safe:
  assumes wf: "wf_ownerships d" and run: "Sweep ttl now d = (n, d')"
  shows "wf_ownerships d' \<and> log_grows d d' \<and> set (ownerships (tabs d')) \<subseteq> set (ownerships (tabs d)) \<and>
     (\<forall>r \<in> set (ownerships (tabs d)) - set (ownerships (tabs d')).
        o_status r = Pending \<and> o_created_at r < now - ttl \<and> reclaim_logged r d')"
proof -
  have "swept (now - ttl) d d'"
  proof (cases "next_fails d")
    case True
    then have "d' = pop_fault d"
      using run by (simp add: Sweep_def ListStalePendingOwnership_def query_def stmt_def)
    with wf show ?thesis
      by (auto simp: swept_def log_grows_same intro: wf_ownerships_cong)
  next
    case False
    let ?rs = "sort_key o_created_at (filter (\<lambda>r. o_status r = Pending \<and> o_created_at r < now - ttl) (ownerships (tabs d)))"
    have "d' = snd (foldl sweep_step (0, pop_fault d) ?rs)"
      using run False by (simp add: Sweep_def ListStalePendingOwnership_def query_def stmt_def)
    moreover have "swept (now - ttl) d (pop_fault d)"
      using wf by (auto simp: swept_def log_grows_same intro: wf_ownerships_cong)
    ultimately show ?thesis
      using swept_fold[OF _ wf, of "now - ttl" "pop_fault d" ?rs 0] by (auto simp: stale_row_def)
  qed
  then show ?thesis by (auto simp: swept_def stale_row_def)
qed

theorem Sweep_safe_witness:
  "let (n, d') = Sweep 500 1000 (pending_db\<lparr>faults := [False, False, False, True]\<rparr>) in n = 1 \<and>
     (\<forall>r \<in> set (ownerships (tabs pending_db)) - set (ownerships (tabs d')). o_status r = Pending \<and>
        o_created_at r < 500 \<and> reclaim_logged r d')"
proof -
  let ?d = "pending_db\<lparr>faults := [False, False, False, True]\<rparr>"
  have wf: "wf_ownerships ?d" by (rule wf_ownerships_cong[OF pending_db_wf(1)]) simp_all
  have "fst (Sweep 500 1000 ?d) = 1" by code_simp
  moreover obtain n d' where run: "Sweep 500 1000 ?d = (n, d')" by force
  ultimately show ?thesis using Sweep_safe[OF wf run] by auto
qed

section \<open>Sweeps without failures\<close>

lemma intent_ok:
  assumes "faults d = []" and "wf_ownerships d" and "tenants_present d" and "r \<in> set (ownerships (tabs d))"
  shows "\<exists>i d1. InsertAuditIntent (reclaim_intent r) d = (Inr i, d1) \<and> faults d1 = [] \<and> wf_ownerships d1"
proof -
  have "references p_id (Some (o_project_id r)) (projects (tabs d))"
    "references t_id (Some (o_tenant_id r)) (tenants (tabs d))"
    using assms wf_ownershipsD(5)[OF assms(2,4)]
    by (auto simp: references_def project_of_tenant_def exists_where_def tenants_present_def)
  then obtain i d1 where run: "InsertAuditIntent (reclaim_intent r) d = (Inr i, d1)" "faults d1 = []"
    using assms(1) by (auto simp: InsertAuditIntent_def reclaim_intent_def references_def)
  moreover have "wf_ownerships d1"
    using assms(2) frame_intent(1)[of d "reclaim_intent r"] frame_intent(2)[of "reclaim_intent r" d] run
    by (auto simp: frame_def intro: wf_ownerships_cong)
  ultimately show ?thesis by blast
qed

lemma ReleaseOwnership_ok:
  assumes "faults d = []" and "r \<in> set (ownerships (tabs d))" and "o_status r = Pending"
  shows "ReleaseOwnership (o_id r) d = (Inr (), d\<lparr>tabs := (tabs d)\<lparr>ownerships := release r (ownerships (tabs d))\<rparr>\<rparr>)"
proof -
  have "count_where (\<lambda>x. o_id x = o_id r \<and> o_status x = Pending) (ownerships (tabs d)) \<noteq> 0"
    using assms(2,3) by (auto simp: count_where_0_iff)
  with assms(1) show ?thesis
    by (simp add: ReleaseOwnership_def bind_op_def Let_def release_def affected_or_missing_def)
qed

lemma FinalizeAudit_faults: "faults d = [] \<Longrightarrow> faults (snd (FinalizeAudit i out det d)) = []"
  by (simp add: FinalizeAudit_def bind_op_def affected_or_missing_def)

lemma release_all:
  assumes "wf_ownerships d" and "r \<in> set (ownerships (tabs d))" and "o_status r = Pending"
  shows "release r (ownerships (tabs d)) = filter (\<lambda>x. x \<noteq> r) (ownerships (tabs d))"
  unfolding release_def delete_where_def
  using ownership_id_unique[OF assms(1) _ assms(2)] assms(3) by (intro filter_cong) auto

lemma reclaim_ok:
  assumes "faults d = []" and wf: "wf_ownerships d" and "tenants_present d"
    and r: "r \<in> set (ownerships (tabs d))" "o_status r = Pending"
  shows "\<exists>d'. reclaim r d = (Inr (), d') \<and> faults d' = [] \<and> wf_ownerships d' \<and> tenants_present d' \<and>
     ownerships (tabs d') = filter (\<lambda>x. x \<noteq> r) (ownerships (tabs d))"
proof -
  obtain i d1 where i: "InsertAuditIntent (reclaim_intent r) d = (Inr i, d1)" "faults d1 = []" "wf_ownerships d1"
    using intent_ok[OF assms(1-4)] by blast
  have os1: "ownerships (tabs d1) = ownerships (tabs d)"
    using frame_intent(2)[of "reclaim_intent r" d] i(1) by simp
  let ?d2 = "d1\<lparr>tabs := (tabs d1)\<lparr>ownerships := release r (ownerships (tabs d1))\<rparr>\<rparr>"
  let ?d' = "snd (FinalizeAudit i ''success'' (reclaim_detail True) ?d2)"
  have "ReleaseOwnership (o_id r) d1 = (Inr (), ?d2)"
    using ReleaseOwnership_ok[of d1 r] i(2) os1 r by simp
  then have run: "reclaim r d = (Inr (), ?d')" by (simp add: reclaim_run i(1))
  have os': "ownerships (tabs ?d') = filter (\<lambda>x. x \<noteq> r) (ownerships (tabs d))"
    using frame_finalize(2) release_all[OF wf r] os1 by simp
  moreover have "tenants (tabs ?d') = tenants (tabs d)"
    using reclaim_effect(1)[of d r] by (simp add: run frame_def)
  ultimately have "tenants_present ?d'" using assms(3) by (auto simp: tenants_present_def)
  then show ?thesis
    using run os' reclaim_wf[OF wf, of r] FinalizeAudit_faults[of ?d2] i(2) by auto
qed

lemma sweep_fold_ok:
  assumes "faults d = []" and "wf_ownerships d" and "tenants_present d"
    and "distinct rs" and "\<forall>r \<in> set rs. r \<in> set (ownerships (tabs d)) \<and> o_status r = Pending"
  shows "\<exists>d'. foldl sweep_step (n, d) rs = (n + length rs, d') \<and>
     ownerships (tabs d') = filter (\<lambda>x. x \<notin> set rs) (ownerships (tabs d))"
  using assms
proof (induction rs arbitrary: n d)
  case (Cons r rs)
  obtain d1 where d1: "reclaim r d = (Inr (), d1)" "faults d1 = []" "wf_ownerships d1" "tenants_present d1"
    "ownerships (tabs d1) = filter (\<lambda>x. x \<noteq> r) (ownerships (tabs d))"
    using reclaim_ok[OF Cons.prems(1-3), of r] Cons.prems(5) by auto
  have "\<forall>x \<in> set rs. x \<in> set (ownerships (tabs d1)) \<and> o_status x = Pending"
    using Cons.prems(4,5) d1(5) by auto
  from Cons.IH[OF d1(2-4) _ this, of "Suc n"] Cons.prems(4) d1 show ?case
    by (auto simp: sweep_step_def intro!: filter_cong)
qed simp

lemma Sweep_all_stale:
  assumes "faults d = []" and wf: "wf_ownerships d" and "tenants_present d" and run: "Sweep ttl now d = (n, d')"
  shows "ownerships (tabs d') = filter (\<lambda>r. \<not> stale_row (now - ttl) r) (ownerships (tabs d)) \<and>
     n = count_where (stale_row (now - ttl)) (ownerships (tabs d))"
proof -
  let ?rs = "sort_key o_created_at (filter (stale_row (now - ttl)) (ownerships (tabs d)))"
  have "Sweep ttl now d = foldl sweep_step (0, d) ?rs"
    using assms(1) by (simp add: Sweep_def ListStalePendingOwnership_def stale_row_def[abs_def])
  moreover have "distinct ?rs" using wf_ownershipsD(3)[OF wf] by (simp add: distinct_map)
  moreover have "\<forall>r \<in> set ?rs. r \<in> set (ownerships (tabs d)) \<and> o_status r = Pending"
    by (auto simp: stale_row_def)
  ultimately obtain d2 where fold: "Sweep ttl now d = (0 + length ?rs, d2)"
    and rows: "ownerships (tabs d2) = filter (\<lambda>x. x \<notin> set ?rs) (ownerships (tabs d))"
    using sweep_fold_ok[OF assms(1-3), of ?rs 0] by metis
  have "filter (\<lambda>x. x \<notin> set ?rs) (ownerships (tabs d)) = filter (\<lambda>r. \<not> stale_row (now - ttl) r) (ownerships (tabs d))"
    by (intro filter_cong) simp_all
  with fold rows run show ?thesis by (simp add: count_where_def)
qed

text \<open>a sweep without failures reclaims exactly the expired reservations. It removes every pending
  row older than the TTL, leaves every other row as it is and in its order, and returns how many
  it removed.\<close>

theorem Sweep_exact:
  assumes "faults d = []" and wf: "wf_ownerships d" and "tenants_present d" and run: "Sweep ttl now d = (n, d')"
  shows "ownerships (tabs d') = filter (\<lambda>r. \<not> stale_row (now - ttl) r) (ownerships (tabs d)) \<and>
     n = count_where (stale_row (now - ttl)) (ownerships (tabs d))"
  by (rule Sweep_all_stale[OF assms])

theorem Sweep_exact_witness:
  "let (n, d') = Sweep 500 1000 pending_db in n = 1 \<and>
     ownerships (tabs d') = tl (ownerships (tabs pending_db))"
proof -
  obtain n d' where run: "Sweep 500 1000 pending_db = (n, d')" by force
  from Sweep_exact[OF _ pending_db_wf run] run show ?thesis
    by (simp add: count_where_def stale_row_def sample_ownership_def)
qed

text \<open>a reservation on a recycled VMID is expired at birth. When a reservation revives a
  tombstoned row whose first creation lies before the cutoff, the row keeps that creation time, so a
  sweep at that very moment removes the fresh reservation, though its deployment is still running.\<close>

theorem revived_reservation_swept:
  assumes wf: "wf_ownerships d" and "tenants_present d1"
    and old: "r0 \<in> set (ownerships (tabs d))" "o_vmid r0 = co_vmid p" "o_created_at r0 < now - ttl"
    and create: "CreateOwnership p d = (Inr r, d1)" "co_status p = Pending" and "faults d1 = []"
    and sweep: "Sweep ttl now d1 = (n, d2)"
  shows "\<forall>x \<in> set (ownerships (tabs d2)). o_vmid x \<noteq> co_vmid p"
proof -
  have wf1: "wf_ownerships d1" "r \<in> set (ownerships (tabs d1))" "o_vmid r = co_vmid p" "o_status r = Pending"
    using CreateOwnership_Inr(1,2,3,6)[OF wf create(1)] create(2) by auto
  have "filter (\<lambda>x. o_vmid x = co_vmid p) (ownerships (tabs d)) = [r0]"
    using filter_distinct_key[OF wf_ownershipsD(2)[OF wf] old(1)] old(2) by simp
  then have "r = revived_ownership p (clock d) r0"
    using create(1) by (auto simp: CreateOwnership_def op_elims upsert_ownership_def split: if_splits)
  then have "stale_row (now - ttl) r"
    using old(3) wf1(4) by (simp add: stale_row_def revived_ownership_def)
  moreover have "x = r" if "x \<in> set (ownerships (tabs d1))" "o_vmid x = co_vmid p" for x
    using distinct_key_unique[OF wf_ownershipsD(2)[OF wf1(1)] that(1) wf1(2)] that(2) wf1(3) by simp
  ultimately show ?thesis
    using Sweep_all_stale[OF \<open>faults d1 = []\<close> wf1(1) assms(2) sweep] by auto
qed


abbreviation revived_p :: create_ownership_params where "revived_p \<equiv> sample_create 100"

theorem revived_reservation_swept_witness:
  "succeeds (CreateOwnership revived_p (owned_db Tombstoned)) (\<lambda>r d1. o_status r = Pending \<and>
     o_updated_at r = 1000 \<and> (\<forall>x \<in> set (ownerships (tabs (snd (Sweep 500 1000 d1)))). o_vmid x \<noteq> 100))"
proof -
  have "succeeds (CreateOwnership revived_p (owned_db Tombstoned)) (\<lambda>r d1. o_status r = Pending \<and>
     o_updated_at r = 1000 \<and> faults d1 = [] \<and> map o_tenant_id (ownerships (tabs d1)) = [''t1''] \<and>
     map t_id (tenants (tabs d1)) = [''t1'', ''t2''])"
    by code_simp
  then show ?thesis
  proof (rule succeedsE)
    fix r d1
    assume run: "CreateOwnership revived_p (owned_db Tombstoned) = (Inr r, d1)"
      and r: "o_status r = Pending \<and> o_updated_at r = 1000 \<and> faults d1 = [] \<and>
        map o_tenant_id (ownerships (tabs d1)) = [''t1''] \<and> map t_id (tenants (tabs d1)) = [''t1'', ''t2'']"
    then have tp: "tenants_present d1" by (auto simp: tenants_present_def exists_where_def)
    obtain n d2 where sweep: "Sweep 500 1000 d1 = (n, d2)" by force
    from revived_reservation_swept[OF owned_db_wf tp _ _ _ run _ _ sweep,
        of "sample_ownership (sample_uuids 1) ''t2'' ''p2'' 100 Tombstoned"] r
    have "\<forall>x \<in> set (ownerships (tabs d2)). o_vmid x \<noteq> 100"
      by (simp add: sample_ownership_def sample_create_def)
    with r sweep show ?thesis by (intro succeedsI[OF run]) auto
  qed
qed

end
