(* ===== verification/Store_Tenancy.thy ===== *)
theory Store_Tenancy
  imports Samples "HOL-Library.AList"
begin

text \<open>
  Users, tenants, projects and role memberships (\<^verbatim>\<open>UserStore\<close>, \<^verbatim>\<open>TenantStore\<close>,
  \<^verbatim>\<open>ProjectStore\<close> and \<^verbatim>\<open>MembershipStore\<close>, implemented in \<^verbatim>\<open>postgres.go\<close>). The unique
  indexes and foreign keys of the migrations are the refusals of the inserts and of the project
  deletion. The main result is that \<open>GetEffectiveRoles\<close> returns, per scope, the highest
  role any of the user's memberships grants there.
\<close>

section \<open>Users\<close>

record create_user_params =
  cu_email :: string
  cu_display_name :: string
  cu_password_hash :: string
  cu_password_algo :: string
  cu_is_platform_admin :: bool

definition password_algo_ok :: "string \<Rightarrow> bool" where
  "password_algo_ok a \<longleftrightarrow> a = ''bcrypt'' \<or> a = ''argon2id''"

definition new_user :: "create_user_params \<Rightarrow> string \<Rightarrow> int \<Rightarrow> user" where
  "new_user p uid now = \<lparr>u_id = uid, u_email = cu_email p, u_display_name = cu_display_name p,
     u_password_hash = Some (cu_password_hash p), u_password_algo = Some (cu_password_algo p),
     u_is_platform_admin = cu_is_platform_admin p, u_totp_enabled = False, u_disabled = False,
     u_created_at = now, u_updated_at = now\<rparr>"

definition CreateUser :: "create_user_params \<Rightarrow> user op" where
  "CreateUser p = insert_row (\<lambda>uid now tb.
     if \<not> password_algo_ok (cu_password_algo p) then Inl ErrDB
     else if exists_where (\<lambda>u. lower_str (u_email u) = lower_str (cu_email p)) (users tb)
     then Inl ErrConflict
     else Inr (new_user p uid now, tb\<lparr>users := users tb @ [new_user p uid now]\<rparr>))"

definition GetUserByEmail :: "string \<Rightarrow> user op" where
  "GetUserByEmail email =
     query_row (\<lambda>tb. filter (\<lambda>u. lower_str (u_email u) = lower_str email) (users tb))"

definition GetUserByID :: "string \<Rightarrow> user op" where
  "GetUserByID i = query_row (\<lambda>tb. filter (\<lambda>u. u_id u = i) (users tb))"

definition CountUsers :: "nat op" where
  "CountUsers = query (\<lambda>tb. length (users tb))"

definition update_users :: "(user \<Rightarrow> bool) \<Rightarrow> (int \<Rightarrow> user \<Rightarrow> user) \<Rightarrow> int \<Rightarrow> tables \<Rightarrow> nat \<times> tables" where
  "update_users P f now tb =
     (count_where P (users tb), tb\<lparr>users := update_where P (f now) (users tb)\<rparr>)"

definition UpdatePasswordHash :: "string \<Rightarrow> string \<Rightarrow> string \<Rightarrow> unit op" where
  "UpdatePasswordHash i hash algo =
     bind_op (exec_checked (\<lambda>now tb.
        if exists_where (\<lambda>u. u_id u = i) (users tb) \<and> \<not> password_algo_ok algo then Inl ErrDB
        else Inr (update_users (\<lambda>u. u_id u = i)
          (\<lambda>now u. u\<lparr>u_password_hash := Some hash, u_password_algo := Some algo,
                      u_updated_at := now\<rparr>) now tb)))
       affected_or_missing"

definition SetTOTPEnabled :: "string \<Rightarrow> bool \<Rightarrow> unit op" where
  "SetTOTPEnabled i b =
     bind_op (exec (update_users (\<lambda>u. u_id u = i)
       (\<lambda>now u. u\<lparr>u_totp_enabled := b, u_updated_at := now\<rparr>))) affected_or_missing"

definition ListUsersByIDs :: "string list \<Rightarrow> (string \<rightharpoonup> user) op" where
  "ListUsersByIDs ids =
     (if ids = [] then ret Map.empty
      else query (\<lambda>tb. foldl (\<lambda>m u. m(u_id u \<mapsto> u)) Map.empty
                          (filter (\<lambda>u. u_id u \<in> set ids) (users tb))))"

section \<open>Tenants\<close>

record create_tenant_params =
  ct_name :: string
  ct_slug :: string

definition CreateTenant :: "create_tenant_params \<Rightarrow> tenant op" where
  "CreateTenant p = insert_row (\<lambda>uid now tb.
     if exists_where (\<lambda>t. t_slug t = ct_slug p) (tenants tb) then Inl ErrConflict
     else let t = \<lparr>t_id = uid, t_name = ct_name p, t_slug = ct_slug p, t_created_at = now,
                   t_updated_at = now\<rparr>
          in Inr (t, tb\<lparr>tenants := tenants tb @ [t]\<rparr>))"

definition GetTenantBySlug :: "string \<Rightarrow> tenant op" where
  "GetTenantBySlug slug = query_row (\<lambda>tb. filter (\<lambda>t. t_slug t = slug) (tenants tb))"

definition GetTenantByID :: "string \<Rightarrow> tenant op" where
  "GetTenantByID i = query_row (\<lambda>tb. filter (\<lambda>t. t_id t = i) (tenants tb))"

definition ListTenants :: "tenant list op" where
  "ListTenants = query (\<lambda>tb. sort_key t_slug (tenants tb))"

section \<open>Roles\<close>

definition roleRank :: "string \<Rightarrow> nat" where
  "roleRank r = (if r = ''owner'' then 3 else if r = ''contributor'' then 2
                 else if r = ''reader'' then 1 else 0)"

definition rank_role :: "nat \<Rightarrow> string" where
  "rank_role n = (if n = 3 then ''owner'' else if n = 2 then ''contributor''
                  else if n = 1 then ''reader'' else '''')"

text \<open>\<^verbatim>\<open>ListTenantsForUser\<close>: the CTE \<^verbatim>\<open>utr\<close> of (tenant, role) pairs, then the highest role per
  tenant that occurs in it.\<close>

definition user_tenant_roles :: "string \<Rightarrow> tables \<Rightarrow> (string \<times> string) list" where
  "user_tenant_roles uid tb =
     map (\<lambda>m. (m_scope_id m, m_role m))
       (filter (\<lambda>m. m_user_id m = uid \<and> m_scope_type m = TenantScope) (memberships tb)) @
     concat (map (\<lambda>m. map (\<lambda>p. (p_tenant_id p, m_role m))
         (filter (\<lambda>p. p_id p = m_scope_id m) (projects tb)))
       (filter (\<lambda>m. m_user_id m = uid \<and> m_scope_type m = ProjectScope) (memberships tb)))"

definition ListTenantsForUser :: "string \<Rightarrow> (tenant \<times> string) list op" where
  "ListTenantsForUser uid = query (\<lambda>tb.
     let utr = user_tenant_roles uid tb in
     map (\<lambda>t. (t, rank_role (foldl max 0 (map (\<lambda>x. roleRank (snd x))
                                   (filter (\<lambda>x. fst x = t_id t) utr)))))
       (sort_key t_slug (filter (\<lambda>t. exists_where (\<lambda>x. fst x = t_id t) utr) (tenants tb))))"

section \<open>Projects\<close>

record create_project_params =
  cp_tenant_id :: string
  cp_name :: string
  cp_slug :: string
  cp_pool_id :: string

definition CreateProject :: "create_project_params \<Rightarrow> project op" where
  "CreateProject p = insert_row (\<lambda>uid now tb.
     if exists_where (\<lambda>x. p_tenant_id x = cp_tenant_id p \<and> p_slug x = cp_slug p) (projects tb) \<or>
        exists_where (\<lambda>x. p_pool_id x = cp_pool_id p) (projects tb) then Inl ErrConflict
     else if \<not> exists_where (\<lambda>t. t_id t = cp_tenant_id p) (tenants tb) then Inl ErrDB
     else let x = \<lparr>p_id = uid, p_tenant_id = cp_tenant_id p, p_name = cp_name p, p_slug = cp_slug p,
                   p_pool_id = cp_pool_id p, p_created_at = now, p_updated_at = now\<rparr>
          in Inr (x, tb\<lparr>projects := projects tb @ [x]\<rparr>))"

definition GetProjectByID :: "string \<Rightarrow> project op" where
  "GetProjectByID i = query_row (\<lambda>tb. filter (\<lambda>p. p_id p = i) (projects tb))"

definition GetProjectByPoolID :: "string \<Rightarrow> project op" where
  "GetProjectByPoolID pool = query_row (\<lambda>tb. filter (\<lambda>p. p_pool_id p = pool) (projects tb))"

definition ListProjectsByTenant :: "string \<Rightarrow> project list op" where
  "ListProjectsByTenant t =
     query (\<lambda>tb. sort_key p_slug (filter (\<lambda>p. p_tenant_id p = t) (projects tb)))"

definition RenameProject :: "string \<Rightarrow> string \<Rightarrow> project op" where
  "RenameProject i name =
     bind_op (exec (\<lambda>now tb.
        let tb' = tb\<lparr>projects := update_where (\<lambda>p. p_id p = i)
                      (\<lambda>p. p\<lparr>p_name := name, p_updated_at := now\<rparr>) (projects tb)\<rparr>
        in (filter (\<lambda>p. p_id p = i) (projects tb'), tb')))
       first_row"

text \<open>The rows that refer to a project through \<^verbatim>\<open>(tenant_id, project_id)\<close>: ownership rows of
  any status, jobs, schedules, TTLs, TTL policies and deployment sets. None of these foreign
  keys cascades; \<^verbatim>\<open>audit_log.project_id\<close> is set to NULL.\<close>

definition project_referenced :: "string \<Rightarrow> tables \<Rightarrow> bool" where
  "project_referenced i tb \<longleftrightarrow>
     exists_where (\<lambda>r. o_project_id r = i) (ownerships tb) \<or>
     exists_where (\<lambda>j. j_project_id j = Some i) (jobs tb) \<or>
     exists_where (\<lambda>s. sc_project_id s = i) (schedules tb) \<or>
     exists_where (\<lambda>t. tl_project_id t = i) (ttls tb) \<or>
     exists_where (\<lambda>p. tp_project_id p = i) (ttl_policies tb) \<or>
     exists_where (\<lambda>s. ds_project_id s = i) (deployment_sets tb)"

definition DeleteProject :: "string \<Rightarrow> unit op" where
  "DeleteProject i =
     bind_op (exec_checked (\<lambda>now tb.
        if exists_where (\<lambda>p. p_id p = i) (projects tb) \<and> project_referenced i tb then Inl ErrDB
        else Inr (count_where (\<lambda>p. p_id p = i) (projects tb),
                  tb\<lparr>projects := delete_where (\<lambda>p. p_id p = i) (projects tb),
                     audit_log := update_where (\<lambda>a. ae_project_id a = Some i)
                       (\<lambda>a. a\<lparr>ae_project_id := None\<rparr>) (audit_log tb)\<rparr>)))
       affected_or_missing"

section \<open>Memberships\<close>

record create_membership_params =
  cm_user_id :: string
  cm_scope_type :: scope_type
  cm_scope_id :: string
  cm_role :: string

definition CreateMembership :: "create_membership_params \<Rightarrow> membership op" where
  "CreateMembership p = insert_row (\<lambda>uid now tb.
     if roleRank (cm_role p) = 0 \<or>
        exists_where (\<lambda>m. m_user_id m = cm_user_id p \<and> m_scope_type m = cm_scope_type p \<and>
                          m_scope_id m = cm_scope_id p) (memberships tb) \<or>
        \<not> exists_where (\<lambda>u. u_id u = cm_user_id p) (users tb) then Inl ErrDB
     else let m = \<lparr>m_id = uid, m_user_id = cm_user_id p, m_scope_type = cm_scope_type p,
                   m_scope_id = cm_scope_id p, m_role = cm_role p, m_created_at = now,
                   m_updated_at = now\<rparr>
          in Inr (m, tb\<lparr>memberships := memberships tb @ [m]\<rparr>))"

definition ListMembershipsByUser :: "string \<Rightarrow> membership list op" where
  "ListMembershipsByUser uid =
     query (\<lambda>tb. sort_key m_created_at (filter (\<lambda>m. m_user_id m = uid) (memberships tb)))"

definition ListMembershipsByScope :: "scope_type \<Rightarrow> string \<Rightarrow> membership list op" where
  "ListMembershipsByScope st sid = query (\<lambda>tb. sort_key m_created_at
     (filter (\<lambda>m. m_scope_type m = st \<and> m_scope_id m = sid) (memberships tb)))"

definition ListMembershipsByScopes :: "scope_type \<Rightarrow> string list \<Rightarrow> membership list op" where
  "ListMembershipsByScopes st sids =
     (if sids = [] then ret []
      else query (\<lambda>tb. sort_key m_created_at
        (filter (\<lambda>m. m_scope_type m = st \<and> m_scope_id m \<in> set sids) (memberships tb))))"

text \<open>The membership scan of \<open>GetEffectiveRoles\<close>, in table order, and its reduction.\<close>

definition effective_rows :: "string \<Rightarrow> string \<Rightarrow> tables \<Rightarrow> membership list" where
  "effective_rows uid tenant tb = filter (\<lambda>m. m_user_id m = uid \<and>
     (m_scope_type m = TenantScope \<and> m_scope_id m = tenant \<or>
      m_scope_type m = ProjectScope \<and>
        exists_where (\<lambda>p. p_id p = m_scope_id m \<and> p_tenant_id p = tenant) (projects tb)))
     (memberships tb)"

type_synonym role_map = "(string \<times> string) list"

definition role_at :: "role_map \<Rightarrow> string \<Rightarrow> string" where
  "role_at m k = (case map_of m k of None \<Rightarrow> '''' | Some r \<Rightarrow> r)"

definition effective_step :: "string \<times> role_map \<Rightarrow> membership \<Rightarrow> string \<times> role_map" where
  "effective_step acc m = (case m_scope_type m of
      TenantScope \<Rightarrow>
        (if roleRank (m_role m) > roleRank (fst acc) then (m_role m, snd acc) else acc)
    | ProjectScope \<Rightarrow>
        (if roleRank (m_role m) > roleRank (role_at (snd acc) (m_scope_id m))
         then (fst acc, AList.update (m_scope_id m) (m_role m) (snd acc)) else acc))"

definition GetEffectiveRoles :: "string \<Rightarrow> string \<Rightarrow> (string \<times> role_map) op" where
  "GetEffectiveRoles uid tenant =
     query (\<lambda>tb. foldl effective_step ('''', []) (effective_rows uid tenant tb))"

section \<open>What the effective roles are\<close>

text \<open>\<open>granted uid st sid n tb\<close>: some membership of the user at that very scope has rank at
  least \<open>n\<close>.\<close>

definition granted :: "string \<Rightarrow> scope_type \<Rightarrow> string \<Rightarrow> nat \<Rightarrow> tables \<Rightarrow> bool" where
  "granted uid st sid n tb \<longleftrightarrow> exists_where (\<lambda>m. m_user_id m = uid \<and> m_scope_type m = st \<and>
     m_scope_id m = sid \<and> n \<le> roleRank (m_role m)) (memberships tb)"

lemma roleRank_simps [simp]:
  "roleRank ''owner'' = 3" "roleRank ''contributor'' = 2" "roleRank ''reader'' = 1" "roleRank '''' = 0"
  by (simp_all add: roleRank_def)

lemma role_at_update [simp]:
  "role_at (AList.update k v m) k' = (if k' = k then v else role_at m k')"
  by (simp add: role_at_def update_conv')

lemma role_at_Nil [simp]: "role_at [] k = ''''"
  by (simp add: role_at_def)

lemma role_at_rank_pos: "0 < roleRank (role_at m k) \<Longrightarrow> m \<noteq> []"
  by auto

lemma effective_fold:
  "n \<le> roleRank (fst (foldl effective_step acc ms)) \<longleftrightarrow>
     n \<le> roleRank (fst acc) \<or> (\<exists>m \<in> set ms. m_scope_type m = TenantScope \<and> n \<le> roleRank (m_role m))"
  "n \<le> roleRank (role_at (snd (foldl effective_step acc ms)) p) \<longleftrightarrow>
     n \<le> roleRank (role_at (snd acc) p) \<or>
     (\<exists>m \<in> set ms. m_scope_type m = ProjectScope \<and> m_scope_id m = p \<and> n \<le> roleRank (m_role m))"
  by (induction ms arbitrary: acc)
    (auto simp: effective_step_def split: scope_type.splits if_splits)

lemma effective_rows_iff:
  "m \<in> set (effective_rows uid t tb) \<longleftrightarrow> m \<in> set (memberships tb) \<and> m_user_id m = uid \<and>
     (m_scope_type m = TenantScope \<and> m_scope_id m = t \<or>
      m_scope_type m = ProjectScope \<and>
        (\<exists>p \<in> set (projects tb). p_id p = m_scope_id m \<and> p_tenant_id p = t))"
  by (auto simp: effective_rows_def exists_where_def)

lemma GetEffectiveRoles_Inr:
  assumes "GetEffectiveRoles uid t d = (Inr (tr, pr), d')"
  shows "d' = pop_fault d"
    and "n \<le> roleRank tr \<longleftrightarrow> n = 0 \<or> granted uid TenantScope t n (tabs d)"
    and "n \<le> roleRank (role_at pr p) \<longleftrightarrow> n = 0 \<or>
       (\<exists>x \<in> set (projects (tabs d)). p_id x = p \<and> p_tenant_id x = t) \<and>
       granted uid ProjectScope p n (tabs d)"
proof -
  have run: "foldl effective_step ('''', []) (effective_rows uid t (tabs d)) = (tr, pr)"
    and "d' = pop_fault d"
    using assms by (auto simp: GetEffectiveRoles_def op_elims)
  then show "d' = pop_fault d" by simp
  show "n \<le> roleRank tr \<longleftrightarrow> n = 0 \<or> granted uid TenantScope t n (tabs d)"
    using effective_fold(1)[of n "('''', [])" "effective_rows uid t (tabs d)"] run
    by (auto simp: effective_rows_iff granted_def exists_where_def)
  show "n \<le> roleRank (role_at pr p) \<longleftrightarrow> n = 0 \<or>
       (\<exists>x \<in> set (projects (tabs d)). p_id x = p \<and> p_tenant_id x = t) \<and>
       granted uid ProjectScope p n (tabs d)"
    using effective_fold(2)[of n "('''', [])" "effective_rows uid t (tabs d)" p] run
    unfolding granted_def exists_where_def Bex_def effective_rows_iff by auto metis
qed

text \<open>\<^verbatim>\<open>GetEffectiveRoles\<close> is exact. The tenant role it returns reaches a rank exactly when a
  membership of the user on that tenant does, and the role it returns for a project reaches a
  rank exactly when the project belongs to the tenant and a membership of the user on that
  project does; memberships of other users, other tenants and other tenants' projects never
  count.\<close>

theorem GetEffectiveRoles_exact:
  "succeeds (GetEffectiveRoles uid t (d\<lparr>faults := []\<rparr>)) (\<lambda>(tr, pr) d'.
     (\<forall>n. n \<le> roleRank tr \<longleftrightarrow> n = 0 \<or> granted uid TenantScope t n (tabs d)) \<and>
     (\<forall>p n. n \<le> roleRank (role_at pr p) \<longleftrightarrow> n = 0 \<or>
        (\<exists>x \<in> set (projects (tabs d)). p_id x = p \<and> p_tenant_id x = t) \<and>
        granted uid ProjectScope p n (tabs d)) \<and>
     tabs d' = tabs d)"
proof -
  obtain tr pr d' where run: "GetEffectiveRoles uid t (d\<lparr>faults := []\<rparr>) = (Inr (tr, pr), d')"
    by (cases "fst (GetEffectiveRoles uid t (d\<lparr>faults := []\<rparr>))")
      (auto simp: GetEffectiveRoles_def prod_eq_iff)
  from succeedsI[OF run] GetEffectiveRoles_Inr[OF run] show ?thesis by simp
qed

section \<open>Deleting a project\<close>

text \<open>a project that ever had a guest cannot be deleted. Once every guest of the project is
  tombstoned no live ownership row counts against it, and still \<^verbatim>\<open>DeleteProject\<close> fails with a
  database error and deletes nothing, because the tombstoned rows refer to the project.\<close>

theorem tombstones_block_project_delete:
  assumes "p \<in> set (projects (tabs d))" and "r \<in> set (ownerships (tabs d))"
    and "o_project_id r = p_id p" and "o_status r = Tombstoned"
  shows "fst (DeleteProject (p_id p) d) = Inl ErrDB \<and> tabs (snd (DeleteProject (p_id p) d)) = tabs d"
  using assms
  by (auto simp: DeleteProject_def bind_op_def exec_checked_def stmt_def project_referenced_def
      exists_where_def)

abbreviation tombstone_db :: db where
  "tombstone_db \<equiv> sample_db (sample_tables\<lparr>ownerships :=
     [sample_ownership (sample_uuids 1) ''t1'' ''p1'' 100 Tombstoned]\<rparr>)"

theorem tombstones_block_project_delete_witness:
  "fst (DeleteProject ''p1'' tombstone_db) = Inl ErrDB"
  using tombstones_block_project_delete[of "sample_project ''t1'' ''p1''" tombstone_db
      "sample_ownership (sample_uuids 1) ''t1'' ''p1'' 100 Tombstoned"]
  by (simp add: sample_defs)

end
