(* ===== verification/Store_Identity.thy ===== *)
theory Store_Identity
  imports Store_Tenancy
begin

text \<open>
  The identity aggregates of \<^verbatim>\<open>postgres.go\<close>: sessions, invitations, TOTP secrets, recovery codes and
  login challenges. Invitations, recovery codes and login challenges are spent by a guarded UPDATE
  whose row count says whether this call won; the locale \<open>single_use\<close> is the contract of the three, and
  its lemma that nothing is spent twice is proved once.
\<close>

section \<open>Sessions\<close>

record create_session_params =
  cs_user_id :: string
  cs_token_hash :: string
  cs_absolute_expires_at :: int
  cs_ip :: "string option"
  cs_user_agent :: "string option"

definition new_session :: "create_session_params \<Rightarrow> string \<Rightarrow> int \<Rightarrow> session" where
  "new_session p uid now = \<lparr>s_id = uid, s_token_hash = cs_token_hash p, s_user_id = cs_user_id p,
     s_active_tenant_id = None, s_created_at = now, s_last_seen_at = now,
     s_absolute_expires_at = cs_absolute_expires_at p, s_revoked_at = None, s_ip = cs_ip p,
     s_user_agent = cs_user_agent p\<rparr>"

text \<open>The token hash is unique and the user exists; the code does not single out either violation.\<close>

definition CreateSession :: "create_session_params \<Rightarrow> session op" where
  "CreateSession p = insert_row (\<lambda>uid now tb.
     if exists_where (\<lambda>s. s_token_hash s = cs_token_hash p) (sessions tb) \<or>
        \<not> exists_where (\<lambda>u. u_id u = cs_user_id p) (users tb) then Inl ErrDB
     else Inr (new_session p uid now, tb\<lparr>sessions := sessions tb @ [new_session p uid now]\<rparr>))"

definition GetSessionByTokenHash :: "string \<Rightarrow> session op" where
  "GetSessionByTokenHash h = query_row (\<lambda>tb. filter (\<lambda>s. s_token_hash s = h) (sessions tb))"

definition update_sessions :: "(session \<Rightarrow> bool) \<Rightarrow> (int \<Rightarrow> session \<Rightarrow> session) \<Rightarrow> int \<Rightarrow> tables \<Rightarrow> nat \<times> tables" where
  "update_sessions P f now tb =
     (count_where P (sessions tb), tb\<lparr>sessions := update_where P (f now) (sessions tb)\<rparr>)"

definition ignore_count :: "nat \<Rightarrow> unit op" where
  "ignore_count n = ret ()"

definition TouchSession :: "string \<Rightarrow> int \<Rightarrow> unit op" where
  "TouchSession i at = bind_op (exec (update_sessions (\<lambda>s. s_id s = i) (\<lambda>_ s. s\<lparr>s_last_seen_at := at\<rparr>))) ignore_count"

text \<open>\<^verbatim>\<open>active_tenant_id\<close> refers to a tenant.\<close>

definition SetSessionActiveTenant :: "string \<Rightarrow> string option \<Rightarrow> unit op" where
  "SetSessionActiveTenant i t =
     bind_op (exec_checked (\<lambda>now tb.
        if exists_where (\<lambda>s. s_id s = i) (sessions tb) \<and>
           (case t of None \<Rightarrow> False | Some tid \<Rightarrow> \<not> exists_where (\<lambda>r. t_id r = tid) (tenants tb)) then Inl ErrDB
        else Inr (update_sessions (\<lambda>s. s_id s = i) (\<lambda>_ s. s\<lparr>s_active_tenant_id := t\<rparr>) now tb)))
       affected_or_missing"

definition RevokeSession :: "string \<Rightarrow> unit op" where
  "RevokeSession i = bind_op (exec (update_sessions (\<lambda>s. s_id s = i \<and> s_revoked_at s = None)
     (\<lambda>now s. s\<lparr>s_revoked_at := Some now\<rparr>))) ignore_count"

definition RevokeOtherUserSessions :: "string \<Rightarrow> string \<Rightarrow> unit op" where
  "RevokeOtherUserSessions uid keep =
     bind_op (exec (update_sessions (\<lambda>s. s_user_id s = uid \<and> s_id s \<noteq> keep \<and> s_revoked_at s = None)
     (\<lambda>now s. s\<lparr>s_revoked_at := Some now\<rparr>))) ignore_count"

definition ListSessionsByUser :: "string \<Rightarrow> session list op" where
  "ListSessionsByUser uid = query_now (\<lambda>now tb. rev (sort_key s_last_seen_at
     (filter (\<lambda>s. s_user_id s = uid \<and> s_revoked_at s = None \<and> s_absolute_expires_at s > now) (sessions tb))))"

section \<open>Invitations\<close>

record create_invitation_params =
  ci_token_hash :: string
  ci_email :: string
  ci_scope_type :: scope_type
  ci_scope_id :: string
  ci_role :: string
  ci_invited_by :: "string option"
  ci_expires_at :: int

definition new_invitation :: "create_invitation_params \<Rightarrow> string \<Rightarrow> int \<Rightarrow> invitation" where
  "new_invitation p uid now = \<lparr>i_id = uid, i_token_hash = ci_token_hash p, i_email = ci_email p,
     i_scope_type = ci_scope_type p, i_scope_id = ci_scope_id p, i_role = ci_role p,
     i_invited_by = ci_invited_by p, i_expires_at = ci_expires_at p, i_accepted_at = None,
     i_created_at = now, i_updated_at = now\<rparr>"

definition superseded :: "create_invitation_params \<Rightarrow> invitation \<Rightarrow> bool" where
  "superseded p r \<longleftrightarrow> lower_str (i_email r) = lower_str (ci_email p) \<and> i_scope_type r = ci_scope_type p \<and>
     i_scope_id r = ci_scope_id p \<and> i_accepted_at r = None"

definition CreateInvitation :: "create_invitation_params \<Rightarrow> invitation op" where
  "CreateInvitation p =
     bind_op (exec (\<lambda>now tb. ((), tb\<lparr>invitations := delete_where (superseded p) (invitations tb)\<rparr>))) (\<lambda>_.
     insert_row (\<lambda>uid now tb.
       if roleRank (ci_role p) = 0 \<or>
          (case ci_invited_by p of None \<Rightarrow> False | Some u \<Rightarrow> \<not> exists_where (\<lambda>r. u_id r = u) (users tb)) then Inl ErrDB
       else if exists_where (\<lambda>r. i_token_hash r = ci_token_hash p) (invitations tb) then Inl ErrConflict
       else Inr (new_invitation p uid now, tb\<lparr>invitations := invitations tb @ [new_invitation p uid now]\<rparr>)))"

definition GetInvitationByTokenHash :: "string \<Rightarrow> invitation op" where
  "GetInvitationByTokenHash h = query_row (\<lambda>tb. filter (\<lambda>r. i_token_hash r = h) (invitations tb))"

definition GetInvitationByID :: "string \<Rightarrow> invitation op" where
  "GetInvitationByID i = query_row (\<lambda>tb. filter (\<lambda>r. i_id r = i) (invitations tb))"

definition ListPendingInvitationsByScopes :: "scope_type \<Rightarrow> string list \<Rightarrow> invitation list op" where
  "ListPendingInvitationsByScopes st ids = (if ids = [] then ret []
     else query (\<lambda>tb. sort_key i_created_at (filter (\<lambda>r. i_scope_type r = st \<and> i_scope_id r \<in> set ids \<and>
            i_accepted_at r = None) (invitations tb))))"

definition MarkInvitationAccepted :: "string \<Rightarrow> bool op" where
  "MarkInvitationAccepted i = exec (\<lambda>now tb.
     let P = (\<lambda>r. i_id r = i \<and> i_accepted_at r = None) in
     (count_where P (invitations tb) > 0,
      tb\<lparr>invitations := update_where P (\<lambda>r. r\<lparr>i_accepted_at := Some now, i_updated_at := now\<rparr>) (invitations tb)\<rparr>))"

definition DeleteInvitation :: "string \<Rightarrow> unit op" where
  "DeleteInvitation i = bind_op (exec (\<lambda>now tb.
     (count_where (\<lambda>r. i_id r = i) (invitations tb),
      tb\<lparr>invitations := delete_where (\<lambda>r. i_id r = i) (invitations tb)\<rparr>))) affected_or_missing"

section \<open>TOTP secrets\<close>

definition UpsertTOTPSecret :: "string \<Rightarrow> string \<Rightarrow> unit op" where
  "UpsertTOTPSecret uid sealed = exec_checked (\<lambda>now tb.
     if exists_where (\<lambda>t. ts_user_id t = uid) (totp_secrets tb)
     then Inr ((), tb\<lparr>totp_secrets := update_where (\<lambda>t. ts_user_id t = uid)
            (\<lambda>t. t\<lparr>ts_secret_encrypted := sealed, ts_confirmed_at := None\<rparr>) (totp_secrets tb)\<rparr>)
     else if \<not> exists_where (\<lambda>u. u_id u = uid) (users tb) then Inl ErrDB
     else Inr ((), tb\<lparr>totp_secrets := totp_secrets tb @
            [\<lparr>ts_user_id = uid, ts_secret_encrypted = sealed, ts_confirmed_at = None\<rparr>]\<rparr>))"

definition GetTOTPSecret :: "string \<Rightarrow> totp_secret op" where
  "GetTOTPSecret uid = query_row (\<lambda>tb. filter (\<lambda>t. ts_user_id t = uid) (totp_secrets tb))"

definition ConfirmTOTPSecret :: "string \<Rightarrow> unit op" where
  "ConfirmTOTPSecret uid = bind_op (exec (\<lambda>now tb.
     let P = (\<lambda>t. ts_user_id t = uid \<and> ts_confirmed_at t = None) in
     (count_where P (totp_secrets tb),
      tb\<lparr>totp_secrets := update_where P (\<lambda>t. t\<lparr>ts_confirmed_at := Some now\<rparr>) (totp_secrets tb)\<rparr>))) affected_or_missing"

definition DeleteTOTPSecret :: "string \<Rightarrow> unit op" where
  "DeleteTOTPSecret uid = exec (\<lambda>now tb.
     ((), tb\<lparr>totp_secrets := delete_where (\<lambda>t. ts_user_id t = uid) (totp_secrets tb)\<rparr>))"

section \<open>Recovery codes\<close>

definition DeleteRecoveryCodes :: "string \<Rightarrow> unit op" where
  "DeleteRecoveryCodes uid = exec (\<lambda>now tb.
     ((), tb\<lparr>recovery_codes := delete_where (\<lambda>c. rc_user_id c = uid) (recovery_codes tb)\<rparr>))"

definition new_codes :: "string \<Rightarrow> string list \<Rightarrow> recovery_code list" where
  "new_codes uid hs = map (\<lambda>h. \<lparr>rc_user_id = uid, rc_code_hash = h, rc_used_at = None\<rparr>) hs"

definition ReplaceRecoveryCodes :: "string \<Rightarrow> string list \<Rightarrow> unit op" where
  "ReplaceRecoveryCodes uid hs = bind_op (DeleteRecoveryCodes uid) (\<lambda>_.
     if hs = [] then ret ()
     else exec_checked (\<lambda>now tb.
       if exists_where (\<lambda>u. u_id u = uid) (users tb)
       then Inr ((), tb\<lparr>recovery_codes := recovery_codes tb @ new_codes uid hs\<rparr>) else Inl ErrDB))"

definition ConsumeRecoveryCode :: "string \<Rightarrow> string \<Rightarrow> bool op" where
  "ConsumeRecoveryCode uid h = exec (\<lambda>now tb.
     let P = (\<lambda>c. rc_user_id c = uid \<and> rc_code_hash c = h \<and> rc_used_at c = None) in
     (count_where P (recovery_codes tb) > 0,
      tb\<lparr>recovery_codes := update_where P (\<lambda>c. c\<lparr>rc_used_at := Some now\<rparr>) (recovery_codes tb)\<rparr>))"

definition CountUnusedRecoveryCodes :: "string \<Rightarrow> nat op" where
  "CountUnusedRecoveryCodes uid = query (\<lambda>tb.
     count_where (\<lambda>c. rc_user_id c = uid \<and> rc_used_at c = None) (recovery_codes tb))"

section \<open>Login challenges\<close>

record create_login_challenge_params =
  clc_user_id :: string
  clc_token_hash :: string
  clc_expires_at :: int
  clc_ip :: "string option"
  clc_user_agent :: "string option"

definition new_challenge :: "create_login_challenge_params \<Rightarrow> string \<Rightarrow> int \<Rightarrow> login_challenge" where
  "new_challenge p uid now = \<lparr>lc_id = uid, lc_token_hash = clc_token_hash p, lc_user_id = clc_user_id p,
     lc_attempts = 0, lc_created_at = now, lc_expires_at = clc_expires_at p, lc_consumed_at = None,
     lc_ip = clc_ip p, lc_user_agent = clc_user_agent p\<rparr>"

definition CreateLoginChallenge :: "create_login_challenge_params \<Rightarrow> login_challenge op" where
  "CreateLoginChallenge p = insert_row (\<lambda>uid now tb.
     if \<not> exists_where (\<lambda>u. u_id u = clc_user_id p) (users tb) then Inl ErrDB
     else if exists_where (\<lambda>c. lc_token_hash c = clc_token_hash p) (login_challenges tb) then Inl ErrConflict
     else Inr (new_challenge p uid now, tb\<lparr>login_challenges := login_challenges tb @ [new_challenge p uid now]\<rparr>))"

definition GetLoginChallengeByTokenHash :: "string \<Rightarrow> login_challenge op" where
  "GetLoginChallengeByTokenHash h = query_row (\<lambda>tb. filter (\<lambda>c. lc_token_hash c = h) (login_challenges tb))"

definition ConsumeLoginChallenge :: "string \<Rightarrow> bool op" where
  "ConsumeLoginChallenge i = exec (\<lambda>now tb.
     let P = (\<lambda>c. lc_id c = i \<and> lc_consumed_at c = None) in
     (count_where P (login_challenges tb) > 0,
      tb\<lparr>login_challenges := update_where P (\<lambda>c. c\<lparr>lc_consumed_at := Some now\<rparr>) (login_challenges tb)\<rparr>))"

definition failed_challenge :: "int \<Rightarrow> int \<Rightarrow> login_challenge \<Rightarrow> login_challenge" where
  "failed_challenge mx now c = c\<lparr>lc_attempts := lc_attempts c + 1,
     lc_consumed_at := (if lc_attempts c + 1 \<ge> mx then Some now else lc_consumed_at c)\<rparr>"

text \<open>The answer is whether the challenge is locked now; no unconsumed row counts as locked.\<close>

definition RecordChallengeFailure :: "string \<Rightarrow> int \<Rightarrow> bool op" where
  "RecordChallengeFailure i mx = exec (\<lambda>now tb.
     let P = (\<lambda>c. lc_id c = i \<and> lc_consumed_at c = None) in
     (case filter P (login_challenges tb) of
        [] \<Rightarrow> True
      | c # _ \<Rightarrow> lc_consumed_at (failed_challenge mx now c) \<noteq> None,
      tb\<lparr>login_challenges := update_where P (failed_challenge mx now) (login_challenges tb)\<rparr>))"

section \<open>Spending once\<close>

text \<open>What the flows rely on in a guarded UPDATE that spends a token: the call answers whether the
  token was unspent, and afterwards it is spent for good. \<open>used k d\<close> says that \<open>k\<close> was issued and
  spent; \<open>step k\<close> are the operations that do not issue \<open>k\<close> anew.\<close>

locale single_use =
  fixes consume :: "'k \<Rightarrow> bool op"
    and unspent :: "'k \<Rightarrow> db \<Rightarrow> bool"
    and used :: "'k \<Rightarrow> db \<Rightarrow> bool"
    and issued :: "'k \<Rightarrow> db \<Rightarrow> bool"
    and step :: "'k \<Rightarrow> db \<Rightarrow> db \<Rightarrow> bool"
  assumes consume_answer: "consume k d = (Inr b, d') \<Longrightarrow> b = unspent k d"
    and consume_spends: "\<lbrakk>issued k d; consume k d = (Inr True, d')\<rbrakk> \<Longrightarrow> used k d'"
    and used_spent: "used k d \<Longrightarrow> \<not> unspent k d"
    and step_used: "\<lbrakk>step k d d'; used k d\<rbrakk> \<Longrightarrow> used k d'"
begin

lemma run_used: "\<lbrakk>(step k)\<^sup>*\<^sup>* d d'; used k d\<rbrakk> \<Longrightarrow> used k d'"
  by (induction rule: rtranclp_induct) (auto intro: step_used)

lemma never_twice:
  assumes "issued k d" and "consume k d = (Inr True, d1)" and "(step k)\<^sup>*\<^sup>* d1 d2"
    and "consume k d2 = (Inr b, d3)"
  shows "\<not> b"
  using consume_answer[OF assms(4)] used_spent[OF run_used[OF assms(3) consume_spends[OF assms(1,2)]]] by simp

end

text \<open>Store activity, seen from the three tables. \<open>other\<close> is any operation that touches none of them.\<close>

inductive identity_step :: "(string \<times> string) option \<Rightarrow> db \<Rightarrow> db \<Rightarrow> bool" for keep where
  create_invitation: "identity_step keep d (snd (CreateInvitation p d))"
| accept_invitation: "identity_step keep d (snd (MarkInvitationAccepted i d))"
| delete_invitation: "identity_step keep d (snd (DeleteInvitation i d))"
| replace_codes: "\<forall>h \<in> set hs. keep \<noteq> Some (uid, h) \<Longrightarrow> identity_step keep d (snd (ReplaceRecoveryCodes uid hs d))"
| consume_code: "identity_step keep d (snd (ConsumeRecoveryCode uid h d))"
| delete_codes: "identity_step keep d (snd (DeleteRecoveryCodes uid d))"
| create_challenge: "identity_step keep d (snd (CreateLoginChallenge c d))"
| consume_challenge: "identity_step keep d (snd (ConsumeLoginChallenge i d))"
| fail_challenge: "identity_step keep d (snd (RecordChallengeFailure i n d))"
| other: "\<lbrakk>invitations (tabs d') = invitations (tabs d); recovery_codes (tabs d') = recovery_codes (tabs d);
     login_challenges (tabs d') = login_challenges (tabs d); uuids d' = uuids d; drawn d \<le> drawn d'\<rbrakk> \<Longrightarrow>
     identity_step keep d d'"

definition drawn_id :: "string \<Rightarrow> db \<Rightarrow> bool" where
  "drawn_id i d \<longleftrightarrow> inj (uuids d) \<and> i \<in> uuids d ` {..<drawn d}"

lemma drawn_id_later: "\<lbrakk>drawn_id i d; uuids d' = uuids d; drawn d \<le> drawn d'\<rbrakk> \<Longrightarrow> drawn_id i d'"
  by (fastforce simp: drawn_id_def)

lemma drawn_id_fresh: "drawn_id i d \<Longrightarrow> uuids d (drawn d) \<noteq> i"
  by (auto simp: drawn_id_def inj_def)

definition used_challenge :: "string \<Rightarrow> db \<Rightarrow> bool" where
  "used_challenge i d \<longleftrightarrow> drawn_id i d \<and> (\<forall>c \<in> set (login_challenges (tabs d)). lc_id c = i \<longrightarrow> lc_consumed_at c \<noteq> None)"

definition used_invitation :: "string \<Rightarrow> db \<Rightarrow> bool" where
  "used_invitation i d \<longleftrightarrow> drawn_id i d \<and> (\<forall>r \<in> set (invitations (tabs d)). i_id r = i \<longrightarrow> i_accepted_at r \<noteq> None)"

definition used_code :: "string \<times> string \<Rightarrow> db \<Rightarrow> bool" where
  "used_code k d \<longleftrightarrow> (\<forall>c \<in> set (recovery_codes (tabs d)). (rc_user_id c, rc_code_hash c) = k \<longrightarrow> rc_used_at c \<noteq> None)"

text \<open>Each operation touches one table.\<close>

lemma invitation_ops:
  "recovery_codes (tabs (snd (CreateInvitation p d))) = recovery_codes (tabs d)"
  "login_challenges (tabs (snd (CreateInvitation p d))) = login_challenges (tabs d)"
  "uuids (snd (CreateInvitation p d)) = uuids d" "drawn d \<le> drawn (snd (CreateInvitation p d))"
  "recovery_codes (tabs (snd (MarkInvitationAccepted i d))) = recovery_codes (tabs d)"
  "login_challenges (tabs (snd (MarkInvitationAccepted i d))) = login_challenges (tabs d)"
  "uuids (snd (MarkInvitationAccepted i d)) = uuids d" "drawn (snd (MarkInvitationAccepted i d)) = drawn d"
  "recovery_codes (tabs (snd (DeleteInvitation i d))) = recovery_codes (tabs d)"
  "login_challenges (tabs (snd (DeleteInvitation i d))) = login_challenges (tabs d)"
  "uuids (snd (DeleteInvitation i d)) = uuids d" "drawn (snd (DeleteInvitation i d)) = drawn d"
  by (simp_all add: CreateInvitation_def MarkInvitationAccepted_def DeleteInvitation_def bind_op_def exec_def
      insert_row_def stmt_def Let_def affected_or_missing_def)

lemma code_ops:
  "invitations (tabs (snd (ReplaceRecoveryCodes u hs d))) = invitations (tabs d)"
  "login_challenges (tabs (snd (ReplaceRecoveryCodes u hs d))) = login_challenges (tabs d)"
  "uuids (snd (ReplaceRecoveryCodes u hs d)) = uuids d" "drawn (snd (ReplaceRecoveryCodes u hs d)) = drawn d"
  "invitations (tabs (snd (ConsumeRecoveryCode u h d))) = invitations (tabs d)"
  "login_challenges (tabs (snd (ConsumeRecoveryCode u h d))) = login_challenges (tabs d)"
  "uuids (snd (ConsumeRecoveryCode u h d)) = uuids d" "drawn (snd (ConsumeRecoveryCode u h d)) = drawn d"
  "invitations (tabs (snd (DeleteRecoveryCodes u d))) = invitations (tabs d)"
  "login_challenges (tabs (snd (DeleteRecoveryCodes u d))) = login_challenges (tabs d)"
  "uuids (snd (DeleteRecoveryCodes u d)) = uuids d" "drawn (snd (DeleteRecoveryCodes u d)) = drawn d"
  by (simp_all add: ReplaceRecoveryCodes_def ConsumeRecoveryCode_def DeleteRecoveryCodes_def bind_op_def exec_def
      exec_checked_def stmt_def Let_def)

lemma challenge_ops:
  "invitations (tabs (snd (CreateLoginChallenge c d))) = invitations (tabs d)"
  "recovery_codes (tabs (snd (CreateLoginChallenge c d))) = recovery_codes (tabs d)"
  "uuids (snd (CreateLoginChallenge c d)) = uuids d" "drawn d \<le> drawn (snd (CreateLoginChallenge c d))"
  "invitations (tabs (snd (ConsumeLoginChallenge i d))) = invitations (tabs d)"
  "recovery_codes (tabs (snd (ConsumeLoginChallenge i d))) = recovery_codes (tabs d)"
  "uuids (snd (ConsumeLoginChallenge i d)) = uuids d" "drawn (snd (ConsumeLoginChallenge i d)) = drawn d"
  "invitations (tabs (snd (RecordChallengeFailure i n d))) = invitations (tabs d)"
  "recovery_codes (tabs (snd (RecordChallengeFailure i n d))) = recovery_codes (tabs d)"
  "uuids (snd (RecordChallengeFailure i n d)) = uuids d" "drawn (snd (RecordChallengeFailure i n d)) = drawn d"
  by (simp_all add: CreateLoginChallenge_def ConsumeLoginChallenge_def RecordChallengeFailure_def exec_def
      insert_row_def stmt_def Let_def)

lemmas identity_ops = invitation_ops code_ops challenge_ops

lemma identity_step_frame:
  assumes "identity_step keep d d'"
  shows "uuids d' = uuids d \<and> drawn d \<le> drawn d'"
  using assms by cases (simp_all add: identity_ops)

lemma step_drawn_id: "\<lbrakk>identity_step keep d d'; drawn_id i d\<rbrakk> \<Longrightarrow> drawn_id i d'"
  using identity_step_frame drawn_id_later by blast

lemma used_challenge_step:
  assumes "identity_step keep d d'" and "used_challenge i d"
  shows "used_challenge i d'"
proof -
  have "\<forall>c \<in> set (login_challenges (tabs d')). lc_id c = i \<longrightarrow> lc_consumed_at c \<noteq> None"
    using assms(1)
  proof cases
    case (create_challenge p)
    then show ?thesis using assms(2) drawn_id_fresh[of i d]
      by (auto simp: used_challenge_def CreateLoginChallenge_def insert_row_def stmt_def Let_def new_challenge_def
          split: if_splits)
  next
    case (consume_challenge j)
    then show ?thesis using assms(2)
      by (auto simp: used_challenge_def ConsumeLoginChallenge_def exec_def stmt_def Let_def set_update_where split: if_splits)
  next
    case (fail_challenge j n)
    then show ?thesis using assms(2)
      by (auto simp: used_challenge_def RecordChallengeFailure_def exec_def stmt_def Let_def set_update_where
          failed_challenge_def split: if_splits)
  qed (use assms(2) in \<open>simp_all add: used_challenge_def identity_ops\<close>)
  then show ?thesis using assms step_drawn_id by (simp add: used_challenge_def)
qed

lemma used_invitation_step:
  assumes "identity_step keep d d'" and "used_invitation i d"
  shows "used_invitation i d'"
proof -
  have "\<forall>r \<in> set (invitations (tabs d')). i_id r = i \<longrightarrow> i_accepted_at r \<noteq> None"
    using assms(1)
  proof cases
    case (create_invitation p)
    then show ?thesis using assms(2) drawn_id_fresh[of i d]
      by (auto simp: used_invitation_def CreateInvitation_def bind_op_def exec_def insert_row_def stmt_def Let_def
          new_invitation_def split: if_splits)
  next
    case (accept_invitation j)
    then show ?thesis using assms(2)
      by (auto simp: used_invitation_def MarkInvitationAccepted_def exec_def stmt_def Let_def set_update_where split: if_splits)
  next
    case (delete_invitation j)
    then show ?thesis using assms(2)
      by (auto simp: used_invitation_def DeleteInvitation_def bind_op_def exec_def stmt_def affected_or_missing_def split: if_splits)
  qed (use assms(2) in \<open>simp_all add: used_invitation_def identity_ops\<close>)
  then show ?thesis using assms step_drawn_id by (simp add: used_invitation_def)
qed

lemma used_code_step:
  assumes "identity_step (Some k) d d'" and "used_code k d"
  shows "used_code k d'"
  using assms(1)
proof cases
  case (replace_codes hs uid)
  then show ?thesis using assms(2)
    by (auto simp: used_code_def ReplaceRecoveryCodes_def DeleteRecoveryCodes_def bind_op_def exec_def exec_checked_def
        stmt_def new_codes_def split: if_splits)
next
  case (consume_code uid h)
  then show ?thesis using assms(2)
    by (auto simp: used_code_def ConsumeRecoveryCode_def exec_def stmt_def Let_def set_update_where split: if_splits)
next
  case (delete_codes uid)
  then show ?thesis using assms(2)
    by (auto simp: used_code_def DeleteRecoveryCodes_def exec_def stmt_def split: if_splits)
qed (use assms(2) in \<open>simp_all add: used_code_def identity_ops\<close>)

interpretation challenge: single_use ConsumeLoginChallenge
  "\<lambda>i d. exists_where (\<lambda>c. lc_id c = i \<and> lc_consumed_at c = None) (login_challenges (tabs d))"
  used_challenge drawn_id "\<lambda>_. identity_step None"
proof (unfold_locales, goal_cases)
  case (1 i d b d')
  then show ?case by (auto simp: ConsumeLoginChallenge_def op_elims Let_def count_where_pos_iff exists_where_def)
next
  case (2 i d d')
  then show ?case
    by (auto simp: ConsumeLoginChallenge_def op_elims Let_def used_challenge_def set_update_where drawn_id_def split: if_splits)
next
  case (3 i d)
  then show ?case by (auto simp: used_challenge_def exists_where_def)
next
  case (4 i d d')
  then show ?case by (rule used_challenge_step)
qed

interpretation invite: single_use MarkInvitationAccepted
  "\<lambda>i d. exists_where (\<lambda>r. i_id r = i \<and> i_accepted_at r = None) (invitations (tabs d))"
  used_invitation drawn_id "\<lambda>_. identity_step None"
proof (unfold_locales, goal_cases)
  case (1 i d b d')
  then show ?case by (auto simp: MarkInvitationAccepted_def op_elims Let_def count_where_pos_iff exists_where_def)
next
  case (2 i d d')
  then show ?case
    by (auto simp: MarkInvitationAccepted_def op_elims Let_def used_invitation_def set_update_where drawn_id_def split: if_splits)
next
  case (3 i d)
  then show ?case by (auto simp: used_invitation_def exists_where_def)
next
  case (4 i d d')
  then show ?case by (rule used_invitation_step)
qed

definition unspent_code :: "string \<times> string \<Rightarrow> db \<Rightarrow> bool" where
  "unspent_code k d \<longleftrightarrow> exists_where (\<lambda>c. rc_user_id c = fst k \<and> rc_code_hash c = snd k \<and> rc_used_at c = None)
     (recovery_codes (tabs d))"

lemma ConsumeRecoveryCode_Inr:
  assumes "ConsumeRecoveryCode u h d = (Inr b, d')"
  shows "b = unspent_code (u, h) d" and "used_code (u, h) d'"
proof -
  let ?P = "\<lambda>c. rc_user_id c = u \<and> rc_code_hash c = h \<and> rc_used_at c = None"
  have run: "b = (count_where ?P (recovery_codes (tabs d)) > 0)"
    "recovery_codes (tabs d') = update_where ?P (\<lambda>c. c\<lparr>rc_used_at := Some (clock d)\<rparr>) (recovery_codes (tabs d))"
    using assms unfolding ConsumeRecoveryCode_def exec_Inr_iff Let_def by auto
  show "b = unspent_code (u, h) d"
    unfolding run(1) count_where_pos_iff by (simp add: unspent_code_def exists_where_def)
  show "used_code (u, h) d'"
    unfolding used_code_def
  proof (intro ballI impI)
    fix c assume "c \<in> set (recovery_codes (tabs d'))" and k: "(rc_user_id c, rc_code_hash c) = (u, h)"
    then obtain c0 where "c = (if ?P c0 then c0\<lparr>rc_used_at := Some (clock d)\<rparr> else c0)"
      unfolding run(2) in_update_where by (elim bexE)
    with k show "rc_used_at c \<noteq> None" by (cases "?P c0") auto
  qed
qed

interpretation recovery: single_use "\<lambda>k. ConsumeRecoveryCode (fst k) (snd k)" unspent_code used_code "\<lambda>_ _. True"
  "\<lambda>k. identity_step (Some k)"
proof (unfold_locales, goal_cases)
  case (1 k d b d')
  then show ?case using ConsumeRecoveryCode_Inr(1) by fastforce
next
  case (2 k d d')
  then show ?case using ConsumeRecoveryCode_Inr(2) by fastforce
next
  case (3 k d)
  then show ?case unfolding used_code_def unspent_code_def exists_where_def by force
next
  case (4 k d d')
  then show ?case by (rule used_code_step)
qed

end
