(* ===== verification/Login_Limiter.thy ===== *)
theory Login_Limiter
  imports Go_Lib "HOL-Library.AList" "HOL-Library.Multiset"
begin

text \<open>
  The login rate limiter (\<^verbatim>\<open>internal/auth/ratelimit.go\<close>): two failure trackers with locks, one per
  account and one for the second factor, a window per client address, and the bound on concurrent
  password hashes. A Go map is an association list whose order is the order of a \<^verbatim>\<open>range\<close> loop; a run
  of the tracker may reorder it at any time. The clock is an argument, and the mutex makes each
  method one step. The key of an address and the hash of an account are parameters.
\<close>

section \<open>Failure trackers\<close>

abbreviation len :: "'a list \<Rightarrow> int" where
  "len xs \<equiv> int (length xs)"

definition loginWindow :: int where "loginWindow = minute"
definition loginMaxPerIP :: nat where "loginMaxPerIP = 5"
definition bcryptConcurrent :: nat where "bcryptConcurrent = 4"
definition accountFailThreshold :: int where "accountFailThreshold = 5"
definition accountLockBase :: int where "accountLockBase = minute"
definition accountLockMax :: int where "accountLockMax = 15 * minute"
definition secondFactorFailThreshold :: int where "secondFactorFailThreshold = 10"
definition secondFactorLock :: int where "secondFactorLock = 15 * minute"
definition failureDecay :: int where "failureDecay = 2 * hour"
definition maxLimiterEntries :: int where "maxLimiterEntries = 10000"
definition maxLockedEntries :: int where "maxLockedEntries = 2 ^ 18"
definition limiterPruneEvery :: int where "limiterPruneEvery = 10 * second"

record limiterState =
  failures :: int
  lastFailure :: int
  lockedUntil :: int
  blockSeen :: bool

definition fresh_state :: limiterState where
  "fresh_state = \<lparr>failures = 0, lastFailure = zero_time, lockedUntil = zero_time, blockSeen = False\<rparr>"

definition expiresAt :: "limiterState \<Rightarrow> int" where
  "expiresAt s = (let e = lastFailure s + failureDecay in if lockedUntil s > e then lockedUntil s else e)"

record failureTracker =
  streaks :: "(string \<times> limiterState) list"
  locked_keys :: "(string \<times> limiterState) list"
  maxStreaks :: int
  maxLocks :: int
  lastPrune :: int
  threshold :: int
  lockBase :: int
  lockMax :: int
  escalate :: bool

definition newFailureTracker :: "int \<Rightarrow> int \<Rightarrow> int \<Rightarrow> bool \<Rightarrow> failureTracker" where
  "newFailureTracker thr base mx esc = \<lparr>streaks = [], locked_keys = [], maxStreaks = maxLimiterEntries,
     maxLocks = maxLockedEntries, lastPrune = zero_time, threshold = thr, lockBase = base, lockMax = mx,
     escalate = esc\<rparr>"

definition protected :: "failureTracker \<Rightarrow> limiterState \<Rightarrow> int \<Rightarrow> bool" where
  "protected t s now = (if \<not> now < expiresAt s then False
     else now < lockedUntil s \<or> failures s \<ge> threshold t)"

text \<open>An expired entry is dropped when it is looked up.\<close>

definition get :: "string \<Rightarrow> int \<Rightarrow> failureTracker \<Rightarrow> limiterState option \<times> failureTracker" where
  "get key now t = (case map_of (locked_keys t) key of
      Some s \<Rightarrow> if now < expiresAt s then (Some s, t)
        else (None, t\<lparr>locked_keys := AList.delete key (locked_keys t)\<rparr>)
    | None \<Rightarrow> (case map_of (streaks t) key of
        Some s \<Rightarrow> if now < expiresAt s then (Some s, t)
          else (None, t\<lparr>streaks := AList.delete key (streaks t)\<rparr>)
      | None \<Rightarrow> (None, t)))"

definition locked :: "string \<Rightarrow> int \<Rightarrow> failureTracker \<Rightarrow> bool \<times> failureTracker" where
  "locked key now t = (case get key now t of
      (None, t') \<Rightarrow> (False, t')
    | (Some s, t') \<Rightarrow> (now < lockedUntil s, t'))"

text \<open>The loop of \<open>makeRoom\<close>: the candidate so far is \<open>victim\<close>, the empty key standing for none.\<close>

definition pick_victim :: "failureTracker \<Rightarrow> int \<Rightarrow> string \<times> int \<Rightarrow> string \<times> limiterState \<Rightarrow> string \<times> int" where
  "pick_victim t now vs ks = (case (vs, ks) of ((victim, soonest), (k, s)) \<Rightarrow>
     if protected t s now then (victim, soonest)
     else if victim = '''' \<or> expiresAt s < soonest then (k, expiresAt s)
     else (victim, soonest))"

definition makeRoom :: "int \<Rightarrow> failureTracker \<Rightarrow> bool \<times> failureTracker" where
  "makeRoom now t =
     (if len (streaks t) < maxStreaks t then (True, t)
      else let victim = fst (foldl (pick_victim t now) ('''', zero_time) (streaks t)) in
           if victim = '''' then (False, t)
           else (True, t\<lparr>streaks := AList.delete victim (streaks t)\<rparr>))"

definition canTrack :: "string \<Rightarrow> int \<Rightarrow> failureTracker \<Rightarrow> bool \<times> failureTracker" where
  "canTrack key now t = (case get key now t of
      (Some s, t') \<Rightarrow> (True, t')
    | (None, t') \<Rightarrow> makeRoom now t')"

definition reset :: "string \<Rightarrow> failureTracker \<Rightarrow> failureTracker" where
  "reset key t = t\<lparr>streaks := AList.delete key (streaks t), locked_keys := AList.delete key (locked_keys t)\<rparr>"

definition live_entries :: "int \<Rightarrow> (string \<times> limiterState) list \<Rightarrow> (string \<times> limiterState) list" where
  "live_entries now m = filter (\<lambda>(k, s). now < expiresAt s) m"

definition pruneExpired :: "int \<Rightarrow> failureTracker \<Rightarrow> failureTracker" where
  "pruneExpired now t =
     (if now - lastPrune t < limiterPruneEvery then t
      else t\<lparr>lastPrune := now, streaks := live_entries now (streaks t),
             locked_keys := live_entries now (locked_keys t)\<rparr>)"

text \<open>Go's shift of a 64-bit value, then the cap.\<close>

definition lock_backoff :: "failureTracker \<Rightarrow> int \<Rightarrow> int" where
  "lock_backoff t n =
     (if escalate t then
        let b = wrap64 (lockBase t * 2 ^ nat (n - threshold t)) in
        if b \<le> 0 \<or> b > lockMax t then lockMax t else b
      else lockMax t)"

text \<open>Writing through the entry's pointer: it is held by whichever map has the key.\<close>

definition put :: "string \<Rightarrow> limiterState \<Rightarrow> failureTracker \<Rightarrow> failureTracker" where
  "put key s t = (if map_of (locked_keys t) key \<noteq> None
     then t\<lparr>locked_keys := AList.update key s (locked_keys t)\<rparr>
     else t\<lparr>streaks := AList.update key s (streaks t)\<rparr>)"

definition count_failure :: "failureTracker \<Rightarrow> int \<Rightarrow> limiterState \<Rightarrow> limiterState" where
  "count_failure t now s =
     (let n = (if now - lastFailure s > failureDecay then 0 else failures s) + 1;
          s1 = s\<lparr>failures := n, lastFailure := now\<rparr>
      in if n \<ge> threshold t
         then s1\<lparr>lockedUntil := now + lock_backoff t n, blockSeen := False\<rparr>
         else s1)"

definition settle_entry :: "string \<Rightarrow> limiterState \<Rightarrow> failureTracker \<Rightarrow> failureTracker" where
  "settle_entry key s t =
     (if failures s \<ge> threshold t \<and> map_of (streaks t) key \<noteq> None \<and> len (locked_keys t) < maxLocks t
      then t\<lparr>streaks := AList.delete key (streaks t), locked_keys := AList.update key s (locked_keys t)\<rparr>
      else put key s t)"

definition recordFailure :: "string \<Rightarrow> int \<Rightarrow> failureTracker \<Rightarrow> (bool \<times> bool) \<times> failureTracker" where
  "recordFailure key now t0 =
     (let t = pruneExpired now t0 in
      case get key now t of
        (Some s, t1) \<Rightarrow>
          (let s' = count_failure t1 now s in
           ((failures s' \<ge> threshold t1, True), settle_entry key s' t1))
      | (None, t1) \<Rightarrow>
          (case makeRoom now t1 of
             (False, t2) \<Rightarrow> ((False, False), t2)
           | (True, t2) \<Rightarrow>
               (let t3 = t2\<lparr>streaks := AList.update key fresh_state (streaks t2)\<rparr>;
                    s' = count_failure t3 now fresh_state
                in ((failures s' \<ge> threshold t3, True), settle_entry key s' t3))))"

section \<open>The limiter\<close>

record loginLimiter =
  attempts :: "(string \<times> int list) list"
  lastIPPrune :: int
  accounts :: failureTracker
  secondFactor :: failureTracker
  sem :: nat

definition NewLoginLimiter :: loginLimiter where
  "NewLoginLimiter = \<lparr>attempts = [], lastIPPrune = zero_time,
     accounts = newFailureTracker accountFailThreshold accountLockBase accountLockMax True,
     secondFactor = newFailureTracker secondFactorFailThreshold secondFactorLock secondFactorLock False,
     sem = 0\<rparr>"

text \<open>\<open>sha\<close> is hexadecimal SHA-256.\<close>

definition accountKey :: "(string \<Rightarrow> string) \<Rightarrow> string \<Rightarrow> string" where
  "accountKey sha email = sha (lower_str (TrimSpace email))"

definition AllowAccount :: "(string \<Rightarrow> string) \<Rightarrow> string \<Rightarrow> int \<Rightarrow> loginLimiter \<Rightarrow> (bool \<times> bool) \<times> loginLimiter" where
  "AllowAccount sha email now l =
     (let key = accountKey sha email in
      case locked key now (accounts l) of
        (True, t) \<Rightarrow> ((False, False), l\<lparr>accounts := t\<rparr>)
      | (False, t) \<Rightarrow> (case canTrack key now t of
          (False, t') \<Rightarrow> ((False, True), l\<lparr>accounts := t'\<rparr>)
        | (True, t') \<Rightarrow> ((True, False), l\<lparr>accounts := t'\<rparr>)))"

definition RecordFailure :: "(string \<Rightarrow> string) \<Rightarrow> string \<Rightarrow> int \<Rightarrow> loginLimiter \<Rightarrow> loginLimiter" where
  "RecordFailure sha email now l =
     l\<lparr>accounts := snd (recordFailure (accountKey sha email) now (accounts l))\<rparr>"

definition ResetAccount :: "(string \<Rightarrow> string) \<Rightarrow> string \<Rightarrow> loginLimiter \<Rightarrow> loginLimiter" where
  "ResetAccount sha email l = l\<lparr>accounts := reset (accountKey sha email) (accounts l)\<rparr>"

record verdict =
  v_allowed :: bool
  v_engages_lock :: bool
  v_first_block :: bool

text \<open>The part of \<open>ReserveSecondFactorAttempt\<close> that counts the attempt.\<close>

definition reserve_counted :: "string \<Rightarrow> int \<Rightarrow> loginLimiter \<Rightarrow> verdict \<times> loginLimiter" where
  "reserve_counted uid now l =
     (case recordFailure uid now (secondFactor l) of ((engaged, tracked), t) \<Rightarrow>
        (if tracked then \<lparr>v_allowed = True, v_engages_lock = engaged, v_first_block = False\<rparr>
         else \<lparr>v_allowed = False, v_engages_lock = False, v_first_block = False\<rparr>,
         l\<lparr>secondFactor := t\<rparr>))"

definition ReserveSecondFactorAttempt :: "string \<Rightarrow> int \<Rightarrow> loginLimiter \<Rightarrow> verdict \<times> loginLimiter" where
  "ReserveSecondFactorAttempt uid now l =
     (case get uid now (secondFactor l) of (entry, t) \<Rightarrow>
      (case entry of
        Some s \<Rightarrow>
          if now < lockedUntil s
          then (\<lparr>v_allowed = False, v_engages_lock = False, v_first_block = \<not> blockSeen s\<rparr>,
                l\<lparr>secondFactor := put uid (s\<lparr>blockSeen := True\<rparr>) t\<rparr>)
          else reserve_counted uid now (l\<lparr>secondFactor := t\<rparr>)
      | None \<Rightarrow> reserve_counted uid now (l\<lparr>secondFactor := t\<rparr>)))"

definition secondFactorLocked :: "string \<Rightarrow> int \<Rightarrow> loginLimiter \<Rightarrow> bool \<times> loginLimiter" where
  "secondFactorLocked uid now l = (case locked uid now (secondFactor l) of (b, t) \<Rightarrow> (b, l\<lparr>secondFactor := t\<rparr>))"

definition ResetSecondFactor :: "string \<Rightarrow> loginLimiter \<Rightarrow> loginLimiter" where
  "ResetSecondFactor uid l = l\<lparr>secondFactor := reset uid (secondFactor l)\<rparr>"

section \<open>The window per address\<close>

text \<open>The last loop of \<open>makeRoomForIPLocked\<close>: entries go in map order until the map is under its bound.\<close>

fun drop_until :: "int \<Rightarrow> (string \<times> int list) list \<Rightarrow> (string \<times> int list) list" where
  "drop_until mx [] = []"
| "drop_until mx (e # m) = (if len (e # m) < mx then e # m else drop_until mx m)"

definition window_over :: "int \<Rightarrow> int list \<Rightarrow> bool" where
  "window_over cutoff ts \<longleftrightarrow> ts = [] \<or> \<not> last ts > cutoff"

definition makeRoomForIPLocked :: "int \<Rightarrow> int \<Rightarrow> loginLimiter \<Rightarrow> loginLimiter" where
  "makeRoomForIPLocked now cutoff l =
     (if len (attempts l) < maxLimiterEntries then l
      else let l1 = (if now - lastIPPrune l \<ge> limiterPruneEvery
                     then l\<lparr>lastIPPrune := now, attempts := filter (\<lambda>(k, ts). \<not> window_over cutoff ts) (attempts l)\<rparr>
                     else l)
           in l1\<lparr>attempts := drop_until maxLimiterEntries (attempts l1)\<rparr>)"

text \<open>\<open>ipkey\<close> is \<^verbatim>\<open>LimiterIPKey\<close>.\<close>

definition Allow :: "(string \<Rightarrow> string) \<Rightarrow> string \<Rightarrow> int \<Rightarrow> loginLimiter \<Rightarrow> bool \<times> loginLimiter" where
  "Allow ipkey ip now l0 =
     (let key = ipkey ip; cutoff = now - loginWindow;
          l = (if map_of (attempts l0) key = None then makeRoomForIPLocked now cutoff l0 else l0);
          kept = filter (\<lambda>t. t > cutoff) (case map_of (attempts l) key of None \<Rightarrow> [] | Some ts \<Rightarrow> ts)
      in if length kept \<ge> loginMaxPerIP
         then (False, l\<lparr>attempts := AList.update key kept (attempts l)\<rparr>)
         else (True, l\<lparr>attempts := AList.update key (kept @ [now]) (attempts l)\<rparr>))"

definition Reset :: "(string \<Rightarrow> string) \<Rightarrow> string \<Rightarrow> loginLimiter \<Rightarrow> loginLimiter" where
  "Reset ipkey ip l = l\<lparr>attempts := AList.delete (ipkey ip) (attempts l)\<rparr>"

text \<open>Acquiring a hash slot blocks (\<^const>\<open>None\<close>) while all slots are taken.\<close>

definition AcquireBcrypt :: "loginLimiter \<Rightarrow> loginLimiter option" where
  "AcquireBcrypt l = (if sem l < bcryptConcurrent then Some (l\<lparr>sem := Suc (sem l)\<rparr>) else None)"

definition ReleaseBcrypt :: "loginLimiter \<Rightarrow> loginLimiter option" where
  "ReleaseBcrypt l = (case sem l of 0 \<Rightarrow> None | Suc n \<Rightarrow> Some (l\<lparr>sem := n\<rparr>))"

section \<open>Invariant of a tracker\<close>

definition lookup :: "string \<Rightarrow> failureTracker \<Rightarrow> limiterState option" where
  "lookup k t = (case map_of (locked_keys t) k of Some s \<Rightarrow> Some s | None \<Rightarrow> map_of (streaks t) k)"

text \<open>An entry is either below the threshold and never locked, or its lock is the one its last
  failure set; failures lie in the past.\<close>

definition wf_entry :: "failureTracker \<Rightarrow> int \<Rightarrow> limiterState \<Rightarrow> bool" where
  "wf_entry t now s \<longleftrightarrow> 0 \<le> failures s \<and> zero_time \<le> lastFailure s \<and> lastFailure s \<le> now \<and>
     (if failures s < threshold t then lockedUntil s = zero_time
      else lockedUntil s = lastFailure s + lock_backoff t (failures s))"

definition wf_tracker :: "int \<Rightarrow> failureTracker \<Rightarrow> bool" where
  "wf_tracker now t \<longleftrightarrow> zero_time \<le> now \<and>
     distinct (map fst (streaks t)) \<and> distinct (map fst (locked_keys t)) \<and>
     fst ` set (streaks t) \<inter> fst ` set (locked_keys t) = {} \<and>
     len (streaks t) \<le> maxStreaks t \<and> len (locked_keys t) \<le> maxLocks t \<and>
     (\<forall>(k, s) \<in> set (streaks t) \<union> set (locked_keys t). wf_entry t now s)"

text \<open>The policy of a tracker: the fields no operation changes.\<close>

definition same_policy :: "failureTracker \<Rightarrow> failureTracker \<Rightarrow> bool" where
  "same_policy t t' \<longleftrightarrow> maxStreaks t' = maxStreaks t \<and> maxLocks t' = maxLocks t \<and> threshold t' = threshold t \<and>
     lockBase t' = lockBase t \<and> lockMax t' = lockMax t \<and> escalate t' = escalate t"

lemma same_policy_backoff: "same_policy t t' \<Longrightarrow> lock_backoff t' = lock_backoff t"
  by (simp add: same_policy_def lock_backoff_def fun_eq_iff cong: if_cong)

lemma same_policy_entry: "same_policy t t' \<Longrightarrow> wf_entry t' = wf_entry t"
  using same_policy_backoff[of t t'] by (auto simp: wf_entry_def fun_eq_iff same_policy_def)

lemma same_policy_trans [trans]: "\<lbrakk>same_policy t t1; same_policy t1 t2\<rbrakk> \<Longrightarrow> same_policy t t2"
  by (simp add: same_policy_def)

lemma same_policy_upd [simp]:
  "same_policy t t" "same_policy t (t\<lparr>streaks := m\<rparr>)" "same_policy t (t\<lparr>locked_keys := m\<rparr>)"
  "same_policy t (t\<lparr>streaks := m, locked_keys := m'\<rparr>)"
  "same_policy t (t\<lparr>streaks := m, locked_keys := m', lastPrune := p\<rparr>)"
  by (simp_all add: same_policy_def)

text \<open>Association lists under deletion and update.\<close>

lemma set_delete: "set (AList.delete k m) = {e \<in> set m. fst e \<noteq> k}"
  by (auto simp: AList.delete_eq)

lemma length_delete_less: "k \<in> fst ` set m \<Longrightarrow> length (AList.delete k m) < length m"
  unfolding AList.delete_eq by (auto intro!: length_filter_less)

lemma set_update_subset: "set (AList.update k v m) \<subseteq> insert (k, v) (set m)"
  by (induction m) auto

lemma length_update: "length (AList.update k v m) = (if k \<in> fst ` set m then length m else Suc (length m))"
  by (induction m) auto

lemma update_keys: "fst ` set (AList.update k v m) = insert k (fst ` set m)"
  by (simp add: AList.dom_update)

lemma map_of_None: "map_of m k = None \<longleftrightarrow> k \<notin> fst ` set m"
  by (rule map_of_eq_None_iff)

text \<open>Keeping part of both maps keeps the invariant.\<close>

definition shrinks :: "failureTracker \<Rightarrow> failureTracker \<Rightarrow> bool" where
  "shrinks t t' \<longleftrightarrow> same_policy t t' \<and> (\<exists>P Q. streaks t' = filter P (streaks t) \<and> locked_keys t' = filter Q (locked_keys t))"

lemma shrinks_refl [simp]: "shrinks t t"
  unfolding shrinks_def by (intro conjI exI[of _ "\<lambda>_. True"]) simp_all

lemma shrinks_wf: "\<lbrakk>shrinks t t'; wf_tracker now t\<rbrakk> \<Longrightarrow> wf_tracker now t'"
proof -
  assume "shrinks t t'" and wf: "wf_tracker now t"
  then obtain P Q where pq: "streaks t' = filter P (streaks t)" "locked_keys t' = filter Q (locked_keys t)"
    and pol: "same_policy t t'" by (auto simp: shrinks_def)
  have "len (streaks t') \<le> maxStreaks t'" "len (locked_keys t') \<le> maxLocks t'"
    using wf pol by (simp_all add: pq wf_tracker_def same_policy_def order_trans[OF of_nat_mono[OF length_filter_le]])
  with wf pq same_policy_entry[OF pol] show ?thesis
    unfolding wf_tracker_def by (auto simp: distinct_map_filter)
qed

lemma shrinks_get: "shrinks t (snd (get k now t))"
proof -
  have "\<exists>P. AList.delete k m = filter P m" for m :: "(string \<times> limiterState) list"
    by (auto simp: AList.delete_eq)
  then show ?thesis
    unfolding get_def shrinks_def
    by (auto split: option.split intro: exI[of _ "\<lambda>_. True"] simp: same_policy_def)
qed

text \<open>An eviction candidate is an unprotected entry of the map.\<close>

lemma pick_victim_unprotected:
  assumes "fst vs = '''' \<or> (\<exists>s. (fst vs, s) \<in> E \<and> \<not> protected t s now)" and "set m \<subseteq> E"
  shows "fst (foldl (pick_victim t now) vs m) = '''' \<or>
     (\<exists>s. (fst (foldl (pick_victim t now) vs m), s) \<in> E \<and> \<not> protected t s now)"
  using assms
proof (induction m arbitrary: vs)
  case (Cons e m)
  obtain v so k s where [simp]: "vs = (v, so)" "e = (k, s)" by (metis prod.exhaust)
  show ?case
  proof (cases "protected t s now \<or> \<not> (v = '''' \<or> expiresAt s < so)")
    case True
    then have "pick_victim t now vs e = vs" by (auto simp: pick_victim_def)
    with Cons.IH[of vs] Cons.prems show ?thesis by simp
  next
    case False
    then have "pick_victim t now vs e = (k, expiresAt s)" by (auto simp: pick_victim_def)
    with False Cons.IH[of "(k, expiresAt s)"] Cons.prems(2) show ?thesis by auto
  qed
qed simp

lemma makeRoom_cases:
  obtains (room) "makeRoom now t = (True, t)" "len (streaks t) < maxStreaks t"
  | (full) "makeRoom now t = (False, t)" "\<not> len (streaks t) < maxStreaks t"
  | (evict) v s where "makeRoom now t = (True, t\<lparr>streaks := AList.delete v (streaks t)\<rparr>)"
      "(v, s) \<in> set (streaks t)" "\<not> protected t s now" "\<not> len (streaks t) < maxStreaks t"
proof (cases "len (streaks t) < maxStreaks t")
  case True
  then show thesis by (intro room) (simp_all add: makeRoom_def)
next
  case False
  let ?v = "fst (foldl (pick_victim t now) ('''', zero_time) (streaks t))"
  show thesis
  proof (cases "?v = ''''")
    case True
    with False show thesis by (intro full) (simp_all add: makeRoom_def)
  next
    case v: False
    then obtain s where "(?v, s) \<in> set (streaks t)" "\<not> protected t s now"
      using pick_victim_unprotected[of "('''', zero_time)" "set (streaks t)" t now "streaks t"] by auto
    with False v show thesis by (intro evict[of ?v s]) (simp_all add: makeRoom_def Let_def)
  qed
qed

lemma shrinksI:
  "\<lbrakk>same_policy t t'; streaks t' = filter P (streaks t); locked_keys t' = filter Q (locked_keys t)\<rbrakk> \<Longrightarrow> shrinks t t'"
  by (auto simp: shrinks_def)

lemma shrinks_makeRoom: "shrinks t (snd (makeRoom now t))"
  by (rule makeRoom_cases[of now t])
     (auto intro!: shrinksI[where Q = "\<lambda>_. True"] simp: AList.delete_eq)

lemma shrinks_prune: "shrinks t (pruneExpired now t)"
proof -
  have "shrinks t (t\<lparr>lastPrune := now, streaks := live_entries now (streaks t), locked_keys := live_entries now (locked_keys t)\<rparr>)"
    by (rule shrinksI) (simp_all add: live_entries_def same_policy_def)
  then show ?thesis by (simp add: pruneExpired_def)
qed

lemma shrinks_reset: "shrinks t (reset k t)"
  unfolding reset_def AList.delete_eq by (rule shrinksI) simp_all

section \<open>Protected entries survive\<close>

lemma map_of_filter_keep:
  "\<lbrakk>map_of m k = Some v; P (k, v)\<rbrakk> \<Longrightarrow> map_of (filter P m) k = Some v"
  by (induction m) (auto split: if_splits)

text \<open>A step that keeps the policy and every entry that satisfies \<open>P\<close>.\<close>

definition keeps :: "(string \<Rightarrow> limiterState \<Rightarrow> bool) \<Rightarrow> failureTracker \<Rightarrow> failureTracker \<Rightarrow> bool" where
  "keeps P t t' \<longleftrightarrow> (\<forall>k s. lookup k t = Some s \<and> P k s \<longrightarrow> lookup k t' = Some s)"

lemma keeps_refl [simp]: "keeps P t t"
  by (simp add: keeps_def)

lemma keeps_trans: "\<lbrakk>keeps P t t1; keeps P t1 t2\<rbrakk> \<Longrightarrow> keeps P t t2"
  by (simp add: keeps_def)

lemma keepsD: "\<lbrakk>keeps P t t'; lookup k t = Some s; P k s\<rbrakk> \<Longrightarrow> lookup k t' = Some s"
  by (simp add: keeps_def)

lemma protected_live: "protected t s now \<Longrightarrow> now < expiresAt s"
  by (auto simp: protected_def split: if_splits)

lemma protected_locked: "now < lockedUntil s \<Longrightarrow> protected t s now"
  by (auto simp: protected_def expiresAt_def Let_def)

lemma lookup_wf: "\<lbrakk>wf_tracker now t; lookup k t = Some s\<rbrakk> \<Longrightarrow> wf_entry t now s"
  unfolding wf_tracker_def lookup_def by (auto split: option.splits dest!: map_of_SomeD)

lemma keeps_prune: "keeps (\<lambda>_ s. now < expiresAt s) t (pruneExpired now t)"
proof -
  have "map_of (live_entries now m) k = None" if "map_of m k = None" for m k
    using that by (auto simp: live_entries_def map_of_eq_None_iff)
  then show ?thesis
    unfolding keeps_def lookup_def pruneExpired_def
    by (auto simp: live_entries_def map_of_filter_keep split: option.splits)
qed

lemma keeps_get: "wf_tracker now t \<Longrightarrow> keeps (\<lambda>_ s. now < expiresAt s) t (snd (get k now t))"
  unfolding keeps_def lookup_def get_def
  by (auto split: option.splits if_splits simp: AList.delete_conv')

lemma keeps_makeRoom:
  assumes "wf_tracker now t"
  shows "keeps (\<lambda>_ s. protected t s now) t (snd (makeRoom now t))"
proof (cases rule: makeRoom_cases[of now t])
  case (evict v s)
  have "map_of (streaks t) v = Some s"
    using assms evict(2) by (auto simp: wf_tracker_def intro: map_of_is_SomeI)
  with evict show ?thesis
    unfolding keeps_def lookup_def
    by (auto simp: AList.delete_conv' split: option.splits)
qed simp_all

lemma keeps_reset: "keeps (\<lambda>k' _. k' \<noteq> k) t (reset k t)"
  unfolding keeps_def lookup_def reset_def by (auto simp: AList.delete_conv' split: option.splits)

lemma keeps_mono: "\<lbrakk>keeps P t t'; \<And>k s. Q k s \<Longrightarrow> P k s\<rbrakk> \<Longrightarrow> keeps Q t t'"
  by (auto simp: keeps_def)

section \<open>Recording a failure\<close>

lemma get_None:
  assumes "wf_tracker now t" and "get k now t = (None, t')"
  shows "lookup k t' = None"
proof -
  have "map_of (streaks t) k = None" if "map_of (locked_keys t) k \<noteq> None"
    using that assms(1) unfolding wf_tracker_def map_of_eq_None_iff by blast
  with assms(2) show ?thesis
    by (auto simp: get_def lookup_def AList.delete_conv' split: option.splits if_splits)
qed

lemma get_Some:
  "get k now t = (Some s, t') \<longleftrightarrow> t' = t \<and> lookup k t = Some s \<and> now < expiresAt s"
  by (auto simp: get_def lookup_def split: option.splits if_splits)

lemma lookup_settle_entry:
  "lookup k (settle_entry key s t) = (if k = key then Some s else lookup k t)"
  by (auto simp: settle_entry_def put_def lookup_def AList.update_conv' AList.delete_conv' split: option.splits)

lemma lookup_put:
  "lookup key t \<noteq> None \<Longrightarrow> lookup k (put key s t) = (if k = key then Some s else lookup k t)"
  by (auto simp: put_def lookup_def AList.update_conv' split: option.splits)

lemma wf_put:
  assumes "wf_tracker now t" and "lookup key t \<noteq> None" and "wf_entry t now s"
  shows "wf_tracker now (put key s t)"
proof -
  have e: "wf_entry (t\<lparr>locked_keys := m\<rparr>) = wf_entry t" "wf_entry (t\<lparr>streaks := m\<rparr>) = wf_entry t" for m
    by (simp_all add: same_policy_entry)
  show ?thesis
  proof (cases "map_of (locked_keys t) key = None")
    case True
    with assms(2) have "key \<in> fst ` set (streaks t)" "key \<notin> fst ` set (locked_keys t)"
      by (auto simp: lookup_def map_of_eq_None_iff dest: map_of_SomeD intro!: rev_image_eqI)
    with True assms(1,3) set_update_subset[of key s "streaks t"] show ?thesis
      by (auto simp: put_def wf_tracker_def e AList.distinct_update length_update update_keys)
  next
    case False
    then have "key \<in> fst ` set (locked_keys t)" by (auto simp: map_of_eq_None_iff)
    moreover from this assms(1) have "key \<notin> fst ` set (streaks t)" by (auto simp: wf_tracker_def)
    ultimately show ?thesis
      using False assms(1,3) set_update_subset[of key s "locked_keys t"]
      by (auto simp: put_def wf_tracker_def e AList.distinct_update length_update update_keys)
  qed
qed

lemma wf_settle_entry:
  assumes "wf_tracker now t" and "lookup key t \<noteq> None" and "wf_entry t now s"
  shows "wf_tracker now (settle_entry key s t)"
proof (cases "failures s \<ge> threshold t \<and> map_of (streaks t) key \<noteq> None \<and> len (locked_keys t) < maxLocks t")
  case False
  with wf_put[OF assms] show ?thesis by (auto simp: settle_entry_def)
next
  case True
  have e: "wf_entry (t\<lparr>streaks := m, locked_keys := m'\<rparr>) = wf_entry t" for m m'
    by (simp add: same_policy_entry)
  have "len (AList.delete key (streaks t)) \<le> maxStreaks t"
    using assms(1) AList.length_delete_le[of key "streaks t"] by (simp add: wf_tracker_def)
  with True assms(1,3) set_update_subset[of key s "locked_keys t"] show ?thesis
    by (auto simp: settle_entry_def wf_tracker_def e AList.distinct_update AList.distinct_delete length_update
        update_keys set_delete)
qed

lemma fresh_state_wf: "zero_time \<le> now \<Longrightarrow> 0 < threshold t \<Longrightarrow> wf_entry t now fresh_state"
  by (simp add: wf_entry_def fresh_state_def)

lemma count_failure_fresh:
  "failures (count_failure t now fresh_state) = 1"
  "\<lbrakk>zero_time \<le> now; 0 < threshold t\<rbrakk> \<Longrightarrow> wf_entry t now (count_failure t now fresh_state)"
  by (auto simp: wf_entry_def count_failure_def Let_def fresh_state_def)

text \<open>The entry of a key that has not expired.\<close>

definition live :: "string \<Rightarrow> int \<Rightarrow> failureTracker \<Rightarrow> limiterState option" where
  "live k now t = (case lookup k t of None \<Rightarrow> None | Some s \<Rightarrow> if now < expiresAt s then Some s else None)"

lemma live_Some: "live k now t = Some s \<longleftrightarrow> lookup k t = Some s \<and> now < expiresAt s"
  by (auto simp: live_def split: option.splits)

lemma get_live: "get k now t = (live k now t, snd (get k now t))"
  by (auto simp: get_def live_def lookup_def split: option.split)

lemma get_Some_same: "live k now t = Some s \<Longrightarrow> snd (get k now t) = t"
  by (auto simp: get_def live_Some lookup_def split: option.splits)

lemma in_lookup:
  assumes "wf_tracker now t" and "(k, s) \<in> set (locked_keys t) \<union> set (streaks t)"
  shows "lookup k t = Some s"
proof (cases "(k, s) \<in> set (locked_keys t)")
  case True
  with assms(1) show ?thesis by (simp add: lookup_def wf_tracker_def)
next
  case False
  then have k: "(k, s) \<in> set (streaks t)" using assms(2) by simp
  then have "k \<in> fst ` set (streaks t)" by force
  with assms(1) have "k \<notin> fst ` set (locked_keys t)" unfolding wf_tracker_def by blast
  moreover have "map_of (streaks t) k = Some s" using assms(1) k by (simp add: wf_tracker_def)
  ultimately show ?thesis unfolding lookup_def map_of_eq_None_iff[symmetric] by simp
qed

lemma lookup_in: "lookup k t = Some s \<Longrightarrow> (k, s) \<in> set (locked_keys t) \<union> set (streaks t)"
  by (auto simp: lookup_def split: option.splits dest!: map_of_SomeD)

lemma live_prune:
  assumes "wf_tracker now t"
  shows "live k now (pruneExpired now t) = live k now t"
proof (cases "live k now t")
  case (Some s)
  then have "lookup k (pruneExpired now t) = Some s"
    using keepsD[OF keeps_prune, of k t s now] by (simp add: live_Some)
  then have "live k now (pruneExpired now t) = Some s" using Some by (simp add: live_Some)
  with Some show ?thesis by simp
next
  case None
  have "lookup k t = Some s" if "lookup k (pruneExpired now t) = Some s" for s
    using lookup_in[OF that] by (intro in_lookup[OF assms]) (auto simp: pruneExpired_def live_entries_def split: if_splits)
  with None show ?thesis by (force simp: live_def split: option.splits)
qed

lemma same_policy_count: "same_policy t t' \<Longrightarrow> count_failure t' = count_failure t"
  using same_policy_backoff[of t t'] by (simp add: count_failure_def fun_eq_iff same_policy_def Let_def)

lemma shrinks_lookup_None: "\<lbrakk>shrinks t t'; lookup k t = None\<rbrakk> \<Longrightarrow> lookup k t' = None"
  unfolding shrinks_def lookup_def by (auto split: option.splits simp: map_of_eq_None_iff)

lemma same_policy_protected: "same_policy t t' \<Longrightarrow> protected t' = protected t"
  by (simp add: protected_def fun_eq_iff same_policy_def)

text \<open>Recording a failure writes the counted entry into a tracker \<open>t1\<close> that still has every
  protected entry.\<close>

definition ready :: "string \<Rightarrow> int \<Rightarrow> failureTracker \<Rightarrow> limiterState \<Rightarrow> failureTracker \<Rightarrow> bool" where
  "ready k now t s t1 \<longleftrightarrow> wf_tracker now t1 \<and> same_policy t t1 \<and> lookup k t1 = Some s \<and>
     keeps (\<lambda>_ s. protected t s now) t t1"

lemma record_live:
  assumes wf: "wf_tracker now t" and live: "live k now t = Some s"
  obtains t1 where "ready k now t s t1"
    "recordFailure k now t = ((failures (count_failure t now s) \<ge> threshold t, True), settle_entry k (count_failure t now s) t1)"
proof -
  let ?t1 = "pruneExpired now t"
  have wf1: "wf_tracker now ?t1" and pol: "same_policy t ?t1"
    using shrinks_wf[OF shrinks_prune wf] shrinks_prune[of t now] by (auto simp: shrinks_def)
  have live1: "live k now ?t1 = Some s" using live_prune[OF wf] live by simp
  have "keeps (\<lambda>_ s. protected t s now) t ?t1"
    by (rule keeps_mono[OF keeps_prune]) (rule protected_live)
  then have "ready k now t s ?t1" using wf1 pol live1 by (simp add: ready_def live_Some)
  moreover have "get k now ?t1 = (Some s, ?t1)"
    using get_live[of k now ?t1] get_Some_same[OF live1] live1 by simp
  moreover have "threshold ?t1 = threshold t" using pol by (simp add: same_policy_def)
  ultimately show thesis
    using that same_policy_count[OF pol] by (simp add: recordFailure_def Let_def)
qed

lemma wf_new_streak:
  assumes "wf_tracker now t" and "lookup k t = None" and "len (streaks t) < maxStreaks t" and "0 < threshold t"
  shows "wf_tracker now (t\<lparr>streaks := AList.update k fresh_state (streaks t)\<rparr>)"
proof -
  have k: "k \<notin> fst ` set (streaks t)" "k \<notin> fst ` set (locked_keys t)"
    using assms(2) by (auto simp: lookup_def map_of_eq_None_iff split: option.splits)
  have e: "wf_entry (t\<lparr>streaks := m\<rparr>) = wf_entry t" for m by (simp add: same_policy_entry)
  have "wf_entry t now fresh_state" using assms(1,4) by (simp add: wf_tracker_def fresh_state_wf)
  with assms(1,3) k set_update_subset[of k fresh_state "streaks t"] show ?thesis
    by (auto simp: wf_tracker_def AList.distinct_update length_update update_keys e)
qed

lemma record_new:
  assumes wf: "wf_tracker now t" and live: "live k now t = None" and thr: "0 < threshold t"
  obtains (untracked) t2 where "recordFailure k now t = ((False, False), t2)" "shrinks t t2"
      "keeps (\<lambda>_ s. protected t s now) t t2" "\<not> len (streaks t2) < maxStreaks t"
  | (counted) t1 where "ready k now t fresh_state t1"
      "recordFailure k now t = ((1 \<ge> threshold t, True), settle_entry k (count_failure t now fresh_state) t1)"
proof -
  let ?t1 = "pruneExpired now t"
  have wf1: "wf_tracker now ?t1" and s1: "shrinks t ?t1" and p1: "same_policy t ?t1"
    using shrinks_wf[OF shrinks_prune wf] shrinks_prune[of t now] by (auto simp: shrinks_def)
  obtain t2 where get: "get k now ?t1 = (None, t2)"
    using get_live[of k now ?t1] live_prune[OF wf] live by metis
  have wf2: "wf_tracker now t2" and s2: "shrinks ?t1 t2" and p2: "same_policy t t2"
    using shrinks_wf[OF shrinks_get[of ?t1 k now] wf1] shrinks_get[of ?t1 k now] same_policy_trans[OF p1] get by (auto simp: shrinks_def)
  have s12: "shrinks t t2"
    using s1 s2 p2 unfolding shrinks_def by (metis (no_types, lifting) filter_filter)
  have none: "lookup k t2 = None" by (rule get_None[OF wf1 get])
  have k1: "keeps (\<lambda>_ s. protected t s now) t ?t1"
    by (rule keeps_mono[OF keeps_prune]) (rule protected_live)
  have "keeps (\<lambda>_ s. protected t s now) ?t1 t2"
    using keeps_mono[OF keeps_get[OF wf1, of k], of "\<lambda>_ s. protected t s now"] protected_live get by simp
  with k1 have k2: "keeps (\<lambda>_ s. protected t s now) t t2" by (rule keeps_trans)
  have unprot: "\<not> protected t s now" if "lookup k t = Some s" for s
    using that live protected_live by (auto simp: live_def)
  obtain b t3 where room: "makeRoom now t2 = (b, t3)" by force
  have s3: "shrinks t2 t3" and p3: "same_policy t t3" and wf3: "wf_tracker now t3"
    using shrinks_makeRoom[of t2 now] room same_policy_trans[OF p2] shrinks_wf[OF _ wf2, of t3]
    by (auto simp: shrinks_def)
  have k3: "keeps (\<lambda>_ s. protected t s now) t t3"
    using keeps_trans[OF k2] keeps_makeRoom[OF wf2] room same_policy_protected[OF p2] by simp
  show thesis
  proof (cases b)
    case False
    then have "t3 = t2" "\<not> len (streaks t2) < maxStreaks t2"
      using room by (auto simp: makeRoom_def Let_def split: if_splits)
    with False s12 k2 p2 get room show thesis
      by (intro untracked[of t2]) (simp_all add: recordFailure_def Let_def same_policy_def)
  next
    case True
    let ?t4 = "t3\<lparr>streaks := AList.update k fresh_state (streaks t3)\<rparr>"
    have "len (streaks t3) < maxStreaks t3"
    proof (cases rule: makeRoom_cases[of now t2])
      case (evict v s)
      then have "t3 = t2\<lparr>streaks := AList.delete v (streaks t2)\<rparr>" using room by simp
      moreover have "length (AList.delete v (streaks t2)) < length (streaks t2)"
        using evict(2) by (intro length_delete_less) force
      ultimately show ?thesis using wf2 by (simp add: wf_tracker_def)
    qed (use room True in auto)
    moreover have "lookup k t3 = None" by (rule shrinks_lookup_None[OF s3 none])
    moreover have "0 < threshold t3" using thr p3 by (simp add: same_policy_def)
    ultimately have "wf_tracker now ?t4" using wf_new_streak[OF wf3] by blast
    moreover have "lookup k ?t4 = Some fresh_state" "\<And>k'. k' \<noteq> k \<Longrightarrow> lookup k' ?t4 = lookup k' t3"
      using \<open>lookup k t3 = None\<close> by (auto simp: lookup_def AList.update_conv' split: option.splits)
    moreover have "keeps (\<lambda>_ s. protected t s now) t ?t4"
      using k3 calculation(2,3) unprot unfolding keeps_def by metis
    moreover have p4: "same_policy t ?t4" using p3 by (simp add: same_policy_def)
    ultimately have "ready k now t fresh_state ?t4" by (simp add: ready_def)
    moreover have "threshold t3 = threshold t" using p3 by (simp add: same_policy_def)
    ultimately show thesis
      using True get room same_policy_count[OF p4]
      by (intro counted[of ?t4]) (simp_all add: recordFailure_def Let_def count_failure_fresh)
  qed
qed

section \<open>Lock policies\<close>

text \<open>What the limiter relies on in a lock policy: locks are positive, shorter than the decay of a
  streak, and never shorter after more failures.\<close>

locale lock_policy =
  fixes pol :: failureTracker
  assumes thr_pos: "0 < threshold pol"
    and lock_pos: "threshold pol \<le> n \<Longrightarrow> 0 < lock_backoff pol n"
    and lock_short: "threshold pol \<le> n \<Longrightarrow> lock_backoff pol n < failureDecay"
    and lock_mono: "\<lbrakk>threshold pol \<le> n; n \<le> m\<rbrakk> \<Longrightarrow> lock_backoff pol n \<le> lock_backoff pol m"
begin

lemma decay_pos: "0 < failureDecay"
  using lock_pos[OF order_refl] lock_short[OF order_refl] by linarith

lemma policy_eqs:
  assumes "same_policy pol t"
  shows "threshold t = threshold pol" "lock_backoff t = lock_backoff pol" "wf_entry t = wf_entry pol"
  using assms same_policy_backoff[OF assms] same_policy_entry[OF assms] by (simp_all add: same_policy_def)

text \<open>An entry expires when its streak has decayed: the lock is always over by then.\<close>

lemma expires_at_decay:
  assumes "wf_entry pol now s"
  shows "expiresAt s = lastFailure s + failureDecay"
proof (cases "failures s < threshold pol")
  case True
  with assms decay_pos show ?thesis by (simp add: wf_entry_def expiresAt_def)
next
  case False
  with assms lock_short[of "failures s"] show ?thesis by (simp add: wf_entry_def expiresAt_def)
qed

lemma count_live:
  assumes "same_policy pol t" and "wf_entry t now s" and "now < expiresAt s"
  shows "failures (count_failure t now s) = failures s + 1"
    and "wf_entry t now (count_failure t now s)"
    and "lastFailure (count_failure t now s) = now"
    and "failures s + 1 \<ge> threshold t \<Longrightarrow>
      lockedUntil (count_failure t now s) = now + lock_backoff pol (failures s + 1)"
proof -
  note eqs = policy_eqs[OF assms(1)]
  have "now < lastFailure s + failureDecay"
    using expires_at_decay[of now s] assms eqs by simp
  then have fresh: "\<not> now - lastFailure s > failureDecay" by simp
  show "failures (count_failure t now s) = failures s + 1" "lastFailure (count_failure t now s) = now"
    using fresh by (simp_all add: count_failure_def Let_def)
  show "wf_entry t now (count_failure t now s)"
    using fresh assms(2) by (auto simp: wf_entry_def count_failure_def Let_def)
  show "failures s + 1 \<ge> threshold t \<Longrightarrow>
      lockedUntil (count_failure t now s) = now + lock_backoff pol (failures s + 1)"
    using fresh eqs by (simp add: count_failure_def Let_def)
qed

text \<open>A failure never shortens a lock.\<close>

lemma count_extends:
  assumes "same_policy pol t" and "wf_entry t now s" and "now < lockedUntil s"
  shows "lockedUntil s \<le> lockedUntil (count_failure t now s)"
proof -
  note eqs = policy_eqs[OF assms(1)]
  have thr: "threshold t \<le> failures s"
    using assms(2,3) by (auto simp: wf_entry_def split: if_splits)
  then have "lockedUntil s = lastFailure s + lock_backoff pol (failures s)" "lastFailure s \<le> now"
    using assms(2) eqs by (auto simp: wf_entry_def split: if_splits)
  moreover have "now < expiresAt s" using assms(3) by (auto simp: expiresAt_def Let_def)
  moreover have "lockedUntil (count_failure t now s) = now + lock_backoff pol (failures s + 1)"
    using count_live(4)[OF assms(1,2) \<open>now < expiresAt s\<close>] thr by simp
  ultimately show ?thesis
    using lock_mono[of "failures s" "failures s + 1"] thr eqs by simp
qed

end

section \<open>Runs of a tracker\<close>

text \<open>Everything that can happen to a tracker, at a time that never runs backwards, as long as the
  entry of \<open>k\<close> is not reset. Between operations the maps may be reordered.\<close>

inductive tracker_step :: "string \<Rightarrow> int \<times> failureTracker \<Rightarrow> int \<times> failureTracker \<Rightarrow> bool" for k where
  failure: "tracker_step k (now, t) (now, snd (recordFailure key now t))"
| look: "tracker_step k (now, t) (now, snd (get key now t))"
| room: "tracker_step k (now, t) (now, snd (makeRoom now t))"
| mark: "lookup key t = Some s \<Longrightarrow> tracker_step k (now, t) (now, put key (s\<lparr>blockSeen := True\<rparr>) t)"
| reset: "key \<noteq> k \<Longrightarrow> tracker_step k (now, t) (now, reset key t)"
| reorder: "\<lbrakk>mset m = mset (streaks t); mset m' = mset (locked_keys t)\<rbrakk> \<Longrightarrow>
    tracker_step k (now, t) (now, t\<lparr>streaks := m, locked_keys := m'\<rparr>)"
| tick: "now \<le> now' \<Longrightarrow> tracker_step k (now, t) (now', t)"

lemma wf_later: "\<lbrakk>wf_tracker now t; now \<le> now'\<rbrakk> \<Longrightarrow> wf_tracker now' t"
proof -
  assume wf: "wf_tracker now t" and "now \<le> now'"
  then have "wf_entry t now s \<Longrightarrow> wf_entry t now' s" for s by (auto simp: wf_entry_def)
  with wf \<open>now \<le> now'\<close> show ?thesis unfolding wf_tracker_def by fastforce
qed

lemma reorder_wf:
  assumes "mset m = mset (streaks t)" "mset m' = mset (locked_keys t)" and wf: "wf_tracker now t"
  shows "wf_tracker now (t\<lparr>streaks := m, locked_keys := m'\<rparr>)"
    and "lookup k (t\<lparr>streaks := m, locked_keys := m'\<rparr>) = lookup k t"
proof -
  let ?t' = "t\<lparr>streaks := m, locked_keys := m'\<rparr>"
  have sets: "set m = set (streaks t)" "set m' = set (locked_keys t)"
    using assms(1,2) by (metis set_mset_mset)+
  have "length m = length (streaks t)" "length m' = length (locked_keys t)"
    using assms(1,2) by (metis size_mset)+
  moreover have keys: "mset (map fst m) = mset (map fst (streaks t))" "mset (map fst m') = mset (map fst (locked_keys t))"
    using assms(1,2) by simp_all
  then have "distinct (map fst m)" "distinct (map fst m')"
    using wf mset_eq_imp_distinct_iff[OF keys(1)] mset_eq_imp_distinct_iff[OF keys(2)]
    by (simp_all add: wf_tracker_def)
  moreover have "wf_entry ?t' = wf_entry t" by (simp add: same_policy_entry)
  ultimately show wf': "wf_tracker now ?t'"
    using wf sets by (simp add: wf_tracker_def)
  show "lookup k ?t' = lookup k t"
  proof (cases "lookup k t")
    case (Some s)
    then have "(k, s) \<in> set (locked_keys ?t') \<union> set (streaks ?t')" using lookup_in[OF Some] sets by simp
    with in_lookup[OF wf'] Some show ?thesis by simp
  next
    case None
    then show ?thesis using lookup_in[of k ?t'] in_lookup[OF wf, of k] sets by (cases "lookup k ?t'") auto
  qed
qed

context lock_policy
begin

lemma record_wf:
  assumes "wf_tracker now t" and "same_policy pol t"
  shows "wf_tracker now (snd (recordFailure key now t)) \<and> same_policy pol (snd (recordFailure key now t))"
proof -
  have thr: "0 < threshold t" using policy_eqs(1)[OF assms(2)] thr_pos by simp
  have settled: "wf_tracker now (settle_entry key (count_failure t now s) t1) \<and>
      same_policy pol (settle_entry key (count_failure t now s) t1)"
    if "ready key now t s t1" "wf_entry t now (count_failure t now s)" for s t1
  proof -
    have "wf_entry t1 now (count_failure t now s)" using that same_policy_entry by (auto simp: ready_def)
    then show ?thesis
      using that wf_settle_entry[of now t1 key] assms(2)
      by (auto simp: ready_def settle_entry_def put_def same_policy_def)
  qed
  show ?thesis
  proof (cases "live key now t")
    case (Some s)
    then have "wf_entry t now s" "now < expiresAt s"
      using lookup_wf[OF assms(1), of key s] by (simp_all add: live_Some)
    with settled count_live(2)[OF assms(2)] show ?thesis
      by (metis record_live[OF assms(1) Some] snd_conv)
  next
    case None
    from assms(1) None thr show ?thesis
    proof (cases rule: record_new)
      case (untracked t2)
      then show ?thesis
        using shrinks_wf[OF untracked(2) assms(1)] same_policy_trans[OF assms(2)] by (auto simp: shrinks_def)
    next
      case (counted t1)
      moreover have "zero_time \<le> now" using assms(1) by (simp add: wf_tracker_def)
      ultimately show ?thesis using settled count_failure_fresh(2) thr by simp
    qed
  qed
qed

lemma shrinks_keep: "\<lbrakk>shrinks t t'; wf_tracker now t; same_policy pol t\<rbrakk> \<Longrightarrow> wf_tracker now t' \<and> same_policy pol t'"
  using shrinks_wf same_policy_trans by (auto simp: shrinks_def)

lemma step_wf:
  assumes "tracker_step k (now, t) (now', t')" and "wf_tracker now t" and "same_policy pol t"
  shows "wf_tracker now' t' \<and> same_policy pol t' \<and> now \<le> now'"
  using assms(1)
proof cases
  case (failure key) then show ?thesis using record_wf[OF assms(2,3)] by simp
next
  case (look key) then show ?thesis using shrinks_keep[OF shrinks_get assms(2,3)] by simp
next
  case room then show ?thesis using shrinks_keep[OF shrinks_makeRoom assms(2,3)] by simp
next
  case (mark key s)
  have "wf_entry t now (s\<lparr>blockSeen := True\<rparr>)" using lookup_wf[OF assms(2) mark(3)] by (simp add: wf_entry_def)
  then show ?thesis
    using wf_put[OF assms(2), of key] mark assms(3) by (auto simp: put_def same_policy_def)
next
  case (reset key) then show ?thesis using shrinks_keep[OF shrinks_reset assms(2,3)] by simp
next
  case (reorder m m')
  then show ?thesis using reorder_wf(1)[OF _ _ assms(2)] assms(3) by (simp add: same_policy_def)
next
  case tick
  then show ?thesis using wf_later[OF assms(2)] assms(3) by simp
qed

text \<open>A lock outlives whatever happens until it runs out.\<close>

lemma step_lock:
  assumes step: "tracker_step k (now, t) (now', t')" and wf: "wf_tracker now t" and pol: "same_policy pol t"
    and s: "lookup k t = Some s" "now' < lockedUntil s"
  shows "\<exists>s'. lookup k t' = Some s' \<and> lockedUntil s \<le> lockedUntil s'"
proof -
  have now: "now < lockedUntil s" using step_wf[OF step wf pol] s(2) by linarith
  have prot: "protected t s now" using now by (rule protected_locked)
  note kept = keepsD[OF _ s(1)]
  from step show ?thesis
  proof cases
    case (failure key)
    show ?thesis
    proof (cases "key = k")
      case True
      have "live k now t = Some s" using s(1) protected_live[OF prot] by (simp add: live_Some)
      from record_live[OF wf this] obtain t1 where
        "recordFailure k now t = ((failures (count_failure t now s) \<ge> threshold t, True), settle_entry k (count_failure t now s) t1)"
        by blast
      then have "lookup k t' = Some (count_failure t now s)" using failure True by (simp add: lookup_settle_entry)
      with count_extends[OF pol lookup_wf[OF wf s(1)] now] show ?thesis by simp
    next
      case False
      have thr: "0 < threshold t" using policy_eqs(1)[OF pol] thr_pos by simp
      have ready: "lookup k (settle_entry key s1 t1) = Some s" if "ready key now t s0 t1" for s0 s1 t1
        using that False kept[of "\<lambda>_ s. protected t s now" t1] prot by (simp add: ready_def lookup_settle_entry)
      have "lookup k t' = Some s"
      proof (cases "live key now t")
        case (Some s0)
        from record_live[OF wf this] ready failure show ?thesis by (metis snd_conv)
      next
        case None
        from wf None thr show ?thesis
        proof (cases rule: record_new)
          case (untracked t2)
          then show ?thesis using kept[OF untracked(3)] prot failure by simp
        next
          case (counted t1)
          then show ?thesis using ready[OF counted(1)] failure by simp
        qed
      qed
      then show ?thesis by blast
    qed
  next
    case (look key)
    then show ?thesis using kept[OF keeps_get[OF wf]] protected_live[OF prot] by blast
  next
    case room
    then show ?thesis using kept[OF keeps_makeRoom[OF wf]] prot by blast
  next
    case (mark key s0)
    then show ?thesis using s(1) by (auto simp: lookup_put)
  next
    case (reset key)
    then show ?thesis using kept[OF keeps_reset, of key] by blast
  next
    case (reorder m m')
    then show ?thesis using reorder_wf(2)[OF _ _ wf] s(1) by auto
  next
    case tick
    then show ?thesis using s(1) by blast
  qed
qed

lemma run_wf:
  assumes "(tracker_step k)\<^sup>*\<^sup>* (now, t) (now', t')" and "wf_tracker now t" and "same_policy pol t"
  shows "wf_tracker now' t' \<and> same_policy pol t' \<and> now \<le> now'"
  using assms(1)
proof (induction rule: rtranclp_induct2)
  case refl
  then show ?case using assms(2,3) by simp
next
  case (step now1 t1 now2 t2)
  then show ?case using step_wf[OF step(2)] by force
qed

lemma run_lock:
  assumes "(tracker_step k)\<^sup>*\<^sup>* (now, t) (now', t')" and wf: "wf_tracker now t" "same_policy pol t"
    and s: "lookup k t = Some s" "now' < lockedUntil s"
  shows "\<exists>s'. lookup k t' = Some s' \<and> lockedUntil s \<le> lockedUntil s'"
  using assms(1) s(2)
proof (induction rule: rtranclp_induct2)
  case refl
  then show ?case using s(1) by blast
next
  case (step now1 t1 now2 t2)
  note wf1 = run_wf[OF step(1) wf]
  have "now1 \<le> now2" using step_wf[OF step(2)] wf1 by blast
  with step obtain s1 where s1: "lookup k t1 = Some s1" "lockedUntil s \<le> lockedUntil s1" by auto
  moreover have "now2 < lockedUntil s1" using step.prems s1 by linarith
  ultimately show ?case using step_lock[OF step(2) _ _ s1(1)] wf1 by fastforce
qed

end

section \<open>The two policies of the limiter\<close>

abbreviation account_policy :: failureTracker where
  "account_policy \<equiv> newFailureTracker accountFailThreshold accountLockBase accountLockMax True"

abbreviation second_factor_policy :: failureTracker where
  "second_factor_policy \<equiv> newFailureTracker secondFactorFailThreshold secondFactorLock secondFactorLock False"

lemmas durations = accountLockBase_def accountLockMax_def secondFactorLock_def failureDecay_def
  accountFailThreshold_def secondFactorFailThreshold_def hour_def minute_def second_def

text \<open>The base of the account lock is a multiple of 2^11 nanoseconds, so a shift by 29 or more gives a
  multiple of 2^40, which the 64-bit wrap cannot turn into a positive value below the cap.\<close>

lemma wrap64_multiple:
  assumes "(2 :: int) ^ 40 dvd x"
  shows "wrap64 x \<le> 0 \<or> 2 ^ 40 \<le> wrap64 x"
proof -
  have "(2 :: int) ^ 40 dvd (x + 2 ^ 63) mod 2 ^ 64"
    using assms by (intro dvd_mod) (auto intro: dvd_add le_imp_power_dvd)
  then have "(2 :: int) ^ 40 dvd wrap64 x"
    unfolding wrap64_def by (intro dvd_diff) (auto intro: le_imp_power_dvd)
  then show ?thesis by (meson not_less zdvd_imp_le)
qed

lemma account_shift_large:
  assumes "29 \<le> k"
  shows "wrap64 (accountLockBase * 2 ^ k) \<le> 0 \<or> accountLockMax < wrap64 (accountLockBase * 2 ^ k)"
proof -
  have "accountLockBase * 2 ^ k = 2 ^ 40 * (29296875 * 2 ^ (k - 29))"
  proof -
    have "(2 :: int) ^ k = 2 ^ 29 * 2 ^ (k - 29)" using assms by (metis le_add_diff_inverse power_add)
    then show ?thesis by (simp add: durations)
  qed
  then have "(2 :: int) ^ 40 dvd accountLockBase * 2 ^ k" by (metis dvd_triv_left)
  from wrap64_multiple[OF this] show ?thesis by (auto simp: durations)
qed

lemma account_shift_small:
  assumes "k < 29"
  shows "(let b = wrap64 (accountLockBase * 2 ^ k) in if b \<le> 0 \<or> b > accountLockMax then accountLockMax else b)
     = min accountLockMax (accountLockBase * 2 ^ k)"
proof (cases "k < 4")
  case True
  then have "k \<in> {0, 1, 2, 3}" by auto
  then show ?thesis by (auto simp: durations wrap64_def min_def)
next
  case False
  have big: "accountLockMax < accountLockBase * 2 ^ k"
  proof -
    have "(2 :: int) ^ 4 \<le> 2 ^ k" using False by (intro power_increasing) auto
    then show ?thesis by (simp add: durations)
  qed
  have "k = 28 \<or> k \<le> 27" using assms by auto
  then show ?thesis
  proof
    assume "k = 28"
    then show ?thesis by (simp add: durations wrap64_def min_def)
  next
    assume "k \<le> 27"
    then have "(2 :: int) ^ k \<le> 2 ^ 27" by (intro power_increasing) auto
    then have "int64_range (accountLockBase * 2 ^ k)" using big by (simp add: durations int64_range_def)
    with big show ?thesis by (simp add: min_def)
  qed
qed

text \<open>The escalating lock in closed form, for every number of failures.\<close>

lemma account_backoff:
  assumes "accountFailThreshold \<le> n"
  shows "lock_backoff account_policy n = min accountLockMax (accountLockBase * 2 ^ nat (n - accountFailThreshold))"
proof (cases "nat (n - accountFailThreshold) < 29")
  case True
  then show ?thesis
    using account_shift_small[OF True] by (auto simp: lock_backoff_def newFailureTracker_def Let_def split: if_splits)
next
  case False
  let ?k = "nat (n - accountFailThreshold)"
  have "(2 :: int) ^ 4 \<le> 2 ^ ?k" using False by (intro power_increasing) auto
  then have "accountLockMax < accountLockBase * 2 ^ ?k" by (simp add: durations)
  with account_shift_large[of ?k] False show ?thesis
    by (auto simp: lock_backoff_def newFailureTracker_def Let_def min_def)
qed

interpretation account: lock_policy account_policy
proof (unfold_locales, goal_cases)
  case 1
  show ?case by (simp add: newFailureTracker_def durations)
next
  case (2 n)
  then show ?case
    using account_backoff[of n] by (simp add: newFailureTracker_def durations)
next
  case (3 n)
  then show ?case
    using account_backoff[of n] by (simp add: newFailureTracker_def durations min_def)
next
  case (4 n m)
  then have "(2 :: int) ^ nat (n - accountFailThreshold) \<le> 2 ^ nat (m - accountFailThreshold)"
    by (intro power_increasing) auto
  then have "accountLockBase * 2 ^ nat (n - accountFailThreshold) \<le> accountLockBase * 2 ^ nat (m - accountFailThreshold)"
    by (intro mult_left_mono) (simp_all add: durations)
  moreover have "accountFailThreshold \<le> n" "accountFailThreshold \<le> m"
    using 4 by (simp_all add: newFailureTracker_def)
  ultimately show ?case
    unfolding account_backoff[OF \<open>accountFailThreshold \<le> n\<close>] account_backoff[OF \<open>accountFailThreshold \<le> m\<close>] by linarith
qed

interpretation second_factor: lock_policy second_factor_policy
  by unfold_locales (simp_all add: newFailureTracker_def lock_backoff_def durations)

section \<open>Runs of the limiter\<close>

text \<open>All operations, in any order and at any times, except a successful login of the account
  \<open>ka\<close> and a successful second factor of the user \<open>ku\<close>.\<close>

inductive limiter_step :: "(string \<Rightarrow> string) \<Rightarrow> (string \<Rightarrow> string) \<Rightarrow> string \<Rightarrow> string \<Rightarrow>
    int \<times> loginLimiter \<Rightarrow> int \<times> loginLimiter \<Rightarrow> bool" for sha ipkey ka ku where
  allow_account: "limiter_step sha ipkey ka ku (now, l) (now, snd (AllowAccount sha email now l))"
| record_failure: "limiter_step sha ipkey ka ku (now, l) (now, RecordFailure sha email now l)"
| reset_account: "accountKey sha email \<noteq> ka \<Longrightarrow> limiter_step sha ipkey ka ku (now, l) (now, ResetAccount sha email l)"
| reserve: "limiter_step sha ipkey ka ku (now, l) (now, snd (ReserveSecondFactorAttempt uid now l))"
| is_locked: "limiter_step sha ipkey ka ku (now, l) (now, snd (secondFactorLocked uid now l))"
| reset_second: "uid \<noteq> ku \<Longrightarrow> limiter_step sha ipkey ka ku (now, l) (now, ResetSecondFactor uid l)"
| allow: "limiter_step sha ipkey ka ku (now, l) (now, snd (Allow ipkey ip now l))"
| reset_ip: "limiter_step sha ipkey ka ku (now, l) (now, Reset ipkey ip l)"
| acquire: "AcquireBcrypt l = Some l' \<Longrightarrow> limiter_step sha ipkey ka ku (now, l) (now, l')"
| release: "ReleaseBcrypt l = Some l' \<Longrightarrow> limiter_step sha ipkey ka ku (now, l) (now, l')"
| reorder: "\<lbrakk>mset m1 = mset (streaks (accounts l)); mset m2 = mset (locked_keys (accounts l));
     mset n1 = mset (streaks (secondFactor l)); mset n2 = mset (locked_keys (secondFactor l));
     mset m = mset (attempts l)\<rbrakk> \<Longrightarrow>
     limiter_step sha ipkey ka ku (now, l) (now, l\<lparr>accounts := (accounts l)\<lparr>streaks := m1, locked_keys := m2\<rparr>,
       secondFactor := (secondFactor l)\<lparr>streaks := n1, locked_keys := n2\<rparr>, attempts := m\<rparr>)"
| tick: "now \<le> now' \<Longrightarrow> limiter_step sha ipkey ka ku (now, l) (now', l)"

lemmas tracker_step_intros = tracker_step.failure tracker_step.look tracker_step.room tracker_step.reset
  tracker_step.tick tracker_step.reorder

lemma canTrack_steps: "(tracker_step k)\<^sup>*\<^sup>* (now, t) (now, snd (canTrack key now t))"
proof -
  obtain e t1 where g: "get key now t = (e, t1)" by force
  have "tracker_step k (now, t) (now, t1)" using tracker_step.look[of k now t key] g by simp
  moreover have "tracker_step k (now, t1) (now, snd (makeRoom now t1))" by (rule tracker_step.room)
  ultimately show ?thesis using g by (auto simp: canTrack_def split: option.split)
qed

lemma locked_steps: "tracker_step k (now, t) (now, snd (locked key now t))"
  using tracker_step.look[of k now t key] by (auto simp: locked_def split: prod.splits option.splits)

lemma AllowAccount_steps:
  "(tracker_step k)\<^sup>*\<^sup>* (now, accounts l) (now, accounts (snd (AllowAccount sha email now l)))"
  "secondFactor (snd (AllowAccount sha email now l)) = secondFactor l"
proof -
  let ?key = "accountKey sha email"
  obtain b t where lk: "locked ?key now (accounts l) = (b, t)" by force
  obtain c t' where ct: "canTrack ?key now t = (c, t')" by force
  have "tracker_step k (now, accounts l) (now, t)" using locked_steps[of k now "accounts l" ?key] lk by simp
  moreover have "(tracker_step k)\<^sup>*\<^sup>* (now, t) (now, t')" using canTrack_steps[of k now t ?key] ct by simp
  ultimately show "(tracker_step k)\<^sup>*\<^sup>* (now, accounts l) (now, accounts (snd (AllowAccount sha email now l)))"
    using lk ct by (cases b; cases c) (auto simp: AllowAccount_def)
  show "secondFactor (snd (AllowAccount sha email now l)) = secondFactor l"
    using lk ct by (cases b; cases c) (simp_all add: AllowAccount_def)
qed

lemma reserve_steps:
  "(tracker_step k)\<^sup>*\<^sup>* (now, secondFactor l) (now, secondFactor (snd (ReserveSecondFactorAttempt uid now l)))"
  "accounts (snd (ReserveSecondFactorAttempt uid now l)) = accounts l"
proof -
  obtain e t where g: "get uid now (secondFactor l) = (e, t)" by force
  have look: "tracker_step k (now, secondFactor l) (now, t)"
    using tracker_step.look[of k now "secondFactor l" uid] g by simp
  have count: "tracker_step k (now, t) (now, snd (recordFailure uid now t))" by (rule tracker_step.failure)
  have "accounts (snd (ReserveSecondFactorAttempt uid now l)) = accounts l \<and>
     (tracker_step k)\<^sup>*\<^sup>* (now, t) (now, secondFactor (snd (ReserveSecondFactorAttempt uid now l)))"
  proof (cases "\<exists>s. e = Some s \<and> now < lockedUntil s")
    case False
    then have "ReserveSecondFactorAttempt uid now l = reserve_counted uid now (l\<lparr>secondFactor := t\<rparr>)"
      using g by (auto simp: ReserveSecondFactorAttempt_def split: option.split)
    with count show ?thesis by (auto simp: reserve_counted_def split: prod.splits)
  next
    case True
    then obtain s where s: "e = Some s" "now < lockedUntil s" by blast
    with g have "lookup uid t = Some s" by (simp add: get_Some)
    then have "tracker_step k (now, t) (now, put uid (s\<lparr>blockSeen := True\<rparr>) t)" by (rule tracker_step.mark)
    with s g show ?thesis by (auto simp: ReserveSecondFactorAttempt_def)
  qed
  with look show "(tracker_step k)\<^sup>*\<^sup>* (now, secondFactor l) (now, secondFactor (snd (ReserveSecondFactorAttempt uid now l)))"
    "accounts (snd (ReserveSecondFactorAttempt uid now l)) = accounts l" by auto
qed

lemma Allow_trackers:
  "accounts (snd (Allow ipkey ip now l)) = accounts l" "secondFactor (snd (Allow ipkey ip now l)) = secondFactor l"
proof -
  have room: "accounts (makeRoomForIPLocked now c l) = accounts l" "secondFactor (makeRoomForIPLocked now c l) = secondFactor l" for c
    unfolding makeRoomForIPLocked_def Let_def by (simp_all only: if_distrib loginLimiter.select_convs) simp_all
  show "accounts (snd (Allow ipkey ip now l)) = accounts l" "secondFactor (snd (Allow ipkey ip now l)) = secondFactor l"
    unfolding Allow_def Let_def using room[of "now - loginWindow"] by (simp_all split: if_split)
qed

lemma limiter_step_trackers:
  assumes "limiter_step sha ipkey ka ku (now, l) (now', l')"
  shows "(tracker_step ka)\<^sup>*\<^sup>* (now, accounts l) (now', accounts l') \<and>
     (tracker_step ku)\<^sup>*\<^sup>* (now, secondFactor l) (now', secondFactor l')"
  using assms
proof cases
  case (allow_account email)
  then show ?thesis using AllowAccount_steps by auto
next
  case (reserve uid)
  then show ?thesis using reserve_steps by auto
next
  case (is_locked uid)
  then show ?thesis using locked_steps[of ku now "secondFactor l" uid]
    by (auto simp: secondFactorLocked_def split: prod.splits)
next
  case (acquire)
  then show ?thesis by (auto simp: AcquireBcrypt_def split: if_splits)
next
  case (release)
  then show ?thesis by (auto simp: ReleaseBcrypt_def split: nat.splits)
qed (auto simp: Allow_trackers RecordFailure_def ResetAccount_def ResetSecondFactor_def Reset_def
    intro: tracker_step_intros r_into_rtranclp)

lemma limiter_run_trackers:
  assumes "(limiter_step sha ipkey ka ku)\<^sup>*\<^sup>* (now, l) (now', l')"
  shows "(tracker_step ka)\<^sup>*\<^sup>* (now, accounts l) (now', accounts l') \<and>
     (tracker_step ku)\<^sup>*\<^sup>* (now, secondFactor l) (now', secondFactor l')"
  using assms
proof (induction rule: rtranclp_induct2)
  case (step now1 l1 now2 l2)
  from limiter_step_trackers[OF step(2)] step(3) show ?case by (meson rtranclp_trans)
qed simp

section \<open>Bounds\<close>

definition wf_windows :: "(string \<times> int list) list \<Rightarrow> bool" where
  "wf_windows m \<longleftrightarrow> distinct (map fst m) \<and> len m \<le> maxLimiterEntries \<and> (\<forall>(k, ts) \<in> set m. length ts \<le> loginMaxPerIP)"

definition wf_limiter :: "int \<Rightarrow> loginLimiter \<Rightarrow> bool" where
  "wf_limiter now l \<longleftrightarrow> wf_tracker now (accounts l) \<and> same_policy account_policy (accounts l) \<and>
     wf_tracker now (secondFactor l) \<and> same_policy second_factor_policy (secondFactor l) \<and>
     wf_windows (attempts l) \<and> sem l \<le> bcryptConcurrent"

lemma drop_until_suffix: "\<exists>n. drop_until mx m = drop n m"
proof (induction m)
  case (Cons e m)
  then obtain n where "drop_until mx m = drop n m" by blast
  then show ?case
    using exI[of "\<lambda>n. e # m = drop n (e # m)" 0] exI[of "\<lambda>n. drop_until mx m = drop n (e # m)" "Suc n"] by auto
qed auto

lemma drop_until_length: "0 < mx \<Longrightarrow> len (drop_until mx m) < mx"
  by (induction m) auto

lemma maxLimiterEntries_pos: "0 < maxLimiterEntries"
  by (simp add: maxLimiterEntries_def)

lemma wf_windows_sub:
  assumes "wf_windows m" and "set m' \<subseteq> set m" and "distinct (map fst m')" and "length m' \<le> length m"
  shows "wf_windows m'"
  using assms by (auto simp: wf_windows_def)

lemma makeRoomForIP_ok:
  assumes "wf_windows (attempts l)"
  shows "wf_windows (attempts (makeRoomForIPLocked now cutoff l))"
    and "len (attempts (makeRoomForIPLocked now cutoff l)) < maxLimiterEntries"
    and "sem (makeRoomForIPLocked now cutoff l) = sem l"
proof -
  let ?m = "attempts (makeRoomForIPLocked now cutoff l)"
  have "?m = attempts l \<and> len (attempts l) < maxLimiterEntries \<or> (\<exists>P. ?m = drop_until maxLimiterEntries (filter P (attempts l)))"
    by (cases "now - lastIPPrune l \<ge> limiterPruneEvery")
      (auto simp: makeRoomForIPLocked_def intro: exI[of _ "\<lambda>_. True"])
  then consider "?m = attempts l" "len (attempts l) < maxLimiterEntries"
    | P where "?m = drop_until maxLimiterEntries (filter P (attempts l))" by blast
  then have "wf_windows ?m \<and> len ?m < maxLimiterEntries"
  proof cases
    case (2 P)
    obtain n where n: "?m = drop n (filter P (attempts l))" using drop_until_suffix 2 by metis
    have "wf_windows ?m"
    proof (rule wf_windows_sub[OF assms])
      show "set ?m \<subseteq> set (attempts l)" unfolding n using set_drop_subset by fastforce
      show "distinct (map fst ?m)" unfolding n using assms
        by (simp add: wf_windows_def flip: drop_map) (simp add: distinct_map_filter)
      show "length ?m \<le> length (attempts l)" unfolding n by (simp add: le_trans[OF diff_le_self length_filter_le])
    qed
    then show ?thesis using 2 drop_until_length[OF maxLimiterEntries_pos] by metis
  qed (use assms in simp_all)
  then show "wf_windows ?m" "len ?m < maxLimiterEntries" by auto
  show "sem (makeRoomForIPLocked now cutoff l) = sem l" by (simp add: makeRoomForIPLocked_def Let_def)
qed

lemma wf_windows_update:
  assumes "wf_windows m" and "length ts \<le> loginMaxPerIP" and "k \<in> fst ` set m \<or> len m < maxLimiterEntries"
  shows "wf_windows (AList.update k ts m)"
  using assms set_update_subset[of k ts m]
  by (auto simp: wf_windows_def AList.distinct_update length_update)

lemma Allow_windows:
  assumes "wf_windows (attempts l)"
  shows "wf_windows (attempts (snd (Allow ipkey ip now l)))" "sem (snd (Allow ipkey ip now l)) = sem l"
proof -
  define l1 where "l1 = (if map_of (attempts l) (ipkey ip) = None then makeRoomForIPLocked now (now - loginWindow) l else l)"
  let ?old = "case map_of (attempts l1) (ipkey ip) of None \<Rightarrow> [] | Some ts \<Rightarrow> ts"
  let ?kept = "filter (\<lambda>t. t > now - loginWindow) ?old"
  have wf1: "wf_windows (attempts l1)" "sem l1 = sem l"
    and room: "ipkey ip \<in> fst ` set (attempts l1) \<or> len (attempts l1) < maxLimiterEntries"
    using assms makeRoomForIP_ok[OF assms] by (auto simp: l1_def map_of_eq_None_iff)
  have "length ?old \<le> loginMaxPerIP"
    using wf1(1) by (auto simp: wf_windows_def split: option.split dest!: map_of_SomeD)
  then have "length ?kept \<le> loginMaxPerIP" using length_filter_le le_trans by blast
  moreover have "snd (Allow ipkey ip now l) = l1\<lparr>attempts := AList.update (ipkey ip)
      (if length ?kept \<ge> loginMaxPerIP then ?kept else ?kept @ [now]) (attempts l1)\<rparr>"
    unfolding Allow_def l1_def[symmetric] Let_def by simp
  ultimately show "wf_windows (attempts (snd (Allow ipkey ip now l)))" "sem (snd (Allow ipkey ip now l)) = sem l"
    using wf_windows_update[OF wf1(1) _ room] wf1(2) by auto
qed

lemma wf_windows_mset: "mset m' = mset m \<Longrightarrow> wf_windows m' = wf_windows m"
proof -
  assume eq: "mset m' = mset m"
  then have "mset (map fst m') = mset (map fst m)" by simp
  then have "distinct (map fst m') = distinct (map fst m)" by (rule mset_eq_imp_distinct_iff)
  moreover have "set m' = set m" "length m' = length m" using eq by (metis set_mset_mset, metis size_mset)
  ultimately show ?thesis by (simp add: wf_windows_def)
qed

text \<open>The operations on the trackers leave the windows and the hash slots alone.\<close>

lemma windows_untouched:
  "attempts (snd (AllowAccount sha email now l)) = attempts l" "sem (snd (AllowAccount sha email now l)) = sem l"
  "attempts (snd (ReserveSecondFactorAttempt uid now l)) = attempts l" "sem (snd (ReserveSecondFactorAttempt uid now l)) = sem l"
  "attempts (snd (secondFactorLocked uid now l)) = attempts l" "sem (snd (secondFactorLocked uid now l)) = sem l"
  by (simp_all add: AllowAccount_def Let_def ReserveSecondFactorAttempt_def reserve_counted_def secondFactorLocked_def
      split: prod.split bool.split option.split)

lemma Reset_windows:
  assumes "wf_windows (attempts l)"
  shows "wf_windows (attempts (Reset ipkey ip l))"
proof -
  have "wf_windows (AList.delete (ipkey ip) (attempts l))"
  proof (rule wf_windows_sub[OF assms])
    show "distinct (map fst (AList.delete (ipkey ip) (attempts l)))"
      using assms by (simp add: wf_windows_def AList.distinct_delete)
  qed (simp_all add: set_delete AList.length_delete_le)
  then show ?thesis by (simp add: Reset_def)
qed

lemma limiter_step_windows:
  assumes "limiter_step sha ipkey ka ku (now, l) (now', l')" and wf: "wf_windows (attempts l)" "sem l \<le> bcryptConcurrent"
  shows "wf_windows (attempts l') \<and> sem l' \<le> bcryptConcurrent"
  using assms(1)
proof cases
  case (allow ip)
  then show ?thesis using Allow_windows[OF wf(1)] wf(2) by simp
next
  case (reset_ip ip)
  then show ?thesis using Reset_windows[OF wf(1)] wf(2) by (simp add: Reset_def)
next
  case (reorder m1 m2 n1 n2 m)
  then show ?thesis using wf wf_windows_mset[of m "attempts l"] by simp
next
  case acquire
  then show ?thesis using wf by (auto simp: AcquireBcrypt_def split: if_splits)
next
  case release
  then show ?thesis using wf by (auto simp: ReleaseBcrypt_def split: nat.splits)
qed (use wf in \<open>simp_all add: windows_untouched RecordFailure_def ResetAccount_def ResetSecondFactor_def\<close>)

lemma limiter_step_wf:
  assumes step: "limiter_step sha ipkey ka ku (now, l) (now', l')" and wf: "wf_limiter now l"
  shows "wf_limiter now' l' \<and> now \<le> now'"
  using limiter_step_trackers[OF step] limiter_step_windows[OF step]
    account.run_wf[of ka now "accounts l" now' "accounts l'"]
    second_factor.run_wf[of ku now "secondFactor l" now' "secondFactor l'"] wf
  by (simp add: wf_limiter_def)

lemma limiter_run_wf:
  assumes "(limiter_step sha ipkey ka ku)\<^sup>*\<^sup>* (now, l) (now', l')" and "wf_limiter now l"
  shows "wf_limiter now' l'"
  using assms
proof (induction rule: rtranclp_induct2)
  case (step now1 l1 now2 l2)
  then show ?case using limiter_step_wf by blast
qed simp

lemma new_limiter_wf: "zero_time \<le> now \<Longrightarrow> wf_limiter now NewLoginLimiter"
  by (simp add: wf_limiter_def wf_tracker_def wf_windows_def NewLoginLimiter_def newFailureTracker_def same_policy_def
      maxLimiterEntries_def maxLockedEntries_def)

text \<open>Sample limiters: an account at four failures, a locked account, and a locked second factor.\<close>

definition sample_entry :: "int \<Rightarrow> int \<Rightarrow> limiterState" where
  "sample_entry n until = \<lparr>failures = n, lastFailure = 0, lockedUntil = until, blockSeen = False\<rparr>"

abbreviation warned_limiter :: loginLimiter where
  "warned_limiter \<equiv> NewLoginLimiter\<lparr>accounts := account_policy\<lparr>streaks := [(''ann'', sample_entry 4 zero_time)]\<rparr>\<rparr>"

abbreviation locked_limiter :: loginLimiter where
  "locked_limiter \<equiv> NewLoginLimiter\<lparr>accounts := account_policy\<lparr>locked_keys := [(''ann'', sample_entry 5 minute)]\<rparr>,
     secondFactor := second_factor_policy\<lparr>locked_keys := [(''u1'', sample_entry 10 (15 * minute))]\<rparr>\<rparr>"

lemma zero_time_past: "zero_time \<le> 0"
  by (simp add: zero_time_def second_def)

lemma sample_limiters_wf: "wf_limiter 0 warned_limiter" "wf_limiter 0 locked_limiter"
  by (simp_all add: wf_limiter_def wf_tracker_def wf_windows_def NewLoginLimiter_def newFailureTracker_def same_policy_def
      maxLimiterEntries_def maxLockedEntries_def wf_entry_def sample_entry_def lock_backoff_def Let_def wrap64_def
      durations zero_time_def)

text \<open>the limiter's memory is bounded whatever is thrown at it. Over any sequence of operations from
  a new limiter, each tracker holds at most 10,000 streaks and 2^18 locked keys, no key is in both,
  the address map has at most 10,000 windows of at most 5 attempts, and at most 4 password
  hashes run at once.\<close>

theorem limiter_runs_bounded:
  assumes "(limiter_step sha ipkey ka ku)\<^sup>*\<^sup>* (now, NewLoginLimiter) (now', l)" and "zero_time \<le> now"
  shows "len (streaks (accounts l)) \<le> maxLimiterEntries \<and> len (locked_keys (accounts l)) \<le> maxLockedEntries \<and>
     len (streaks (secondFactor l)) \<le> maxLimiterEntries \<and> len (locked_keys (secondFactor l)) \<le> maxLockedEntries \<and>
     fst ` set (streaks (accounts l)) \<inter> fst ` set (locked_keys (accounts l)) = {} \<and>
     len (attempts l) \<le> maxLimiterEntries \<and> (\<forall>(k, ts) \<in> set (attempts l). length ts \<le> 5) \<and> sem l \<le> 4"
  using limiter_run_wf[OF assms(1) new_limiter_wf[OF assms(2)]]
  by (auto simp: wf_limiter_def wf_tracker_def same_policy_def newFailureTracker_def wf_windows_def
      loginMaxPerIP_def bcryptConcurrent_def)

theorem limiter_runs_bounded_witness:
  "length (attempts (snd (Allow id ''10.0.0.1'' 0 NewLoginLimiter))) \<le> 10000 \<and>
   list_all (\<lambda>(k, ts). length ts \<le> 5) (attempts (snd (Allow id ''10.0.0.1'' 0 NewLoginLimiter)))"
proof -
  have "(limiter_step id id '''' '''')\<^sup>*\<^sup>* (0, NewLoginLimiter) (0, snd (Allow id ''10.0.0.1'' 0 NewLoginLimiter))"
    by (rule r_into_rtranclp) (rule limiter_step.allow)
  from limiter_runs_bounded[OF this zero_time_past] show ?thesis by (simp add: maxLimiterEntries_def list_all_iff)
qed

text \<open>C16: no flood unlocks an account. Once an account is locked until some time, then through any
  sequence of operations on any accounts, users and addresses, at any times before that, short of a
  successful login of that account, the next login for it is refused. In particular failures for
  any number of other keys evict nothing that is locked.\<close>

theorem account_lock_holds:
  assumes wf: "wf_limiter now l" and "lookup (accountKey sha email) (accounts l) = Some s"
    and run: "(limiter_step sha ipkey (accountKey sha email) ku)\<^sup>*\<^sup>* (now, l) (now', l')" and "now' < lockedUntil s"
  shows "fst (AllowAccount sha email now' l') = (False, False)"
proof -
  let ?k = "accountKey sha email"
  have steps: "(tracker_step ?k)\<^sup>*\<^sup>* (now, accounts l) (now', accounts l')"
    using limiter_run_trackers[OF run] by blast
  obtain s' where s': "lookup ?k (accounts l') = Some s'" "lockedUntil s \<le> lockedUntil s'"
    using account.run_lock[OF steps _ _ assms(2,4)] wf by (auto simp: wf_limiter_def)
  then have "now' < lockedUntil s'" "now' < expiresAt s'"
    using assms(4) protected_live[OF protected_locked, of now' s'] by auto
  then have "get ?k now' (accounts l') = (Some s', accounts l')" using s'(1) by (simp add: get_Some)
  with \<open>now' < lockedUntil s'\<close> have "locked ?k now' (accounts l') = (True, accounts l')" by (simp add: locked_def)
  then show ?thesis by (simp add: AllowAccount_def)
qed

text \<open>A run for the witnesses: another account fails, this account's password succeeds, time passes.\<close>

definition busy_limiter :: loginLimiter where
  "busy_limiter = ResetAccount id ''bob'' (RecordFailure id ''bob'' 0 locked_limiter)"

lemma busy_run:
  assumes "ka \<noteq> ''bob''" and "0 \<le> t"
  shows "(limiter_step id id ka ku)\<^sup>*\<^sup>* (0, locked_limiter) (t, busy_limiter)"
proof -
  have bob: "accountKey id ''bob'' = ''bob''" by code_simp
  have "limiter_step id id ka ku (0, locked_limiter) (0, RecordFailure id ''bob'' 0 locked_limiter)"
    by (rule limiter_step.record_failure)
  moreover have "limiter_step id id ka ku (0, RecordFailure id ''bob'' 0 locked_limiter) (0, busy_limiter)"
    unfolding busy_limiter_def by (rule limiter_step.reset_account) (use bob assms(1) in simp)
  moreover have "limiter_step id id ka ku (0, busy_limiter) (t, busy_limiter)"
    using assms(2) by (rule limiter_step.tick)
  ultimately show ?thesis by (meson converse_rtranclp_into_rtranclp rtranclp.rtrancl_refl)
qed

theorem account_lock_holds_witness:
  "fst (AllowAccount id '' Ann'' (minute - 1) busy_limiter) = (False, False)"
proof -
  have key: "accountKey id '' Ann'' = ''ann''" by code_simp
  have look: "lookup (accountKey id '' Ann'') (accounts locked_limiter) = Some (sample_entry 5 minute)"
    by (simp add: key lookup_def newFailureTracker_def)
  have "0 \<le> minute - 1" by (simp add: durations)
  then have "(limiter_step id id (accountKey id '' Ann'') '''')\<^sup>*\<^sup>* (0, locked_limiter) (minute - 1, busy_limiter)"
    unfolding key by (intro busy_run) simp_all
  from account_lock_holds[OF sample_limiters_wf(2) look this] show ?thesis by (simp add: sample_entry_def)
qed

text \<open>a correct password does not buy second-factor guesses. Once the second factor of a user is
  locked, every attempt before the lock ends is refused, through any operations, successful
  password logins of the same account included, short of a successful second factor of that user.\<close>

theorem second_factor_lock_holds:
  assumes wf: "wf_limiter now l" and "lookup uid (secondFactor l) = Some s"
    and run: "(limiter_step sha ipkey ka uid)\<^sup>*\<^sup>* (now, l) (now', l')" and "now' < lockedUntil s"
  shows "\<not> v_allowed (fst (ReserveSecondFactorAttempt uid now' l'))"
proof -
  have steps: "(tracker_step uid)\<^sup>*\<^sup>* (now, secondFactor l) (now', secondFactor l')"
    using limiter_run_trackers[OF run] by blast
  obtain s' where s': "lookup uid (secondFactor l') = Some s'" "lockedUntil s \<le> lockedUntil s'"
    using second_factor.run_lock[OF steps _ _ assms(2,4)] wf by (auto simp: wf_limiter_def)
  then have "now' < lockedUntil s'" "now' < expiresAt s'"
    using assms(4) protected_live[OF protected_locked, of now' s'] by auto
  then have "get uid now' (secondFactor l') = (Some s', secondFactor l')" using s'(1) by (simp add: get_Some)
  with \<open>now' < lockedUntil s'\<close> show ?thesis by (simp add: ReserveSecondFactorAttempt_def)
qed

theorem second_factor_lock_holds_witness:
  "\<not> v_allowed (fst (ReserveSecondFactorAttempt ''u1'' (15 * minute - 1) busy_limiter))"
proof -
  have look: "lookup ''u1'' (secondFactor locked_limiter) = Some (sample_entry 10 (15 * minute))"
    by (simp add: lookup_def newFailureTracker_def)
  have "0 \<le> 15 * minute - 1" by (simp add: durations)
  then have "(limiter_step id id '''' ''u1'')\<^sup>*\<^sup>* (0, locked_limiter) (15 * minute - 1, busy_limiter)"
    by (intro busy_run) simp_all
  from second_factor_lock_holds[OF sample_limiters_wf(2) look this] show ?thesis by (simp add: sample_entry_def)
qed

section \<open>Guesses are counted\<close>

lemma makeRoom_True:
  assumes "wf_tracker now t" and "makeRoom now t = (True, t')"
  shows "len (streaks t') < maxStreaks t'"
proof (cases rule: makeRoom_cases[of now t])
  case (evict v s)
  then have "t' = t\<lparr>streaks := AList.delete v (streaks t)\<rparr>" using assms(2) by simp
  moreover have "length (AList.delete v (streaks t)) < length (streaks t)"
    using evict(2) by (intro length_delete_less) force
  ultimately show ?thesis using assms(1) by (simp add: wf_tracker_def)
qed (use assms in auto)

lemma shrinks_length: "shrinks t t' \<Longrightarrow> len (streaks t') \<le> len (streaks t)"
  by (auto simp: shrinks_def)

context lock_policy
begin

lemma canTrack_counts:
  assumes wf: "wf_tracker now t" and pol: "same_policy pol t" and can: "canTrack k now t = (True, t')"
  shows "\<exists>engaged t2. recordFailure k now t' = ((engaged, True), t2)"
proof (cases "live k now t")
  case (Some s)
  then have "get k now t = (Some s, t)" by (simp add: get_Some live_Some)
  then have "t' = t" using can by (simp add: canTrack_def)
  then show ?thesis using record_live[OF wf Some] by metis
next
  case None
  obtain t1 where get: "get k now t = (None, t1)" using get_live[of k now t] None by metis
  then have room: "makeRoom now t1 = (True, t')" using can by (simp add: canTrack_def)
  have wf1: "wf_tracker now t1" "same_policy pol t1"
    using shrinks_keep[OF shrinks_get wf pol, of k now] get by auto
  have wf': "wf_tracker now t'" "same_policy pol t'"
    using shrinks_keep[OF shrinks_makeRoom wf1, of now] room by auto
  have "lookup k t' = None"
    using shrinks_lookup_None[OF shrinks_makeRoom get_None[OF wf get], of now] room by simp
  then have live: "live k now t' = None" by (simp add: live_def)
  have thr: "0 < threshold t'" using policy_eqs(1)[OF wf'(2)] thr_pos by simp
  from wf'(1) live thr show ?thesis
  proof (cases rule: record_new)
    case (untracked t2)
    then show ?thesis using shrinks_length[OF untracked(2)] makeRoom_True[OF wf1(1) room] by simp
  next
    case (counted t2)
    then show ?thesis by blast
  qed
qed

end

text \<open>every guess the limiter lets through is counted. If a login is allowed to proceed, a failure
  recorded for it at that time is always tracked, however full the tracker is; when a failure could
  not be tracked the login is refused instead.\<close>

theorem allowed_guess_counted:
  assumes wf: "wf_limiter now l" and allow: "AllowAccount sha email now l = ((True, saturated), l')"
  shows "\<exists>engaged t. recordFailure (accountKey sha email) now (accounts l') = ((engaged, True), t)"
proof -
  let ?k = "accountKey sha email"
  obtain b t where lk: "locked ?k now (accounts l) = (b, t)" by force
  obtain c t' where ct: "canTrack ?k now t = (c, t')" by force
  have "t = snd (get ?k now (accounts l))" using lk by (auto simp: locked_def split: prod.splits option.splits)
  then have "wf_tracker now t" "same_policy account_policy t"
    using account.shrinks_keep[OF shrinks_get] wf by (auto simp: wf_limiter_def)
  moreover have "c" "accounts l' = t'" using allow lk ct by (cases b; cases c; auto simp: AllowAccount_def)+
  ultimately show ?thesis using account.canTrack_counts ct by simp
qed

theorem allowed_guess_counted_witness:
  "\<exists>engaged t. recordFailure ''ann'' 0 (accounts warned_limiter) = ((engaged, True), t)"
proof -
  have key: "accountKey id ''ann'' = ''ann''" by code_simp
  have allow: "AllowAccount id ''ann'' 0 warned_limiter = ((True, False), warned_limiter)"
    by (simp add: AllowAccount_def key locked_def canTrack_def get_def newFailureTracker_def sample_entry_def
        expiresAt_def durations zero_time_def)
  from allowed_guess_counted[OF sample_limiters_wf(1) allow] show ?thesis by (simp add: key)
qed

text \<open>account locks escalate and expire. A failure for an account with n failures still in memory, n
  at least four, refuses the account for min(15 minutes, 2^(n-4) minutes) and not longer, for every n: the 64-bit
  shift never wraps into a short lock.\<close>

theorem account_lock_duration:
  assumes wf: "wf_limiter now l" and s: "live (accountKey sha email) now (accounts l) = Some s" "4 \<le> failures s"
    and later: "now \<le> now'" "now' < now + failureDecay"
  shows "fst (AllowAccount sha email now' (RecordFailure sha email now l))
     = (now + min (15 * minute) (minute * 2 ^ nat (failures s - 4)) \<le> now', False)"
proof -
  let ?k = "accountKey sha email" and ?t = "accounts l"
  let ?s' = "count_failure ?t now s" and ?t' = "snd (recordFailure ?k now ?t)"
  have wft: "wf_tracker now ?t" and pol: "same_policy account_policy ?t" using wf by (auto simp: wf_limiter_def)
  have entry: "wf_entry ?t now s" "now < expiresAt s" using s(1) lookup_wf[OF wft, of ?k s] by (simp_all add: live_Some)
  note counted = account.count_live[OF pol entry]
  have thr: "threshold ?t \<le> failures s + 1"
    using s(2) account.policy_eqs(1)[OF pol] by (simp add: newFailureTracker_def durations)
  have lu: "lockedUntil ?s' = now + min (15 * minute) (minute * 2 ^ nat (failures s - 4))"
    using counted(4)[OF thr] account_backoff[of "failures s + 1"] s(2) by (simp add: durations)
  have look: "lookup ?k ?t' = Some ?s'"
    using record_live[OF wft s(1)] by (metis lookup_settle_entry snd_conv)
  have wf': "wf_tracker now' ?t'" "same_policy account_policy ?t'"
    using account.record_wf[OF wft pol, of ?k] wf_later[OF _ later(1)] by auto
  have "expiresAt ?s' = now + failureDecay"
    using account.expires_at_decay[of now' ?s'] lookup_wf[OF wf'(1) look] account.policy_eqs(3)[OF wf'(2)] counted(3) by simp
  then have "get ?k now' ?t' = (Some ?s', ?t')" using look later by (simp add: get_Some)
  then show ?thesis
    using lu by (auto simp: AllowAccount_def RecordFailure_def locked_def canTrack_def Let_def split: bool.split)
qed


theorem account_lock_duration_witness:
  "fst (AllowAccount id ''ann'' (minute - 1) (RecordFailure id ''ann'' 0 warned_limiter)) = (False, False) \<and>
   fst (AllowAccount id ''ann'' minute (RecordFailure id ''ann'' 0 warned_limiter)) = (True, False)"
proof -
  have key: "accountKey id ''ann'' = ''ann''" by code_simp
  have live: "live (accountKey id ''ann'') 0 (accounts warned_limiter) = Some (sample_entry 4 zero_time)"
    by (simp add: key live_def lookup_def newFailureTracker_def sample_entry_def expiresAt_def durations zero_time_def)
  show ?thesis
    using account_lock_duration[OF sample_limiters_wf(1) live, of "minute - 1"]
      account_lock_duration[OF sample_limiters_wf(1) live, of minute]
    by (simp add: sample_entry_def durations)
qed

end
