(* ===== verification/Authz_Roles.thy ===== *)
theory Authz_Roles
  imports Store_Tenancy
begin

text \<open>
  The tenancy roles and access rules of \<^verbatim>\<open>internal/authz\<close> (\<^verbatim>\<open>roles.go\<close>, \<^verbatim>\<open>Rule\<close> of
  \<^verbatim>\<open>permissions.go\<close>). A \<^verbatim>\<open>Role\<close> is an ordered enumeration; the store ranks role strings with
  its own function, and the two orders are shown to agree.
\<close>

datatype role = RoleNone | RoleReader | RoleContributor | RoleOwner

fun role_rank :: "role \<Rightarrow> nat" where
  "role_rank RoleNone = 0"
| "role_rank RoleReader = 1"
| "role_rank RoleContributor = 2"
| "role_rank RoleOwner = 3"

lemma role_rank_inj: "role_rank a = role_rank b \<Longrightarrow> a = b"
  by (cases a; cases b) simp_all

instantiation role :: linorder
begin

definition less_eq_role :: "role \<Rightarrow> role \<Rightarrow> bool" where
  "a \<le> b \<longleftrightarrow> role_rank a \<le> role_rank b"

definition less_role :: "role \<Rightarrow> role \<Rightarrow> bool" where
  "a < b \<longleftrightarrow> role_rank a < role_rank b"

instance
  by standard (auto simp: less_eq_role_def less_role_def dest: role_rank_inj)

end

datatype rule =
    PublicRule
  | AuthenticatedRule
  | ReaderRule
  | ContributorRule
  | OwnerRule
  | PlatformAdminRule

definition ParseRole :: "string \<Rightarrow> role" where
  "ParseRole s = (if s = ''owner'' then RoleOwner else if s = ''contributor'' then RoleContributor
     else if s = ''reader'' then RoleReader else RoleNone)"

fun role_String :: "role \<Rightarrow> string" where
  "role_String RoleOwner = ''owner''"
| "role_String RoleContributor = ''contributor''"
| "role_String RoleReader = ''reader''"
| "role_String RoleNone = ''''"

definition RoleAtLeast :: "role \<Rightarrow> role \<Rightarrow> bool" where
  "RoleAtLeast have_r need = (have_r \<ge> need)"

definition MaxRole :: "string \<Rightarrow> string \<Rightarrow> string" where
  "MaxRole a b = (if ParseRole a \<ge> ParseRole b then a else b)"

fun RuleMinRole :: "rule \<Rightarrow> role" where
  "RuleMinRole ReaderRule = RoleReader"
| "RuleMinRole ContributorRule = RoleContributor"
| "RuleMinRole OwnerRule = RoleOwner"
| "RuleMinRole PublicRule = RoleNone"
| "RuleMinRole AuthenticatedRule = RoleNone"
| "RuleMinRole PlatformAdminRule = RoleNone"

fun rule_String :: "rule \<Rightarrow> string" where
  "rule_String PublicRule = ''public''"
| "rule_String AuthenticatedRule = ''authenticated''"
| "rule_String ReaderRule = ''reader''"
| "rule_String ContributorRule = ''contributor''"
| "rule_String OwnerRule = ''owner''"
| "rule_String PlatformAdminRule = ''platform_admin''"

lemma ParseRole_String [simp]: "ParseRole (role_String r) = r"
  by (cases r) (simp_all add: ParseRole_def)

lemma role_rank_ParseRole [simp]: "role_rank (ParseRole s) = roleRank s"
  by (simp add: ParseRole_def roleRank_def)

lemma ParseRole_MaxRole: "ParseRole (MaxRole a b) = max (ParseRole a) (ParseRole b)"
  by (auto simp: MaxRole_def max_def)

lemma ParseRole_le_iff: "ParseRole a \<le> ParseRole b \<longleftrightarrow> roleRank a \<le> roleRank b"
  by (simp add: less_eq_role_def)

lemma RoleAtLeast_iff: "RoleAtLeast (ParseRole s) need \<longleftrightarrow> role_rank need \<le> roleRank s"
  by (simp add: RoleAtLeast_def less_eq_role_def)

lemma roleRank_MaxRole: "n \<le> roleRank (MaxRole a b) \<longleftrightarrow> n \<le> roleRank a \<or> n \<le> roleRank b"
  by (auto simp: MaxRole_def ParseRole_le_iff)

text \<open>a project role only adds. The effective role \<^verbatim>\<open>MaxRole\<close> computes from a tenant role and a
  project role satisfies a requirement exactly when one of the two does, it is one of the two
  strings, and parsing a rendered role gives the role back.\<close>

theorem MaxRole_only_adds:
  "(RoleAtLeast (ParseRole (MaxRole a b)) need \<longleftrightarrow>
      RoleAtLeast (ParseRole a) need \<or> RoleAtLeast (ParseRole b) need) \<and>
   MaxRole a b \<in> {a, b} \<and> ParseRole (role_String r) = r"
  using roleRank_MaxRole[of "role_rank need" a b] by (auto simp: RoleAtLeast_iff MaxRole_def)

end
