(* ===== verification/Authz_Permissions.thy ===== *)
theory Authz_Permissions
  imports Authz_Roles Go_Lib
begin

text \<open>
  The route tables of \<^verbatim>\<open>internal/authz\<close>: the permission registry (\<^verbatim>\<open>permissions.go\<close>), entry by
  entry, and the audit actions of the mutating tenant routes (\<^verbatim>\<open>audit_actions.go\<close>). A Go map is
  an association list built by successive updates.
\<close>

type_synonym route_key = "string \<times> string"

record permission =
  pm_method :: string
  pm_pattern :: string
  pm_rule :: rule

definition perm :: "string \<Rightarrow> string \<Rightarrow> rule \<Rightarrow> permission" where
  "perm m p r = \<lparr>pm_method = m, pm_pattern = p, pm_rule = r\<rparr>"

lemma perm_simps [simp]:
  "pm_method (perm m p r) = m" "pm_pattern (perm m p r) = p" "pm_rule (perm m p r) = r"
  "perm (pm_method x) (pm_pattern x) (pm_rule x) = x"
  by (simp_all add: perm_def)

definition perms :: "permission list" where
  "perms = [
      perm ''GET'' ''/api/health'' PublicRule,
      perm ''GET'' ''/api/v1/version'' PublicRule,
      perm ''GET'' ''/api/auth/bootstrap-status'' PublicRule,
      perm ''POST'' ''/api/auth/bootstrap'' PublicRule,
      perm ''POST'' ''/api/auth/login'' PublicRule,
      perm ''POST'' ''/api/auth/login/totp'' PublicRule,
      perm ''GET'' ''/api/auth/invitations/{token}'' PublicRule,
      perm ''POST'' ''/api/auth/invitations/{token}/accept'' PublicRule,
      perm ''GET'' ''/api/console/ws/{sessionId}'' PublicRule,
      perm ''POST'' ''/api/auth/logout'' AuthenticatedRule,
      perm ''GET'' ''/api/auth/me'' AuthenticatedRule,
      perm ''PATCH'' ''/api/auth/active-tenant'' AuthenticatedRule,
      perm ''POST'' ''/api/auth/password'' AuthenticatedRule,
      perm ''GET'' ''/api/auth/sessions'' AuthenticatedRule,
      perm ''DELETE'' ''/api/auth/sessions/{id}'' AuthenticatedRule,
      perm ''POST'' ''/api/auth/totp/enroll'' AuthenticatedRule,
      perm ''POST'' ''/api/auth/totp/verify'' AuthenticatedRule,
      perm ''POST'' ''/api/auth/totp/disable'' AuthenticatedRule,
      perm ''POST'' ''/api/auth/totp/recovery-codes'' AuthenticatedRule,
      perm ''GET'' ''/api/events'' AuthenticatedRule,
      perm ''GET'' ''/api/notifications'' AuthenticatedRule,
      perm ''POST'' ''/api/notifications/read'' AuthenticatedRule,
      perm ''GET'' ''/api/pricing'' AuthenticatedRule,
      perm ''GET'' ''/api/admin/tenants'' PlatformAdminRule,
      perm ''POST'' ''/api/admin/tenants'' PlatformAdminRule,
      perm ''GET'' ''/api/admin/cluster'' PlatformAdminRule,
      perm ''GET'' ''/api/admin/cluster/nextid'' PlatformAdminRule,
      perm ''GET'' ''/api/admin/nodes'' PlatformAdminRule,
      perm ''GET'' ''/api/admin/nodes/{node}'' PlatformAdminRule,
      perm ''GET'' ''/api/admin/nodes/{node}/metrics'' PlatformAdminRule,
      perm ''GET'' ''/api/admin/nodes/{node}/bridges'' PlatformAdminRule,
      perm ''GET'' ''/api/admin/nodes/{node}/storages'' PlatformAdminRule,
      perm ''GET'' ''/api/admin/nodes/{node}/storages/{storage}/content'' PlatformAdminRule,
      perm ''GET'' ''/api/admin/resources'' PlatformAdminRule,
      perm ''GET'' ''/api/admin/pools'' PlatformAdminRule,
      perm ''GET'' ''/api/admin/storage'' PlatformAdminRule,
      perm ''GET'' ''/api/admin/tasks'' PlatformAdminRule,
      perm ''GET'' ''/api/admin/tasks/{upid}'' PlatformAdminRule,
      perm ''GET'' ''/api/admin/tasks/{upid}/log'' PlatformAdminRule,
      perm ''GET'' ''/api/admin/tenants/{tenantId}/quota'' PlatformAdminRule,
      perm ''PUT'' ''/api/admin/tenants/{tenantId}/quota'' PlatformAdminRule,
      perm ''GET'' ''/api/tenants/{tenantId}/summary'' ReaderRule,
      perm ''GET'' ''/api/tenants/{tenantId}/quota'' ReaderRule,
      perm ''GET'' ''/api/tenants/{tenantId}/activity'' ReaderRule,
      perm ''GET'' ''/api/tenants/{tenantId}/projects'' ReaderRule,
      perm ''POST'' ''/api/tenants/{tenantId}/projects'' OwnerRule,
      perm ''GET'' ''/api/tenants/{tenantId}/projects/{projectId}'' ReaderRule,
      perm ''PATCH'' ''/api/tenants/{tenantId}/projects/{projectId}'' OwnerRule,
      perm ''DELETE'' ''/api/tenants/{tenantId}/projects/{projectId}'' OwnerRule,
      perm ''GET'' ''/api/tenants/{tenantId}/projects/{projectId}/quota'' ReaderRule,
      perm ''PUT'' ''/api/tenants/{tenantId}/projects/{projectId}/quota'' OwnerRule,
      perm ''GET'' ''/api/tenants/{tenantId}/projects/{projectId}/schedule'' ReaderRule,
      perm ''PUT'' ''/api/tenants/{tenantId}/projects/{projectId}/schedule'' ContributorRule,
      perm ''DELETE'' ''/api/tenants/{tenantId}/projects/{projectId}/schedule'' ContributorRule,
      perm ''GET'' ''/api/tenants/{tenantId}/projects/{projectId}/ttl-policy'' ReaderRule,
      perm ''PUT'' ''/api/tenants/{tenantId}/projects/{projectId}/ttl-policy'' OwnerRule,
      perm ''GET'' ''/api/tenants/{tenantId}/projects/{projectId}/ttls'' ReaderRule,
      perm ''GET'' ''/api/tenants/{tenantId}/members'' OwnerRule,
      perm ''GET'' ''/api/tenants/{tenantId}/invitations'' OwnerRule,
      perm ''POST'' ''/api/tenants/{tenantId}/invitations'' OwnerRule,
      perm ''DELETE'' ''/api/tenants/{tenantId}/invitations/{invitationId}'' OwnerRule,
      perm ''GET'' ''/api/tenants/{tenantId}/resources'' ReaderRule,
      perm ''GET'' ''/api/tenants/{tenantId}/catalog/nextid'' ContributorRule,
      perm ''GET'' ''/api/tenants/{tenantId}/catalog/nodes'' ContributorRule,
      perm ''GET'' ''/api/tenants/{tenantId}/catalog/nodes/{node}/bridges'' ContributorRule,
      perm ''GET'' ''/api/tenants/{tenantId}/catalog/nodes/{node}/storages'' ContributorRule,
      perm ''GET'' ''/api/tenants/{tenantId}/catalog/nodes/{node}/storages/{storage}/content'' ContributorRule,
      perm ''POST'' ''/api/tenants/{tenantId}/guests'' ContributorRule,
      perm ''GET'' ''/api/tenants/{tenantId}/guests/{node}/{type}/{vmid}'' ReaderRule,
      perm ''PATCH'' ''/api/tenants/{tenantId}/guests/{node}/{type}/{vmid}/config'' ContributorRule,
      perm ''GET'' ''/api/tenants/{tenantId}/guests/{node}/{type}/{vmid}/metrics'' ReaderRule,
      perm ''GET'' ''/api/tenants/{tenantId}/guests/{node}/{type}/{vmid}/interfaces'' ReaderRule,
      perm ''POST'' ''/api/tenants/{tenantId}/guests/{node}/{type}/{vmid}/resize'' ContributorRule,
      perm ''GET'' ''/api/tenants/{tenantId}/guests/{node}/{type}/{vmid}/snapshots'' ReaderRule,
      perm ''POST'' ''/api/tenants/{tenantId}/guests/{node}/{type}/{vmid}/snapshots'' ContributorRule,
      perm ''POST'' ''/api/tenants/{tenantId}/guests/{node}/{type}/{vmid}/snapshots/{name}/rollback'' ContributorRule,
      perm ''DELETE'' ''/api/tenants/{tenantId}/guests/{node}/{type}/{vmid}/snapshots/{name}'' ContributorRule,
      perm ''GET'' ''/api/tenants/{tenantId}/guests/{node}/{type}/{vmid}/firewall'' ReaderRule,
      perm ''PUT'' ''/api/tenants/{tenantId}/guests/{node}/{type}/{vmid}/firewall/options'' ContributorRule,
      perm ''GET'' ''/api/tenants/{tenantId}/guests/{node}/{type}/{vmid}/acl'' ReaderRule,
      perm ''GET'' ''/api/tenants/{tenantId}/guests/{node}/{type}/{vmid}/schedule'' ReaderRule,
      perm ''PUT'' ''/api/tenants/{tenantId}/guests/{node}/{type}/{vmid}/schedule'' ContributorRule,
      perm ''DELETE'' ''/api/tenants/{tenantId}/guests/{node}/{type}/{vmid}/schedule'' ContributorRule,
      perm ''POST'' ''/api/tenants/{tenantId}/guests/{node}/{type}/{vmid}/schedule/skip'' ContributorRule,
      perm ''GET'' ''/api/tenants/{tenantId}/guests/{node}/{type}/{vmid}/ttl'' ReaderRule,
      perm ''PUT'' ''/api/tenants/{tenantId}/guests/{node}/{type}/{vmid}/ttl'' ContributorRule,
      perm ''DELETE'' ''/api/tenants/{tenantId}/guests/{node}/{type}/{vmid}/ttl'' ContributorRule,
      perm ''POST'' ''/api/tenants/{tenantId}/guests/{node}/{type}/{vmid}/ttl/extend'' ContributorRule,
      perm ''POST'' ''/api/tenants/{tenantId}/guests/{node}/{type}/{vmid}/{action}'' ContributorRule,
      perm ''DELETE'' ''/api/tenants/{tenantId}/guests/{node}/{type}/{vmid}'' ContributorRule,
      perm ''POST'' ''/api/tenants/{tenantId}/guests/{node}/{type}/{vmid}/console'' ContributorRule,
      perm ''GET'' ''/api/tenants/{tenantId}/service-catalog'' ReaderRule,
      perm ''GET'' ''/api/tenants/{tenantId}/service-catalog/{serviceId}'' ReaderRule,
      perm ''POST'' ''/api/tenants/{tenantId}/service-catalog/{serviceId}/provision'' ContributorRule,
      perm ''GET'' ''/api/tenants/{tenantId}/deployment-sets'' ReaderRule,
      perm ''POST'' ''/api/tenants/{tenantId}/deployment-sets'' ContributorRule,
      perm ''GET'' ''/api/tenants/{tenantId}/deployment-sets/{setId}'' ReaderRule,
      perm ''DELETE'' ''/api/tenants/{tenantId}/deployment-sets/{setId}'' ContributorRule,
      perm ''POST'' ''/api/tenants/{tenantId}/deployment-sets/{setId}/{action}'' ContributorRule,
      perm ''GET'' ''/api/tenants/{tenantId}/deployments/{id}'' ReaderRule,
      perm ''GET'' ''/api/tenants/{tenantId}/tasks'' ReaderRule,
      perm ''GET'' ''/api/tenants/{tenantId}/tasks/{upid}'' ReaderRule,
      perm ''GET'' ''/api/tenants/{tenantId}/tasks/{upid}/log'' ReaderRule]"

definition buildRegistry :: "permission list \<Rightarrow> (route_key \<times> rule) list" where
  "buildRegistry ps = foldl (\<lambda>m p. AList.update (pm_method p, pm_pattern p) (pm_rule p) m) [] ps"

definition registry :: "(route_key \<times> rule) list" where
  "registry = buildRegistry perms"

definition Lookup :: "string \<Rightarrow> string \<Rightarrow> rule option" where
  "Lookup m p = map_of registry (m, p)"

definition Registered :: "permission list" where
  "Registered = map (\<lambda>((m, p), r). perm m p r) registry"

section \<open>Audit actions\<close>

definition guestActionPattern :: string where
  "guestActionPattern = ''/api/tenants/{tenantId}/guests/{node}/{type}/{vmid}/{action}''"

definition setActionPattern :: string where
  "setActionPattern = ''/api/tenants/{tenantId}/deployment-sets/{setId}/{action}''"

definition auditActions :: "(route_key \<times> string) list" where
  "auditActions = [
      ((''POST'', ''/api/tenants/{tenantId}/projects''), ''project.create''),
      ((''PATCH'', ''/api/tenants/{tenantId}/projects/{projectId}''), ''project.rename''),
      ((''DELETE'', ''/api/tenants/{tenantId}/projects/{projectId}''), ''project.delete''),
      ((''PUT'', ''/api/tenants/{tenantId}/projects/{projectId}/quota''), ''project.quota.update''),
      ((''PUT'', ''/api/tenants/{tenantId}/projects/{projectId}/schedule''), ''project.schedule.update''),
      ((''DELETE'', ''/api/tenants/{tenantId}/projects/{projectId}/schedule''), ''project.schedule.delete''),
      ((''PUT'', ''/api/tenants/{tenantId}/projects/{projectId}/ttl-policy''), ''project.ttl_policy.update''),
      ((''POST'', ''/api/tenants/{tenantId}/invitations''), ''invitation.create''),
      ((''DELETE'', ''/api/tenants/{tenantId}/invitations/{invitationId}''), ''invitation.revoke''),
      ((''POST'', ''/api/tenants/{tenantId}/service-catalog/{serviceId}/provision''), ''service_catalog.provision''),
      ((''POST'', ''/api/tenants/{tenantId}/deployment-sets''), ''deployment_set.create''),
      ((''DELETE'', ''/api/tenants/{tenantId}/deployment-sets/{setId}''), ''deployment_set.delete''),
      ((''POST'', setActionPattern), ''deployment_set.action''),
      ((''POST'', ''/api/tenants/{tenantId}/guests''), ''guest.create''),
      ((''PATCH'', ''/api/tenants/{tenantId}/guests/{node}/{type}/{vmid}/config''), ''guest.config.update''),
      ((''POST'', ''/api/tenants/{tenantId}/guests/{node}/{type}/{vmid}/resize''), ''guest.disk.resize''),
      ((''POST'', ''/api/tenants/{tenantId}/guests/{node}/{type}/{vmid}/snapshots''), ''guest.snapshot.create''),
      ((''POST'', ''/api/tenants/{tenantId}/guests/{node}/{type}/{vmid}/snapshots/{name}/rollback''), ''guest.snapshot.rollback''),
      ((''DELETE'', ''/api/tenants/{tenantId}/guests/{node}/{type}/{vmid}/snapshots/{name}''), ''guest.snapshot.delete''),
      ((''PUT'', ''/api/tenants/{tenantId}/guests/{node}/{type}/{vmid}/firewall/options''), ''guest.firewall.update''),
      ((''POST'', ''/api/tenants/{tenantId}/guests/{node}/{type}/{vmid}/console''), ''guest.console.open''),
      ((''PUT'', ''/api/tenants/{tenantId}/guests/{node}/{type}/{vmid}/schedule''), ''guest.schedule.update''),
      ((''DELETE'', ''/api/tenants/{tenantId}/guests/{node}/{type}/{vmid}/schedule''), ''guest.schedule.delete''),
      ((''POST'', ''/api/tenants/{tenantId}/guests/{node}/{type}/{vmid}/schedule/skip''), ''guest.schedule.skip''),
      ((''PUT'', ''/api/tenants/{tenantId}/guests/{node}/{type}/{vmid}/ttl''), ''guest.ttl.update''),
      ((''DELETE'', ''/api/tenants/{tenantId}/guests/{node}/{type}/{vmid}/ttl''), ''guest.ttl.clear''),
      ((''POST'', ''/api/tenants/{tenantId}/guests/{node}/{type}/{vmid}/ttl/extend''), ''ttl.extend''),
      ((''POST'', guestActionPattern), ''guest.action''),
      ((''DELETE'', ''/api/tenants/{tenantId}/guests/{node}/{type}/{vmid}''), ''guest.delete'')]"

text \<open>\<^verbatim>\<open>urlParam\<close> returns the empty string for a parameter the route does not have.\<close>

definition AuditAction :: "string \<Rightarrow> string \<Rightarrow> (string \<Rightarrow> string) \<Rightarrow> string" where
  "AuditAction method pattern urlParam = (case map_of auditActions (method, pattern) of
      None \<Rightarrow> ''''
    | Some base \<Rightarrow>
        if pattern = guestActionPattern \<and> urlParam ''action'' \<noteq> ''''
        then ''guest.'' @ urlParam ''action''
        else if pattern = setActionPattern \<and> urlParam ''action'' \<noteq> ''''
        then ''deployment_set.'' @ urlParam ''action''
        else base)"

definition auditTarget :: "(string \<Rightarrow> string) \<Rightarrow> string option \<times> string option" where
  "auditTarget urlParam =
     (if urlParam ''vmid'' \<noteq> '''' then (Some ''guest'', Some (urlParam ''vmid''))
      else if urlParam ''projectId'' \<noteq> '''' then (Some ''project'', Some (urlParam ''projectId''))
      else if urlParam ''setId'' \<noteq> '''' then (Some ''deployment_set'', Some (urlParam ''setId''))
      else (None, None))"

section \<open>The tables are complete\<close>

definition tenant_prefix :: string where
  "tenant_prefix = ''/api/tenants/{tenantId}/''"

definition admin_prefix :: string where
  "admin_prefix = ''/api/admin/''"

text \<open>Whether a mutating tenant entry of the registry has an audit action.\<close>

definition audited :: "permission \<Rightarrow> bool" where
  "audited p \<longleftrightarrow> map_of auditActions (pm_method p, pm_pattern p) \<noteq> None"

definition role_rule :: "rule \<Rightarrow> bool" where
  "role_rule r \<longleftrightarrow> r \<in> {ReaderRule, ContributorRule, OwnerRule}"

lemma tenant_rules: "list_all (\<lambda>p. HasPrefix (pm_pattern p) tenant_prefix \<longrightarrow> role_rule (pm_rule p)) perms"
  by code_simp

text \<open>A cheap numeric fingerprint that already separates all routes of the table.\<close>

definition key_sum :: "route_key \<Rightarrow> int" where
  "key_sum k = 1000000 * (\<Sum>c\<leftarrow>fst k. of_char c) + (\<Sum>c\<leftarrow>snd k. of_char c)"

lemma perms_keys_distinct: "distinct (map (\<lambda>p. (pm_method p, pm_pattern p)) perms)"
proof -
  have "distinct (map key_sum (map (\<lambda>p. (pm_method p, pm_pattern p)) perms))"
    by code_simp
  then show ?thesis
    unfolding distinct_map[of key_sum] by (rule conjunct1)
qed

lemma mutating_audited:
  "list_all (\<lambda>p. HasPrefix (pm_pattern p) tenant_prefix \<longrightarrow> pm_method p \<noteq> ''GET'' \<longrightarrow> audited p) perms"
  by code_simp

lemma admin_rules:
  "list_all (\<lambda>p. HasPrefix (pm_pattern p) admin_prefix \<longleftrightarrow> pm_rule p = PlatformAdminRule) perms"
  by code_simp

text \<open>Building the table from entries with distinct keys keeps every entry.\<close>

lemma map_of_foldl_update:
  "map_of (foldl (\<lambda>m p. AList.update (k p) (v p) m) al ps) x
     = (case map_of (rev (map (\<lambda>p. (k p, v p)) ps)) x of None \<Rightarrow> map_of al x | Some r \<Rightarrow> Some r)"
  by (induction ps arbitrary: al) (auto simp: update_conv' split: option.split)

lemma Lookup_iff: "Lookup m p = Some r \<longleftrightarrow> perm m p r \<in> set perms"
proof -
  let ?kvs = "map (\<lambda>p. ((pm_method p, pm_pattern p), pm_rule p)) perms"
  have "Lookup m p = map_of (rev ?kvs) (m, p)"
    by (simp add: Lookup_def registry_def buildRegistry_def map_of_foldl_update split: option.split)
  moreover have "distinct (map fst (rev ?kvs))"
    using perms_keys_distinct by (simp add: rev_map[symmetric] comp_def)
  ultimately have "Lookup m p = Some r \<longleftrightarrow> ((m, p), r) \<in> set (rev ?kvs)"
    by (metis (no_types, lifting) map_of_eq_Some_iff)
  also have "\<dots> \<longleftrightarrow> perm m p r \<in> set perms"
    by (auto simp: image_iff intro: bexI[rotated])
  finally show ?thesis .
qed

lemma tenant_route_needs_role:
  "\<lbrakk>Lookup m p = Some r; HasPrefix p tenant_prefix\<rbrakk> \<Longrightarrow> RoleReader \<le> RuleMinRole r"
  using tenant_rules by (auto simp: Lookup_iff list_all_iff role_rule_def less_eq_role_def)

lemma auditActions_never_empty: "list_all (\<lambda>e. snd e \<noteq> '''') auditActions"
  by code_simp

text \<open>the permission table and the audit table fit together. \<^verbatim>\<open>Lookup\<close> finds exactly the entries
  written in the table, no entry shadows another; every route under a tenant requires a tenancy
  role, so \<^verbatim>\<open>Enforce\<close> never admits a caller without one; the admin routes are exactly those that
  require the platform-admin flag; and every mutating tenant route has an audit action, whatever
  its path parameters, so the audit choke-point never refuses a registered mutation for want of one.\<close>

theorem route_tables_consistent:
  "(Lookup m p = Some r \<longleftrightarrow> perm m p r \<in> set perms) \<and>
   (Lookup m p = Some r \<longrightarrow> HasPrefix p tenant_prefix \<longrightarrow> RoleReader \<le> RuleMinRole r) \<and>
   (Lookup m p = Some r \<longrightarrow> (HasPrefix p admin_prefix \<longleftrightarrow> r = PlatformAdminRule)) \<and>
   (Lookup m p = Some r \<longrightarrow> HasPrefix p tenant_prefix \<longrightarrow> m \<noteq> ''GET'' \<longrightarrow> AuditAction m p urlParam \<noteq> '''')"
proof (intro conjI impI)
  show "Lookup m p = Some r \<longleftrightarrow> perm m p r \<in> set perms" by (rule Lookup_iff)
next
  assume "Lookup m p = Some r" "HasPrefix p tenant_prefix"
  then show "RoleReader \<le> RuleMinRole r" by (rule tenant_route_needs_role)
next
  assume "Lookup m p = Some r"
  then show "HasPrefix p admin_prefix \<longleftrightarrow> r = PlatformAdminRule"
    using admin_rules by (auto simp: Lookup_iff list_all_iff perm_def)
next
  assume "Lookup m p = Some r" "HasPrefix p tenant_prefix" "m \<noteq> ''GET''"
  then have "audited (perm m p r)"
    using mutating_audited by (auto simp: Lookup_iff list_all_iff perm_def)
  then obtain a where a: "map_of auditActions (m, p) = Some a"
    by (auto simp: audited_def perm_def)
  then have "a \<noteq> ''''"
    using auditActions_never_empty map_of_SomeD[OF a] by (auto simp: list_all_iff)
  with a show "AuditAction m p urlParam \<noteq> ''''"
    by (simp add: AuditAction_def)
qed

theorem route_tables_consistent_witness:
  "Lookup ''POST'' ''/api/tenants/{tenantId}/guests'' = Some ContributorRule \<and>
   AuditAction ''POST'' ''/api/tenants/{tenantId}/guests'' (\<lambda>_. '''') \<noteq> ''''"
proof -
  have "perm ''POST'' ''/api/tenants/{tenantId}/guests'' ContributorRule \<in> set perms"
    unfolding perms_def by simp
  moreover have "HasPrefix ''/api/tenants/{tenantId}/guests'' tenant_prefix"
    by (simp add: HasPrefix_def tenant_prefix_def)
  ultimately show ?thesis
    using route_tables_consistent[of "''POST''" "''/api/tenants/{tenantId}/guests''" ContributorRule "\<lambda>_. ''''"]
    by simp
qed

end
