(* ===== verification/Authz_Middleware.thy ===== *)
theory Authz_Middleware
  imports Authz_Permissions Store_Ownership Store_Audit
begin

text \<open>
  The authorization chain of \<^verbatim>\<open>internal/authz/middleware.go\<close> and \<^verbatim>\<open>ownership.go\<close>:
  \<open>ResolveTenant\<close>, \<open>ResolveScope\<close>, \<open>Enforce\<close>, \<open>AuditOnMutation\<close>, composed as
  \<^verbatim>\<open>router.go\<close> mounts them on every tenant route. A handler is a function of the request
  context and the database; a middleware maps a handler to a handler. The per-request identity
  that the code mutates in place is passed on in the context.
\<close>

section \<open>Requests and replies\<close>

record identity =
  id_user_id :: string
  id_email :: string
  id_is_platform_admin :: bool
  id_session_id :: string
  id_active_tenant :: string
  id_tenant_role :: string
  id_resolved_project :: string
  id_effective_role :: string

record request =
  rq_method :: string
  rq_pattern :: string
  rq_param :: "string \<Rightarrow> string"
  rq_remote_addr :: string

record req_context =
  cx_identity :: "identity option"
  cx_project_roles :: role_map

text \<open>A reply, with the audit annotations its handler added.\<close>

record reply =
  rp_status :: int
  rp_code :: string
  rp_notes :: "(string \<times> string) list"

type_synonym handler = "req_context \<Rightarrow> db \<Rightarrow> reply \<times> db"

definition api_error :: "string \<Rightarrow> int \<Rightarrow> reply" where
  "api_error code status = \<lparr>rp_status = status, rp_code = code, rp_notes = []\<rparr>"

definition errUnauthenticated :: reply where
  "errUnauthenticated = api_error ''unauthenticated'' 401"

definition errForbidden :: reply where
  "errForbidden = api_error ''forbidden'' 403"

definition errNotFound :: reply where
  "errNotFound = api_error ''not_found'' 404"

definition errInternal :: reply where
  "errInternal = api_error ''internal'' 500"

section \<open>Ownership guards\<close>

datatype own_error = NotOwned | StoreError store_error

definition ResolveOwnership :: "int \<Rightarrow> string \<Rightarrow> db \<Rightarrow> (own_error + ownership) \<times> db" where
  "ResolveOwnership vmid tenant d = (case GetOwnershipByVMID vmid d of
      (Inl e, d1) \<Rightarrow> (if e = ErrNotFound then (Inl NotOwned, d1) else (Inl (StoreError e), d1))
    | (Inr r, d1) \<Rightarrow>
        if o_tenant_id r \<noteq> tenant then (Inl NotOwned, d1)
        else if o_status r \<noteq> Active \<and> o_status r \<noteq> Pending then (Inl NotOwned, d1)
        else (Inr r, d1))"

definition ResolveOwnershipForTask :: "int \<Rightarrow> string \<Rightarrow> db \<Rightarrow> (own_error + ownership) \<times> db" where
  "ResolveOwnershipForTask vmid tenant d = (case GetOwnershipByVMID vmid d of
      (Inl e, d1) \<Rightarrow> (if e = ErrNotFound then (Inl NotOwned, d1) else (Inl (StoreError e), d1))
    | (Inr r, d1) \<Rightarrow>
        if o_tenant_id r \<noteq> tenant then (Inl NotOwned, d1) else (Inr r, d1))"

section \<open>The chain\<close>

definition ResolveTenant :: "request \<Rightarrow> handler \<Rightarrow> handler" where
  "ResolveTenant rq next cx d = (case cx_identity cx of
      None \<Rightarrow> (errUnauthenticated, d)
    | Some i \<Rightarrow>
        let tenant = rq_param rq ''tenantId'' in
        if tenant = '''' then (errInternal, d)
        else if id_is_platform_admin i
        then next (cx\<lparr>cx_identity := Some (i\<lparr>id_active_tenant := tenant, id_tenant_role := ''owner''\<rparr>),
                       cx_project_roles := []\<rparr>) d
        else (case GetEffectiveRoles (id_user_id i) tenant d of
            (Inl e, d1) \<Rightarrow> (errInternal, d1)
          | (Inr (tr, pr), d1) \<Rightarrow>
              if tr = '''' \<and> pr = [] then (errNotFound, d1)
              else next (cx\<lparr>cx_identity := Some (i\<lparr>id_active_tenant := tenant, id_tenant_role := tr\<rparr>),
                             cx_project_roles := pr\<rparr>) d1))"

definition effective_role :: "identity \<Rightarrow> string \<Rightarrow> string" where
  "effective_role i proj_role =
     (if id_is_platform_admin i then ''owner'' else MaxRole (id_tenant_role i) proj_role)"

text \<open>Continue with the scope resolved to a project (the empty string for a tenant route).\<close>

definition in_scope :: "string \<Rightarrow> string \<Rightarrow> handler \<Rightarrow> req_context \<Rightarrow> identity \<Rightarrow> db \<Rightarrow> reply \<times> db" where
  "in_scope project proj_role next cx i d =
     next (cx\<lparr>cx_identity := Some (i\<lparr>id_resolved_project := project,
                id_effective_role := effective_role i proj_role\<rparr>)\<rparr>) d"

definition ResolveScope :: "request \<Rightarrow> handler \<Rightarrow> handler" where
  "ResolveScope rq next cx d = (case cx_identity cx of
      None \<Rightarrow> (errUnauthenticated, d)
    | Some i \<Rightarrow>
        let pid = rq_param rq ''projectId''; vmid_str = rq_param rq ''vmid'' in
        if pid \<noteq> '''' then
          (case GetProjectByID pid d of
             (Inl e, d1) \<Rightarrow> (if e = ErrNotFound then (errNotFound, d1) else (errInternal, d1))
           | (Inr proj, d1) \<Rightarrow>
               if p_tenant_id proj \<noteq> id_active_tenant i then (errNotFound, d1)
               else in_scope pid (role_at (cx_project_roles cx) pid) next cx i d1)
        else if vmid_str \<noteq> '''' then
          (case atoi vmid_str of
             None \<Rightarrow> (errNotFound, d)
           | Some vmid \<Rightarrow>
               if vmid < 1 then (errNotFound, d)
               else (case ResolveOwnership vmid (id_active_tenant i) d of
                   (Inl e, d1) \<Rightarrow> (if e = NotOwned then (errNotFound, d1) else (errInternal, d1))
                 | (Inr own, d1) \<Rightarrow>
                     in_scope (o_project_id own) (role_at (cx_project_roles cx) (o_project_id own))
                       next cx i d1))
        else in_scope '''' '''' next cx i d)"

definition Enforce :: "request \<Rightarrow> handler \<Rightarrow> handler" where
  "Enforce rq next cx d = (case cx_identity cx of
      None \<Rightarrow> (errUnauthenticated, d)
    | Some i \<Rightarrow>
        (case Lookup (rq_method rq) (rq_pattern rq) of
           None \<Rightarrow> (errInternal, d)
         | Some rule \<Rightarrow>
             if \<not> RoleAtLeast (ParseRole (id_effective_role i)) (RuleMinRole rule)
             then (errForbidden, d) else next cx d))"

definition outcomeForStatus :: "int \<Rightarrow> string" where
  "outcomeForStatus status =
     (if status = 0 \<or> 200 \<le> status \<and> status < 300 then ''success''
      else if 400 \<le> status \<and> status < 500 then ''denied'' else ''error'')"

definition clientIP :: "request \<Rightarrow> string option" where
  "clientIP rq =
     (let addr = (case SplitHostPort (rq_remote_addr rq) of
          Some (host, _) \<Rightarrow> host | None \<Rightarrow> rq_remote_addr rq)
      in if addr = '''' then None else Some addr)"

text \<open>The captured status, overlaid with the annotations of the handler.\<close>

definition annotations_detail :: "(string \<times> string) list \<Rightarrow> int \<Rightarrow> string" where
  "annotations_detail notes status =
     json_object (foldl (\<lambda>m (k, v). AList.update k (JStr v) m) [(''status'', JNum status)] notes)"

definition request_intent :: "request \<Rightarrow> identity \<Rightarrow> audit_intent" where
  "request_intent rq i = \<lparr>ai_actor_user_id = nonEmpty (id_user_id i), ai_actor_system = None,
     ai_tenant_id = nonEmpty (id_active_tenant i), ai_project_id = nonEmpty (id_resolved_project i),
     ai_action = AuditAction (rq_method rq) (rq_pattern rq) (rq_param rq),
     ai_target_type = fst (auditTarget (rq_param rq)), ai_target_id = snd (auditTarget (rq_param rq)),
     ai_ip = clientIP rq\<rparr>"

definition AuditOnMutation :: "request \<Rightarrow> handler \<Rightarrow> handler" where
  "AuditOnMutation rq next cx d =
     (if rq_method rq = ''GET'' then next cx d
      else case cx_identity cx of
        None \<Rightarrow> (errUnauthenticated, d)
      | Some i \<Rightarrow>
          if AuditAction (rq_method rq) (rq_pattern rq) (rq_param rq) = '''' then (errInternal, d)
          else (case InsertAuditIntent (request_intent rq i) d of
              (Inl e, d1) \<Rightarrow> (errInternal, d1)
            | (Inr audit_id, d1) \<Rightarrow>
                (case next cx d1 of (rep, d2) \<Rightarrow>
                   (rep, snd (FinalizeAudit audit_id (outcomeForStatus (rp_status rep))
                           (Some (annotations_detail (rp_notes rep) (rp_status rep))) d2)))))"

definition RequirePlatformAdmin :: "handler \<Rightarrow> handler" where
  "RequirePlatformAdmin next cx d = (case cx_identity cx of
      None \<Rightarrow> (errUnauthenticated, d)
    | Some i \<Rightarrow> if \<not> id_is_platform_admin i then (errForbidden, d) else next cx d)"

definition tenant_chain :: "request \<Rightarrow> handler \<Rightarrow> handler" where
  "tenant_chain rq next =
     ResolveTenant rq (ResolveScope rq (Enforce rq (AuditOnMutation rq next)))"

section \<open>Guards\<close>

text \<open>What the router relies on for every authorization middleware: it decides from the context and
  the database alone. Either it refuses with a reply that does not depend on the handler, or it
  hands over to the handler; it changes no table either way. Guards compose.\<close>

definition decides_at :: "(handler \<Rightarrow> reply \<times> db) \<Rightarrow> db \<Rightarrow> bool" where
  "decides_at f d \<longleftrightarrow> (\<exists>r d'. tabs d' = tabs d \<and> f = (\<lambda>next. (r, d'))) \<or>
     (\<exists>cx' d'. tabs d' = tabs d \<and> f = (\<lambda>next. next cx' d'))"

lemma decides_refuse [intro]: "tabs d' = tabs d \<Longrightarrow> decides_at (\<lambda>next. (r, d')) d"
  by (auto simp: decides_at_def)

lemma decides_run [intro]: "tabs d' = tabs d \<Longrightarrow> decides_at (\<lambda>next. next cx' d') d"
  by (auto simp: decides_at_def)

lemma decides_if [intro]:
  "\<lbrakk>b \<Longrightarrow> decides_at f d; \<not> b \<Longrightarrow> decides_at g d\<rbrakk> \<Longrightarrow> decides_at (\<lambda>next. if b then f next else g next) d"
  by (cases b) simp_all

locale guard =
  fixes mw :: "handler \<Rightarrow> handler"
  assumes decides: "decides_at (\<lambda>next. mw next cx d) d"
begin

lemma decision:
  obtains (refuse) r d' where "tabs d' = tabs d" "\<And>next. mw next cx d = (r, d')"
  | (run) cx' d' where "tabs d' = tabs d" "\<And>next. mw next cx d = next cx' d'"
  using decides[of cx d] unfolding decides_at_def by (metis (mono_tags))

lemma runs_on_same_tables:
  assumes "mw h cx d = (r, d')" and "tabs d' \<noteq> tabs d"
  obtains cx' d1 where "tabs d1 = tabs d" "h cx' d1 = (r, d')"
  using decision[of d cx] assms by (metis snd_conv)

end

locale guard_pair = outer: guard m1 + inner: guard m2
  for m1 m2
begin

lemma compose_decides: "decides_at (\<lambda>next. m1 (m2 next) cx d) d"
proof (cases rule: outer.decision[of d cx])
  case (refuse r d')
  then show ?thesis by auto
next
  case (run cx' d')
  then show ?thesis using inner.decides[of cx' d'] by (simp add: decides_at_def)
qed

end

sublocale guard_pair \<subseteq> both: guard "\<lambda>next. m1 (m2 next)"
  by unfold_locales (rule compose_decides)

lemma GetEffectiveRoles_tabs: "GetEffectiveRoles uid t d = (r, d') \<Longrightarrow> tabs d' = tabs d"
  unfolding GetEffectiveRoles_def using read_only_query by (auto simp: read_only_def)

lemma GetProjectByID_tabs: "GetProjectByID i d = (r, d') \<Longrightarrow> tabs d' = tabs d"
  unfolding GetProjectByID_def using read_only_query_row by (auto simp: read_only_def)

lemma GetOwnershipByVMID_tabs: "GetOwnershipByVMID v d = (r, d') \<Longrightarrow> tabs d' = tabs d"
  unfolding GetOwnershipByVMID_def using read_only_query_row by (auto simp: read_only_def)

lemma ResolveOwnership_tabs: "ResolveOwnership v t d = (r, d') \<Longrightarrow> tabs d' = tabs d"
  by (auto simp: ResolveOwnership_def dest: GetOwnershipByVMID_tabs split: prod.splits sum.splits if_splits)

lemma ResolveTenant_decides: "decides_at (\<lambda>next. ResolveTenant rq next cx d) d"
proof (cases "cx_identity cx")
  case (Some i)
  obtain x d1 where roles: "GetEffectiveRoles (id_user_id i) (rq_param rq ''tenantId'') d = (x, d1)"
    by fastforce
  from GetEffectiveRoles_tabs[OF roles] Some roles show ?thesis
    by (cases x; cases "rq_param rq ''tenantId'' = ''''"; cases "id_is_platform_admin i")
      (auto simp: ResolveTenant_def Let_def)
qed (auto simp: ResolveTenant_def)

lemma in_scope_decides:
  "tabs d1 = tabs d \<Longrightarrow> decides_at (\<lambda>next. in_scope p r next cx i d1) d"
  by (auto simp: in_scope_def)

lemma ResolveScope_decides: "decides_at (\<lambda>next. ResolveScope rq next cx d) d"
proof (cases "cx_identity cx")
  case (Some i)
  consider (project) "rq_param rq ''projectId'' \<noteq> ''''"
    | (guest) "rq_param rq ''projectId'' = ''''" "rq_param rq ''vmid'' \<noteq> ''''"
    | (tenant) "rq_param rq ''projectId'' = ''''" "rq_param rq ''vmid'' = ''''"
    by blast
  then show ?thesis
  proof cases
    case project
    obtain x d1 where "GetProjectByID (rq_param rq ''projectId'') d = (x, d1)" by fastforce
    with project Some GetProjectByID_tabs[OF this] show ?thesis
      by (cases x) (auto simp: ResolveScope_def Let_def intro: in_scope_decides)
  next
    case guest
    show ?thesis
    proof (cases "atoi (rq_param rq ''vmid'')")
      case (Some v)
      obtain x d1 where "ResolveOwnership v (id_active_tenant i) d = (x, d1)" by fastforce
      with guest Some \<open>cx_identity cx = Some i\<close> ResolveOwnership_tabs[OF this] show ?thesis
        by (cases "v < 1"; cases x) (auto simp: ResolveScope_def Let_def intro: in_scope_decides)
    qed (use guest Some in \<open>auto simp: ResolveScope_def Let_def\<close>)
  next
    case tenant
    with Some show ?thesis
      by (auto simp: ResolveScope_def Let_def intro: in_scope_decides)
  qed
qed (auto simp: ResolveScope_def)

lemma Enforce_decides: "decides_at (\<lambda>next. Enforce rq next cx d) d"
proof (cases "cx_identity cx")
  case (Some i)
  then show ?thesis
    by (cases "Lookup (rq_method rq) (rq_pattern rq)") (auto simp: Enforce_def)
qed (auto simp: Enforce_def)

lemma RequirePlatformAdmin_decides: "decides_at (\<lambda>next. RequirePlatformAdmin next cx d) d"
  by (cases "cx_identity cx") (auto simp: RequirePlatformAdmin_def)

text \<open>The authorization part of the chain.\<close>

definition authorize :: "request \<Rightarrow> handler \<Rightarrow> handler" where
  "authorize rq next = ResolveTenant rq (ResolveScope rq (Enforce rq next))"

interpretation resolve_tenant: guard "ResolveTenant rq" for rq
  by unfold_locales (rule ResolveTenant_decides)

interpretation require_admin: guard RequirePlatformAdmin
  by unfold_locales (rule RequirePlatformAdmin_decides)

interpretation scope_enforce: guard_pair "ResolveScope rq" "Enforce rq" for rq
  by unfold_locales (rule ResolveScope_decides Enforce_decides)+

interpretation auth_chain: guard_pair "ResolveTenant rq" "\<lambda>next. ResolveScope rq (Enforce rq next)" for rq
  by unfold_locales

section \<open>Who reaches a handler\<close>

lemma GetEffectiveRoles_runs:
  "faults d = [] \<Longrightarrow> \<exists>tr pr. GetEffectiveRoles uid t d = (Inr (tr, pr), d)"
  by (auto simp: GetEffectiveRoles_def)

lemma GetOwnershipByVMID_live:
  assumes "wf_ownerships d" and "faults d = []" and "r \<in> set (ownerships (tabs d))"
  shows "GetOwnershipByVMID (o_vmid r) d = (Inr r, d)"
  using filter_distinct_key[OF wf_ownershipsD(2)[OF assms(1)] assms(3)] assms(2)
  by (simp add: GetOwnershipByVMID_def)

text \<open>The live row through which a tenant owns a VMID.\<close>

definition owns :: "string \<Rightarrow> int \<Rightarrow> ownership \<Rightarrow> tables \<Rightarrow> bool" where
  "owns t v r tb \<longleftrightarrow> r \<in> set (ownerships tb) \<and> o_vmid r = v \<and> o_tenant_id r = t \<and>
     live_status (o_status r)"

lemma ResolveOwnership_owned:
  assumes "wf_ownerships d" and "faults d = []" and "owns t v r (tabs d)"
  shows "ResolveOwnership v t d = (Inr r, d)"
  using GetOwnershipByVMID_live[OF assms(1,2), of r] assms(3)
  by (auto simp: ResolveOwnership_def owns_def live_status_def)

lemma ResolveOwnership_not_owned:
  assumes "faults d = []" and "\<nexists>r. owns t v r (tabs d)"
  shows "ResolveOwnership v t d = (Inl NotOwned, d)"
proof (cases "filter (\<lambda>r. o_vmid r = v) (ownerships (tabs d))")
  case Nil
  with assms(1) show ?thesis by (simp add: ResolveOwnership_def GetOwnershipByVMID_def)
next
  case (Cons r rs)
  then have "r \<in> set (ownerships (tabs d))" "o_vmid r = v"
    by (auto simp: filter_eq_Cons_iff)
  with assms(2) have "o_tenant_id r \<noteq> t \<or> \<not> live_status (o_status r)"
    by (auto simp: owns_def)
  with Cons assms(1) show ?thesis
    by (auto simp: ResolveOwnership_def GetOwnershipByVMID_def live_status_def)
qed

text \<open>A request on a guest route, by a signed-in user who is not a platform admin.\<close>

definition guest_request :: "request \<Rightarrow> string \<Rightarrow> int \<Rightarrow> rule \<Rightarrow> bool" where
  "guest_request rq t v rule \<longleftrightarrow> rq_param rq ''tenantId'' = t \<and> t \<noteq> '''' \<and>
     rq_param rq ''projectId'' = '''' \<and> rq_param rq ''vmid'' \<noteq> '''' \<and>
     atoi (rq_param rq ''vmid'') = Some v \<and> 1 \<le> v \<and>
     Lookup (rq_method rq) (rq_pattern rq) = Some rule \<and> HasPrefix (rq_pattern rq) tenant_prefix"

text \<open>The memberships allow it: a role on the tenant or on the guest's project.\<close>

definition may_access :: "string \<Rightarrow> string \<Rightarrow> ownership \<Rightarrow> rule \<Rightarrow> tables \<Rightarrow> bool" where
  "may_access uid t r rule tb \<longleftrightarrow>
     granted uid TenantScope t (role_rank (RuleMinRole rule)) tb \<or>
     granted uid ProjectScope (o_project_id r) (role_rank (RuleMinRole rule)) tb"

lemma member_roles:
  assumes wf: "wf_ownerships d" and own: "owns t v r (tabs d)"
    and roles: "GetEffectiveRoles uid t d = (Inr (tr, pr), d')"
    and need: "RoleReader \<le> RuleMinRole rule"
  shows "RoleAtLeast (ParseRole (MaxRole tr (role_at pr (o_project_id r)))) (RuleMinRole rule)
     \<longleftrightarrow> may_access uid t r rule (tabs d)"
    and "may_access uid t r rule (tabs d) \<Longrightarrow> tr \<noteq> '''' \<or> pr \<noteq> []"
proof -
  have "project_of_tenant (o_tenant_id r) (o_project_id r) (tabs d)"
    using wf_ownershipsD(5)[OF wf] own by (auto simp: owns_def)
  then have proj: "\<exists>x \<in> set (projects (tabs d)). p_id x = o_project_id r \<and> p_tenant_id x = t"
    using own by (auto simp: project_of_tenant_def exists_where_def owns_def)
  have pos: "0 < role_rank (RuleMinRole rule)"
    using need by (auto simp: less_eq_role_def)
  show iff: "RoleAtLeast (ParseRole (MaxRole tr (role_at pr (o_project_id r)))) (RuleMinRole rule)
     \<longleftrightarrow> may_access uid t r rule (tabs d)"
    using GetEffectiveRoles_Inr(2,3)[OF roles] proj pos
    by (auto simp: RoleAtLeast_iff roleRank_MaxRole may_access_def)
  assume "may_access uid t r rule (tabs d)"
  then have "0 < roleRank tr \<or> 0 < roleRank (role_at pr (o_project_id r))"
    using iff pos by (auto simp: RoleAtLeast_iff roleRank_MaxRole)
  then show "tr \<noteq> '''' \<or> pr \<noteq> []" by auto
qed

lemma authorize_guest:
  assumes ff: "faults d = []" and cx: "cx_identity cx = Some i" "\<not> id_is_platform_admin i"
    and rq: "guest_request rq t v rule"
    and roles: "GetEffectiveRoles (id_user_id i) t d = (Inr (tr, pr), d)"
  shows "authorize rq next cx d =
     (if tr = '''' \<and> pr = [] then (errNotFound, d)
      else let cx1 = cx\<lparr>cx_identity := Some (i\<lparr>id_active_tenant := t, id_tenant_role := tr\<rparr>),
                        cx_project_roles := pr\<rparr> in
      case ResolveOwnership v t d of
        (Inl e, d1) \<Rightarrow> (if e = NotOwned then (errNotFound, d1) else (errInternal, d1))
      | (Inr r, d1) \<Rightarrow>
          let role = MaxRole tr (role_at pr (o_project_id r)) in
          if RoleAtLeast (ParseRole role) (RuleMinRole rule)
          then next (cx1\<lparr>cx_identity := Some (i\<lparr>id_active_tenant := t, id_tenant_role := tr,
                     id_resolved_project := o_project_id r, id_effective_role := role\<rparr>)\<rparr>) d1
          else (errForbidden, d1))"
  using assms
  by (simp add: authorize_def ResolveTenant_def ResolveScope_def Enforce_def in_scope_def effective_role_def
      guest_request_def Let_def split: prod.split sum.split)

text \<open>C9: role-based access is exact. For a signed-in user who is not a platform admin, a request on a
  guest route reaches its handler exactly when some live row ties the VMID to the tenant in the
  path and the user holds, on that tenant or on the guest's project, a role at least as high as
  the permission table demands; the handler then runs on the unchanged database with the
  identity's tenant and project set from the path and the row. Otherwise the reply is 404 or 403,
  whatever the handler, and nothing changed.\<close>

theorem guest_access_exact:
  assumes wf: "wf_ownerships d" and ff: "faults d = []"
    and cx: "cx_identity cx = Some i" "\<not> id_is_platform_admin i" and rq: "guest_request rq t v rule"
  shows "if \<exists>r. owns t v r (tabs d) \<and> may_access (id_user_id i) t r rule (tabs d)
     then \<exists>r cx' i'. owns t v r (tabs d) \<and> cx_identity cx' = Some i' \<and> id_user_id i' = id_user_id i \<and>
       id_active_tenant i' = t \<and> id_resolved_project i' = o_project_id r \<and>
       authorize rq next cx d = next cx' d
     else \<exists>e. rp_status e \<in> {403, 404} \<and> authorize rq next cx d = (e, d)"
proof -
  obtain tr pr where roles: "GetEffectiveRoles (id_user_id i) t d = (Inr (tr, pr), d)"
    using GetEffectiveRoles_runs[OF ff] by blast
  note chain = authorize_guest[OF ff cx rq roles]
  have need: "RoleReader \<le> RuleMinRole rule"
    using rq tenant_route_needs_role by (auto simp: guest_request_def)
  show ?thesis
  proof (cases "\<exists>r. owns t v r (tabs d)")
    case False
    with chain ResolveOwnership_not_owned[OF ff False] show ?thesis
      by (auto simp: Let_def errNotFound_def api_error_def)
  next
    case True
    then obtain r where r: "owns t v r (tabs d)" by blast
    have uniq: "r' = r" if "owns t v r' (tabs d)" for r'
      using that r distinct_key_unique[OF wf_ownershipsD(2)[OF wf]] by (auto simp: owns_def)
    note res = ResolveOwnership_owned[OF wf ff r] and acc = member_roles[OF wf r roles need]
    show ?thesis
    proof (cases "may_access (id_user_id i) t r rule (tabs d)")
      case True
      define i' where "i' = i\<lparr>id_active_tenant := t, id_tenant_role := tr, id_resolved_project := o_project_id r,
        id_effective_role := MaxRole tr (role_at pr (o_project_id r))\<rparr>"
      define cx' where "cx' = cx\<lparr>cx_project_roles := pr, cx_identity := Some i'\<rparr>"
      have "authorize rq next cx d = next cx' d"
        using True chain res acc by (auto simp: Let_def i'_def cx'_def)
      moreover have "cx_identity cx' = Some i'" "id_user_id i' = id_user_id i" "id_active_tenant i' = t"
        "id_resolved_project i' = o_project_id r"
        by (simp_all add: cx'_def i'_def)
      ultimately have "\<exists>r cx' i'. owns t v r (tabs d) \<and> cx_identity cx' = Some i' \<and>
          id_user_id i' = id_user_id i \<and> id_active_tenant i' = t \<and>
          id_resolved_project i' = o_project_id r \<and> authorize rq next cx d = next cx' d"
        using r by blast
      with True r show ?thesis by auto
    next
      case False
      with uniq have "\<not> (\<exists>r. owns t v r (tabs d) \<and> may_access (id_user_id i) t r rule (tabs d))"
        by blast
      with False chain res acc(1) show ?thesis
        by (auto simp: Let_def errNotFound_def errForbidden_def api_error_def)
    qed
  qed
qed

text \<open>A contributor on project \<open>p1\<close> starts guest 100 of tenant \<open>t1\<close>.\<close>

definition sample_identity :: identity where
  "sample_identity = \<lparr>id_user_id = ''u1'', id_email = ''ann@example.org'', id_is_platform_admin = False,
     id_session_id = ''s1'', id_active_tenant = '''', id_tenant_role = '''', id_resolved_project = '''',
     id_effective_role = ''''\<rparr>"

definition sample_cx :: req_context where
  "sample_cx = \<lparr>cx_identity = Some sample_identity, cx_project_roles = []\<rparr>"

definition start_request :: "string \<Rightarrow> request" where
  "start_request vmid = \<lparr>rq_method = ''POST'',
     rq_pattern = ''/api/tenants/{tenantId}/guests/{node}/{type}/{vmid}/{action}'',
     rq_param = (\<lambda>k. if k = ''tenantId'' then ''t1'' else if k = ''vmid'' then vmid
                     else if k = ''action'' then ''start'' else ''''), rq_remote_addr = ''10.0.0.9:4711''\<rparr>"

definition access_tables :: tables where
  "access_tables = sample_tables\<lparr>
     memberships := [\<lparr>m_id = ''m1'', m_user_id = ''u1'', m_scope_type = ProjectScope, m_scope_id = ''p1'',
        m_role = ''contributor'', m_created_at = 0, m_updated_at = 0\<rparr>],
     ownerships := [sample_ownership (sample_uuids 1) ''t1'' ''p1'' 100 Active,
                    sample_ownership (sample_uuids 2) ''t2'' ''p2'' 101 Active]\<rparr>"

lemma access_wf: "wf_ownerships (sample_db access_tables)"
  by (simp add: wf_ownerships_def access_tables_def sample_defs project_of_tenant_def
      inj_eq[OF inj_sample_uuids])

lemma start_route:
  "Lookup (rq_method (start_request s)) (rq_pattern (start_request s)) = Some ContributorRule"
  unfolding Lookup_iff by (simp add: perms_def start_request_def)

lemma start_guest_request: "guest_request (start_request ''100'') ''t1'' 100 ContributorRule"
  unfolding guest_request_def
proof (intro conjI)
  show "Lookup (rq_method (start_request ''100'')) (rq_pattern (start_request ''100'')) = Some ContributorRule"
    by (rule start_route)
  show "atoi (rq_param (start_request ''100'') ''vmid'') = Some 100" by code_simp
qed (simp_all add: start_request_def HasPrefix_def tenant_prefix_def)

definition ok_handler :: handler where
  "ok_handler cx d = (\<lparr>rp_status = 200, rp_code = '''', rp_notes = []\<rparr>, d)"

theorem guest_access_exact_witness:
  "\<exists>cx'. authorize (start_request ''100'') ok_handler sample_cx (sample_db access_tables)
     = ok_handler cx' (sample_db access_tables)"
proof -
  have "owns ''t1'' 100 (sample_ownership (sample_uuids 1) ''t1'' ''p1'' 100 Active) (tabs (sample_db access_tables))"
    by (simp add: owns_def access_tables_def live_status_def sample_ownership_def)
  moreover have "may_access (id_user_id sample_identity) ''t1''
      (sample_ownership (sample_uuids 1) ''t1'' ''p1'' 100 Active) ContributorRule (tabs (sample_db access_tables))"
    by (simp add: may_access_def granted_def access_tables_def sample_identity_def sample_ownership_def)
  moreover have "cx_identity sample_cx = Some sample_identity" "\<not> id_is_platform_admin sample_identity"
    by (simp_all add: sample_cx_def sample_identity_def)
  ultimately show ?thesis
    using guest_access_exact[OF access_wf _ _ _ start_guest_request, of sample_cx sample_identity ok_handler]
    by (auto split: if_splits)
qed

section \<open>No existence leak\<close>

text \<open>C10: a VMID that is not the tenant's looks exactly like one that does not exist. Whatever row holds
  the VMID in the database (none, another tenant's, or a tombstoned one), a member of the tenant
  who asks for it gets the same 404 reply, the handler does not run and no table changes; this
  holds for platform admins too.\<close>

theorem foreign_guest_is_absent:
  assumes ff: "faults d = []" and cx: "cx_identity cx = Some i"
    and rq: "guest_request rq t v rule" and not_owned: "\<nexists>r. owns t v r (tabs d)"
  shows "authorize rq next cx d = (errNotFound, d)"
proof -
  obtain tr pr where roles: "GetEffectiveRoles (id_user_id i) t d = (Inr (tr, pr), d)"
    using GetEffectiveRoles_runs[OF ff] by blast
  have "ResolveOwnership v t d = (Inl NotOwned, d)"
    using ff not_owned by (rule ResolveOwnership_not_owned)
  with cx roles rq show ?thesis
    by (simp add: authorize_def ResolveTenant_def ResolveScope_def guest_request_def Let_def)
qed

theorem foreign_guest_is_absent_witness:
  "authorize (start_request ''101'') ok_handler sample_cx (sample_db access_tables)
     = (errNotFound, sample_db access_tables)"
proof (rule foreign_guest_is_absent)
  have "atoi (rq_param (start_request ''101'') ''vmid'') = Some 101" by code_simp
  then show "guest_request (start_request ''101'') ''t1'' 101 ContributorRule"
    unfolding guest_request_def using start_route[of "''101''"]
    by (simp add: start_request_def HasPrefix_def tenant_prefix_def)
  show "cx_identity sample_cx = Some sample_identity" by (simp add: sample_cx_def)
  show "\<nexists>r. owns ''t1'' 101 r (tabs (sample_db access_tables))"
    by (auto simp: owns_def access_tables_def sample_ownership_def)
qed simp

section \<open>No unaudited mutation\<close>

text \<open>C11: a mutation runs only after its audit row is written. For a non-GET request of a signed-in
  user, \<^verbatim>\<open>AuditOnMutation\<close> either replies without running the handler and leaves every table as it
  was (this is what happens when the intent cannot be inserted), or it runs the handler exactly
  once, on a database whose audit log has one more entry: pending, with the acting user, the
  tenant, the project and the route's action. Afterwards only that entry's outcome and detail
  are written, and the reply is the handler's. This holds whichever statements fail.\<close>

theorem mutation_audited_first:
  assumes "rq_method rq \<noteq> ''GET''" and "cx_identity cx = Some i"
  shows "(\<exists>d1. tabs d1 = tabs d \<and> AuditOnMutation rq next cx d = (errInternal, d1)) \<or>
    (\<exists>d1 aid entry. tabs d1 = (tabs d)\<lparr>audit_log := audit_log (tabs d) @ [entry]\<rparr> \<and>
       ae_id entry = aid \<and> ae_outcome entry = ''pending'' \<and> ae_ts entry = clock d \<and>
       ae_actor_user_id entry = nonEmpty (id_user_id i) \<and>
       ae_tenant_id entry = nonEmpty (id_active_tenant i) \<and>
       ae_project_id entry = nonEmpty (id_resolved_project i) \<and>
       ae_action entry = AuditAction (rq_method rq) (rq_pattern rq) (rq_param rq) \<and>
       fst (AuditOnMutation rq next cx d) = fst (next cx d1) \<and>
       map who_what_when (audit_log (tabs (snd (AuditOnMutation rq next cx d))))
         = map who_what_when (audit_log (tabs (snd (next cx d1)))) \<and>
       snd (AuditOnMutation rq next cx d)
         = snd (FinalizeAudit aid (outcomeForStatus (rp_status (fst (next cx d1))))
             (Some (annotations_detail (rp_notes (fst (next cx d1))) (rp_status (fst (next cx d1)))))
             (snd (next cx d1))))"
proof (cases "AuditAction (rq_method rq) (rq_pattern rq) (rq_param rq) = ''''")
  case True
  with assms show ?thesis by (simp add: AuditOnMutation_def)
next
  case False
  show ?thesis
  proof (cases "InsertAuditIntent (request_intent rq i) d")
    case (Pair x d1)
    show ?thesis
    proof (cases x)
      case (Inl e)
      with Pair assms False show ?thesis
        using InsertAuditIntent_Inl[of "request_intent rq i" d e d1] by (simp add: AuditOnMutation_def)
    next
      case (Inr aid)
      with Pair assms False show ?thesis
        using InsertAuditIntent_Inr(2)[of "request_intent rq i" d aid d1] FinalizeAudit_log
        by (intro disjI2 exI[of _ d1] exI[of _ aid] exI[of _ "intent_row (request_intent rq i) aid (clock d)"])
          (auto simp: AuditOnMutation_def intent_row_def request_intent_def split: prod.split)
    qed
  qed
qed

theorem mutation_audited_first_witness:
  "AuditOnMutation (start_request ''100'') ok_handler sample_cx ((sample_db access_tables)\<lparr>faults := [True]\<rparr>)
     = (errInternal, sample_db access_tables)"
proof -
  let ?d = "(sample_db access_tables)\<lparr>faults := [True]\<rparr>" and ?rq = "start_request ''100''"
  let ?run = "AuditOnMutation ?rq ok_handler sample_cx ?d"
  have reply: "fst ?run = errInternal" and db: "snd ?run = sample_db access_tables"
    by (simp_all add: AuditOnMutation_def sample_cx_def start_request_def AuditAction_def auditActions_def
        guestActionPattern_def InsertAuditIntent_def insert_row_def stmt_def next_fails_def pop_fault_def
        sample_db_def)
  have "cx_identity sample_cx = Some sample_identity" "rq_method ?rq \<noteq> ''GET''"
    by (simp_all add: sample_cx_def start_request_def)
  from mutation_audited_first[OF this(2,1), of ?d ok_handler] reply db show ?thesis
    by (metis prod.collapse)
qed

text \<open>a mutation that the role check denies leaves no trace in the audit log: \<^verbatim>\<open>Enforce\<close> answers 403
  before \<^verbatim>\<open>AuditOnMutation\<close> is reached, so the log is unchanged.\<close>

theorem denied_mutation_unaudited:
  assumes "faults d = []" and "wf_ownerships d" and "cx_identity cx = Some i" and "\<not> id_is_platform_admin i"
    and "guest_request rq t v rule" and "owns t v r (tabs d)"
    and "\<not> may_access (id_user_id i) t r rule (tabs d)"
    and "granted (id_user_id i) TenantScope t 1 (tabs d)"
  shows "tenant_chain rq next cx d = (errForbidden, d)"
proof -
  obtain tr pr where roles: "GetEffectiveRoles (id_user_id i) t d = (Inr (tr, pr), d)"
    using GetEffectiveRoles_runs[OF assms(1)] by blast
  have need: "RoleReader \<le> RuleMinRole rule"
    using assms(5) tenant_route_needs_role by (auto simp: guest_request_def)
  have "1 \<le> roleRank tr"
    using GetEffectiveRoles_Inr(2)[OF roles, of 1] assms(8) by simp
  then have "tr \<noteq> ''''" by auto
  then show ?thesis
    using authorize_guest[OF assms(1,3-5) roles, of "AuditOnMutation rq next"]
      ResolveOwnership_owned[OF assms(2,1,6)] member_roles(1)[OF assms(2,6) roles need] assms(7)
    by (simp add: tenant_chain_def authorize_def Let_def)
qed

definition reader_tables :: tables where
  "reader_tables = access_tables\<lparr>memberships := [\<lparr>m_id = ''m1'', m_user_id = ''u1'',
     m_scope_type = TenantScope, m_scope_id = ''t1'', m_role = ''reader'', m_created_at = 0, m_updated_at = 0\<rparr>]\<rparr>"

theorem denied_mutation_unaudited_witness:
  "tenant_chain (start_request ''100'') ok_handler sample_cx (sample_db reader_tables)
     = (errForbidden, sample_db reader_tables)"
proof (rule denied_mutation_unaudited[OF _ _ _ _ start_guest_request])
  let ?r = "sample_ownership (sample_uuids 1) ''t1'' ''p1'' 100 Active"
  show "wf_ownerships (sample_db reader_tables)"
    using access_wf by (rule wf_ownerships_cong) (simp_all add: reader_tables_def)
  show "cx_identity sample_cx = Some sample_identity" "\<not> id_is_platform_admin sample_identity"
    by (simp_all add: sample_cx_def sample_identity_def)
  show "owns ''t1'' 100 ?r (tabs (sample_db reader_tables))"
    by (simp add: owns_def reader_tables_def access_tables_def live_status_def sample_ownership_def)
  show "\<not> may_access (id_user_id sample_identity) ''t1'' ?r ContributorRule (tabs (sample_db reader_tables))"
    "granted (id_user_id sample_identity) TenantScope ''t1'' 1 (tabs (sample_db reader_tables))"
    by (simp_all add: may_access_def granted_def reader_tables_def sample_identity_def)
qed simp

end
