(* ===== verification/Go_Encoding.thy ===== *)
theory Go_Encoding
  imports Go_Lib
begin

text \<open>
  The parts of \<^verbatim>\<open>encoding/base64\<close>, \<^verbatim>\<open>strings.Split\<close> and \<^verbatim>\<open>fmt.Sscanf\<close> that the authentication
  code uses. Bytes are natural numbers below 256.
\<close>

section \<open>Base64 without padding\<close>

definition b64_letters :: string where
  "b64_letters = ''ABCDEFGHIJKLMNOPQRSTUVWXYZabcdefghijklmnopqrstuvwxyz0123456789''"

definition b64_std :: string where "b64_std = b64_letters @ ''+/''"
definition b64_url :: string where "b64_url = b64_letters @ ''-_''"

fun b64_encode :: "string \<Rightarrow> nat list \<Rightarrow> string" where
  "b64_encode al [] = []"
| "b64_encode al [a] = [al ! (a div 4), al ! (a mod 4 * 16)]"
| "b64_encode al [a, b] = [al ! (a div 4), al ! (a mod 4 * 16 + b div 16), al ! (b mod 16 * 4)]"
| "b64_encode al (a # b # c # r) =
     al ! (a div 4) # al ! (a mod 4 * 16 + b div 16) # al ! (b mod 16 * 4 + c div 64) # al ! (c mod 64) # b64_encode al r"

text \<open>The value of each symbol; line breaks in the input are skipped, any other symbol outside the alphabet
  is an error, and so is a single symbol left over. Spare bits are ignored.\<close>

fun b64_values :: "string \<Rightarrow> string \<Rightarrow> nat list option" where
  "b64_values al [] = Some []"
| "b64_values al (x # xs) =
     (if of_char x = (10 :: nat) \<or> of_char x = (13 :: nat) then b64_values al xs
      else case first_index x al of None \<Rightarrow> None | Some v \<Rightarrow> map_option ((#) v) (b64_values al xs))"

fun b64_bytes :: "nat list \<Rightarrow> nat list option" where
  "b64_bytes [] = Some []"
| "b64_bytes [v] = None"
| "b64_bytes [v, w] = Some [v * 4 + w div 16]"
| "b64_bytes [v, w, x] = Some [v * 4 + w div 16, w mod 16 * 16 + x div 4]"
| "b64_bytes (v # w # x # y # r) =
     map_option (\<lambda>bs. (v * 4 + w div 16) # (w mod 16 * 16 + x div 4) # (x mod 4 * 64 + y) # bs) (b64_bytes r)"

definition b64_decode :: "string \<Rightarrow> string \<Rightarrow> nat list option" where
  "b64_decode al s = (case b64_values al s of None \<Rightarrow> None | Some vs \<Rightarrow> b64_bytes vs)"

definition is_byte :: "nat \<Rightarrow> bool" where "is_byte b \<longleftrightarrow> b < 256"

section \<open>Splitting\<close>

fun split_on :: "char \<Rightarrow> string \<Rightarrow> string list" where
  "split_on c [] = [[]]"
| "split_on c (x # xs) = (if x = c then [] # split_on c xs
     else case split_on c xs of [] \<Rightarrow> [[x]] | p # ps \<Rightarrow> (x # p) # ps)"

section \<open>Scanning\<close>

fun scan_space :: "string \<Rightarrow> string option" where
  "scan_space [] = Some []"
| "scan_space (x # xs) =
     (if of_char x = (13 :: nat) \<and> xs \<noteq> [] \<and> of_char (hd xs) = (10 :: nat) then scan_space xs
      else if of_char x = (10 :: nat) then None
      else if of_char x \<in> {9 :: nat, 11, 12, 13, 32} then scan_space xs
      else Some (x # xs))"

definition is_digit :: "char \<Rightarrow> bool" where "is_digit c \<longleftrightarrow> digit_val c \<noteq> None"

text \<open>\<^verbatim>\<open>%d\<close> into an unsigned variable of the given width, and into an \<^verbatim>\<open>int\<close>.\<close>

definition scan_digits :: "string \<Rightarrow> (nat \<times> string) option" where
  "scan_digits s = (case atoi_digits (takeWhile is_digit s) of
     None \<Rightarrow> None | Some n \<Rightarrow> Some (n, dropWhile is_digit s))"

definition scan_uint :: "nat \<Rightarrow> string \<Rightarrow> (nat \<times> string) option" where
  "scan_uint w s = (case scan_space s of
      None \<Rightarrow> None
    | Some s1 \<Rightarrow> (case scan_digits s1 of
        None \<Rightarrow> None
      | Some (n, r) \<Rightarrow> if n < 2 ^ w then Some (n, r) else None))"

definition scan_int :: "string \<Rightarrow> (int \<times> string) option" where
  "scan_int s = (case scan_space s of
      None \<Rightarrow> None
    | Some s1 \<Rightarrow>
        let neg = (s1 \<noteq> [] \<and> hd s1 = CHR ''-'');
            s2 = (if s1 \<noteq> [] \<and> (hd s1 = CHR ''-'' \<or> hd s1 = CHR ''+'') then tl s1 else s1)
        in (case scan_digits s2 of
              None \<Rightarrow> None
            | Some (n, r) \<Rightarrow>
                let v = (if neg then - int n else int n) in if int64_range v then Some (v, r) else None))"

definition scan_lit :: "string \<Rightarrow> string \<Rightarrow> string option" where
  "scan_lit lit s = (if HasPrefix s lit then Some (drop (length lit) s) else None)"

section \<open>Round trips\<close>

lemma first_index_nth:
  assumes "distinct al" and "i < length al"
  shows "first_index (al ! i) al = Some i"
proof -
  have "distinct (map (\<lambda>j. al ! j) [0..<length al])" using assms(1) by (simp add: map_nth)
  then have "filter (\<lambda>j. al ! j = al ! i) [0..<length al] = [i]"
    using filter_distinct_key[of "\<lambda>j. al ! j" "[0..<length al]" i] assms(2) by simp
  then show ?thesis by (simp add: first_index_def)
qed

definition b64_alphabet :: "string \<Rightarrow> bool" where
  "b64_alphabet al \<longleftrightarrow> distinct al \<and> length al = 64 \<and> list_all (\<lambda>c. of_char c \<noteq> (10 :: nat) \<and> of_char c \<noteq> (13 :: nat)) al"

lemma b64_alphabets [simp]: "b64_alphabet b64_std" "b64_alphabet b64_url"
  by (simp_all add: b64_alphabet_def b64_std_def b64_url_def b64_letters_def)

lemma b64_values_nth:
  assumes "b64_alphabet al" and "i < 64"
  shows "b64_values al (al ! i # xs) = map_option ((#) i) (b64_values al xs)"
proof -
  have "of_char (al ! i) \<noteq> (10 :: nat)" "of_char (al ! i) \<noteq> (13 :: nat)"
    using assms by (auto simp: b64_alphabet_def list_all_length)
  then show ?thesis using first_index_nth[of al i] assms by (simp add: b64_alphabet_def)
qed

lemma b64_values_map:
  "\<lbrakk>b64_alphabet al; list_all (\<lambda>i. i < 64) vs\<rbrakk> \<Longrightarrow> b64_values al (map ((!) al) vs) = Some vs"
  by (induction vs) (simp_all add: b64_values_nth del: b64_values.simps(2))

text \<open>The encoding, as values of six bits.\<close>

fun sextets :: "nat list \<Rightarrow> nat list" where
  "sextets [] = []"
| "sextets [a] = [a div 4, a mod 4 * 16]"
| "sextets [a, b] = [a div 4, a mod 4 * 16 + b div 16, b mod 16 * 4]"
| "sextets (a # b # c # r) = [a div 4, a mod 4 * 16 + b div 16, b mod 16 * 4 + c div 64, c mod 64] @ sextets r"

lemma b64_encode_sextets: "b64_encode al bs = map ((!) al) (sextets bs)"
  by (induction al bs rule: b64_encode.induct) simp_all

lemma byte_div: "is_byte a \<Longrightarrow> a div 4 < 64" "is_byte a \<Longrightarrow> a div 16 < 16" "is_byte a \<Longrightarrow> a div 64 < 4"
  by (simp_all add: is_byte_def)

lemma small_mod: "a mod 4 \<le> (3 :: nat)" "a mod 16 \<le> (15 :: nat)" "a mod 64 < (64 :: nat)"
  using mod_less_divisor[of 4 a] mod_less_divisor[of 16 a] by simp_all

lemma b64_encode_Nil_iff: "b64_encode al bs = [] \<longleftrightarrow> bs = []"
  by (cases "(al, bs)" rule: b64_encode.cases) simp_all

lemma sextet_bounds:
  assumes "is_byte b"
  shows "a mod 4 * 16 < 64" "a mod 16 * 4 < 64" "a mod 4 * 16 + b div 16 < 64" "a mod 16 * 4 + b div 64 < 64"
  using byte_div[OF assms] small_mod(1,2)[of a] by linarith+

lemma sextets_bound: "list_all is_byte bs \<Longrightarrow> list_all (\<lambda>i. i < 64) (sextets bs)"
  by (induction bs rule: sextets.induct) (auto simp: sextet_bounds byte_div)

lemma digits_in_base: "y < (b :: nat) \<Longrightarrow> (x * b + y) div b = x" "y < (b :: nat) \<Longrightarrow> (x * b + y) mod b = y"
  by auto

lemma sextet_groups:
  assumes "is_byte b" "is_byte c"
  shows "a div 4 * 4 + (a mod 4 * 16 + b div 16) div 16 = a"
    "(a mod 4 * 16 + b div 16) mod 16 * 16 + (b mod 16 * 4 + c div 64) div 4 = b"
    "(b mod 16 * 4 + c div 64) mod 4 * 64 + c mod 64 = c"
  using byte_div[OF assms(1)] byte_div[OF assms(2)] by (simp_all add: digits_in_base)

lemma b64_bytes_sextets: "list_all is_byte bs \<Longrightarrow> b64_bytes (sextets bs) = Some bs"
proof (induction bs rule: sextets.induct)
  case (3 a b)
  then have "(a mod 4 * 16 + b div 16) div 16 = a mod 4" "(a mod 4 * 16 + b div 16) mod 16 = b div 16"
    using byte_div[of b] digits_in_base[of "b div 16" 16 "a mod 4"] by simp_all
  then show ?case by simp
next
  case (4 a b c r)
  then have "is_byte b" "is_byte c" and r: "b64_bytes (sextets r) = Some r" by simp_all
  show ?case unfolding sextets.simps append.simps b64_bytes.simps r option.map
      sextet_groups[OF \<open>is_byte b\<close> \<open>is_byte c\<close>] ..
qed simp_all

lemma b64_round_trip:
  "\<lbrakk>b64_alphabet al; list_all is_byte bs\<rbrakk> \<Longrightarrow> b64_decode al (b64_encode al bs) = Some bs"
  by (simp add: b64_decode_def b64_encode_sextets b64_values_map sextets_bound b64_bytes_sextets)

lemma b64_encode_chars:
  assumes "b64_alphabet al" and "list_all is_byte bs"
  shows "set (b64_encode al bs) \<subseteq> set al"
  using sextets_bound[OF assms(2)] assms(1) by (auto simp: b64_encode_sextets b64_alphabet_def list_all_iff)

lemma split_on_no_sep: "c \<notin> set s \<Longrightarrow> split_on c s = [s]"
  by (induction s) auto

lemma split_on_append: "c \<notin> set s \<Longrightarrow> split_on c (s @ c # r) = s # split_on c r"
  by (induction s) auto

lemma digit_chars: "n < 10 \<Longrightarrow> is_digit (char_of (48 + n :: nat))"
  by (simp add: is_digit_def)

lemma nat_digits_all: "list_all is_digit (nat_digits n)"
proof (induction n rule: nat_digits.induct)
  case (1 n)
  then show ?case by (cases "n < 10") (simp_all add: nat_digits.simps[of n] digit_chars)
qed

lemma scan_digits_nat:
  assumes "r = [] \<or> \<not> is_digit (hd r)"
  shows "scan_digits (nat_digits n @ r) = Some (n, r)"
proof -
  have all: "\<forall>c \<in> set (nat_digits n). is_digit c" using nat_digits_all by (simp add: list_all_iff)
  have "takeWhile is_digit (nat_digits n @ r) = nat_digits n" "dropWhile is_digit (nat_digits n @ r) = r"
    using all assms by (cases r; simp)+
  moreover have "nat_digits n \<noteq> []" by (subst nat_digits.simps) simp
  ultimately show ?thesis by (simp add: scan_digits_def atoi_digits_def digits_val_nat_digits)
qed

end
