(* ===== verification/Auth_Hasher.thy ===== *)
theory Auth_Hasher
  imports Go_Encoding
begin

text \<open>
  Password hashing (\<^verbatim>\<open>auth/hasher.go\<close>, \<^verbatim>\<open>auth/password.go\<close>). The key derivation \<^verbatim>\<open>argon2.IDKey\<close> and the
  three bcrypt functions of \<^verbatim>\<open>golang.org/x/crypto\<close> are the fields of \<open>crypto\<close>; the encoding of a hash
  as a PHC string and its parsing are the code's.
\<close>

record crypto =
  IDKey :: "string \<Rightarrow> nat list \<Rightarrow> nat \<Rightarrow> nat \<Rightarrow> nat \<Rightarrow> nat \<Rightarrow> nat list"
  bcrypt_compare :: "string \<Rightarrow> string \<Rightarrow> bool"
  bcrypt_cost_ok :: "string \<Rightarrow> bool"
  bcrypt_generate :: "string \<Rightarrow> string option"

definition argon2Version :: nat where "argon2Version = 19"
definition argon2Memory :: nat where "argon2Memory = 65536"
definition argon2Time :: nat where "argon2Time = 3"
definition argon2Threads :: nat where "argon2Threads = 2"
definition argon2SaltLen :: nat where "argon2SaltLen = 16"
definition argon2KeyLen :: nat where "argon2KeyLen = 32"

definition AlgoArgon2id :: string where "AlgoArgon2id = ''argon2id''"
definition AlgoBcrypt :: string where "AlgoBcrypt = ''bcrypt''"

definition phc_string :: "nat \<Rightarrow> nat \<Rightarrow> nat \<Rightarrow> nat list \<Rightarrow> nat list \<Rightarrow> string" where
  "phc_string mem iter par salt key =
     ''$argon2id$v='' @ nat_digits argon2Version @ ''$m='' @ nat_digits mem @ '',t='' @ nat_digits iter @
     '',p='' @ nat_digits par @ ''$'' @ b64_encode b64_std salt @ ''$'' @ b64_encode b64_std key"

text \<open>\<open>salt\<close> is what the random source gave, or \<^const>\<open>None\<close> when it failed.\<close>

definition Hash :: "crypto \<Rightarrow> nat list option \<Rightarrow> string \<Rightarrow> string option" where
  "Hash c salt pw = (case salt of
      None \<Rightarrow> None
    | Some sl \<Rightarrow> Some (phc_string argon2Memory argon2Time argon2Threads sl
          (IDKey c pw sl argon2Time argon2Memory argon2Threads argon2KeyLen)))"

text \<open>\<^verbatim>\<open>Sscanf\<close> of the parameters; what follows the last number is ignored.\<close>

definition scan_params :: "string \<Rightarrow> (nat \<times> nat \<times> int) option" where
  "scan_params s = (case Option.bind (scan_lit ''m='' s) (scan_uint 32) of
      None \<Rightarrow> None
    | Some (mem, r1) \<Rightarrow> (case Option.bind (scan_lit '',t='' r1) (scan_uint 32) of
        None \<Rightarrow> None
      | Some (iter, r2) \<Rightarrow> (case Option.bind (scan_lit '',p='' r2) scan_int of
          None \<Rightarrow> None
        | Some (p, _) \<Rightarrow> Some (mem, iter, p))))"

definition scan_version :: "string \<Rightarrow> int option" where
  "scan_version s = map_option fst (Option.bind (scan_lit ''v='' s) scan_int)"

record phc =
  ph_mem :: nat
  ph_iter :: nat
  ph_par :: nat
  ph_salt :: "nat list"
  ph_hash :: "nat list"

definition parseArgon2id :: "string \<Rightarrow> phc option" where
  "parseArgon2id encoded =
     (let parts = split_on CHR ''$'' encoded in
      if length parts \<noteq> 6 \<or> parts ! 1 \<noteq> ''argon2id'' then None
      else if scan_version (parts ! 2) \<noteq> Some (int argon2Version) then None
      else case scan_params (parts ! 3) of
        None \<Rightarrow> None
      | Some (mem, iter, p) \<Rightarrow> (case b64_decode b64_std (parts ! 4) of
          None \<Rightarrow> None
        | Some salt \<Rightarrow> (case b64_decode b64_std (parts ! 5) of
            None \<Rightarrow> None
          | Some hash \<Rightarrow> Some \<lparr>ph_mem = mem, ph_iter = iter, ph_par = nat (p mod 256),
                              ph_salt = salt, ph_hash = hash\<rparr>)))"

definition verifyArgon2id :: "crypto \<Rightarrow> string \<Rightarrow> string \<Rightarrow> bool" where
  "verifyArgon2id c pw encoded = (case parseArgon2id encoded of
      None \<Rightarrow> False
    | Some h \<Rightarrow> IDKey c pw (ph_salt h) (ph_iter h) (ph_mem h) (ph_par h) (length (ph_hash h)) = ph_hash h)"

definition CheckPassword :: "crypto \<Rightarrow> string \<Rightarrow> string \<Rightarrow> bool" where
  "CheckPassword c hash plaintext = bcrypt_compare c hash plaintext"

definition Verify_password :: "crypto \<Rightarrow> string \<Rightarrow> string \<Rightarrow> string \<Rightarrow> bool \<times> bool" where
  "Verify_password c pw encoded algo =
     (if algo = AlgoBcrypt then (CheckPassword c encoded pw, True)
      else if algo = AlgoArgon2id then (verifyArgon2id c pw encoded, False)
      else (False, False))"

definition ResolveHash :: "crypto \<Rightarrow> string \<Rightarrow> string \<Rightarrow> string option" where
  "ResolveHash c hash plaintext =
     (if hash \<noteq> '''' then (if bcrypt_cost_ok c hash then Some hash else None)
      else bcrypt_generate c plaintext)"

section \<open>Parsing what was printed\<close>

lemma chars_of_b64: "c \<in> set b64_std \<Longrightarrow> c \<noteq> CHR ''$''"
  by (auto simp: b64_std_def b64_letters_def)

lemma b64_no_dollar: "list_all is_byte bs \<Longrightarrow> CHR ''$'' \<notin> set (b64_encode b64_std bs)"
  using b64_encode_chars[OF b64_alphabets(1)] chars_of_b64 by blast

lemma digit_neq: "is_digit c \<Longrightarrow> c \<noteq> CHR ''$'' \<and> c \<noteq> CHR '','' \<and> c \<noteq> CHR ''-'' \<and> c \<noteq> CHR ''+'' \<and> \<not> is_space c"
  by (auto simp: is_digit_def digit_val_def is_space_def)

lemma digits_no_dollar: "CHR ''$'' \<notin> set (nat_digits n)"
  using nat_digits_all[of n] digit_neq by (auto simp: list_all_iff)

lemma nat_digits_Cons: obtains c cs where "nat_digits n = c # cs" "is_digit c"
  using nat_digits_all[of n] by (cases "nat_digits n") (auto simp: nat_digits.simps[of n] split: if_splits)

lemma scan_space_digits: "scan_space (nat_digits n @ r) = Some (nat_digits n @ r)"
proof -
  obtain c cs where "nat_digits n = c # cs" "is_digit c" by (rule nat_digits_Cons)
  then show ?thesis using digit_neq[of c] by (auto simp: is_space_def)
qed

lemma scan_uint_nat:
  "\<lbrakk>n < 2 ^ w; r = [] \<or> \<not> is_digit (hd r)\<rbrakk> \<Longrightarrow> scan_uint w (nat_digits n @ r) = Some (n, r)"
  by (simp add: scan_uint_def scan_space_digits scan_digits_nat)

lemma scan_int_nat:
  assumes "n < 2 ^ 63" and "r = [] \<or> \<not> is_digit (hd r)"
  shows "scan_int (nat_digits n @ r) = Some (int n, r)"
proof -
  have "int n < 2 ^ 63" using assms(1) by (metis of_nat_less_iff of_nat_numeral of_nat_power)
  then have "int64_range (int n)" by (simp add: int64_range_def)
  moreover have "hd (nat_digits n @ r) \<noteq> CHR ''-''" "hd (nat_digits n @ r) \<noteq> CHR ''+''"
    using nat_digits_Cons[of n] digit_neq by (metis hd_append2 list.distinct(1) list.sel(1))+
  ultimately show ?thesis
    using scan_digits_nat[OF assms(2), of n] by (simp add: scan_int_def scan_space_digits Let_def)
qed

lemma scan_lit_append [simp]: "scan_lit lit (lit @ s) = Some s"
  by (simp add: scan_lit_def HasPrefix_def)

lemma not_digits: "\<not> is_digit CHR '',''"
  by (simp add: is_digit_def digit_val_def)

lemma scan_params_print:
  assumes "mem < 2 ^ 32" "iter < 2 ^ 32" "par < 2 ^ 63"
  shows "scan_params (''m='' @ nat_digits mem @ '',t='' @ nat_digits iter @ '',p='' @ nat_digits par)
       = Some (mem, iter, int par)"
proof -
  have "scan_uint 32 (nat_digits mem @ '',t='' @ nat_digits iter @ '',p='' @ nat_digits par)
      = Some (mem, '',t='' @ nat_digits iter @ '',p='' @ nat_digits par)"
    using assms(1) by (intro scan_uint_nat) (simp_all add: not_digits)
  moreover have "scan_uint 32 (nat_digits iter @ '',p='' @ nat_digits par) = Some (iter, '',p='' @ nat_digits par)"
    using assms(2) by (intro scan_uint_nat) (simp_all add: not_digits)
  moreover have "scan_int (nat_digits par) = Some (int par, [])"
    using scan_int_nat[of par "[]"] assms(3) by simp
  ultimately show ?thesis
    by (simp add: scan_params_def scan_lit_def HasPrefix_def)
qed

lemma scan_version_print: "scan_version (''v='' @ nat_digits argon2Version) = Some (int argon2Version)"
  using scan_int_nat[of argon2Version "[]"] unfolding scan_version_def scan_lit_append
  by (simp add: argon2Version_def)

lemma phc_parts:
  assumes "list_all is_byte salt" "list_all is_byte key"
  shows "split_on CHR ''$'' (phc_string mem iter par salt key) =
    ['''', ''argon2id'', ''v='' @ nat_digits argon2Version,
     ''m='' @ nat_digits mem @ '',t='' @ nat_digits iter @ '',p='' @ nat_digits par,
     b64_encode b64_std salt, b64_encode b64_std key]"
proof -
  let ?v = "''v='' @ nat_digits argon2Version"
  let ?p = "''m='' @ nat_digits mem @ '',t='' @ nat_digits iter @ '',p='' @ nat_digits par"
  have "phc_string mem iter par salt key = CHR ''$'' # ''argon2id'' @ CHR ''$'' # ?v @ CHR ''$'' # ?p @
      CHR ''$'' # b64_encode b64_std salt @ CHR ''$'' # b64_encode b64_std key"
    by (simp add: phc_string_def)
  moreover have "CHR ''$'' \<notin> set ?v" "CHR ''$'' \<notin> set ?p" "CHR ''$'' \<notin> set ''argon2id''"
    by (simp_all add: digits_no_dollar)
  ultimately show ?thesis
    using b64_no_dollar[OF assms(1)] b64_no_dollar[OF assms(2)]
    by (simp only: split_on.simps split_on_append split_on_no_sep simp_thms if_True)
qed

lemma parse_print:
  assumes "list_all is_byte salt" "list_all is_byte key" and "mem < 2 ^ 32" "iter < 2 ^ 32" "par < 256"
  shows "parseArgon2id (phc_string mem iter par salt key) =
    Some \<lparr>ph_mem = mem, ph_iter = iter, ph_par = par, ph_salt = salt, ph_hash = key\<rparr>"
proof -
  have "par < 2 ^ 63" using assms(5) by simp
  from scan_params_print[OF assms(3,4) this] show ?thesis
    using assms(5) by (simp add: parseArgon2id_def phc_parts[OF assms(1,2)] scan_version_print[simplified]
        b64_round_trip assms(1,2) Let_def nat_mod_distrib)
qed

text \<open>C22: a password hash accepts exactly its password. What \<^verbatim>\<open>Hash\<close> returns for a password is a string that
  \<^verbatim>\<open>Verify\<close> parses back to the same parameters, salt and key: under \<^verbatim>\<open>argon2id\<close> it accepts a
  candidate exactly when the candidate derives the same key from that salt (so it accepts the password
  itself) and asks for no rehash. The hypotheses are that the salt and the derived key are bytes and that
  a key of the requested length is derived.\<close>

theorem Hash_Verify_exact:
  assumes "list_all is_byte salt"
    and "\<And>p. list_all is_byte (IDKey c p salt argon2Time argon2Memory argon2Threads argon2KeyLen)"
    and "\<And>p. length (IDKey c p salt argon2Time argon2Memory argon2Threads argon2KeyLen) = argon2KeyLen"
  shows "\<exists>h. Hash c (Some salt) pw = Some h \<and>
    (\<forall>candidate. Verify_password c candidate h AlgoArgon2id =
       (IDKey c candidate salt argon2Time argon2Memory argon2Threads argon2KeyLen =
        IDKey c pw salt argon2Time argon2Memory argon2Threads argon2KeyLen, False)) \<and>
    Verify_password c pw h AlgoArgon2id = (True, False)"
proof -
  let ?h = "phc_string argon2Memory argon2Time argon2Threads salt
      (IDKey c pw salt argon2Time argon2Memory argon2Threads argon2KeyLen)"
  have bounds: "argon2Memory < 2 ^ 32" "argon2Time < 2 ^ 32" "argon2Threads < 256"
    by (simp_all add: argon2Memory_def argon2Time_def argon2Threads_def)
  have "Verify_password c candidate ?h AlgoArgon2id =
       (IDKey c candidate salt argon2Time argon2Memory argon2Threads argon2KeyLen =
        IDKey c pw salt argon2Time argon2Memory argon2Threads argon2KeyLen, False)" for candidate
    using parse_print[OF assms(1) assms(2)[of pw] bounds] assms(3)
    by (simp add: Verify_password_def verifyArgon2id_def AlgoArgon2id_def AlgoBcrypt_def)
  then show ?thesis by (simp add: Hash_def)
qed

definition sample_crypto :: crypto where
  "sample_crypto = \<lparr>IDKey = (\<lambda>pw salt t m p n. map (\<lambda>i. (length pw + length salt + i) mod 256) [0..<n]),
     bcrypt_compare = (\<lambda>h pw. h = pw), bcrypt_cost_ok = (\<lambda>h. True), bcrypt_generate = Some\<rparr>"

theorem Hash_Verify_exact_witness:
  "\<exists>h. Hash sample_crypto (Some [7, 250]) ''secret'' = Some h \<and>
    Verify_password sample_crypto ''secret'' h AlgoArgon2id = (True, False) \<and>
    Verify_password sample_crypto ''wrong'' h AlgoArgon2id = (False, False)"
  using Hash_Verify_exact[of "[7, 250]" sample_crypto "''secret''"]
  by (force simp: sample_crypto_def is_byte_def argon2KeyLen_def list_all_iff upt_rec)

end
