(* ===== verification/Secrets.thy ===== *)
theory Secrets
  imports Go_Encoding
begin

text \<open>
  The cipher of \<^verbatim>\<open>internal/secrets\<close>: a fresh nonce in front of an AEAD ciphertext. The AEAD itself
  (AES-GCM of the standard library) is the field pair of \<open>aead\<close>. Blobs are byte strings.
\<close>

record aead =
  NonceSize :: nat
  aead_seal :: "string \<Rightarrow> string \<Rightarrow> string"
  aead_open :: "string \<Rightarrow> string \<Rightarrow> string option"

definition KeySize :: nat where "KeySize = 32"

text \<open>\<open>gcm\<close> makes the AEAD of a key.\<close>

definition New :: "(string \<Rightarrow> aead option) \<Rightarrow> string \<Rightarrow> aead option" where
  "New gcm key = (if length key \<noteq> KeySize then None else gcm key)"

text \<open>\<open>nonce\<close> is what the random source gave; its failure is the panic \<^const>\<open>None\<close>.\<close>

definition Seal :: "aead \<Rightarrow> nat list option \<Rightarrow> string \<Rightarrow> string option" where
  "Seal c nonce plaintext = (case nonce of
      None \<Rightarrow> None
    | Some bs \<Rightarrow> (let n = map char_of bs in Some (n @ aead_seal c n plaintext)))"

definition Open :: "aead \<Rightarrow> string \<Rightarrow> string option" where
  "Open c blob = (if length blob < NonceSize c then None
     else aead_open c (take (NonceSize c) blob) (drop (NonceSize c) blob))"

lemma Open_Seal:
  assumes "\<And>n p. aead_open c n (aead_seal c n p) = Some p" and "length bs = NonceSize c"
    and "Seal c (Some bs) p = Some blob"
  shows "Open c blob = Some p"
  using assms by (auto simp: Seal_def Open_def Let_def)

end
