(* ===== verification/Effects.thy ===== *)
theory Effects
  imports Main "HOL-Library.State_Monad"
begin

text \<open>
  Reasoning about computations of the state monad, in which the request handlers and the lifecycle
  handlers are written: the predicate \<open>post\<close> with its rules, and the locale \<open>frame\<close> for what every
  piece of a computation preserves.
\<close>

section \<open>Results of a run\<close>

text \<open>\<open>post m s P\<close>: the run of \<open>m\<close> from \<open>s\<close> ends with a result and a state that satisfy \<open>P\<close>.\<close>

definition post :: "('s, 'a) state \<Rightarrow> 's \<Rightarrow> ('a \<Rightarrow> 's \<Rightarrow> bool) \<Rightarrow> bool" where
  "post m s P \<longleftrightarrow> (case run_state m s of (x, s') \<Rightarrow> P x s')"

lemma post_run: "run_state m s = (x, s') \<Longrightarrow> post m s P = P x s'"
  by (simp add: post_def)

lemma post_fst_snd: "post m s P = P (fst (run_state m s)) (snd (run_state m s))"
  by (simp add: post_def split: prod.split)

lemma post_return [simp]: "post (State_Monad.return x) s P = P x s"
  by (simp add: post_def)

lemma post_bind [simp]: "post (m \<bind> f) s P = post m s (\<lambda>x s'. post (f x) s' P)"
  by (simp add: post_def split: prod.split)

lemma post_mono: "\<lbrakk>post m s P; \<And>x s'. P x s' \<Longrightarrow> Q x s'\<rbrakk> \<Longrightarrow> post m s Q"
  by (auto simp: post_def split: prod.splits)

lemma post_if [simp]: "post (if b then m else n) s P = (if b then post m s P else post n s P)"
  by simp

section \<open>Frames\<close>

text \<open>A frame is a reflexive and transitive relation between states; every computation made of pieces that
  respect a frame respects it.\<close>

locale frame =
  fixes R :: "'s \<Rightarrow> 's \<Rightarrow> bool"
  assumes refl: "R s s"
    and trans: "\<lbrakk>R s t; R t u\<rbrakk> \<Longrightarrow> R s u"
begin

lemma return: "state_io_rel R (State_Monad.return x)"
  by (simp add: state_io_rel_def refl)

lemma bind: "\<lbrakk>state_io_rel R m; \<And>x. state_io_rel R (f x)\<rbrakk> \<Longrightarrow> state_io_rel R (m \<bind> f)"
  unfolding state_io_rel_def by (auto split: prod.split) (metis snd_conv trans)

lemma cases_if: "\<lbrakk>b \<Longrightarrow> state_io_rel R m; \<not> b \<Longrightarrow> state_io_rel R n\<rbrakk> \<Longrightarrow> state_io_rel R (if b then m else n)"
  by simp

lemma cases_sum:
  "\<lbrakk>\<And>e. r = Inl e \<Longrightarrow> state_io_rel R (f e); \<And>x. r = Inr x \<Longrightarrow> state_io_rel R (g x)\<rbrakk> \<Longrightarrow>
   state_io_rel R (case r of Inl e \<Rightarrow> f e | Inr x \<Rightarrow> g x)"
  by (cases r) simp_all

lemma cases_option:
  "\<lbrakk>r = None \<Longrightarrow> state_io_rel R m; \<And>x. r = Some x \<Longrightarrow> state_io_rel R (g x)\<rbrakk> \<Longrightarrow>
   state_io_rel R (case r of None \<Rightarrow> m | Some x \<Rightarrow> g x)"
  by (cases r) simp_all

lemma cases_let: "(\<And>x. state_io_rel R (f x)) \<Longrightarrow> state_io_rel R (let x = e in f x)"
  by (simp add: Let_def)

lemma post_frame: "\<lbrakk>state_io_rel R m; \<And>x s'. R s s' \<Longrightarrow> P x s'\<rbrakk> \<Longrightarrow> post m s P"
  unfolding post_def state_io_rel_def by (metis (mono_tags, lifting) case_prod_beta)

lemmas frame_rules = return bind cases_if cases_sum cases_option cases_let

end

end
