(* ===== verification/Auth_Sessions.thy ===== *)
theory Auth_Sessions
  imports Store_Identity Login_Limiter Authz_Middleware Auth_Hasher Secrets Effects
begin

text \<open>
  The session manager (\<^verbatim>\<open>auth/session.go\<close>) and what the handlers of \<^verbatim>\<open>internal/auth\<close> run on. A handler
  is a computation of the state monad over the database, the login limiter and the number of reads
  from the random source. The environment holds what the code takes from outside: the clock, the random
  bytes of each read, SHA-256, the password and TOTP primitives, and the configuration.
\<close>

section \<open>Environment and state\<close>

record totp_key =
  tk_secret :: string
  tk_uri :: string

record auth_env =
  ev_now :: int
  ev_rand :: "nat \<Rightarrow> nat \<Rightarrow> nat list option"
  ev_sha :: "string \<Rightarrow> string"
  ev_ipkey :: "string \<Rightarrow> string"
  ev_crypto :: crypto
  ev_secrets :: "aead option"
  ev_totp_generate :: "nat \<Rightarrow> string \<Rightarrow> string \<Rightarrow> totp_key option"
  ev_totp_validate :: "string \<Rightarrow> string \<Rightarrow> int \<Rightarrow> bool"
  ev_qr :: "totp_key \<Rightarrow> string option"
  ev_idle_ttl :: int
  ev_absolute_ttl :: int
  ev_challenge_ttl :: int
  ev_secure_base :: bool
  ev_trust_proxy :: bool
  ev_issuer :: string

record auth_state =
  as_db :: db
  as_limiter :: loginLimiter
  as_draws :: nat

type_synonym 'a act = "(auth_state, 'a) state"

abbreviation answer :: "'a \<Rightarrow> 'a act" where "answer \<equiv> State_Monad.return"
abbreviation tables_of :: "auth_state \<Rightarrow> tables" where "tables_of s \<equiv> tabs (as_db s)"

definition run_db :: "'a op \<Rightarrow> (store_error + 'a) act" where
  "run_db m = State (\<lambda>s. case m (as_db s) of (r, d) \<Rightarrow> (r, s\<lparr>as_db := d\<rparr>))"

definition run_limiter :: "(loginLimiter \<Rightarrow> 'a \<times> loginLimiter) \<Rightarrow> 'a act" where
  "run_limiter f = State (\<lambda>s. case f (as_limiter s) of (x, l) \<Rightarrow> (x, s\<lparr>as_limiter := l\<rparr>))"

definition update_limiter :: "(loginLimiter \<Rightarrow> loginLimiter) \<Rightarrow> unit act" where
  "update_limiter f = run_limiter (\<lambda>l. ((), f l))"

definition rand_Read :: "auth_env \<Rightarrow> nat \<Rightarrow> nat list option act" where
  "rand_Read env n = State (\<lambda>s. (ev_rand env (as_draws s) n, s\<lparr>as_draws := Suc (as_draws s)\<rparr>))"

section \<open>Requests and replies\<close>

record http_request = request +
  rq_cookies :: "(string \<times> string) list"
  rq_user_agent :: string
  rq_forwarded_proto :: string
  rq_tls :: bool

record cookie =
  ck_name :: string
  ck_value :: string
  ck_path :: string
  ck_http_only :: bool
  ck_same_site :: string
  ck_secure :: bool
  ck_max_age :: int

definition Cookie :: "http_request \<Rightarrow> string \<Rightarrow> string option" where
  "Cookie rq name = map_of (rq_cookies rq) name"

definition client_addr :: "http_request \<Rightarrow> string" where
  "client_addr rq = (case SplitHostPort (rq_remote_addr rq) of
     None \<Rightarrow> rq_remote_addr rq | Some (host, _) \<Rightarrow> host)"

definition ipPtr :: "http_request \<Rightarrow> string option" where
  "ipPtr rq = (let ip = client_addr rq in if ip \<noteq> '''' then Some ip else None)"

definition requestMeta :: "http_request option \<Rightarrow> string option \<times> string option" where
  "requestMeta r = (case r of
      None \<Rightarrow> (None, None)
    | Some rq \<Rightarrow> (ipPtr rq, if rq_user_agent rq \<noteq> '''' then Some (rq_user_agent rq) else None))"

section \<open>Sessions\<close>

definition CookieName :: string where "CookieName = ''proxcloud_session''"
definition ChallengeCookieName :: string where "ChallengeCookieName = ''proxcloud_totp''"
definition tokenBytes :: nat where "tokenBytes = 32"
definition touchThrottle :: int where "touchThrottle = minute"

definition secureFor :: "auth_env \<Rightarrow> http_request option \<Rightarrow> bool" where
  "secureFor env r = (case r of
      None \<Rightarrow> ev_secure_base env
    | Some rq \<Rightarrow>
        if ev_trust_proxy env \<and> rq_forwarded_proto rq \<noteq> '''' then
          (let xfp = rq_forwarded_proto rq;
               hop = (case first_index CHR '','' xfp of None \<Rightarrow> xfp | Some i \<Rightarrow> take i xfp)
           in EqualFold (TrimSpace hop) ''https'')
        else rq_tls rq \<or> ev_secure_base env)"

definition hashToken :: "auth_env \<Rightarrow> string \<Rightarrow> string" where
  "hashToken env token = ev_sha env token"

definition session_cookie :: "string \<Rightarrow> bool \<Rightarrow> int \<Rightarrow> cookie" where
  "session_cookie v sec age = \<lparr>ck_name = CookieName, ck_value = v, ck_path = ''/'', ck_http_only = True,
     ck_same_site = ''Lax'', ck_secure = sec, ck_max_age = age\<rparr>"

definition challenge_cookie :: "string \<Rightarrow> bool \<Rightarrow> int \<Rightarrow> cookie" where
  "challenge_cookie v sec age = \<lparr>ck_name = ChallengeCookieName, ck_value = v, ck_path = ''/api/auth'',
     ck_http_only = True, ck_same_site = ''Lax'', ck_secure = sec, ck_max_age = age\<rparr>"

definition Issue :: "auth_env \<Rightarrow> string \<Rightarrow> http_request option \<Rightarrow> cookie option act" where
  "Issue env uid r = do {
     raw \<leftarrow> rand_Read env tokenBytes;
     case raw of
       None \<Rightarrow> answer None
     | Some bs \<Rightarrow>
         let token = b64_encode b64_url bs in do {
         res \<leftarrow> run_db (CreateSession \<lparr>cs_user_id = uid, cs_token_hash = hashToken env token,
                  cs_absolute_expires_at = ev_now env + ev_absolute_ttl env, cs_ip = fst (requestMeta r),
                  cs_user_agent = snd (requestMeta r)\<rparr>);
         case res of
           Inl e \<Rightarrow> answer None
         | Inr _ \<Rightarrow> answer (Some (session_cookie token (secureFor env r) (whole_seconds (ev_absolute_ttl env))))
       }
   }"

definition IssueChallengeCookie :: "auth_env \<Rightarrow> http_request option \<Rightarrow> string \<Rightarrow> int \<Rightarrow> cookie" where
  "IssueChallengeCookie env r token ttl = challenge_cookie token (secureFor env r) (whole_seconds ttl)"

definition ClearChallengeCookie :: "auth_env \<Rightarrow> http_request option \<Rightarrow> cookie" where
  "ClearChallengeCookie env r = challenge_cookie '''' (secureFor env r) (- 1)"

definition Clear :: "auth_env \<Rightarrow> http_request option \<Rightarrow> cookie" where
  "Clear env r = session_cookie '''' (secureFor env r) (- 1)"

definition session_identity :: "user \<Rightarrow> session \<Rightarrow> identity" where
  "session_identity u sess = \<lparr>id_user_id = u_id u, id_email = u_email u,
     id_is_platform_admin = u_is_platform_admin u, id_session_id = s_id sess,
     id_active_tenant = (case s_active_tenant_id sess of None \<Rightarrow> '''' | Some t \<Rightarrow> t), id_tenant_role = '''',
     id_resolved_project = '''', id_effective_role = ''''\<rparr>"

text \<open>The error of \<^verbatim>\<open>Verify\<close> is one opaque value, here \<^const>\<open>None\<close>.\<close>

definition Verify :: "auth_env \<Rightarrow> http_request \<Rightarrow> identity option act" where
  "Verify env rq = (case Cookie rq CookieName of
      None \<Rightarrow> answer None
    | Some v \<Rightarrow>
        if v = '''' then answer None
        else do {
          r \<leftarrow> run_db (GetSessionByTokenHash (hashToken env v));
          case r of
            Inl e \<Rightarrow> answer None
          | Inr sess \<Rightarrow>
              let now = ev_now env in
              if s_revoked_at sess \<noteq> None \<or> now > s_absolute_expires_at sess \<or>
                 now > s_last_seen_at sess + ev_idle_ttl env then answer None
              else do {
                ru \<leftarrow> run_db (GetUserByID (s_user_id sess));
                case ru of
                  Inl e \<Rightarrow> answer None
                | Inr user \<Rightarrow>
                    if u_disabled user then answer None
                    else do {
                      (if now - s_last_seen_at sess \<ge> touchThrottle
                       then run_db (TouchSession (s_id sess) now) else answer (Inr ()));
                      answer (Some (session_identity user sess))
                    }
              }
        })"

definition Live :: "auth_env \<Rightarrow> session \<Rightarrow> bool" where
  "Live env sess \<longleftrightarrow> s_revoked_at sess = None \<and> ev_now env < s_absolute_expires_at sess \<and>
     ev_now env < s_last_seen_at sess + ev_idle_ttl env"

definition Revoke :: "string \<Rightarrow> (store_error + unit) act" where
  "Revoke sid = run_db (RevokeSession sid)"

text \<open>\<^verbatim>\<open>issueSessionForTenant\<close> finds the new session by verifying the cookie it has just issued.\<close>

definition probe_request :: "cookie \<Rightarrow> http_request" where
  "probe_request c = \<lparr>rq_method = '''', rq_pattern = '''', rq_param = (\<lambda>_. ''''), rq_remote_addr = '''',
     rq_cookies = [(ck_name c, ck_value c)], rq_user_agent = '''', rq_forwarded_proto = '''', rq_tls = False\<rparr>"

definition issueSessionForTenant :: "auth_env \<Rightarrow> string \<Rightarrow> string \<Rightarrow> http_request \<Rightarrow> cookie option act" where
  "issueSessionForTenant env uid tenant rq = do {
     c \<leftarrow> Issue env uid (Some rq);
     case c of
       None \<Rightarrow> answer None
     | Some cookie \<Rightarrow>
         if tenant = '''' then answer (Some cookie)
         else do {
           i \<leftarrow> Verify env (probe_request cookie);
           case i of
             None \<Rightarrow> answer (Some cookie)
           | Some ident \<Rightarrow> do {
               run_db (SetSessionActiveTenant (id_session_id ident) (Some tenant));
               answer (Some cookie)
             }
         }
   }"

section \<open>Reasoning about handlers\<close>

lemma run_db_run [simp]: "run_state (run_db m) s = (fst (m (as_db s)), s\<lparr>as_db := snd (m (as_db s))\<rparr>)"
  by (simp add: run_db_def split: prod.split)

lemma post_run_db: "post (run_db m) s P = P (fst (m (as_db s))) (s\<lparr>as_db := snd (m (as_db s))\<rparr>)"
  by (simp add: post_def)

lemma post_run_db_cases:
  assumes "\<And>e d. m (as_db s) = (Inl e, d) \<Longrightarrow> P (Inl e) (s\<lparr>as_db := d\<rparr>)"
    and "\<And>x d. m (as_db s) = (Inr x, d) \<Longrightarrow> P (Inr x) (s\<lparr>as_db := d\<rparr>)"
  shows "post (run_db m) s P"
  using assms by (cases "m (as_db s)"; cases "fst (m (as_db s))") (auto simp: post_run_db)

lemma post_run_limiter: "(\<And>x l. P x (s\<lparr>as_limiter := l\<rparr>)) \<Longrightarrow> post (run_limiter f) s P"
  by (simp add: post_def run_limiter_def split: prod.split)

lemma post_update_limiter: "(\<And>l. P () (s\<lparr>as_limiter := l\<rparr>)) \<Longrightarrow> post (update_limiter f) s P"
  by (simp add: post_def update_limiter_def run_limiter_def)

lemma post_rand_Read [simp]:
  "post (rand_Read env n) s P = P (ev_rand env (as_draws s) n) (s\<lparr>as_draws := Suc (as_draws s)\<rparr>)"
  by (simp add: post_def rand_Read_def)

lemma frame_db: "(\<And>s. R s (s\<lparr>as_db := snd (m (as_db s))\<rparr>)) \<Longrightarrow> state_io_rel R (run_db m)"
  by (simp add: state_io_rel_def)

lemma frame_limiter: "(\<And>s l. R s (s\<lparr>as_limiter := l\<rparr>)) \<Longrightarrow> state_io_rel R (run_limiter f)"
  by (simp add: state_io_rel_def run_limiter_def split: prod.split)

lemma frame_rand: "(\<And>s n. R s (s\<lparr>as_draws := n\<rparr>)) \<Longrightarrow> state_io_rel R (rand_Read env n)"
  by (simp add: state_io_rel_def rand_Read_def)

section \<open>Verification of a cookie\<close>

text \<open>The session and user a request authenticates as, read off the tables.\<close>

definition authenticates :: "auth_env \<Rightarrow> http_request \<Rightarrow> tables \<Rightarrow> session \<Rightarrow> user \<Rightarrow> bool" where
  "authenticates env rq tb sess u \<longleftrightarrow>
     (case Cookie rq CookieName of None \<Rightarrow> False
      | Some v \<Rightarrow> v \<noteq> '''' \<and> s_token_hash sess = hashToken env v) \<and>
     sess \<in> set (sessions tb) \<and> s_revoked_at sess = None \<and> ev_now env \<le> s_absolute_expires_at sess \<and>
     ev_now env \<le> s_last_seen_at sess + ev_idle_ttl env \<and>
     u \<in> set (users tb) \<and> u_id u = s_user_id sess \<and> \<not> u_disabled u"

text \<open>The one write of \<^verbatim>\<open>Verify\<close>: the last-seen time of a session, at most once a minute.\<close>

definition touch :: "auth_env \<Rightarrow> session \<Rightarrow> tables \<Rightarrow> tables" where
  "touch env sess tb = (if ev_now env - s_last_seen_at sess \<ge> touchThrottle
     then tb\<lparr>sessions := update_where (\<lambda>r. s_id r = s_id sess) (\<lambda>r. r\<lparr>s_last_seen_at := ev_now env\<rparr>) (sessions tb)\<rparr>
     else tb)"

lemma GetSession_Inr:
  assumes "GetSessionByTokenHash h d = (Inr sess, d')"
  shows "sess \<in> set (sessions (tabs d))" "s_token_hash sess = h" "tabs d' = tabs d"
proof -
  have "hd (filter (\<lambda>s. s_token_hash s = h) (sessions (tabs d))) \<in> set (filter (\<lambda>s. s_token_hash s = h) (sessions (tabs d)))"
    using assms by (intro hd_in_set) (simp add: GetSessionByTokenHash_def op_elims)
  then show "sess \<in> set (sessions (tabs d))" "s_token_hash sess = h"
    using assms by (simp_all add: GetSessionByTokenHash_def op_elims)
  show "tabs d' = tabs d" using assms by (simp add: GetSessionByTokenHash_def op_elims)
qed

lemma GetUserByID_Inr:
  assumes "GetUserByID i d = (Inr u, d')"
  shows "u \<in> set (users (tabs d))" "u_id u = i" "tabs d' = tabs d"
proof -
  have "hd (filter (\<lambda>u. u_id u = i) (users (tabs d))) \<in> set (filter (\<lambda>u. u_id u = i) (users (tabs d)))"
    using assms by (intro hd_in_set) (simp add: GetUserByID_def op_elims)
  then show "u \<in> set (users (tabs d))" "u_id u = i"
    using assms by (simp_all add: GetUserByID_def op_elims)
  show "tabs d' = tabs d" using assms by (simp add: GetUserByID_def op_elims)
qed

lemma read_only_ops [simp]:
  "read_only (GetSessionByTokenHash h)" "read_only (GetUserByID i)" "read_only (GetUserByEmail e)"
  "read_only CountUsers" "read_only (GetInvitationByTokenHash h)" "read_only (GetTenantByID i)"
  "read_only (GetProjectByID i)" "read_only (GetTenantBySlug i)" "read_only (GetLoginChallengeByTokenHash h)"
  "read_only (GetTOTPSecret u)" "read_only (ListTenantsForUser u)" "read_only (CountUnusedRecoveryCodes u)"
  "read_only (ListSessionsByUser u)"
  by (simp_all add: GetSessionByTokenHash_def GetUserByID_def GetUserByEmail_def CountUsers_def
      GetInvitationByTokenHash_def GetTenantByID_def GetProjectByID_def GetTenantBySlug_def
      GetLoginChallengeByTokenHash_def GetTOTPSecret_def ListTenantsForUser_def CountUnusedRecoveryCodes_def
      ListSessionsByUser_def)

lemma read_only_tabs: "read_only m \<Longrightarrow> m d = (r, d') \<Longrightarrow> tabs d' = tabs d"
  by (auto simp: read_only_def)

lemma TouchSession_tabs:
  "tabs (snd (TouchSession i at d)) = tabs d \<or>
   tabs (snd (TouchSession i at d)) =
     (tabs d)\<lparr>sessions := update_where (\<lambda>s. s_id s = i) (\<lambda>s. s\<lparr>s_last_seen_at := at\<rparr>) (sessions (tabs d))\<rparr>"
  by (simp add: TouchSession_def bind_op_def exec_def stmt_def update_sessions_def ignore_count_def)

text \<open>Whatever statements fail, an identity is returned only for a cookie that authenticates, and the tables
  change by at most the touch.\<close>

lemma Verify_post:
  "post (Verify env rq) s (\<lambda>r s'.
     (case r of
        None \<Rightarrow> tables_of s' = tables_of s
      | Some i \<Rightarrow> \<exists>sess u. authenticates env rq (tables_of s) sess u \<and> i = session_identity u sess \<and>
          (tables_of s' = tables_of s \<or> tables_of s' = touch env sess (tables_of s))))"
proof (cases "Cookie rq CookieName")
  case None
  then show ?thesis by (simp add: Verify_def)
next
  case (Some v)
  show ?thesis
  proof (cases "v = ''''")
    case True
    with Some show ?thesis by (simp add: Verify_def)
  next
    case False
    obtain r d1 where g: "GetSessionByTokenHash (hashToken env v) (as_db s) = (r, d1)" by fastforce
    obtain ru d2 where gu: "GetUserByID (s_user_id (projr r)) d1 = (ru, d2)" by fastforce
    have t1: "tabs d1 = tables_of s" and t2: "tabs d2 = tables_of s"
      using read_only_tabs[OF read_only_ops(1) g] read_only_tabs[OF read_only_ops(2) gu] by simp_all
    show ?thesis
    proof (cases "\<exists>sess user. r = Inr sess \<and> ru = Inr user")
      case False
      with Some \<open>v \<noteq> ''''\<close> show ?thesis
        using g gu t1 t2 by (cases r; cases ru) (auto simp: Verify_def post_run_db Let_def)
    next
      case True
      then obtain sess user where r: "r = Inr sess" "ru = Inr user" by blast
      have gu': "GetUserByID (s_user_id sess) d1 = (Inr user, d2)" using gu r by simp
      have auth: "authenticates env rq (tables_of s) sess user \<longleftrightarrow> s_revoked_at sess = None \<and>
          ev_now env \<le> s_absolute_expires_at sess \<and> ev_now env \<le> s_last_seen_at sess + ev_idle_ttl env \<and> \<not> u_disabled user"
        using GetSession_Inr[OF g[unfolded r]] GetUserByID_Inr[OF gu'] t1 Some False
        by (auto simp: authenticates_def)
      show ?thesis
      proof (cases "authenticates env rq (tables_of s) sess user")
        case True
        have "tabs (snd (TouchSession (s_id sess) (ev_now env) d2)) = tables_of s \<or>
          (ev_now env - s_last_seen_at sess \<ge> touchThrottle \<longrightarrow>
           tabs (snd (TouchSession (s_id sess) (ev_now env) d2)) = touch env sess (tables_of s))"
          using TouchSession_tabs[of "s_id sess" "ev_now env" d2] t2 by (auto simp: touch_def)
        with True auth Some False show ?thesis
          using g gu' t2 r by (auto simp: Verify_def post_run_db Let_def)
      next
        case no: False
        with auth Some False show ?thesis
          using g gu' t1 t2 r by (auto simp: Verify_def post_run_db Let_def)
      qed
    qed
  qed
qed

lemma filter_key_hd:
  assumes "distinct (map k rs)" and "r \<in> set rs" and "k r = key"
  shows "filter (\<lambda>x. k x = key) rs = [r]"
  using filter_distinct_key[OF assms(1,2)] assms(3) by simp

lemma Verify_complete:
  assumes ff: "faults (as_db s) = []" and keys: "distinct (map s_token_hash (sessions (tables_of s)))"
    "distinct (map u_id (users (tables_of s)))"
    and auth: "authenticates env rq (tables_of s) sess u"
  shows "run_state (Verify env rq) s =
    (Some (session_identity u sess), s\<lparr>as_db := (as_db s)\<lparr>tabs := touch env sess (tables_of s)\<rparr>\<rparr>)"
proof -
  obtain v where v: "Cookie rq CookieName = Some v" "v \<noteq> ''''" "s_token_hash sess = hashToken env v"
    using auth by (auto simp: authenticates_def split: option.splits)
  have "filter (\<lambda>x. s_token_hash x = hashToken env v) (sessions (tables_of s)) = [sess]"
    using keys(1) auth v(3) by (intro filter_key_hd) (auto simp: authenticates_def)
  then have g: "GetSessionByTokenHash (hashToken env v) (as_db s) = (Inr sess, as_db s)"
    using ff by (simp add: GetSessionByTokenHash_def)
  have "filter (\<lambda>x. u_id x = s_user_id sess) (users (tables_of s)) = [u]"
    using keys(2) auth by (intro filter_key_hd) (auto simp: authenticates_def)
  then have gu: "GetUserByID (s_user_id sess) (as_db s) = (Inr u, as_db s)"
    using ff by (simp add: GetUserByID_def)
  have t: "TouchSession (s_id sess) (ev_now env) (as_db s) = (Inr (), (as_db s)\<lparr>tabs := (tables_of s)\<lparr>sessions :=
      update_where (\<lambda>r. s_id r = s_id sess) (\<lambda>r. r\<lparr>s_last_seen_at := ev_now env\<rparr>) (sessions (tables_of s))\<rparr>\<rparr>)"
    using ff by (simp add: TouchSession_def bind_op_def update_sessions_def ignore_count_def)
  show ?thesis
    using v g gu t auth by (simp add: Verify_def Let_def touch_def authenticates_def)
qed

text \<open>C21: \<^verbatim>\<open>Verify\<close> authenticates exactly the live sessions of enabled users. When no statement fails, a request
  is given an identity exactly when its \<^verbatim>\<open>proxcloud_session\<close> cookie is non-empty and its hash is that of a
  session row that is not revoked and past neither deadline, of an existing user who is not disabled; the
  identity is then that user's and session's, and the only write is the throttled last-seen time. (Token
  hashes and user ids are unique, as the schema has it.)\<close>

theorem Verify_exact:
  assumes "faults (as_db s) = []" and "distinct (map s_token_hash (sessions (tables_of s)))"
    and "distinct (map u_id (users (tables_of s)))"
  shows "run_state (Verify env rq) s = (Some i, s') \<longleftrightarrow>
    (\<exists>sess u. authenticates env rq (tables_of s) sess u \<and> i = session_identity u sess \<and>
       s' = s\<lparr>as_db := (as_db s)\<lparr>tabs := touch env sess (tables_of s)\<rparr>\<rparr>)"
proof
  assume run: "run_state (Verify env rq) s = (Some i, s')"
  then obtain sess u where "authenticates env rq (tables_of s) sess u"
    using Verify_post[of env rq s] by (auto simp: post_run)
  with run Verify_complete[OF assms this] show "\<exists>sess u. authenticates env rq (tables_of s) sess u \<and>
      i = session_identity u sess \<and> s' = s\<lparr>as_db := (as_db s)\<lparr>tabs := touch env sess (tables_of s)\<rparr>\<rparr>"
    by (intro exI[of _ sess] exI[of _ u]) simp
next
  assume "\<exists>sess u. authenticates env rq (tables_of s) sess u \<and> i = session_identity u sess \<and>
       s' = s\<lparr>as_db := (as_db s)\<lparr>tabs := touch env sess (tables_of s)\<rparr>\<rparr>"
  then show "run_state (Verify env rq) s = (Some i, s')"
    using Verify_complete[OF assms] by blast
qed

section \<open>Issuing a session\<close>

definition session_key :: "session \<Rightarrow> string \<times> string \<times> string" where
  "session_key r = (s_id r, s_user_id r, s_token_hash r)"

lemma CreateSession_Inr:
  assumes "CreateSession p d = (Inr r, d')"
  shows "r = new_session p (uuids d (drawn d)) (clock d)"
    and "tabs d' = (tabs d)\<lparr>sessions := sessions (tabs d) @ [r]\<rparr>"
    and "cs_token_hash p \<notin> s_token_hash ` set (sessions (tabs d))"
    and "cs_user_id p \<in> u_id ` set (users (tabs d))"
    and "faults d = [] \<Longrightarrow> faults d' = []" "clock d' = clock d"
  using assms by (auto simp: CreateSession_def op_elims exists_where_def split: if_splits intro: image_eqI[OF sym])

lemma CreateSession_Inl: "CreateSession p d = (Inl e, d') \<Longrightarrow> tabs d' = tabs d"
  unfolding CreateSession_def using fail_safe_insert_row by (auto simp: fail_safe_def)

lemma Issue_post:
  "post (Issue env uid r) s (\<lambda>c s'. case c of
     None \<Rightarrow> tables_of s' = tables_of s
   | Some ck \<Rightarrow> ck_name ck = CookieName \<and> (\<exists>row. tables_of s' = (tables_of s)\<lparr>sessions := sessions (tables_of s) @ [row]\<rparr> \<and>
       s_token_hash row = hashToken env (ck_value ck) \<and> s_user_id row = uid \<and> s_revoked_at row = None \<and>
       s_active_tenant_id row = None \<and> s_last_seen_at row = clock (as_db s) \<and>
       s_absolute_expires_at row = ev_now env + ev_absolute_ttl env \<and>
       s_token_hash row \<notin> s_token_hash ` set (sessions (tables_of s)) \<and> uid \<in> u_id ` set (users (tables_of s)) \<and>
       (faults (as_db s) = [] \<longrightarrow> faults (as_db s') = [])))"
proof (cases "ev_rand env (as_draws s) tokenBytes")
  case None
  then show ?thesis by (simp add: Issue_def)
next
  case (Some bs)
  let ?p = "\<lparr>cs_user_id = uid, cs_token_hash = hashToken env (b64_encode b64_url bs),
      cs_absolute_expires_at = ev_now env + ev_absolute_ttl env, cs_ip = fst (requestMeta r),
      cs_user_agent = snd (requestMeta r)\<rparr>"
  show ?thesis
  proof (cases "CreateSession ?p (as_db s)")
    case (Pair res d')
    show ?thesis
    proof (cases res)
      case (Inl e)
      with Some Pair CreateSession_Inl[of ?p "as_db s"] show ?thesis
        by (simp add: Issue_def post_run_db Let_def)
    next
      case (Inr row)
      note created = CreateSession_Inr[OF Pair[unfolded Inr]]
      have fields: "s_token_hash row = hashToken env (b64_encode b64_url bs)" "s_user_id row = uid"
          "s_revoked_at row = None" "s_active_tenant_id row = None" "s_last_seen_at row = clock (as_db s)"
          "s_absolute_expires_at row = ev_now env + ev_absolute_ttl env"
        unfolding created(1) new_session_def by simp_all
      show ?thesis
        using Some Pair Inr created(2-5) fields
        by (simp add: Issue_def post_run_db Let_def session_cookie_def) (intro exI[of _ row], simp)
    qed
  qed
qed

text \<open>a session that was issued can be used. The cookie \<^verbatim>\<open>Issue\<close> returns for a user authenticates that user in
  every later request that carries it, as long as neither the absolute lifetime since the issue nor the
  idle time since then has passed and the user is not disabled: the token travels through the cookie,
  its hash through the session row. (\<open>env'\<close> is the environment of the later request: same hash
  function, a later clock.)\<close>

theorem issued_session_verifies:
  assumes issue: "run_state (Issue env uid r) s = (Some ck, s')"
    and cookie: "Cookie rq CookieName = Some (ck_value ck)" "ck_value ck \<noteq> ''''"
    and env': "ev_sha env' = ev_sha env" "ev_now env' \<le> ev_now env + ev_absolute_ttl env"
      "ev_now env' \<le> clock (as_db s) + ev_idle_ttl env'"
    and user: "u \<in> set (users (tables_of s))" "u_id u = uid" "\<not> u_disabled u"
    and keys: "distinct (map s_token_hash (sessions (tables_of s)))" "distinct (map u_id (users (tables_of s)))"
    and ff: "faults (as_db s) = []"
  shows "\<exists>i s''. run_state (Verify env' rq) s' = (Some i, s'') \<and> id_user_id i = uid \<and> id_email i = u_email u \<and>
    id_is_platform_admin i = u_is_platform_admin u"
proof -
  obtain row where row: "tables_of s' = (tables_of s)\<lparr>sessions := sessions (tables_of s) @ [row]\<rparr>"
      "s_token_hash row = hashToken env (ck_value ck)" "s_user_id row = uid" "s_revoked_at row = None"
      "s_last_seen_at row = clock (as_db s)" "s_absolute_expires_at row = ev_now env + ev_absolute_ttl env"
      "s_token_hash row \<notin> s_token_hash ` set (sessions (tables_of s))" and ff': "faults (as_db s') = []"
    using Issue_post[of env uid r s] issue ff by (auto simp: post_run)
  have "authenticates env' rq (tables_of s') row u"
    using row cookie env' user by (simp add: authenticates_def hashToken_def)
  moreover have "distinct (map s_token_hash (sessions (tables_of s')))" "distinct (map u_id (users (tables_of s')))"
    using row(1,7) keys by auto
  ultimately have "run_state (Verify env' rq) s' = (Some (session_identity u row),
      s'\<lparr>as_db := (as_db s')\<lparr>tabs := touch env' row (tables_of s')\<rparr>\<rparr>)"
    using Verify_complete[OF ff'] by blast
  with user(2) show ?thesis by (simp add: session_identity_def)
qed

section \<open>Concrete runs\<close>

definition sample_env :: auth_env where
  "sample_env = \<lparr>ev_now = 1000, ev_rand = (\<lambda>n k. Some (replicate k n)), ev_sha = (\<lambda>s. CHR ''#'' # s),
     ev_ipkey = (\<lambda>s. s), ev_crypto = sample_crypto,
     ev_secrets = Some \<lparr>NonceSize = 12, aead_seal = (\<lambda>n p. p), aead_open = (\<lambda>n c. Some c)\<rparr>,
     ev_totp_generate = (\<lambda>n i a. Some \<lparr>tk_secret = ''S'', tk_uri = ''otpauth''\<rparr>),
     ev_totp_validate = (\<lambda>code sec now. code = ''123456'' \<and> sec = ''S''), ev_qr = (\<lambda>k. Some ''png''),
     ev_idle_ttl = hour, ev_absolute_ttl = 24 * hour, ev_challenge_ttl = 5 * minute, ev_secure_base = True,
     ev_trust_proxy = False, ev_issuer = ''Proxcloud''\<rparr>"

definition sample_state :: "tables \<Rightarrow> auth_state" where
  "sample_state tb = \<lparr>as_db = sample_db tb, as_limiter = NewLoginLimiter, as_draws = 1\<rparr>"

definition cookie_request :: "(string \<times> string) list \<Rightarrow> http_request" where
  "cookie_request cs = \<lparr>rq_method = ''GET'', rq_pattern = ''/'', rq_param = (\<lambda>_. ''''), rq_remote_addr = ''10.0.0.9:4711'',
     rq_cookies = cs, rq_user_agent = ''curl'', rq_forwarded_proto = '''', rq_tls = True\<rparr>"

definition sample_session :: "string \<Rightarrow> string \<Rightarrow> session" where
  "sample_session tok uid = \<lparr>s_id = ''s-'' @ tok, s_token_hash = CHR ''#'' # tok, s_user_id = uid,
     s_active_tenant_id = None, s_created_at = 0, s_last_seen_at = 900, s_absolute_expires_at = 5000,
     s_revoked_at = None, s_ip = None, s_user_agent = None\<rparr>"

lemmas auth_sample_defs = sample_env_def sample_state_def cookie_request_def sample_session_def sample_db_def
  sample_defs second_def minute_def hour_def touchThrottle_def

theorem Verify_exact_witness:
  "\<exists>i s'. run_state (Verify sample_env (cookie_request [(CookieName, ''tok'')]))
     (sample_state (sample_tables\<lparr>sessions := [sample_session ''tok'' ''u1'']\<rparr>)) = (Some i, s') \<and>
   id_email i = ''ann@example.org'' \<and> id_session_id i = ''s-tok''"
proof -
  let ?s = "sample_state (sample_tables\<lparr>sessions := [sample_session ''tok'' ''u1'']\<rparr>)"
  let ?rq = "cookie_request [(CookieName, ''tok'')]"
  let ?u = "sample_user ''u1'' ''ann@example.org''"
  have "faults (as_db ?s) = []" "distinct (map s_token_hash (sessions (tables_of ?s)))"
    "distinct (map u_id (users (tables_of ?s)))"
    by (simp_all add: auth_sample_defs)
  note exact = Verify_exact[OF this, of sample_env ?rq]
  have "authenticates sample_env ?rq (tables_of ?s) (sample_session ''tok'' ''u1'') ?u"
    by (simp add: authenticates_def auth_sample_defs Cookie_def hashToken_def)
  then have "run_state (Verify sample_env ?rq) ?s = (Some (session_identity ?u (sample_session ''tok'' ''u1'')),
      ?s\<lparr>as_db := (as_db ?s)\<lparr>tabs := touch sample_env (sample_session ''tok'' ''u1'') (tables_of ?s)\<rparr>\<rparr>)"
    using exact by blast
  then show ?thesis by (simp add: session_identity_def sample_user_def sample_session_def)
qed

theorem issued_session_verifies_witness:
  "\<exists>ck s'. run_state (Issue sample_env ''u1'' None) (sample_state sample_tables) = (Some ck, s') \<and>
     (\<exists>i s''. run_state (Verify (sample_env\<lparr>ev_now := 5000\<rparr>) (cookie_request [(CookieName, ck_value ck)])) s' = (Some i, s'') \<and>
        id_user_id i = ''u1'')"
proof -
  let ?s = "sample_state sample_tables"
  let ?ck = "session_cookie (b64_encode b64_url (replicate tokenBytes 1)) True (24 * 3600)"
  have "fst (run_state (Issue sample_env ''u1'' None) ?s) = Some ?ck"
    by (simp add: Issue_def CreateSession_def rand_Read_def Let_def auth_sample_defs requestMeta_def
        secureFor_def whole_seconds_def)
  then obtain s' where issue: "run_state (Issue sample_env ''u1'' None) ?s = (Some ?ck, s')"
    by (metis prod.collapse)
  let ?rq = "cookie_request [(CookieName, ck_value ?ck)]" and ?env = "sample_env\<lparr>ev_now := 5000\<rparr>"
  let ?u = "sample_user ''u1'' ''ann@example.org''"
  have rq: "Cookie ?rq CookieName = Some (ck_value ?ck)" "ck_value ?ck \<noteq> ''''"
    by (simp_all add: Cookie_def cookie_request_def session_cookie_def tokenBytes_def b64_encode_Nil_iff)
  have env: "ev_sha ?env = ev_sha sample_env" "ev_now ?env \<le> ev_now sample_env + ev_absolute_ttl sample_env"
      "ev_now ?env \<le> clock (as_db ?s) + ev_idle_ttl ?env"
    by (simp_all add: auth_sample_defs)
  have user: "?u \<in> set (users (tables_of ?s))" "u_id ?u = ''u1''" "\<not> u_disabled ?u"
      "distinct (map s_token_hash (sessions (tables_of ?s)))" "distinct (map u_id (users (tables_of ?s)))"
      "faults (as_db ?s) = []"
    by (simp_all add: auth_sample_defs)
  from issued_session_verifies[OF issue rq env user] issue show ?thesis by blast
qed

end
