(* ===== verification/Auth_Login.thy ===== *)
theory Auth_Login
  imports Auth_Sessions
begin

text \<open>
  The handlers of \<^verbatim>\<open>auth/handlers.go\<close> and the first-run path of \<^verbatim>\<open>auth/bootstrap.go\<close>. A handler takes the
  request and its decoded body (\<^const>\<open>None\<close> when decoding fails); a handler behind \<^verbatim>\<open>Authenticate\<close> takes the
  identity of the request context. The limiter is present, as \<^verbatim>\<open>main.go\<close> builds it; the hash slot it hands
  out is released before the handler returns and is not visible in a sequential run.
\<close>

section \<open>Replies\<close>

record me =
  me_id :: string
  me_email :: string
  me_display_name :: string
  me_is_platform_admin :: bool
  me_totp_enabled :: bool
  me_active_tenant :: string
  me_recovery_codes :: nat
  me_tenants :: "(string \<times> string \<times> string \<times> string) list"

record session_info =
  si_id :: string
  si_created_at :: int
  si_last_seen_at :: int
  si_ip :: string
  si_user_agent :: string
  si_current :: bool

record invitation_details =
  idt_email :: string
  idt_tenant_name :: string
  idt_scope_type :: scope_type
  idt_scope_label :: string
  idt_role :: string
  idt_expires_at :: int
  idt_requires_account :: bool
  idt_signed_in_matches :: bool

datatype auth_body =
    NoBody
  | BootstrapStatusBody bool
  | LoginBody bool
  | MeBody me
  | SessionsBody "session_info list"
  | EnrollBody string string string
  | RecoveryCodesBody "string list"
  | InvitationBody invitation_details

record auth_reply =
  ar_status :: int
  ar_code :: string
  ar_cookies :: "cookie list"
  ar_body :: auth_body

definition writeErr :: "cookie list \<Rightarrow> string \<Rightarrow> int \<Rightarrow> auth_reply" where
  "writeErr cs code status = \<lparr>ar_status = status, ar_code = code, ar_cookies = cs, ar_body = NoBody\<rparr>"

definition writeJSON :: "cookie list \<Rightarrow> auth_body \<Rightarrow> auth_reply" where
  "writeJSON cs b = \<lparr>ar_status = 200, ar_code = '''', ar_cookies = cs, ar_body = b\<rparr>"

definition noContent :: "cookie list \<Rightarrow> auth_reply" where
  "noContent cs = \<lparr>ar_status = 204, ar_code = '''', ar_cookies = cs, ar_body = NoBody\<rparr>"

definition unauthenticated :: auth_reply where "unauthenticated = writeErr [] ''unauthenticated'' 401"
definition notSignedIn :: auth_reply where "notSignedIn = writeErr [] ''unauthenticated'' 401"
definition rateLimited :: auth_reply where "rateLimited = writeErr [] ''rate_limited'' 429"
definition internalErr :: auth_reply where "internalErr = writeErr [] ''internal'' 500"
definition invalidRequest :: auth_reply where "invalidRequest = writeErr [] ''invalid_request'' 400"

section \<open>Helpers\<close>

definition minPasswordLen :: nat where "minPasswordLen = 12"
definition maxPasswordBytes :: nat where "maxPasswordBytes = 1024"
definition maxEmailBytes :: nat where "maxEmailBytes = 254"
definition defaultLoginChallengeTTL :: int where "defaultLoginChallengeTTL = 5 * minute"

definition validatePasswordStrength :: "string \<Rightarrow> auth_reply option" where
  "validatePasswordStrength pw =
     (if length pw < minPasswordLen then Some invalidRequest
      else if length pw > maxPasswordBytes then Some invalidRequest else None)"

definition algoOf :: "user \<Rightarrow> string" where
  "algoOf u = (case u_password_algo u of
     None \<Rightarrow> AlgoArgon2id | Some a \<Rightarrow> if a \<noteq> '''' then a else AlgoArgon2id)"

definition deref :: "string option \<Rightarrow> string" where
  "deref s = (case s of None \<Rightarrow> '''' | Some v \<Rightarrow> v)"

definition hashPassword :: "auth_env \<Rightarrow> string \<Rightarrow> string option act" where
  "hashPassword env pw = do {
     salt \<leftarrow> rand_Read env argon2SaltLen;
     answer (Hash (ev_crypto env) salt pw)
   }"

text \<open>The two answers of the limiter about an address, and its window after a success.\<close>

definition allow_ip :: "auth_env \<Rightarrow> http_request \<Rightarrow> bool act" where
  "allow_ip env rq = run_limiter (Allow (ev_ipkey env) (client_addr rq) (ev_now env))"

definition reset_ip :: "auth_env \<Rightarrow> http_request \<Rightarrow> unit act" where
  "reset_ip env rq = update_limiter (Reset (ev_ipkey env) (client_addr rq))"

definition Authenticate :: "auth_env \<Rightarrow> http_request \<Rightarrow> (identity \<Rightarrow> auth_reply act) \<Rightarrow> auth_reply act" where
  "Authenticate env rq next = do {
     i \<leftarrow> Verify env rq;
     case i of None \<Rightarrow> answer notSignedIn | Some ident \<Rightarrow> next ident
   }"

section \<open>First run\<close>

definition defaultTenantSlug :: string where "defaultTenantSlug = ''default''"
definition bootstrapLockKey :: int where "bootstrapLockKey = 0x70726f7863"
definition errAlreadyBootstrapped :: store_error where
  "errAlreadyBootstrapped = ErrCaller ''auth: already bootstrapped''"

definition createFirstAdmin :: "string \<Rightarrow> string \<Rightarrow> string \<Rightarrow> string \<Rightarrow> user op" where
  "createFirstAdmin email displayName passwordHash algo =
     bind_op (AdvisoryLock bootstrapLockKey) (\<lambda>_.
     bind_op CountUsers (\<lambda>n.
     if n > 0 then raise errAlreadyBootstrapped
     else bind_op (CreateUser \<lparr>cu_email = email, cu_display_name = displayName, cu_password_hash = passwordHash,
            cu_password_algo = algo, cu_is_platform_admin = True\<rparr>) (\<lambda>user.
       bind_op (GetTenantBySlug defaultTenantSlug) (\<lambda>tenant.
       bind_op (CreateMembership \<lparr>cm_user_id = u_id user, cm_scope_type = TenantScope, cm_scope_id = t_id tenant,
            cm_role = ''owner''\<rparr>) (\<lambda>_. ret user)))))"

definition SeedEnvAdmin :: "auth_env \<Rightarrow> string \<Rightarrow> string \<Rightarrow> string \<Rightarrow> bool act" where
  "SeedEnvAdmin env adminUser adminPasswordHash adminPassword = do {
     r \<leftarrow> run_db CountUsers;
     case r of
       Inl e \<Rightarrow> answer False
     | Inr n \<Rightarrow>
         if n > 0 then answer True
         else if \<not> (adminUser \<noteq> '''' \<and> (adminPasswordHash \<noteq> '''' \<or> adminPassword \<noteq> '''')) then answer True
         else
           let email = (if CHR ''@'' \<in> set adminUser then adminUser else adminUser @ ''@proxcloud.local'') in
           case ResolveHash (ev_crypto env) adminPasswordHash adminPassword of
             None \<Rightarrow> answer False
           | Some hash \<Rightarrow> do {
               res \<leftarrow> run_db (WithTx (createFirstAdmin email ''Administrator'' hash AlgoBcrypt));
               answer (case res of Inl e \<Rightarrow> e = errAlreadyBootstrapped | Inr _ \<Rightarrow> True)
             }
   }"

definition BootstrapStatus :: "auth_reply act" where
  "BootstrapStatus = do {
     r \<leftarrow> run_db CountUsers;
     answer (case r of Inl e \<Rightarrow> internalErr | Inr n \<Rightarrow> writeJSON [] (BootstrapStatusBody (n = 0)))
   }"

record bootstrap_request =
  br_email :: string
  br_password :: string
  br_display_name :: string

definition bootstrap_create :: "auth_env \<Rightarrow> http_request \<Rightarrow> string \<Rightarrow> string \<Rightarrow> string \<Rightarrow> auth_reply act" where
  "bootstrap_create env rq email name hash = do {
     res \<leftarrow> run_db (WithTx (createFirstAdmin email name hash AlgoArgon2id));
     case res of
       Inl e \<Rightarrow> answer (if e = errAlreadyBootstrapped then writeErr [] ''conflict'' 409 else internalErr)
     | Inr user \<Rightarrow> do {
         c \<leftarrow> Issue env (u_id user) (Some rq);
         case c of
           None \<Rightarrow> answer internalErr
         | Some cookie \<Rightarrow> do { reset_ip env rq; answer (noContent [cookie]) }
       }
   }"

definition Bootstrap :: "auth_env \<Rightarrow> http_request \<Rightarrow> bootstrap_request option \<Rightarrow> auth_reply act" where
  "Bootstrap env rq body = (case body of
      None \<Rightarrow> answer invalidRequest
    | Some req \<Rightarrow> do {
        ok \<leftarrow> allow_ip env rq;
        let email = TrimSpace (br_email req);
        if \<not> ok then answer rateLimited
        else if email = '''' \<or> CHR ''@'' \<notin> set email then answer invalidRequest
        else case validatePasswordStrength (br_password req) of
          Some e \<Rightarrow> answer e
        | None \<Rightarrow> do {
            h \<leftarrow> hashPassword env (br_password req);
            case h of
              None \<Rightarrow> answer internalErr
            | Some hash \<Rightarrow> bootstrap_create env rq email (TrimSpace (br_display_name req)) hash
          }
      })"

section \<open>Login and logout\<close>

record login_request =
  lr_email :: string
  lr_password :: string

definition mintChallengeToken :: "auth_env \<Rightarrow> string option act" where
  "mintChallengeToken env = do {
     raw \<leftarrow> rand_Read env 32;
     answer (map_option (b64_encode b64_url) raw)
   }"

definition challenge_ttl :: "auth_env \<Rightarrow> int" where
  "challenge_ttl env = (if ev_challenge_ttl env \<le> 0 then defaultLoginChallengeTTL else ev_challenge_ttl env)"

text \<open>The second factor gate: a challenge instead of a session.\<close>

definition login_challenge_reply :: "auth_env \<Rightarrow> http_request \<Rightarrow> user \<Rightarrow> auth_reply act" where
  "login_challenge_reply env rq user = do {
     t \<leftarrow> mintChallengeToken env;
     case t of
       None \<Rightarrow> answer internalErr
     | Some token \<Rightarrow> do {
         res \<leftarrow> run_db (CreateLoginChallenge \<lparr>clc_user_id = u_id user, clc_token_hash = hashToken env token,
                  clc_expires_at = ev_now env + challenge_ttl env, clc_ip = fst (requestMeta (Some rq)),
                  clc_user_agent = snd (requestMeta (Some rq))\<rparr>);
         case res of
           Inl e \<Rightarrow> answer internalErr
         | Inr _ \<Rightarrow> do {
             reset_ip env rq;
             answer (writeJSON [IssueChallengeCookie env (Some rq) token (challenge_ttl env)] (LoginBody True))
           }
       }
   }"

text \<open>No second factor: a session, retiring the one the browser carried for the same user.\<close>

definition login_session_reply :: "auth_env \<Rightarrow> http_request \<Rightarrow> user \<Rightarrow> auth_reply act" where
  "login_session_reply env rq user = do {
     prev \<leftarrow> Verify env rq;
     let old = (case prev of None \<Rightarrow> '''' | Some p \<Rightarrow> if id_user_id p = u_id user then id_session_id p else '''');
     c \<leftarrow> Issue env (u_id user) (Some rq);
     case c of
       None \<Rightarrow> answer internalErr
     | Some cookie \<Rightarrow> do {
         reset_ip env rq;
         (if old \<noteq> '''' then Revoke old else answer (Inr ()));
         answer (writeJSON [cookie] (LoginBody False))
       }
   }"

definition rehash :: "auth_env \<Rightarrow> user \<Rightarrow> string \<Rightarrow> unit act" where
  "rehash env user pw = do {
     h \<leftarrow> hashPassword env pw;
     case h of
       None \<Rightarrow> answer ()
     | Some nh \<Rightarrow> do { run_db (UpdatePasswordHash (u_id user) nh AlgoArgon2id); answer () }
   }"

text \<open>The user whose password the request carries, with the wish to rehash it.\<close>

definition login_verdict :: "auth_env \<Rightarrow> login_request \<Rightarrow> store_error + user \<Rightarrow> (user \<times> bool) option" where
  "login_verdict env req found = (case found of
      Inl e \<Rightarrow> None
    | Inr u \<Rightarrow> (case u_password_hash u of
        None \<Rightarrow> None
      | Some h \<Rightarrow>
          let (pass, again) = Verify_password (ev_crypto env) (lr_password req) h (algoOf u)
          in if \<not> pass \<or> u_disabled u then None else Some (u, again)))"

definition login_settle :: "auth_env \<Rightarrow> http_request \<Rightarrow> login_request \<Rightarrow> (user \<times> bool) option \<Rightarrow> auth_reply act" where
  "login_settle env rq req verdict = (case verdict of
      None \<Rightarrow> do {
        update_limiter (RecordFailure (ev_sha env) (lr_email req) (ev_now env));
        answer unauthenticated
      }
    | Some (u, again) \<Rightarrow> do {
        update_limiter (ResetAccount (ev_sha env) (lr_email req));
        (if again then rehash env u (lr_password req) else answer ());
        if u_totp_enabled u then login_challenge_reply env rq u else login_session_reply env rq u
      })"

definition Login :: "auth_env \<Rightarrow> http_request \<Rightarrow> login_request option \<Rightarrow> auth_reply act" where
  "Login env rq body = do {
     ok \<leftarrow> allow_ip env rq;
     if \<not> ok then answer rateLimited
     else case body of
       None \<Rightarrow> answer invalidRequest
     | Some req \<Rightarrow>
         if length (lr_email req) > maxEmailBytes then answer invalidRequest
         else do {
           acct \<leftarrow> run_limiter (AllowAccount (ev_sha env) (lr_email req) (ev_now env));
           if \<not> fst acct then answer rateLimited
           else do {
             found \<leftarrow> run_db (GetUserByEmail (lr_email req));
             login_settle env rq req (login_verdict env req found)
           }
         }
   }"

definition Logout :: "auth_env \<Rightarrow> http_request \<Rightarrow> identity option \<Rightarrow> auth_reply act" where
  "Logout env rq i = do {
     (case i of None \<Rightarrow> answer (Inr ()) | Some ident \<Rightarrow> Revoke (id_session_id ident));
     answer (noContent [Clear env (Some rq)])
   }"

section \<open>Account\<close>

definition Me :: "identity option \<Rightarrow> auth_reply act" where
  "Me i = (case i of
      None \<Rightarrow> answer notSignedIn
    | Some ident \<Rightarrow> do {
        ru \<leftarrow> run_db (GetUserByID (id_user_id ident));
        case ru of
          Inl e \<Rightarrow> answer internalErr
        | Inr user \<Rightarrow> do {
            rt \<leftarrow> run_db (ListTenantsForUser (u_id user));
            case rt of
              Inl e \<Rightarrow> answer internalErr
            | Inr tws \<Rightarrow> do {
                n \<leftarrow> (if u_totp_enabled user then run_db (CountUnusedRecoveryCodes (u_id user)) else answer (Inr 0));
                answer (writeJSON [] (MeBody \<lparr>me_id = u_id user, me_email = u_email user,
                  me_display_name = u_display_name user, me_is_platform_admin = u_is_platform_admin user,
                  me_totp_enabled = u_totp_enabled user, me_active_tenant = id_active_tenant ident,
                  me_recovery_codes = (case n of Inl e \<Rightarrow> 0 | Inr k \<Rightarrow> k),
                  me_tenants = map (\<lambda>(t, role). (t_id t, t_name t, t_slug t, role)) tws\<rparr>))
              }
          }
      })"

definition SetActiveTenant :: "identity option \<Rightarrow> string option \<Rightarrow> auth_reply act" where
  "SetActiveTenant i body = (case i of
      None \<Rightarrow> answer notSignedIn
    | Some ident \<Rightarrow> (case body of
        None \<Rightarrow> answer invalidRequest
      | Some raw \<Rightarrow>
          let tenant = TrimSpace raw in
          if tenant = '''' then answer invalidRequest
          else do {
            member \<leftarrow> (if id_is_platform_admin ident then answer (Inr True)
              else do {
                r \<leftarrow> run_db (GetEffectiveRoles (id_user_id ident) tenant);
                answer (case r of Inl e \<Rightarrow> Inl e | Inr (tr, pr) \<Rightarrow> Inr (\<not> (tr = '''' \<and> pr = [])))
              });
            case member of
              Inl e \<Rightarrow> answer internalErr
            | Inr False \<Rightarrow> answer (writeErr [] ''not_found'' 404)
            | Inr True \<Rightarrow> do {
                r \<leftarrow> run_db (SetSessionActiveTenant (id_session_id ident) (Some tenant));
                answer (case r of Inl e \<Rightarrow> internalErr | Inr _ \<Rightarrow> noContent [])
              }
          }))"

record change_password_request =
  cpr_current :: string
  cpr_new :: string

definition account_intent :: "string \<Rightarrow> string \<Rightarrow> string \<Rightarrow> http_request \<Rightarrow> intent" where
  "account_intent action uid tenant rq = \<lparr>in_action = action, in_actor_user_id = uid, in_tenant_id = tenant,
     in_project_id = '''', in_target_type = ''user'', in_target_id = uid, in_ip = ipPtr rq\<rparr>"

definition finalize :: "string \<Rightarrow> string \<Rightarrow> (string \<times> json) list \<Rightarrow> unit act" where
  "finalize pending outcome detail = do { run_db (Finalize pending outcome detail); answer () }"

definition ChangePassword ::
  "auth_env \<Rightarrow> http_request \<Rightarrow> identity option \<Rightarrow> change_password_request option \<Rightarrow> auth_reply act" where
  "ChangePassword env rq i body = (case i of
      None \<Rightarrow> answer notSignedIn
    | Some ident \<Rightarrow> (case body of
        None \<Rightarrow> answer invalidRequest
      | Some req \<Rightarrow> do {
          ok \<leftarrow> allow_ip env rq;
          if \<not> ok then answer rateLimited
          else case validatePasswordStrength (cpr_new req) of
            Some e \<Rightarrow> answer e
          | None \<Rightarrow> do {
              ru \<leftarrow> run_db (GetUserByID (id_user_id ident));
              case ru of
                Inl e \<Rightarrow> answer internalErr
              | Inr user \<Rightarrow>
                  if \<not> (case u_password_hash user of None \<Rightarrow> False
                       | Some h \<Rightarrow> fst (Verify_password (ev_crypto env) (cpr_current req) h (algoOf user)))
                  then answer (writeErr [] ''unauthenticated'' 401)
                  else do {
                    h \<leftarrow> hashPassword env (cpr_new req);
                    case h of
                      None \<Rightarrow> answer internalErr
                    | Some nh \<Rightarrow> do {
                        p \<leftarrow> run_db (Begin (account_intent ''password.change'' (u_id user) (id_active_tenant ident) rq));
                        case p of
                          Inl e \<Rightarrow> answer internalErr
                        | Inr pending \<Rightarrow> do {
                            up \<leftarrow> run_db (UpdatePasswordHash (u_id user) nh AlgoArgon2id);
                            case up of
                              Inl e \<Rightarrow> do {
                                finalize pending ''error'' [(''status'', JNum 500)];
                                answer internalErr
                              }
                            | Inr _ \<Rightarrow> do {
                                run_db (RevokeOtherUserSessions (u_id user) (id_session_id ident));
                                reset_ip env rq;
                                finalize pending ''success'' [(''status'', JNum 204)];
                                answer (noContent [])
                              }
                          }
                      }
                  }
            }
        }))"

definition session_row_info :: "identity \<Rightarrow> session \<Rightarrow> session_info" where
  "session_row_info ident r = \<lparr>si_id = s_id r, si_created_at = s_created_at r, si_last_seen_at = s_last_seen_at r,
     si_ip = deref (s_ip r), si_user_agent = deref (s_user_agent r), si_current = (s_id r = id_session_id ident)\<rparr>"

definition ListSessions :: "auth_env \<Rightarrow> identity option \<Rightarrow> auth_reply act" where
  "ListSessions env i = (case i of
      None \<Rightarrow> answer notSignedIn
    | Some ident \<Rightarrow> do {
        r \<leftarrow> run_db (ListSessionsByUser (id_user_id ident));
        answer (case r of
            Inl e \<Rightarrow> internalErr
          | Inr rows \<Rightarrow> writeJSON [] (SessionsBody (map (session_row_info ident) (filter (Live env) rows))))
      })"

definition DeleteSession :: "auth_env \<Rightarrow> identity option \<Rightarrow> string \<Rightarrow> auth_reply act" where
  "DeleteSession env i target = (case i of
      None \<Rightarrow> answer notSignedIn
    | Some ident \<Rightarrow> do {
        r \<leftarrow> run_db (ListSessionsByUser (id_user_id ident));
        case r of
          Inl e \<Rightarrow> answer internalErr
        | Inr rows \<Rightarrow>
            if \<not> list_ex (\<lambda>row. s_id row = target \<and> Live env row) rows then answer (writeErr [] ''not_found'' 404)
            else do {
              rv \<leftarrow> Revoke target;
              answer (case rv of Inl e \<Rightarrow> internalErr | Inr _ \<Rightarrow> noContent [])
            }
      })"

section \<open>Frames over the tables\<close>

text \<open>A relation between tables that every step of a handler respects: the store's statement shapes and
  transactions carry it from the single statements to whole handlers.\<close>

definition op_rel :: "(tables \<Rightarrow> tables \<Rightarrow> bool) \<Rightarrow> 'a op \<Rightarrow> bool" where
  "op_rel Q m \<longleftrightarrow> (\<forall>d. Q (tabs d) (tabs (snd (m d))))"

locale table_frame =
  fixes Q :: "tables \<Rightarrow> tables \<Rightarrow> bool"
  assumes Q_refl: "Q tb tb"
    and Q_trans: "\<lbrakk>Q tb tb'; Q tb' tb''\<rbrakk> \<Longrightarrow> Q tb tb''"
begin

lemma op_read_only: "read_only m \<Longrightarrow> op_rel Q m"
  by (simp add: op_rel_def read_onlyD Q_refl)

lemma op_bind:
  assumes "op_rel Q m" and "\<And>x. op_rel Q (k x)"
  shows "op_rel Q (bind_op m k)"
  unfolding op_rel_def
proof
  fix d
  obtain r d1 where m: "m d = (r, d1)" by fastforce
  have q1: "Q (tabs d) (tabs d1)" using assms(1) m by (metis op_rel_def snd_conv)
  show "Q (tabs d) (tabs (snd (bind_op m k d)))"
  proof (cases r)
    case (Inl e)
    with m q1 show ?thesis by (simp add: bind_op_def)
  next
    case (Inr x)
    have "Q (tabs d1) (tabs (snd (k x d1)))" using assms(2) by (simp add: op_rel_def)
    with Inr m q1 show ?thesis using Q_trans by (simp add: bind_op_def)
  qed
qed

lemma op_attempt: "op_rel Q m \<Longrightarrow> op_rel Q (attempt m)"
  by (simp add: op_rel_def)

lemma op_exec: "(\<And>t tb. Q tb (snd (f t tb))) \<Longrightarrow> op_rel Q (exec f)"
  by (auto simp: op_rel_def exec_def stmt_def Q_refl split: prod.split) (metis snd_conv)

lemma op_exec_checked: "(\<And>t tb x tb'. f t tb = Inr (x, tb') \<Longrightarrow> Q tb tb') \<Longrightarrow> op_rel Q (exec_checked f)"
  by (auto simp: op_rel_def exec_checked_def stmt_def Q_refl split: prod.split sum.split)

lemma op_insert: "(\<And>i t tb x tb'. f i t tb = Inr (x, tb') \<Longrightarrow> Q tb tb') \<Longrightarrow> op_rel Q (insert_row f)"
  by (auto simp: op_rel_def insert_row_def stmt_def Q_refl Let_def split: prod.split sum.split)

lemma op_WithTx:
  assumes "op_rel Q m"
  shows "op_rel Q (WithTx m)"
  unfolding op_rel_def
proof
  fix d
  have "Q (tabs d) (tabs (snd (m ((pop_fault d)\<lparr>in_tx := True\<rparr>))))" "Q (tabs d) (tabs (snd (m d)))"
    using assms[unfolded op_rel_def, rule_format, of "(pop_fault d)\<lparr>in_tx := True\<rparr>"]
      assms[unfolded op_rel_def, rule_format, of d] by simp_all
  then show "Q (tabs d) (tabs (snd (WithTx m d)))"
    by (auto simp: WithTx_def Let_def Q_refl split: prod.split sum.split)
qed

end

sublocale table_frame \<subseteq> frame "\<lambda>s s'. Q (tables_of s) (tables_of s')"
  by unfold_locales (auto intro: Q_refl Q_trans)

context table_frame
begin

abbreviation preserved :: "'a act \<Rightarrow> bool" where "preserved m \<equiv> state_io_rel (\<lambda>s s'. Q (tables_of s) (tables_of s')) m"

lemma run_db: "op_rel Q m \<Longrightarrow> preserved (run_db m)"
  by (rule frame_db) (simp add: op_rel_def)

lemma run_limiter: "preserved (run_limiter f)"
  by (rule frame_limiter) (simp add: Q_refl)

lemma update_limiter: "preserved (update_limiter f)"
  unfolding update_limiter_def by (rule run_limiter)

lemma rand_Read: "preserved (rand_Read env n)"
  by (rule frame_rand) (simp add: Q_refl)

lemma hashPassword: "preserved (hashPassword env pw)"
  unfolding hashPassword_def by (intro bind rand_Read return)

lemmas steps = return bind cases_if cases_sum cases_option cases_let run_db run_limiter update_limiter rand_Read
  hashPassword op_read_only read_only_ops

end

section \<open>Who gets a session\<close>

definition same_keys :: "tables \<Rightarrow> tables \<Rightarrow> bool" where
  "same_keys tb tb' \<longleftrightarrow> map session_key (sessions tb') = map session_key (sessions tb)"

interpretation keys: table_frame same_keys
  by unfold_locales (auto simp: same_keys_def)

lemma same_keys_update:
  "(\<And>r. session_key (f r) = session_key r) \<Longrightarrow> same_keys tb (tb\<lparr>sessions := update_where P f (sessions tb)\<rparr>)"
  by (simp add: same_keys_def map_update_where)

lemma ignore_count_read_only [simp]: "read_only (ignore_count n)"
  by (simp add: ignore_count_def)

lemmas keys_intros = keys.op_bind keys.op_exec keys.op_exec_checked keys.op_insert keys.op_attempt keys.op_WithTx
  keys.op_read_only

lemma keys_ops:
  "op_rel same_keys (UpdatePasswordHash i h a)" "op_rel same_keys (CreateLoginChallenge c)"
  "op_rel same_keys (RevokeSession i)" "op_rel same_keys (TouchSession i t)"
  "op_rel same_keys (RevokeOtherUserSessions u k)" "op_rel same_keys (SetSessionActiveTenant i tn)"
  "op_rel same_keys (Begin it)" "op_rel same_keys (Finalize p out det)"
  unfolding UpdatePasswordHash_def CreateLoginChallenge_def RevokeSession_def TouchSession_def
    RevokeOtherUserSessions_def SetSessionActiveTenant_def Begin_def InsertAuditIntent_def Finalize_def FinalizeAudit_def
  by (intro keys_intros; force simp: same_keys_def update_users_def update_sessions_def map_update_where session_key_def
      split: if_splits)+

lemma Verify_keys: "keys.preserved (Verify env rq)"
  unfolding Verify_def by (intro keys.steps keys_ops)

lemma rehash_keys: "keys.preserved (rehash env u pw)"
  unfolding rehash_def by (intro keys.steps keys_ops)

lemma challenge_reply_keys: "keys.preserved (login_challenge_reply env rq u)"
  unfolding login_challenge_reply_def mintChallengeToken_def reset_ip_def by (intro keys.steps keys_ops)

text \<open>One session row more, for the user given.\<close>

definition one_session_for :: "string \<Rightarrow> tables \<Rightarrow> tables \<Rightarrow> bool" where
  "one_session_for uid tb tb' \<longleftrightarrow> (\<exists>row. s_user_id row = uid \<and>
     map session_key (sessions tb') = map session_key (sessions tb) @ [session_key row])"

lemma one_session_frame:
  "\<lbrakk>same_keys tb tb1; one_session_for uid tb1 tb2; same_keys tb2 tb3\<rbrakk> \<Longrightarrow> one_session_for uid tb tb3"
  by (simp add: same_keys_def one_session_for_def)

lemma Issue_keys:
  "post (Issue env uid r) s (\<lambda>c s'. if c = None then same_keys (tables_of s) (tables_of s')
     else one_session_for uid (tables_of s) (tables_of s'))"
  by (rule post_mono[OF Issue_post]) (force simp: same_keys_def one_session_for_def split: option.splits)

lemma session_reply_post:
  "post (login_session_reply env rq u) s (\<lambda>rep s'. same_keys (tables_of s) (tables_of s') \<or>
     one_session_for (u_id u) (tables_of s) (tables_of s'))"
proof -
  have rest: "keys.preserved (do { reset_ip env rq; (if old \<noteq> '''' then Revoke old else answer (Inr ()));
      answer (writeJSON [c] (LoginBody False)) })" for old c
    unfolding reset_ip_def Revoke_def by (intro keys.steps keys_ops)
  show ?thesis
    unfolding login_session_reply_def post_bind Let_def
  proof (rule keys.post_frame[OF Verify_keys], rule post_mono[OF Issue_keys], goal_cases)
    case (1 prev s1 c s2)
    show ?case
    proof (cases c)
      case None
      with 1 show ?thesis by (auto simp: same_keys_def)
    next
      case (Some ck)
      have "post (do { reset_ip env rq; (if old \<noteq> '''' then Revoke old else answer (Inr ()));
          answer (writeJSON [ck] (LoginBody False)) }) s2
          (\<lambda>rep s'. same_keys (tables_of s) (tables_of s') \<or> one_session_for (u_id u) (tables_of s) (tables_of s'))" for old
        by (rule keys.post_frame[OF rest]) (use 1 Some one_session_frame in auto)
      then show ?thesis unfolding Some option.case .
    qed
  qed
qed

lemma GetUserByEmail_Inr:
  assumes "GetUserByEmail e d = (Inr u, d')"
  shows "u \<in> set (users (tabs d))" "EqualFold (u_email u) e" "tabs d' = tabs d"
proof -
  have "hd (filter (\<lambda>u. lower_str (u_email u) = lower_str e) (users (tabs d)))
      \<in> set (filter (\<lambda>u. lower_str (u_email u) = lower_str e) (users (tabs d)))"
    using assms by (intro hd_in_set) (simp add: GetUserByEmail_def op_elims)
  then show "u \<in> set (users (tabs d))" "EqualFold (u_email u) e"
    using assms by (simp_all add: GetUserByEmail_def op_elims EqualFold_def)
  show "tabs d' = tabs d" using assms by (simp add: GetUserByEmail_def op_elims)
qed

definition password_ok :: "auth_env \<Rightarrow> login_request \<Rightarrow> user \<Rightarrow> bool" where
  "password_ok env req u \<longleftrightarrow> EqualFold (u_email u) (lr_email req) \<and> \<not> u_disabled u \<and>
     (case u_password_hash u of None \<Rightarrow> False
      | Some h \<Rightarrow> fst (Verify_password (ev_crypto env) (lr_password req) h (algoOf u)))"

definition login_ok :: "auth_env \<Rightarrow> login_request option \<Rightarrow> tables \<Rightarrow> tables \<Rightarrow> bool" where
  "login_ok env body tb tb' \<longleftrightarrow> same_keys tb tb' \<or>
     (\<exists>req u. body = Some req \<and> u \<in> set (users tb) \<and> password_ok env req u \<and> \<not> u_totp_enabled u \<and>
        one_session_for (u_id u) tb tb')"

lemma login_settle_post:
  assumes "case verdict of None \<Rightarrow> True | Some (u, _) \<Rightarrow> u \<in> set (users tb) \<and> password_ok env req u"
    and "tables_of s = tb"
  shows "post (login_settle env rq req verdict) s (\<lambda>rep s'. login_ok env (Some req) tb (tables_of s'))"
proof (cases verdict)
  case None
  with assms(2) show ?thesis
    by (auto simp: login_settle_def login_ok_def keys.Q_refl intro!: post_update_limiter)
next
  case (Some ua)
  obtain u again where ua: "ua = (u, again)" by fastforce
  have u: "u \<in> set (users tb)" "password_ok env req u" using assms Some ua by auto
  have pre: "keys.preserved (do { update_limiter (ResetAccount (ev_sha env) (lr_email req));
      (if again then rehash env u (lr_password req) else answer ()) })"
    by (intro keys.steps rehash_keys)
  have "post (do { do { update_limiter (ResetAccount (ev_sha env) (lr_email req));
      (if again then rehash env u (lr_password req) else answer ()) };
      if u_totp_enabled u then login_challenge_reply env rq u else login_session_reply env rq u }) s
      (\<lambda>rep s'. login_ok env (Some req) tb (tables_of s'))"
  proof (subst post_bind, rule keys.post_frame[OF pre])
    fix x s2
    assume k: "same_keys (tables_of s) (tables_of s2)"
    show "post (if u_totp_enabled u then login_challenge_reply env rq u else login_session_reply env rq u) s2
        (\<lambda>rep s'. login_ok env (Some req) tb (tables_of s'))"
    proof (cases "u_totp_enabled u")
      case True
      then show ?thesis unfolding login_ok_def
        using k assms(2) by (auto intro!: keys.post_frame[OF challenge_reply_keys] dest: keys.Q_trans)
    next
      case False
      have "post (login_session_reply env rq u) s2 (\<lambda>rep s'. login_ok env (Some req) tb (tables_of s'))"
        by (rule post_mono[OF session_reply_post])
          (use k assms(2) u False in \<open>auto simp: login_ok_def same_keys_def one_session_for_def\<close>)
      with False show ?thesis by simp
    qed
  qed
  then show ?thesis by (simp add: Some ua login_settle_def)
qed

lemma login_verdict_ok:
  assumes "case found of Inl e \<Rightarrow> True | Inr u \<Rightarrow> u \<in> set (users tb) \<and> EqualFold (u_email u) (lr_email req)"
  shows "case login_verdict env req found of None \<Rightarrow> True | Some (u, _) \<Rightarrow> u \<in> set (users tb) \<and> password_ok env req u"
  using assms by (auto simp: login_verdict_def password_ok_def split: sum.splits option.splits prod.splits)

text \<open>C19: a login issues a session only against the right password and never in place of a second factor.
  Whatever the request, the limiter's state and the statements that fail: after \<^verbatim>\<open>Login\<close> there are exactly the
  sessions from before, or one more, and then it belongs to a user of that email address who is not
  disabled, whose password the request carries, and who has no second factor enabled.\<close>

theorem Login_session_needs_password:
  "post (Login env rq body) s (\<lambda>rep s'. same_keys (tables_of s) (tables_of s') \<or>
     (\<exists>req u. body = Some req \<and> u \<in> set (users (tables_of s)) \<and> password_ok env req u \<and> \<not> u_totp_enabled u \<and>
        one_session_for (u_id u) (tables_of s) (tables_of s')))"
proof -
  have lookup: "post (do { found \<leftarrow> run_db (GetUserByEmail (lr_email req));
      login_settle env rq req (login_verdict env req found) }) s1 (\<lambda>rep s'. login_ok env (Some req) (tables_of s) (tables_of s'))"
    if "tables_of s1 = tables_of s" for s1 req
  proof (subst post_bind, rule post_run_db_cases, goal_cases)
    case (1 e d)
    then show ?case using that read_only_tabs[OF read_only_ops(3) 1]
      by (intro login_settle_post login_verdict_ok) simp_all
  next
    case (2 u d)
    then show ?case using that GetUserByEmail_Inr[OF 2]
      by (intro login_settle_post login_verdict_ok) simp_all
  qed
  have refl: "login_ok env body (tables_of s) (tables_of s)" by (simp add: login_ok_def keys.Q_refl)
  have "post (Login env rq body) s (\<lambda>rep s'. login_ok env body (tables_of s) (tables_of s'))"
  proof (cases body)
    case None
    with refl show ?thesis by (auto simp: Login_def allow_ip_def intro!: post_run_limiter)
  next
    case (Some req)
    show ?thesis
      unfolding Login_def allow_ip_def Some option.case
      using lookup[of _ req] refl Some
      by (auto simp del: post_bind simp: post_bind[of "run_limiter _"] intro!: post_run_limiter)
  qed
  then show ?thesis unfolding login_ok_def .
qed

section \<open>First run, once\<close>

text \<open>What a first-run setup leaves: one user, a platform administrator and owner of the default tenant.\<close>

definition first_admin :: "string \<Rightarrow> tables \<Rightarrow> tables \<Rightarrow> bool" where
  "first_admin email tb tb' \<longleftrightarrow> users tb = [] \<and> (\<exists>u t m. users tb' = [u] \<and> u_email u = email \<and> u_is_platform_admin u \<and>
     t \<in> set (tenants tb) \<and> t_slug t = defaultTenantSlug \<and> memberships tb' = memberships tb @ [m] \<and>
     m_user_id m = u_id u \<and> m_scope_type m = TenantScope \<and> m_scope_id m = t_id t \<and> m_role m = ''owner'')"

lemma CreateUser_Inr:
  assumes "CreateUser p d = (Inr u, d')"
  shows "u = new_user p (uuids d (drawn d)) (clock d)" "tabs d' = (tabs d)\<lparr>users := users (tabs d) @ [u]\<rparr>"
  using assms by (auto simp: CreateUser_def op_elims split: if_splits)

lemma CreateMembership_Inr:
  assumes "CreateMembership p d = (Inr m, d')"
  shows "m_user_id m = cm_user_id p" "m_scope_type m = cm_scope_type p" "m_scope_id m = cm_scope_id p"
    "m_role m = cm_role p" "tabs d' = (tabs d)\<lparr>memberships := memberships (tabs d) @ [m]\<rparr>"
  using assms by (auto simp: CreateMembership_def op_elims Let_def split: if_splits)

lemma GetTenantBySlug_Inr:
  assumes "GetTenantBySlug slug d = (Inr t, d')"
  shows "t \<in> set (tenants (tabs d))" "t_slug t = slug" "tabs d' = tabs d"
proof -
  have "filter (\<lambda>t. t_slug t = slug) (tenants (tabs d)) \<noteq> []" "t = hd (filter (\<lambda>t. t_slug t = slug) (tenants (tabs d)))"
    using assms by (simp_all add: GetTenantBySlug_def op_elims)
  then show "t \<in> set (tenants (tabs d))" "t_slug t = slug"
    using hd_in_set[of "filter (\<lambda>t. t_slug t = slug) (tenants (tabs d))"] by auto
  show "tabs d' = tabs d" using assms by (simp add: GetTenantBySlug_def op_elims)
qed

lemma createFirstAdmin_Inr:
  assumes "createFirstAdmin email name hash algo d = (Inr u, d')"
  shows "first_admin email (tabs d) (tabs d')" and "sessions (tabs d') = sessions (tabs d)"
proof -
  let ?p = "\<lparr>cu_email = email, cu_display_name = name, cu_password_hash = hash, cu_password_algo = algo,
      cu_is_platform_admin = True\<rparr>"
  let ?d1 = "pop_fault ((pop_fault d)\<lparr>locks := bootstrapLockKey # locks d\<rparr>)"
  obtain d2 t d3 m where d1: "users (tabs d) = []" "CreateUser ?p ?d1 = (Inr u, d2)"
      and t: "GetTenantBySlug defaultTenantSlug d2 = (Inr t, d3)"
      and m: "CreateMembership \<lparr>cm_user_id = u_id u, cm_scope_type = TenantScope, cm_scope_id = t_id t,
        cm_role = ''owner''\<rparr> d3 = (Inr m, d')"
    using assms
    by (auto simp: createFirstAdmin_def bind_op_Inr_iff AdvisoryLock_Inr_iff CountUsers_def query_Inr_iff split: if_splits)
  note u = CreateUser_Inr[OF d1(2)] and tt = GetTenantBySlug_Inr[OF t] and mm = CreateMembership_Inr[OF m]
  have "u_email u = email" "u_is_platform_admin u" unfolding u(1) new_user_def by simp_all
  with d1 u(2) tt mm show "first_admin email (tabs d) (tabs d')" "sessions (tabs d') = sessions (tabs d)"
    unfolding first_admin_def by (auto intro!: exI[of _ t])
qed

lemma createFirstAdmin_tx:
  assumes "\<not> in_tx d" and "WithTx (createFirstAdmin email name hash algo) d = (r, d')"
  shows "case r of Inl e \<Rightarrow> tabs d' = tabs d | Inr u \<Rightarrow> first_admin email (tabs d) (tabs d') \<and> sessions (tabs d') = sessions (tabs d)"
proof (cases r)
  case (Inl e)
  then show ?thesis using WithTx_atomic assms by fastforce
next
  case (Inr u)
  then obtain d1 where "createFirstAdmin email name hash algo ((pop_fault d)\<lparr>in_tx := True\<rparr>) = (Inr u, d1)"
      "d' = (pop_fault d1)\<lparr>in_tx := False, locks := []\<rparr>"
    using assms WithTx_Inr_iff[OF assms(1), of "createFirstAdmin email name hash algo" u d'] by auto
  then show ?thesis using createFirstAdmin_Inr[of email name hash algo "(pop_fault d)\<lparr>in_tx := True\<rparr>" u d1] Inr by simp
qed

text \<open>the first-run setup works once. \<^verbatim>\<open>Bootstrap\<close>, whatever the request and the statements that fail, either
  leaves users and memberships as they were, or it found no user and leaves exactly one: a
  platform administrator who is owner of the default tenant. A reply of 204 is only given in the second
  case, so once a user exists the public endpoint creates no user, no membership and no session.\<close>

theorem Bootstrap_first_user_only:
  assumes "\<not> in_tx (as_db s)"
  shows "post (Bootstrap env rq body) s (\<lambda>rep s'.
    users (tables_of s') = users (tables_of s) \<and> memberships (tables_of s') = memberships (tables_of s) \<and>
      sessions (tables_of s') = sessions (tables_of s) \<and> ar_status rep \<noteq> 204 \<or>
    (\<exists>email. first_admin email (tables_of s) (tables_of s')))"
proof (cases body)
  case None
  then show ?thesis by (simp add: Bootstrap_def invalidRequest_def writeErr_def)
next
  case (Some req)
  let ?P = "\<lambda>rep s'. users (tables_of s') = users (tables_of s) \<and> memberships (tables_of s') = memberships (tables_of s) \<and>
      sessions (tables_of s') = sessions (tables_of s) \<and> ar_status rep \<noteq> 204 \<or>
      (\<exists>email. first_admin email (tables_of s) (tables_of s'))"
  have issue: "post (Issue env uid (Some rq)) s1 (\<lambda>c s2. first_admin email (tables_of s) (tables_of s2))"
    if "first_admin email (tables_of s) (tables_of s1)" for uid s1 email
    using that by (intro post_mono[OF Issue_post]) (auto simp: first_admin_def split: option.splits)
  have create: "post (bootstrap_create env rq email name hash) s1 ?P"
    if "tables_of s1 = tables_of s" "\<not> in_tx (as_db s1)" for email name hash s1
    unfolding bootstrap_create_def post_bind
  proof (rule post_run_db_cases, goal_cases)
    case (1 e d)
    with createFirstAdmin_tx[OF that(2) 1] that(1) show ?case by (simp add: writeErr_def internalErr_def)
  next
    case (2 u d)
    with createFirstAdmin_tx[OF that(2) 2] that(1) show ?case
      by (auto simp: reset_ip_def intro!: post_mono[OF issue] post_update_limiter split: option.splits)
  qed
  show ?thesis
    using Some assms
    by (auto simp: Bootstrap_def allow_ip_def hashPassword_def Let_def rateLimited_def invalidRequest_def internalErr_def
        writeErr_def validatePasswordStrength_def simp del: post_bind intro!: post_run_limiter create
        simp: post_bind[of "run_limiter _"] post_bind[of "rand_Read _ _"] split: option.splits)
qed

definition fresh_tables :: tables where
  "fresh_tables = empty_tables\<lparr>tenants := [(sample_tenant ''t1'')\<lparr>t_slug := defaultTenantSlug\<rparr>]\<rparr>"

theorem Bootstrap_first_user_only_witness:
  "\<not> in_tx (as_db (sample_state fresh_tables)) \<and>
   post (Bootstrap sample_env (cookie_request []) (Some \<lparr>br_email = ''ann@example.org'',
       br_password = ''correct horse battery'', br_display_name = ''Ann''\<rparr>)) (sample_state fresh_tables) (\<lambda>rep s'.
    users (tables_of s') = [] \<and> memberships (tables_of s') = [] \<and> sessions (tables_of s') = [] \<and> ar_status rep \<noteq> 204 \<or>
    (\<exists>email. first_admin email fresh_tables (tables_of s')))"
  using Bootstrap_first_user_only[of "sample_state fresh_tables" sample_env "cookie_request []"]
  by (simp add: sample_state_def fresh_tables_def empty_tables_def)

section \<open>Own sessions only\<close>

lemma ListSessionsByUser_Inr:
  assumes "ListSessionsByUser uid d = (Inr rows, d')"
  shows "set rows = {r \<in> set (sessions (tabs d)). s_user_id r = uid \<and> s_revoked_at r = None \<and> s_absolute_expires_at r > clock d}"
    and "tabs d' = tabs d"
  using assms by (auto simp: ListSessionsByUser_def op_elims)

lemma RevokeSession_tabs:
  "tabs (snd (RevokeSession i d)) = tabs d \<or>
   tabs (snd (RevokeSession i d)) = (tabs d)\<lparr>sessions := update_where (\<lambda>s. s_id s = i \<and> s_revoked_at s = None)
      (\<lambda>s. s\<lparr>s_revoked_at := Some (clock d)\<rparr>) (sessions (tabs d))\<rparr>"
  by (simp add: RevokeSession_def bind_op_def exec_def stmt_def update_sessions_def ignore_count_def)

lemma RevokeSession_Inr:
  assumes "RevokeSession i d = (Inr u, d')"
  shows "tabs d' = (tabs d)\<lparr>sessions := update_where (\<lambda>s. s_id s = i \<and> s_revoked_at s = None)
      (\<lambda>s. s\<lparr>s_revoked_at := Some (clock d)\<rparr>) (sessions (tabs d))\<rparr>"
  using assms by (auto simp: RevokeSession_def op_elims update_sessions_def ignore_count_def)

text \<open>a user revokes only sessions of their own. Whatever id \<^verbatim>\<open>DeleteSession\<close> is asked to revoke and whatever
  statements fail, the sessions of every other user are unchanged, and a reply of 204 means that the
  session named was the caller's and is revoked now. (Session ids are unique, as the schema has it.)\<close>

theorem DeleteSession_own_only:
  assumes ids: "distinct (map s_id (sessions (tables_of s)))"
  shows "post (DeleteSession env (Some ident) target) s (\<lambda>rep s'.
    filter (\<lambda>r. s_user_id r \<noteq> id_user_id ident) (sessions (tables_of s'))
      = filter (\<lambda>r. s_user_id r \<noteq> id_user_id ident) (sessions (tables_of s)) \<and>
    (ar_status rep = 204 \<longrightarrow> (\<exists>r \<in> set (sessions (tables_of s')). s_id r = target \<and> s_user_id r = id_user_id ident \<and>
       s_revoked_at r \<noteq> None)))"
  unfolding DeleteSession_def option.case post_bind
proof (rule post_run_db_cases, goal_cases)
  case (1 e d)
  then show ?case using read_only_tabs[OF read_only_ops(13) 1] by (simp add: internalErr_def writeErr_def)
next
  case (2 rows d)
  note rows = ListSessionsByUser_Inr[OF 2]
  show ?case
  proof (cases "list_ex (\<lambda>row. s_id row = target \<and> Live env row) rows")
    case False
    then show ?thesis using rows(2) by (simp add: writeErr_def)
  next
    case True
    then obtain own where own: "own \<in> set (sessions (tables_of s))" "s_user_id own = id_user_id ident" "s_id own = target"
        "s_revoked_at own = None"
      using rows(1) by (auto simp: list_ex_iff)
    let ?upd = "update_where (\<lambda>s. s_id s = target \<and> s_revoked_at s = None) (\<lambda>s. s\<lparr>s_revoked_at := Some (clock d)\<rparr>)"
    have others: "filter (\<lambda>r. s_user_id r \<noteq> id_user_id ident) (?upd (sessions (tables_of s)))
        = filter (\<lambda>r. s_user_id r \<noteq> id_user_id ident) (sessions (tables_of s))"
    proof (rule filter_update_where_other)
      fix r assume "r \<in> set (sessions (tables_of s))" "s_id r = target \<and> s_revoked_at r = None"
      then have "r = own" using distinct_key_unique[OF ids _ own(1)] own(3) by simp
      then show "\<not> s_user_id r \<noteq> id_user_id ident" "\<not> s_user_id (r\<lparr>s_revoked_at := Some (clock d)\<rparr>) \<noteq> id_user_id ident"
        using own(2) by simp_all
    qed
    have revoked: "own\<lparr>s_revoked_at := Some (clock d)\<rparr> \<in> set (?upd (sessions (tables_of s)))"
      using own by (intro update_where_memI[OF HOL.refl]) auto
    obtain rv d2 where rv: "RevokeSession target d = (rv, d2)" by fastforce
    have t2: "sessions (tabs d2) = sessions (tables_of s) \<or> sessions (tabs d2) = ?upd (sessions (tables_of s))"
      using RevokeSession_tabs[of target d] rv rows(2) by auto
    have "filter (\<lambda>r. s_user_id r \<noteq> id_user_id ident) (sessions (tabs d2))
        = filter (\<lambda>r. s_user_id r \<noteq> id_user_id ident) (sessions (tables_of s))"
      using t2 others by auto
    moreover have "\<exists>r \<in> set (sessions (tabs d2)). s_id r = target \<and> s_user_id r = id_user_id ident \<and> s_revoked_at r \<noteq> None"
      if "rv = Inr ()"
      using RevokeSession_Inr[OF rv[unfolded that]] revoked own(2,3) rows(2)
      by (intro bexI[of _ "own\<lparr>s_revoked_at := Some (clock d)\<rparr>"]) simp_all
    ultimately show ?thesis
      using True rv by (cases rv) (simp_all add: post_run_db Revoke_def internalErr_def writeErr_def noContent_def)
  qed
qed

definition two_sessions :: tables where
  "two_sessions = sample_tables\<lparr>sessions := [sample_session ''tok'' ''u1'', sample_session ''other'' ''u2'']\<rparr>"

definition ann :: identity where
  "ann = session_identity (sample_user ''u1'' ''ann@example.org'') (sample_session ''tok'' ''u1'')"

theorem DeleteSession_own_only_witness:
  "filter (\<lambda>r. s_user_id r \<noteq> ''u1'') (sessions (tables_of (snd (run_state (DeleteSession sample_env (Some ann) ''s-other'')
     (sample_state two_sessions))))) = [sample_session ''other'' ''u2'']"
proof -
  have "distinct (map s_id (sessions (tables_of (sample_state two_sessions))))"
    by (simp add: two_sessions_def auth_sample_defs)
  from DeleteSession_own_only[OF this, of sample_env ann "''s-other''"] show ?thesis
    by (simp add: post_fst_snd two_sessions_def sample_state_def ann_def session_identity_def sample_user_def sample_session_def)
qed

end
