(* ===== verification/Auth_TOTP.thy ===== *)
theory Auth_TOTP
  imports Auth_Login
begin

text \<open>
  The second factor (\<^verbatim>\<open>auth/totp.go\<close>): enrolment, recovery codes, and the second step of a login. The
  code generator and checker of \<^verbatim>\<open>github.com/pquerna/otp\<close> are fields of the environment.
\<close>

section \<open>Recovery codes\<close>

definition recoveryCodeCount :: nat where "recoveryCodeCount = 10"
definition recoveryCodeHalf :: nat where "recoveryCodeHalf = 5"
definition maxTOTPAttempts :: int where "maxTOTPAttempts = 5"
definition crockford :: string where "crockford = ''0123456789ABCDEFGHJKMNPQRSTVWXYZ''"
definition defaultTOTPIssuer :: string where "defaultTOTPIssuer = ''Proxcloud''"

text \<open>\<^verbatim>\<open>v & 0x1F\<close> on a byte is its value modulo 32.\<close>

definition recovery_symbol :: "nat \<Rightarrow> char" where
  "recovery_symbol v = crockford ! (v mod 32)"

definition recovery_code_of :: "nat list \<Rightarrow> string" where
  "recovery_code_of raw = map recovery_symbol (take recoveryCodeHalf raw) @
     (if length raw > recoveryCodeHalf then ''-'' else '''') @ map recovery_symbol (drop recoveryCodeHalf raw)"

fun genRecoveryCodes :: "auth_env \<Rightarrow> nat \<Rightarrow> string list option act" where
  "genRecoveryCodes env 0 = answer (Some [])"
| "genRecoveryCodes env (Suc n) = do {
     raw \<leftarrow> rand_Read env (2 * recoveryCodeHalf);
     case raw of
       None \<Rightarrow> answer None
     | Some bs \<Rightarrow> do {
         rest \<leftarrow> genRecoveryCodes env n;
         answer (map_option ((#) (recovery_code_of bs)) rest)
       }
   }"

definition upper_char :: "char \<Rightarrow> char" where
  "upper_char c = (if 97 \<le> (of_char c :: nat) \<and> (of_char c :: nat) \<le> 122
                   then char_of (of_char c - (32 :: nat)) else c)"

definition normalize_char :: "char \<Rightarrow> string" where
  "normalize_char c =
     (if c = CHR ''-'' \<or> of_char c \<in> {32 :: nat, 9, 10, 13} then []
      else if c = CHR ''I'' \<or> c = CHR ''L'' then ''1''
      else if c = CHR ''O'' then ''0'' else [c])"

definition normalizeRecoveryCode :: "string \<Rightarrow> string" where
  "normalizeRecoveryCode code = concat (map normalize_char (map upper_char code))"

definition hashRecoveryCode :: "auth_env \<Rightarrow> string \<Rightarrow> string" where
  "hashRecoveryCode env code = ev_sha env (normalizeRecoveryCode code)"

definition hashRecoveryCodes :: "auth_env \<Rightarrow> string list \<Rightarrow> string list" where
  "hashRecoveryCodes env codes = map (hashRecoveryCode env) codes"

definition isSixDigits :: "string \<Rightarrow> bool" where
  "isSixDigits s \<longleftrightarrow> length s = 6 \<and> list_all is_digit s"

section \<open>Enrolment\<close>

definition EnrollTOTP :: "auth_env \<Rightarrow> identity option \<Rightarrow> auth_reply act" where
  "EnrollTOTP env i = (case i of
      None \<Rightarrow> answer notSignedIn
    | Some ident \<Rightarrow> do {
        ru \<leftarrow> run_db (GetUserByID (id_user_id ident));
        case ru of
          Inl e \<Rightarrow> answer internalErr
        | Inr user \<Rightarrow>
            if u_totp_enabled user then answer (writeErr [] ''conflict'' 409)
            else do {
              n \<leftarrow> State (\<lambda>s. (as_draws s, s\<lparr>as_draws := Suc (as_draws s)\<rparr>));
              case ev_totp_generate env n (if ev_issuer env = '''' then defaultTOTPIssuer else ev_issuer env) (u_email user) of
                None \<Rightarrow> answer internalErr
              | Some key \<Rightarrow> (case ev_secrets env of
                  None \<Rightarrow> answer internalErr
                | Some cipher \<Rightarrow> do {
                    nonce \<leftarrow> rand_Read env (NonceSize cipher);
                    case Seal cipher nonce (tk_secret key) of
                      None \<Rightarrow> answer (writeErr [] '''' 500)
                    | Some sealed \<Rightarrow> do {
                        r \<leftarrow> run_db (UpsertTOTPSecret (u_id user) sealed);
                        case r of
                          Inl e \<Rightarrow> answer internalErr
                        | Inr _ \<Rightarrow> answer (case ev_qr env key of
                            None \<Rightarrow> internalErr
                          | Some png \<Rightarrow> writeJSON [] (EnrollBody (tk_uri key) (''data:image/png;base64,'' @ png) (tk_secret key)))
                      }
                  })
            }
      })"

definition enable_tx :: "string \<Rightarrow> string list \<Rightarrow> unit op" where
  "enable_tx uid hashes = WithTx (bind_op (ConfirmTOTPSecret uid) (\<lambda>_.
     bind_op (SetTOTPEnabled uid True) (\<lambda>_. ReplaceRecoveryCodes uid hashes)))"

definition disable_tx :: "string \<Rightarrow> unit op" where
  "disable_tx uid = WithTx (bind_op (DeleteTOTPSecret uid) (\<lambda>_.
     bind_op (DeleteRecoveryCodes uid) (\<lambda>_. SetTOTPEnabled uid False)))"

text \<open>The audited part of an account change: nothing happens without an intent row, and the outcome is
  written to it.\<close>

definition audited_change :: "http_request \<Rightarrow> identity \<Rightarrow> string \<Rightarrow> int \<Rightarrow> auth_reply option act \<Rightarrow> auth_reply act" where
  "audited_change rq ident action status change = do {
     p \<leftarrow> run_db (Begin (account_intent action (id_user_id ident) (id_active_tenant ident) rq));
     case p of
       Inl e \<Rightarrow> answer internalErr
     | Inr pending \<Rightarrow> do {
         r \<leftarrow> change;
         case r of
           None \<Rightarrow> do { finalize pending ''error'' [(''status'', JNum 500)]; answer internalErr }
         | Some rep \<Rightarrow> do { finalize pending ''success'' [(''status'', JNum status)]; answer rep }
       }
   }"

text \<open>Fresh codes stored by a transaction, returned once.\<close>

definition replace_codes_by :: "auth_env \<Rightarrow> (string list \<Rightarrow> unit op) \<Rightarrow> auth_reply option act" where
  "replace_codes_by env tx = do {
     cs \<leftarrow> genRecoveryCodes env recoveryCodeCount;
     case cs of
       None \<Rightarrow> answer None
     | Some codes \<Rightarrow> do {
         r \<leftarrow> run_db (tx (hashRecoveryCodes env codes));
         answer (case r of Inl e \<Rightarrow> None | Inr _ \<Rightarrow> Some (writeJSON [] (RecoveryCodesBody codes)))
       }
   }"

definition enable_change :: "auth_env \<Rightarrow> http_request \<Rightarrow> string \<Rightarrow> auth_reply option act" where
  "enable_change env rq uid = do {
     r \<leftarrow> replace_codes_by env (enable_tx uid);
     case r of
       None \<Rightarrow> answer None
     | Some rep \<Rightarrow> do { reset_ip env rq; answer (Some rep) }
   }"

definition VerifyEnrollTOTP :: "auth_env \<Rightarrow> http_request \<Rightarrow> identity option \<Rightarrow> string option \<Rightarrow> auth_reply act" where
  "VerifyEnrollTOTP env rq i body = (case i of
      None \<Rightarrow> answer notSignedIn
    | Some ident \<Rightarrow> (case body of
        None \<Rightarrow> answer invalidRequest
      | Some code \<Rightarrow> do {
          ok \<leftarrow> allow_ip env rq;
          if \<not> ok then answer rateLimited
          else do {
            r \<leftarrow> run_db (GetTOTPSecret (id_user_id ident));
            case r of
              Inl e \<Rightarrow> answer (if e = ErrNotFound then writeErr [] ''conflict'' 409 else internalErr)
            | Inr sec \<Rightarrow>
                if ts_confirmed_at sec \<noteq> None then answer (writeErr [] ''conflict'' 409)
                else case ev_secrets env of
                  None \<Rightarrow> answer internalErr
                | Some cipher \<Rightarrow> (case Open cipher (ts_secret_encrypted sec) of
                    None \<Rightarrow> answer internalErr
                  | Some plain \<Rightarrow>
                      if \<not> ev_totp_validate env (TrimSpace code) plain (ev_now env)
                      then answer (writeErr [] ''unauthenticated'' 401)
                      else audited_change rq ident ''totp.enable'' 200 (enable_change env rq (id_user_id ident)))
          }
        }))"

definition verifyPasswordFor :: "auth_env \<Rightarrow> user \<Rightarrow> string \<Rightarrow> bool" where
  "verifyPasswordFor env user pw = (case u_password_hash user of
     None \<Rightarrow> False | Some h \<Rightarrow> fst (Verify_password (ev_crypto env) pw h (algoOf user)))"

definition reverifyPassword :: "auth_env \<Rightarrow> string \<Rightarrow> string \<Rightarrow> bool act" where
  "reverifyPassword env uid pw = do {
     r \<leftarrow> run_db (GetUserByID uid);
     answer (case r of Inl e \<Rightarrow> False | Inr user \<Rightarrow> verifyPasswordFor env user pw)
   }"

definition DisableTOTP :: "auth_env \<Rightarrow> http_request \<Rightarrow> identity option \<Rightarrow> string option \<Rightarrow> auth_reply act" where
  "DisableTOTP env rq i body = (case i of
      None \<Rightarrow> answer notSignedIn
    | Some ident \<Rightarrow> (case body of
        None \<Rightarrow> answer invalidRequest
      | Some pw \<Rightarrow> do {
          ok \<leftarrow> reverifyPassword env (id_user_id ident) pw;
          if \<not> ok then answer (writeErr [] ''unauthenticated'' 401)
          else audited_change rq ident ''totp.disable'' 204 (do {
            r \<leftarrow> run_db (disable_tx (id_user_id ident));
            answer (case r of Inl e \<Rightarrow> None | Inr _ \<Rightarrow> Some (noContent []))
          })
        }))"

definition RegenerateRecoveryCodes ::
  "auth_env \<Rightarrow> http_request \<Rightarrow> identity option \<Rightarrow> string option \<Rightarrow> auth_reply act" where
  "RegenerateRecoveryCodes env rq i body = (case i of
      None \<Rightarrow> answer notSignedIn
    | Some ident \<Rightarrow> (case body of
        None \<Rightarrow> answer invalidRequest
      | Some pw \<Rightarrow> do {
          r \<leftarrow> run_db (GetUserByID (id_user_id ident));
          case r of
            Inl e \<Rightarrow> answer internalErr
          | Inr user \<Rightarrow>
              if \<not> verifyPasswordFor env user pw then answer (writeErr [] ''unauthenticated'' 401)
              else if \<not> u_totp_enabled user then answer (writeErr [] ''conflict'' 409)
              else audited_change rq ident ''recovery.regenerate'' 200
                (replace_codes_by env (\<lambda>hs. WithTx (ReplaceRecoveryCodes (id_user_id ident) hs)))
        }))"

section \<open>The second step of a login\<close>

definition challengeExpired :: "cookie list \<Rightarrow> auth_reply" where
  "challengeExpired cs = writeErr cs ''totp_challenge_expired'' 401"

text \<open>\<^const>\<open>None\<close> is an error; a code of six digits is a TOTP, anything else a recovery code.\<close>

definition secondFactorValid :: "auth_env \<Rightarrow> string \<Rightarrow> string \<Rightarrow> bool option act" where
  "secondFactorValid env uid code =
     (if isSixDigits code then do {
        r \<leftarrow> run_db (GetTOTPSecret uid);
        answer (case r of
            Inl e \<Rightarrow> if e = ErrNotFound then Some False else None
          | Inr sec \<Rightarrow> (case (ts_confirmed_at sec, ev_secrets env) of
              (Some _, Some cipher) \<Rightarrow>
                map_option (\<lambda>plain. ev_totp_validate env code plain (ev_now env)) (Open cipher (ts_secret_encrypted sec))
            | _ \<Rightarrow> Some False))
      }
      else do {
        r \<leftarrow> run_db (ConsumeRecoveryCode uid (hashRecoveryCode env code));
        answer (case r of Inl e \<Rightarrow> None | Inr b \<Rightarrow> Some b)
      })"

definition soleTenant :: "string \<Rightarrow> string act" where
  "soleTenant uid = do {
     r \<leftarrow> run_db (ListTenantsForUser uid);
     answer (case r of Inr [(t, _)] \<Rightarrow> t_id t | _ \<Rightarrow> '''')
   }"

definition totp_intent :: "http_request \<Rightarrow> string \<Rightarrow> intent" where
  "totp_intent rq uid = account_intent ''totp.login'' uid '''' rq"

definition auditSecondFactorBlocked :: "http_request \<Rightarrow> string \<Rightarrow> unit act" where
  "auditSecondFactorBlocked rq uid = do {
     p \<leftarrow> run_db (Begin (totp_intent rq uid));
     case p of
       Inl e \<Rightarrow> answer ()
     | Inr pending \<Rightarrow> finalize pending ''denied'' [(''status'', JNum 429), (''second_factor_locked'', JBool True)]
   }"

definition totp_wrong :: "auth_env \<Rightarrow> http_request \<Rightarrow> login_challenge \<Rightarrow> string \<Rightarrow> bool \<Rightarrow> auth_reply act" where
  "totp_wrong env rq ch pending engages =
     (let detail = [(''status'', JNum 401)] @ (if engages then [(''second_factor_locked'', JBool True)] else []) in do {
      r \<leftarrow> run_db (RecordChallengeFailure (lc_id ch) maxTOTPAttempts);
      case r of
        Inl e \<Rightarrow> do { finalize pending ''error'' [(''status'', JNum 500)]; answer internalErr }
      | Inr True \<Rightarrow> do {
          finalize pending ''denied'' (detail @ [(''locked'', JBool True)]);
          answer (challengeExpired [ClearChallengeCookie env (Some rq)])
        }
      | Inr False \<Rightarrow> do { finalize pending ''denied'' detail; answer unauthenticated }
    })"

definition totp_session :: "auth_env \<Rightarrow> http_request \<Rightarrow> string \<Rightarrow> string \<Rightarrow> auth_reply act" where
  "totp_session env rq uid pending = do {
     prev \<leftarrow> Verify env rq;
     let mine = (case prev of None \<Rightarrow> None | Some p \<Rightarrow> if id_user_id p = uid then Some p else None);
     let prior = (case mine of None \<Rightarrow> '''' | Some p \<Rightarrow> id_session_id p);
     let active = (case mine of None \<Rightarrow> '''' | Some p \<Rightarrow> id_active_tenant p);
     tenant \<leftarrow> (if active = '''' then soleTenant uid else answer active);
     c \<leftarrow> issueSessionForTenant env uid tenant rq;
     case c of
       None \<Rightarrow> do { finalize pending ''error'' [(''status'', JNum 500)]; answer internalErr }
     | Some cookie \<Rightarrow> do {
         (if prior \<noteq> '''' then Revoke prior else answer (Inr ()));
         reset_ip env rq;
         update_limiter (ResetSecondFactor uid);
         finalize pending ''success'' [(''status'', JNum 204), (''user_id'', JStr uid)];
         answer (noContent [cookie, ClearChallengeCookie env (Some rq)])
       }
   }"

definition totp_decide :: "auth_env \<Rightarrow> http_request \<Rightarrow> login_challenge \<Rightarrow> string \<Rightarrow> bool \<Rightarrow> string \<Rightarrow> auth_reply act" where
  "totp_decide env rq ch code engages pending = do {
     v \<leftarrow> secondFactorValid env (lc_user_id ch) code;
     case v of
       None \<Rightarrow> do { finalize pending ''error'' [(''status'', JNum 500)]; answer internalErr }
     | Some False \<Rightarrow> totp_wrong env rq ch pending engages
     | Some True \<Rightarrow> do {
         r \<leftarrow> run_db (ConsumeLoginChallenge (lc_id ch));
         case r of
           Inl e \<Rightarrow> do { finalize pending ''error'' [(''status'', JNum 500)]; answer internalErr }
         | Inr False \<Rightarrow> do {
             finalize pending ''denied'' [(''status'', JNum 401)];
             answer (challengeExpired [ClearChallengeCookie env (Some rq)])
           }
         | Inr True \<Rightarrow> totp_session env rq (lc_user_id ch) pending
       }
   }"

definition totp_attempt :: "auth_env \<Rightarrow> http_request \<Rightarrow> string option \<Rightarrow> login_challenge \<Rightarrow> auth_reply act" where
  "totp_attempt env rq body ch = do {
     ok \<leftarrow> allow_ip env rq;
     if \<not> ok then answer rateLimited
     else do {
       v \<leftarrow> run_limiter (ReserveSecondFactorAttempt (lc_user_id ch) (ev_now env));
       if \<not> v_allowed v then do {
         (if v_first_block v then auditSecondFactorBlocked rq (lc_user_id ch) else answer ());
         answer rateLimited
       }
       else case body of
         None \<Rightarrow> answer invalidRequest
       | Some raw \<Rightarrow> do {
           p \<leftarrow> run_db (Begin (totp_intent rq (lc_user_id ch)));
           case p of
             Inl e \<Rightarrow> answer internalErr
           | Inr pending \<Rightarrow> totp_decide env rq ch (TrimSpace raw) (v_engages_lock v) pending
         }
     }
   }"

definition LoginTOTP :: "auth_env \<Rightarrow> http_request \<Rightarrow> string option \<Rightarrow> auth_reply act" where
  "LoginTOTP env rq body = (case Cookie rq ChallengeCookieName of
      None \<Rightarrow> answer (challengeExpired [])
    | Some v \<Rightarrow>
        if v = '''' then answer (challengeExpired [])
        else do {
          r \<leftarrow> run_db (GetLoginChallengeByTokenHash (hashToken env v));
          case r of
            Inl e \<Rightarrow> answer (challengeExpired [ClearChallengeCookie env (Some rq)])
          | Inr ch \<Rightarrow>
              if lc_consumed_at ch \<noteq> None \<or> ev_now env > lc_expires_at ch
              then answer (challengeExpired [ClearChallengeCookie env (Some rq)])
              else totp_attempt env rq body ch
        })"

section \<open>Typing a recovery code\<close>

definition separator :: "char \<Rightarrow> bool" where
  "separator c \<longleftrightarrow> c = CHR ''-'' \<or> of_char c \<in> {32 :: nat, 9, 10, 13}"

text \<open>A glyph that may be typed for a symbol of the alphabet: either case, and the look-alikes.\<close>

definition typed_for :: "char \<Rightarrow> char \<Rightarrow> bool" where
  "typed_for c k \<longleftrightarrow> upper_char c = k \<or> k = CHR ''1'' \<and> upper_char c \<in> {CHR ''I'', CHR ''L''} \<or>
     k = CHR ''0'' \<and> upper_char c = CHR ''O''"

definition types_code :: "string \<Rightarrow> nat list \<Rightarrow> bool" where
  "types_code t raw \<longleftrightarrow> list_all2 typed_for (filter (\<lambda>c. \<not> separator c) t) (map recovery_symbol raw)"

lemma crockford_chars:
  assumes "c \<in> set crockford"
  shows "upper_char c = c \<and> normalize_char c = [c] \<and> \<not> separator c"
proof -
  have "list_all (\<lambda>c. upper_char c = c \<and> normalize_char c = [c] \<and> \<not> separator c) crockford"
    by code_simp
  with assms show ?thesis unfolding list_all_iff by blast
qed

lemma recovery_symbol_in: "recovery_symbol v \<in> set crockford"
  unfolding recovery_symbol_def by (rule nth_mem) (simp add: crockford_def)

lemma separator_normal: "separator c \<Longrightarrow> normalize_char (upper_char c) = []"
  by (auto simp: separator_def normalize_char_def upper_char_def)

lemma typed_normal:
  assumes "k \<in> set crockford" and "typed_for c k"
  shows "normalize_char (upper_char c) = [k]"
  using assms crockford_chars[OF assms(1)] by (auto simp: typed_for_def normalize_char_def)

lemma normalize_types:
  assumes "list_all2 typed_for (filter (\<lambda>c. \<not> separator c) t) ks" and "set ks \<subseteq> set crockford"
  shows "normalizeRecoveryCode t = ks"
  using assms
proof (induction t arbitrary: ks)
  case Nil
  then show ?case by (simp add: normalizeRecoveryCode_def)
next
  case (Cons c t)
  show ?case
  proof (cases "separator c")
    case True
    with Cons show ?thesis by (simp add: normalizeRecoveryCode_def separator_normal)
  next
    case False
    with Cons.prems obtain k ks' where "ks = k # ks'" "typed_for c k"
        "list_all2 typed_for (filter (\<lambda>c. \<not> separator c) t) ks'"
      by (auto simp: list_all2_Cons1)
    with Cons show ?thesis by (simp add: normalizeRecoveryCode_def typed_normal)
  qed
qed

lemma types_code_normal: "types_code t raw \<Longrightarrow> normalizeRecoveryCode t = map recovery_symbol raw"
  unfolding types_code_def by (rule normalize_types) (use recovery_symbol_in in auto)

lemma typed_for_refl: "k \<in> set crockford \<Longrightarrow> typed_for k k"
  using crockford_chars by (simp add: typed_for_def)

lemma shown_code_types: "types_code (recovery_code_of raw) raw"
proof -
  have keep: "filter (\<lambda>c. \<not> separator c) (map recovery_symbol xs) = map recovery_symbol xs" for xs
    using crockford_chars[OF recovery_symbol_in] by (simp add: filter_id_conv)
  have "filter (\<lambda>c. \<not> separator c) (recovery_code_of raw) = map recovery_symbol raw"
    unfolding recovery_code_of_def filter_append keep
    by (simp add: separator_def flip: map_append)
  then show ?thesis
    using typed_for_refl[OF recovery_symbol_in] by (simp add: types_code_def list.rel_refl list_all2_same)
qed

lemma ReplaceRecoveryCodes_Inr:
  assumes "ReplaceRecoveryCodes uid hs d = (Inr u, d')"
  shows "recovery_codes (tabs d') = delete_where (\<lambda>c. rc_user_id c = uid) (recovery_codes (tabs d)) @ new_codes uid hs"
  using assms by (auto simp: ReplaceRecoveryCodes_def DeleteRecoveryCodes_def op_elims new_codes_def split: if_splits)

text \<open>a recovery code is accepted however it is typed, and once. Take the codes \<^verbatim>\<open>ReplaceRecoveryCodes\<close> stored for
  a user, one of them made from the random bytes \<open>raw\<close>. Whatever the user types for it, in either case,
  with hyphens and white space anywhere and with I, L or O for the digits they resemble, has the hash that
  was stored: it is accepted, and accepted a second time only if the codes are replaced; and the code as
  shown is one of these and can never be taken for a six-digit TOTP.\<close>

theorem recovery_code_typed_once:
  assumes "ReplaceRecoveryCodes uid (hashRecoveryCodes env (map recovery_code_of raws)) d = (Inr (), d1)"
    and "raw \<in> set raws" and "types_code t raw"
    and "ConsumeRecoveryCode uid (hashRecoveryCode env t) d1 = (Inr b, d2)"
    and "types_code t' raw" and "ConsumeRecoveryCode uid (hashRecoveryCode env t') d2 = (Inr b', d3)"
  shows "b \<and> \<not> b' \<and> types_code (recovery_code_of raw) raw \<and> (length raw = 10 \<longrightarrow> \<not> isSixDigits (recovery_code_of raw))"
proof -
  let ?h = "hashRecoveryCode env (recovery_code_of raw)"
  have same: "hashRecoveryCode env t = ?h" "hashRecoveryCode env t' = ?h"
    using types_code_normal[OF assms(3)] types_code_normal[OF assms(5)] types_code_normal[OF shown_code_types[of raw]]
    by (simp_all add: hashRecoveryCode_def)
  have "unspent_code (uid, ?h) d1"
    using assms(2) unfolding unspent_code_def ReplaceRecoveryCodes_Inr[OF assms(1)] exists_where_def new_codes_def hashRecoveryCodes_def
    by (auto intro!: bexI[of _ "\<lparr>rc_user_id = uid, rc_code_hash = ?h, rc_used_at = None\<rparr>"])
  then have b: "b" using ConsumeRecoveryCode_Inr(1)[OF assms(4)] same(1) by simp
  have "\<not> b'"
    using recovery.never_twice[of "(uid, ?h)" d1 d2 d2 b' d3] assms(4,6) b same by simp
  moreover have "\<not> isSixDigits (recovery_code_of raw)" if "length raw = 10"
    using that by (simp add: isSixDigits_def recovery_code_of_def recoveryCodeHalf_def)
  ultimately show ?thesis using b shown_code_types by blast
qed

definition sample_raw :: "nat list" where "sample_raw = [1, 0, 33, 64, 31, 10, 11, 12, 13, 14]"

theorem recovery_code_typed_once_witness:
  "recovery_code_of sample_raw = ''1010Z-ABCDE'' \<and>
   fst (ConsumeRecoveryCode ''u1'' (hashRecoveryCode sample_env '' iO1oz abCde '')
     (snd (ReplaceRecoveryCodes ''u1'' (hashRecoveryCodes sample_env (map recovery_code_of [sample_raw]))
        (sample_db sample_tables)))) = Inr True"
proof -
  let ?hs = "hashRecoveryCodes sample_env (map recovery_code_of [sample_raw])"
  let ?d = "sample_db sample_tables" and ?t = "'' iO1oz abCde ''"
  have users: "exists_where (\<lambda>u. u_id u = ''u1'') (users sample_tables)" by (simp add: sample_defs)
  have r0: "fst (ReplaceRecoveryCodes ''u1'' ?hs ?d) = Inr () \<and> faults (snd (ReplaceRecoveryCodes ''u1'' ?hs ?d)) = []"
    using users by (simp add: ReplaceRecoveryCodes_def DeleteRecoveryCodes_def bind_op_def hashRecoveryCodes_def)
  obtain d1 where r: "ReplaceRecoveryCodes ''u1'' ?hs ?d = (Inr (), d1)" "faults d1 = []"
    using r0 by (metis prod.collapse)
  have "\<exists>b d2. ConsumeRecoveryCode ''u1'' h d' = (Inr b, d2) \<and> faults d2 = []" if "faults d' = []" for h d'
    using that by (simp add: ConsumeRecoveryCode_def Let_def)
  then obtain b d2 b' d3 where c: "ConsumeRecoveryCode ''u1'' (hashRecoveryCode sample_env ?t) d1 = (Inr b, d2)"
      and c': "ConsumeRecoveryCode ''u1'' (hashRecoveryCode sample_env ?t) d2 = (Inr b', d3)"
    using r(2) by meson
  have "types_code ?t sample_raw"
    by code_simp
  from recovery_code_typed_once[OF r(1) _ this c this c'] have b by simp
  moreover have "recovery_code_of sample_raw = ''1010Z-ABCDE''"
    by (simp add: recovery_code_of_def sample_raw_def recoveryCodeHalf_def recovery_symbol_def crockford_def)
  ultimately show ?thesis using r(1) c by simp
qed

section \<open>Who passes the second step\<close>

text \<open>What counts as a valid second factor, read off the tables.\<close>

definition second_factor :: "auth_env \<Rightarrow> tables \<Rightarrow> string \<Rightarrow> string \<Rightarrow> bool" where
  "second_factor env tb uid code \<longleftrightarrow>
     (if isSixDigits code then
        (\<exists>sec \<in> set (totp_secrets tb). ts_user_id sec = uid \<and> ts_confirmed_at sec \<noteq> None \<and>
           (\<exists>cipher plain. ev_secrets env = Some cipher \<and> Open cipher (ts_secret_encrypted sec) = Some plain \<and>
              ev_totp_validate env code plain (ev_now env)))
      else exists_where (\<lambda>c. rc_user_id c = uid \<and> rc_code_hash c = hashRecoveryCode env code \<and> rc_used_at c = None)
             (recovery_codes tb))"

definition calm :: "tables \<Rightarrow> tables \<Rightarrow> bool" where
  "calm tb tb' \<longleftrightarrow> same_keys tb tb' \<and> login_challenges tb' = login_challenges tb"

interpretation calm: table_frame calm
  by unfold_locales (auto simp: calm_def same_keys_def)

lemmas calm_intros = calm.op_bind calm.op_exec calm.op_exec_checked calm.op_insert calm.op_attempt calm.op_WithTx
  calm.op_read_only

lemma calm_ops:
  "op_rel calm (RevokeSession i)" "op_rel calm (TouchSession i t)" "op_rel calm (SetSessionActiveTenant i tn)"
  "op_rel calm (Begin it)" "op_rel calm (Finalize p out det)" "op_rel calm (ConsumeRecoveryCode u h)"
  unfolding RevokeSession_def TouchSession_def SetSessionActiveTenant_def Begin_def InsertAuditIntent_def Finalize_def
    FinalizeAudit_def ConsumeRecoveryCode_def
  by (intro calm_intros; force simp: calm_def same_keys_def update_sessions_def map_update_where session_key_def Let_def
      split: if_splits)+

lemma calm_steps:
  "calm.preserved (Verify env rq)" "calm.preserved (soleTenant uid)" "calm.preserved (finalize p out det)"
  "calm.preserved (Revoke i)" "calm.preserved (reset_ip env rq)" "calm.preserved (allow_ip env rq)"
  unfolding Verify_def soleTenant_def finalize_def Revoke_def reset_ip_def allow_ip_def
  by (intro calm.steps calm_ops)+

lemma post_conj: "\<lbrakk>post m s P; post m s P'\<rbrakk> \<Longrightarrow> post m s (\<lambda>x s'. P x s' \<and> P' x s')"
  by (simp add: post_fst_snd)

lemma issue_for_tenant_post:
  "post (issueSessionForTenant env uid tenant rq) s (\<lambda>c s'. login_challenges (tables_of s') = login_challenges (tables_of s) \<and>
     (if c = None then same_keys (tables_of s) (tables_of s') else one_session_for uid (tables_of s) (tables_of s')))"
  unfolding issueSessionForTenant_def post_bind
proof (rule post_mono[OF Issue_post], goal_cases)
  case (1 c s1)
  show ?case
  proof (cases c)
    case None
    with 1 show ?thesis by (simp add: same_keys_def)
  next
    case (Some ck)
    with 1 have grown: "one_session_for uid (tables_of s) (tables_of s1)" "login_challenges (tables_of s1) = login_challenges (tables_of s)"
      by (auto simp: one_session_for_def)
    let ?rest = "if tenant = '''' then answer (Some ck)
      else do { i \<leftarrow> Verify env (probe_request ck);
        case i of None \<Rightarrow> answer (Some ck)
        | Some ident \<Rightarrow> do { run_db (SetSessionActiveTenant (id_session_id ident) (Some tenant)); answer (Some ck) } }"
    have "calm.preserved ?rest" by (intro calm.steps calm_ops calm_steps)
    then have "post ?rest s1 (\<lambda>c' s'. login_challenges (tables_of s') = login_challenges (tables_of s) \<and>
        one_session_for uid (tables_of s) (tables_of s'))"
      by (rule calm.post_frame) (use grown one_session_frame[OF keys.Q_refl] in \<open>auto simp: calm_def\<close>)
    moreover have "post ?rest s1 (\<lambda>c' s'. c' \<noteq> None)"
      by (auto simp: post_fst_snd split: option.split prod.split)
    ultimately show ?thesis unfolding Some option.case by (rule post_mono[OF post_conj]) auto
  qed
qed

definition totp_ok :: "string \<Rightarrow> string \<Rightarrow> tables \<Rightarrow> tables \<Rightarrow> bool" where
  "totp_ok uid ch tb tb' \<longleftrightarrow> same_keys tb tb' \<or>
     one_session_for uid tb tb' \<and> (\<forall>c \<in> set (login_challenges tb'). lc_id c = ch \<longrightarrow> lc_consumed_at c \<noteq> None)"

lemma totp_session_post:
  assumes "\<forall>c \<in> set (login_challenges (tables_of s)). lc_id c = ch \<longrightarrow> lc_consumed_at c \<noteq> None"
  shows "post (totp_session env rq uid pending) s (\<lambda>rep s'. totp_ok uid ch (tables_of s) (tables_of s'))"
proof -
  have settle: "post m s3 (\<lambda>rep s'. totp_ok uid ch (tables_of s) (tables_of s'))"
    if "calm.preserved m" "same_keys (tables_of s) (tables_of s3) \<or> one_session_for uid (tables_of s) (tables_of s3)"
      "login_challenges (tables_of s3) = login_challenges (tables_of s)" for m :: "auth_reply act" and s3
  proof (rule calm.post_frame[OF that(1)])
    fix x s'
    assume c: "calm (tables_of s3) (tables_of s')"
    then have "same_keys (tables_of s) (tables_of s') \<or> one_session_for uid (tables_of s) (tables_of s')"
      using that(2) by (auto simp: calm_def same_keys_def one_session_for_def)
    then show "totp_ok uid ch (tables_of s) (tables_of s')"
      using assms c that(3) by (auto simp: totp_ok_def calm_def)
  qed
  have active: "calm.preserved (if a = '''' then soleTenant uid else answer a)" for a
    by (intro calm.steps calm_steps)
  show ?thesis
    unfolding totp_session_def post_bind Let_def
  proof (rule calm.post_frame[OF calm_steps(1)], rule calm.post_frame[OF active], rule post_mono[OF issue_for_tenant_post], goal_cases)
    case (1 prev s1 tenant s2 c s3)
    then have s3: "login_challenges (tables_of s3) = login_challenges (tables_of s)"
      "if c = None then same_keys (tables_of s) (tables_of s3) else one_session_for uid (tables_of s) (tables_of s3)"
      by (auto simp: calm_def same_keys_def one_session_for_def split: if_splits)
    show ?case
    proof (cases c)
      case None
      then show ?thesis using s3 unfolding option.case None by (intro settle calm.steps calm_steps) auto
    next
      case (Some ck)
      then show ?thesis using s3 unfolding option.case Some by (intro settle calm.steps calm_steps) auto
    qed
  qed
qed

lemma GetTOTPSecret_Inr:
  assumes "GetTOTPSecret uid d = (Inr sec, d')"
  shows "sec \<in> set (totp_secrets (tabs d))" "ts_user_id sec = uid"
proof -
  have "filter (\<lambda>t. ts_user_id t = uid) (totp_secrets (tabs d)) \<noteq> []"
      "sec = hd (filter (\<lambda>t. ts_user_id t = uid) (totp_secrets (tabs d)))"
    using assms by (simp_all add: GetTOTPSecret_def op_elims)
  then show "sec \<in> set (totp_secrets (tabs d))" "ts_user_id sec = uid"
    using hd_in_set[of "filter (\<lambda>t. ts_user_id t = uid) (totp_secrets (tabs d))"] by auto
qed

lemma secondFactorValid_post:
  "post (secondFactorValid env uid code) s (\<lambda>v s'. calm (tables_of s) (tables_of s') \<and>
     (v = Some True \<longrightarrow> second_factor env (tables_of s) uid code))"
proof (rule post_conj)
  have "calm.preserved (secondFactorValid env uid code)"
    unfolding secondFactorValid_def by (intro calm.steps calm_ops)
  then show "post (secondFactorValid env uid code) s (\<lambda>v s'. calm (tables_of s) (tables_of s'))"
    by (rule calm.post_frame)
  show "post (secondFactorValid env uid code) s (\<lambda>v s'. v = Some True \<longrightarrow> second_factor env (tables_of s) uid code)"
  proof (cases "isSixDigits code")
    case True
    then show ?thesis
      unfolding secondFactorValid_def if_P[OF True] post_bind
    proof (intro post_run_db_cases, goal_cases)
      case (1 e d)
      then show ?case by simp
    next
      case (2 sec d)
      then show ?case using GetTOTPSecret_Inr[OF 2(2)] True
        by (auto simp: second_factor_def split: option.splits)
    qed
  next
    case False
    then show ?thesis
      unfolding secondFactorValid_def if_not_P[OF False] post_bind
    proof (intro post_run_db_cases, goal_cases)
      case (1 e d)
      then show ?case by simp
    next
      case (2 b d)
      then show ?case using ConsumeRecoveryCode_Inr(1)[OF 2(2)] False
        by (simp add: second_factor_def unspent_code_def)
    qed
  qed
qed

lemma failure_keys: "op_rel same_keys (RecordChallengeFailure i n)" "op_rel same_keys (ConsumeLoginChallenge i)"
  unfolding RecordChallengeFailure_def ConsumeLoginChallenge_def
  by (intro keys_intros; simp add: same_keys_def Let_def)+

lemma finalize_keys: "keys.preserved (finalize p out det)"
  unfolding finalize_def by (intro keys.steps keys_ops)

lemma totp_wrong_keys: "keys.preserved (totp_wrong env rq ch p e)"
  unfolding totp_wrong_def
  by (intro keys.steps keys_ops failure_keys finalize_keys) (simp split: bool.split add: keys.steps finalize_keys)

definition passed :: "auth_env \<Rightarrow> login_challenge \<Rightarrow> string \<Rightarrow> tables \<Rightarrow> tables \<Rightarrow> bool" where
  "passed env ch code tb tb' \<longleftrightarrow> same_keys tb tb' \<or> second_factor env tb (lc_user_id ch) code \<and>
     one_session_for (lc_user_id ch) tb tb' \<and> (\<forall>c \<in> set (login_challenges tb'). lc_id c = lc_id ch \<longrightarrow> lc_consumed_at c \<noteq> None)"

lemma passed_keys: "\<lbrakk>keys.preserved m; same_keys tb (tables_of s)\<rbrakk> \<Longrightarrow> post m s (\<lambda>rep s'. passed env ch code tb (tables_of s'))"
  by (erule keys.post_frame) (auto simp: passed_def same_keys_def)

lemma update_where_all:
  "\<lbrakk>\<And>r. P r \<Longrightarrow> Q (f r); \<And>r. \<not> P r \<Longrightarrow> Q r\<rbrakk> \<Longrightarrow> \<forall>r \<in> set (update_where P f rs). Q r"
  by (auto simp: set_update_where)

lemma ConsumeLoginChallenge_Inr:
  assumes "ConsumeLoginChallenge i d = (Inr b, d')"
  shows "same_keys (tabs d) (tabs d')" "\<forall>c \<in> set (login_challenges (tabs d')). lc_id c = i \<longrightarrow> lc_consumed_at c \<noteq> None"
proof -
  let ?P = "\<lambda>c. lc_id c = i \<and> lc_consumed_at c = None"
  have t: "tabs d' = (tabs d)\<lparr>login_challenges := update_where ?P (\<lambda>c. c\<lparr>lc_consumed_at := Some (clock d)\<rparr>) (login_challenges (tabs d))\<rparr>"
    using assms by (auto simp: ConsumeLoginChallenge_def op_elims Let_def)
  show "same_keys (tabs d) (tabs d')" by (simp add: t same_keys_def)
  show "\<forall>c \<in> set (login_challenges (tabs d')). lc_id c = i \<longrightarrow> lc_consumed_at c \<noteq> None"
    unfolding t by (simp, rule update_where_all) simp_all
qed

lemma totp_decide_post:
  "post (totp_decide env rq ch code e p) s (\<lambda>rep s'. passed env ch code (tables_of s) (tables_of s'))"
  unfolding totp_decide_def post_bind
proof (rule post_mono[OF secondFactorValid_post], goal_cases)
  case (1 v s1)
  then have k1: "same_keys (tables_of s) (tables_of s1)" by (simp add: calm_def)
  consider "v = None" | "v = Some False" | "v = Some True" by (cases v) auto
  then show ?case
  proof cases
    case 1
    then show ?thesis using k1 by (simp only: option.case) (intro passed_keys keys.steps finalize_keys)
  next
    case 2
    then show ?thesis using k1 by (simp only: option.case bool.case) (intro passed_keys totp_wrong_keys)
  next
    case 3
    with 1 have sf: "second_factor env (tables_of s) (lc_user_id ch) code" by simp
    show ?thesis
      unfolding 3 option.case bool.case post_bind
    proof (rule post_run_db_cases, goal_cases)
      case (1 e d)
      have "same_keys (tables_of s1) (tabs d)" using failure_keys(2)[of "lc_id ch"] 1 by (metis op_rel_def snd_conv)
      then have "same_keys (tables_of s) (tables_of (s1\<lparr>as_db := d\<rparr>))" using k1 by (simp add: same_keys_def)
      then show ?case unfolding sum.case by (rule passed_keys[rotated]) (intro keys.steps finalize_keys)
    next
      case (2 won d)
      note spent = ConsumeLoginChallenge_Inr[OF 2]
      have k2: "same_keys (tables_of s) (tables_of (s1\<lparr>as_db := d\<rparr>))" using spent(1) k1 by (simp add: same_keys_def)
      show ?case
      proof (cases won)
        case False
        then show ?thesis unfolding sum.case
          by (simp only: bool.case) (rule passed_keys[OF _ k2], intro keys.steps finalize_keys)
      next
        case True
        have "post (totp_session env rq (lc_user_id ch) p) (s1\<lparr>as_db := d\<rparr>)
            (\<lambda>rep s'. totp_ok (lc_user_id ch) (lc_id ch) (tables_of (s1\<lparr>as_db := d\<rparr>)) (tables_of s'))"
          using spent(2) by (intro totp_session_post) simp
        then have "post (totp_session env rq (lc_user_id ch) p) (s1\<lparr>as_db := d\<rparr>)
            (\<lambda>rep s'. passed env ch code (tables_of s) (tables_of s'))"
          by (rule post_mono) (use k2 sf in \<open>auto simp: totp_ok_def passed_def same_keys_def one_session_for_def\<close>)
        then show ?thesis using True by simp
      qed
    qed
  qed
qed

definition only_audit :: "tables \<Rightarrow> tables \<Rightarrow> bool" where
  "only_audit tb tb' \<longleftrightarrow> tb' = tb\<lparr>audit_log := audit_log tb'\<rparr>"

interpretation audit_only: table_frame only_audit
proof unfold_locales
  show "only_audit tb tb" for tb by (simp add: only_audit_def)
next
  fix tb tb1 tb2
  assume "only_audit tb tb1" "only_audit tb1 tb2"
  then obtain a b where "tb1 = tb\<lparr>audit_log := a\<rparr>" "tb2 = tb1\<lparr>audit_log := b\<rparr>" unfolding only_audit_def by blast
  then show "only_audit tb tb2" by (simp add: only_audit_def)
qed

lemma audit_ops: "op_rel only_audit (Begin it)" "op_rel only_audit (Finalize p out det)"
  unfolding Begin_def InsertAuditIntent_def Finalize_def FinalizeAudit_def
  by (intro audit_only.op_bind audit_only.op_insert audit_only.op_exec audit_only.op_attempt audit_only.op_read_only;
      force simp: only_audit_def split: if_splits)+

lemma only_audit_simps:
  assumes "only_audit tb tb'"
  shows "sessions tb' = sessions tb" "login_challenges tb' = login_challenges tb" "totp_secrets tb' = totp_secrets tb"
    "recovery_codes tb' = recovery_codes tb" "users tb' = users tb" "memberships tb' = memberships tb"
    "invitations tb' = invitations tb" "tenants tb' = tenants tb" "projects tb' = projects tb"
proof -
  obtain a where "tb' = tb\<lparr>audit_log := a\<rparr>" using assms unfolding only_audit_def by blast
  then show "sessions tb' = sessions tb" "login_challenges tb' = login_challenges tb" "totp_secrets tb' = totp_secrets tb"
    "recovery_codes tb' = recovery_codes tb" "users tb' = users tb" "memberships tb' = memberships tb"
    "invitations tb' = invitations tb" "tenants tb' = tenants tb" "projects tb' = projects tb"
    by simp_all
qed

lemma only_audit_factor: "only_audit tb tb1 \<Longrightarrow> second_factor env tb1 uid code = second_factor env tb uid code"
  unfolding second_factor_def by (simp only: only_audit_simps)

lemma only_audit_passed: "\<lbrakk>only_audit tb tb1; passed env ch code tb1 tb'\<rbrakk> \<Longrightarrow> passed env ch code tb tb'"
  by (simp add: passed_def same_keys_def one_session_for_def only_audit_simps only_audit_factor)

lemma only_audit_keys: "only_audit tb tb' \<Longrightarrow> same_keys tb tb'"
  by (simp add: only_audit_simps same_keys_def)

lemma totp_attempt_post:
  "post (totp_attempt env rq body ch) s (\<lambda>rep s'. same_keys (tables_of s) (tables_of s') \<or>
     (\<exists>raw. body = Some raw \<and> passed env ch (TrimSpace raw) (tables_of s) (tables_of s')))"
proof -
  let ?P = "\<lambda>rep s'. same_keys (tables_of s) (tables_of s') \<or>
     (\<exists>raw. body = Some raw \<and> passed env ch (TrimSpace raw) (tables_of s) (tables_of s'))"
  have blocked: "post (do { (if b then auditSecondFactorBlocked rq (lc_user_id ch) else answer ()); answer rateLimited }) s1 ?P"
    if "tables_of s1 = tables_of s" for b s1
  proof -
    have "audit_only.preserved (do { (if b then auditSecondFactorBlocked rq (lc_user_id ch) else answer ()); answer rateLimited })"
      unfolding auditSecondFactorBlocked_def finalize_def by (intro audit_only.steps audit_ops)
    then show ?thesis by (rule audit_only.post_frame) (use that in \<open>auto dest: only_audit_keys\<close>)
  qed
  have decide: "post (do { p \<leftarrow> run_db (Begin (totp_intent rq (lc_user_id ch)));
      case p of Inl e \<Rightarrow> answer internalErr | Inr pending \<Rightarrow> totp_decide env rq ch (TrimSpace raw) e1 pending }) s1 ?P"
    if "tables_of s1 = tables_of s" "body = Some raw" for raw e1 s1
    unfolding post_bind
  proof (rule audit_only.post_frame[OF audit_only.run_db[OF audit_ops(1)]], goal_cases)
    case (1 p s2)
    show ?case
    proof (cases p)
      case (Inl e)
      then show ?thesis using 1 that(1) by (simp add: only_audit_keys)
    next
      case (Inr pending)
      show ?thesis unfolding Inr sum.case
        by (rule post_mono[OF totp_decide_post]) (use 1 that only_audit_passed in auto)
    qed
  qed
  show ?thesis
    unfolding totp_attempt_def allow_ip_def
    using blocked decide keys.Q_refl
    by (auto simp del: post_bind simp: post_bind[of "run_limiter _"] intro!: post_run_limiter split: option.split)
qed

lemma GetChallenge_Inr:
  assumes "GetLoginChallengeByTokenHash h d = (Inr ch, d')"
  shows "ch \<in> set (login_challenges (tabs d))" "lc_token_hash ch = h" "tabs d' = tabs d"
proof -
  have "filter (\<lambda>c. lc_token_hash c = h) (login_challenges (tabs d)) \<noteq> []"
      "ch = hd (filter (\<lambda>c. lc_token_hash c = h) (login_challenges (tabs d)))" "tabs d' = tabs d"
    using assms by (simp_all add: GetLoginChallengeByTokenHash_def op_elims)
  then show "ch \<in> set (login_challenges (tabs d))" "lc_token_hash ch = h" "tabs d' = tabs d"
    using hd_in_set[of "filter (\<lambda>c. lc_token_hash c = h) (login_challenges (tabs d))"] by auto
qed

lemma LoginTOTP_both_factors:
  "post (LoginTOTP env rq body) s (\<lambda>rep s'. same_keys (tables_of s) (tables_of s') \<or>
     (\<exists>v ch raw. Cookie rq ChallengeCookieName = Some v \<and> ch \<in> set (login_challenges (tables_of s)) \<and>
        lc_token_hash ch = hashToken env v \<and> lc_consumed_at ch = None \<and> ev_now env \<le> lc_expires_at ch \<and>
        body = Some raw \<and> second_factor env (tables_of s) (lc_user_id ch) (TrimSpace raw) \<and>
        one_session_for (lc_user_id ch) (tables_of s) (tables_of s') \<and>
        (\<forall>c \<in> set (login_challenges (tables_of s')). lc_id c = lc_id ch \<longrightarrow> lc_consumed_at c \<noteq> None)))"
proof (cases "Cookie rq ChallengeCookieName")
  case None
  then show ?thesis by (simp add: LoginTOTP_def keys.Q_refl)
next
  case (Some v)
  show ?thesis
  proof (cases "v = ''''")
    case True
    with Some show ?thesis by (simp add: LoginTOTP_def keys.Q_refl)
  next
    case False
    show ?thesis
      unfolding LoginTOTP_def Some option.case if_not_P[OF False] post_bind
    proof (rule post_run_db_cases, goal_cases)
      case (1 e d)
      then show ?case using read_only_tabs[OF read_only_ops(9) 1] by (simp add: keys.Q_refl)
    next
      case (2 ch d)
      note ch = GetChallenge_Inr[OF 2]
      have "post (totp_attempt env rq body ch) (s\<lparr>as_db := d\<rparr>) (\<lambda>rep s'. same_keys (tables_of s) (tables_of s') \<or>
          (\<exists>raw. body = Some raw \<and> passed env ch (TrimSpace raw) (tables_of s) (tables_of s')))"
        using totp_attempt_post[of env rq body ch "s\<lparr>as_db := d\<rparr>"] ch(3) by simp
      then show ?case
        using ch keys.Q_refl unfolding sum.case
        by (auto simp: passed_def elim!: post_mono)
    qed
  qed
qed

text \<open>C17: no session without both factors. \<^verbatim>\<open>LoginTOTP\<close>, whatever the request, the limiter's state and the
  statements that fail, leaves the sessions as they were or adds one. It adds one only for a request whose
  \<^verbatim>\<open>proxcloud_totp\<close> cookie is the token of a stored challenge (which \<^verbatim>\<open>Login\<close> mints against the password) that is neither
  consumed nor expired, together with a code that is a valid TOTP of the challenge's user under a
  confirmed secret, or an unused recovery code of that user; the new session is that user's, and the challenge
  is consumed afterwards.\<close>

theorem LoginTOTP_needs_both_factors:
  "post (LoginTOTP env rq body) s (\<lambda>rep s'. same_keys (tables_of s) (tables_of s') \<or>
     (\<exists>v ch raw. Cookie rq ChallengeCookieName = Some v \<and> ch \<in> set (login_challenges (tables_of s)) \<and>
        lc_token_hash ch = hashToken env v \<and> lc_consumed_at ch = None \<and> ev_now env \<le> lc_expires_at ch \<and>
        body = Some raw \<and> second_factor env (tables_of s) (lc_user_id ch) (TrimSpace raw) \<and>
        one_session_for (lc_user_id ch) (tables_of s) (tables_of s') \<and>
        lc_id ch \<notin> lc_id ` {c \<in> set (login_challenges (tables_of s')). lc_consumed_at c = None}))"
  by (rule post_mono[OF LoginTOTP_both_factors]) fastforce

end
