(* ===== verification/Auth_Invites.thy ===== *)
theory Auth_Invites
  imports Auth_TOTP
begin

text \<open>
  The two public invitation endpoints (\<^verbatim>\<open>auth/invitations.go\<close>): looking an invitation up by its token, and
  accepting it, which creates or attaches the user, grants the membership the invitation row names and
  stamps the row, in one transaction.
\<close>

section \<open>Validating\<close>

definition errInviteGone :: store_error where "errInviteGone = ErrCaller ''auth: invite gone or expired''"
definition errInviteRaced :: store_error where "errInviteRaced = ErrCaller ''auth: invite already accepted (raced)''"

definition inviteNotFound :: auth_reply where "inviteNotFound = writeErr [] ''not_found'' 404"

definition inviteUnusable :: "auth_env \<Rightarrow> invitation \<Rightarrow> bool" where
  "inviteUnusable env invt \<longleftrightarrow> i_accepted_at invt \<noteq> None \<or> ev_now env > i_expires_at invt"

text \<open>The tenant's id and name and the label of the scope, or \<^const>\<open>None\<close> when the scope is gone.\<close>

definition resolveInviteTenant :: "invitation \<Rightarrow> (string \<times> string \<times> string) option act" where
  "resolveInviteTenant invt = (case i_scope_type invt of
      TenantScope \<Rightarrow> do {
        r \<leftarrow> run_db (GetTenantByID (i_scope_id invt));
        answer (case r of Inl e \<Rightarrow> None | Inr t \<Rightarrow> Some (t_id t, t_name t, t_name t))
      }
    | ProjectScope \<Rightarrow> do {
        r \<leftarrow> run_db (GetProjectByID (i_scope_id invt));
        case r of
          Inl e \<Rightarrow> answer None
        | Inr p \<Rightarrow> do {
            rt \<leftarrow> run_db (GetTenantByID (p_tenant_id p));
            answer (case rt of Inl e \<Rightarrow> None | Inr t \<Rightarrow> Some (t_id t, t_name t, t_name t @ '' / '' @ p_name p))
          }
      })"

definition resolveInviteScope :: "invitation \<Rightarrow> (string \<times> string) option act" where
  "resolveInviteScope invt = do {
     r \<leftarrow> resolveInviteTenant invt;
     answer (map_option snd r)
   }"

definition ValidateInvite :: "auth_env \<Rightarrow> http_request \<Rightarrow> auth_reply act" where
  "ValidateInvite env rq = do {
     ok \<leftarrow> allow_ip env rq;
     if \<not> ok then answer rateLimited
     else do {
       r \<leftarrow> run_db (GetInvitationByTokenHash (hashToken env (rq_param rq ''token'')));
       case r of
         Inl e \<Rightarrow> answer inviteNotFound
       | Inr invt \<Rightarrow>
           if inviteUnusable env invt then answer inviteNotFound
           else do {
             sc \<leftarrow> resolveInviteScope invt;
             case sc of
               None \<Rightarrow> answer inviteNotFound
             | Some (tenantName, label) \<Rightarrow> do {
                 ru \<leftarrow> run_db (GetUserByEmail (i_email invt));
                 case ru of
                   Inl e \<Rightarrow>
                     if e \<noteq> ErrNotFound then answer internalErr
                     else do {
                       v \<leftarrow> Verify env rq;
                       answer (writeJSON [] (InvitationBody \<lparr>idt_email = i_email invt, idt_tenant_name = tenantName,
                         idt_scope_type = i_scope_type invt, idt_scope_label = label, idt_role = i_role invt,
                         idt_expires_at = i_expires_at invt, idt_requires_account = True,
                         idt_signed_in_matches = (case v of None \<Rightarrow> False | Some i \<Rightarrow> EqualFold (id_email i) (i_email invt))\<rparr>))
                     }
                 | Inr _ \<Rightarrow> do {
                     v \<leftarrow> Verify env rq;
                     answer (writeJSON [] (InvitationBody \<lparr>idt_email = i_email invt, idt_tenant_name = tenantName,
                       idt_scope_type = i_scope_type invt, idt_scope_label = label, idt_role = i_role invt,
                       idt_expires_at = i_expires_at invt, idt_requires_account = False,
                       idt_signed_in_matches = (case v of None \<Rightarrow> False | Some i \<Rightarrow> EqualFold (id_email i) (i_email invt))\<rparr>))
                   }
               }
           }
     }
   }"

section \<open>Accepting\<close>

record accept_request =
  acr_display_name :: string
  acr_password :: string

text \<open>Who accepts: a signed-in user, or an account to be created.\<close>

datatype acceptor = Attach string | CreateNew string string

definition acceptor_user :: "acceptor \<Rightarrow> string \<Rightarrow> string op" where
  "acceptor_user who email = (case who of
      Attach uid \<Rightarrow> ret uid
    | CreateNew display hash \<Rightarrow>
        bind_op (CreateUser \<lparr>cu_email = email, cu_display_name = display, cu_password_hash = hash,
           cu_password_algo = AlgoArgon2id, cu_is_platform_admin = False\<rparr>) (\<lambda>u. ret (u_id u)))"

definition accept_body :: "auth_env \<Rightarrow> string \<Rightarrow> acceptor \<Rightarrow> string op" where
  "accept_body env tokenHash who =
     bind_op (attempt (GetInvitationByTokenHash tokenHash)) (\<lambda>r. case r of
       Inl e \<Rightarrow> raise errInviteGone
     | Inr cur \<Rightarrow>
         if i_accepted_at cur \<noteq> None then raise errInviteRaced
         else if ev_now env > i_expires_at cur then raise errInviteGone
         else bind_op (acceptor_user who (i_email cur)) (\<lambda>uid.
              bind_op (CreateMembership \<lparr>cm_user_id = uid, cm_scope_type = i_scope_type cur, cm_scope_id = i_scope_id cur,
                cm_role = i_role cur\<rparr>) (\<lambda>_.
              bind_op (MarkInvitationAccepted (i_id cur)) (\<lambda>won.
              if \<not> won then raise errInviteRaced else ret uid))))"

definition accept_failed :: "string \<Rightarrow> store_error \<Rightarrow> auth_reply act" where
  "accept_failed pending e =
     (if e = errInviteGone then do { finalize pending ''denied'' [(''status'', JNum 404)]; answer inviteNotFound }
      else if e = errInviteRaced then do { finalize pending ''denied'' [(''status'', JNum 409)]; answer (writeErr [] ''conflict'' 409) }
      else if e = ErrConflict then do { finalize pending ''denied'' [(''status'', JNum 409)]; answer (writeErr [] ''account_exists'' 409) }
      else do { finalize pending ''error'' [(''status'', JNum 500)]; answer internalErr })"

definition accept_session :: "auth_env \<Rightarrow> http_request \<Rightarrow> invitation \<Rightarrow> string \<Rightarrow> identity option \<Rightarrow> string \<Rightarrow> string \<Rightarrow> auth_reply act" where
  "accept_session env rq invt tenant signedIn pending uid = do {
     c \<leftarrow> issueSessionForTenant env uid tenant rq;
     case c of
       None \<Rightarrow> do { finalize pending ''error'' [(''status'', JNum 500)]; answer internalErr }
     | Some cookie \<Rightarrow> do {
         (case signedIn of
            None \<Rightarrow> answer (Inr ())
          | Some i \<Rightarrow> if id_user_id i = uid then Revoke (id_session_id i) else answer (Inr ()));
         reset_ip env rq;
         finalize pending ''success'' [(''status'', JNum 204), (''user_id'', JStr uid), (''email'', JStr (i_email invt))];
         answer (noContent [cookie])
       }
   }"

definition accept_commit :: "auth_env \<Rightarrow> http_request \<Rightarrow> invitation \<Rightarrow> string \<Rightarrow> identity option \<Rightarrow> acceptor \<Rightarrow> auth_reply act" where
  "accept_commit env rq invt tenant signedIn who = do {
     p \<leftarrow> run_db (Begin \<lparr>in_action = ''invitation.accept'',
            in_actor_user_id = (case who of Attach uid \<Rightarrow> uid | CreateNew _ _ \<Rightarrow> ''''), in_tenant_id = tenant,
            in_project_id = '''', in_target_type = ''invitation'', in_target_id = i_id invt, in_ip = ipPtr rq\<rparr>);
     case p of
       Inl e \<Rightarrow> answer internalErr
     | Inr pending \<Rightarrow> do {
         r \<leftarrow> run_db (WithTx (accept_body env (hashToken env (rq_param rq ''token'')) who));
         case r of
           Inl e \<Rightarrow> accept_failed pending e
         | Inr uid \<Rightarrow> accept_session env rq invt tenant signedIn pending uid
       }
   }"

text \<open>The acceptor, decided before the transaction: \<^const>\<open>Inl\<close> is a refusal.\<close>

definition accept_who :: "auth_env \<Rightarrow> invitation \<Rightarrow> accept_request \<Rightarrow> identity option \<Rightarrow> (auth_reply + acceptor) act" where
  "accept_who env invt req signedIn = (case signedIn of
      Some i \<Rightarrow> answer (if EqualFold (id_email i) (i_email invt) then Inr (Attach (id_user_id i))
                        else Inl (writeErr [] ''email_mismatch'' 409))
    | None \<Rightarrow> do {
        r \<leftarrow> run_db (GetUserByEmail (i_email invt));
        case r of
          Inr _ \<Rightarrow> answer (Inl (writeErr [] ''account_exists'' 409))
        | Inl e \<Rightarrow>
            if e \<noteq> ErrNotFound then answer (Inl internalErr)
            else
              let display = TrimSpace (acr_display_name req) in
              if display = '''' then answer (Inl invalidRequest)
              else case validatePasswordStrength (acr_password req) of
                Some perr \<Rightarrow> answer (Inl perr)
              | None \<Rightarrow> do {
                  h \<leftarrow> hashPassword env (acr_password req);
                  answer (case h of None \<Rightarrow> Inl internalErr | Some hash \<Rightarrow> Inr (CreateNew display hash))
                }
      })"

definition accept_invitation :: "auth_env \<Rightarrow> http_request \<Rightarrow> accept_request \<Rightarrow> invitation \<Rightarrow> auth_reply act" where
  "accept_invitation env rq req invt = do {
     sc \<leftarrow> resolveInviteTenant invt;
     case sc of
       None \<Rightarrow> answer inviteNotFound
     | Some (tenant, _) \<Rightarrow> do {
         signedIn \<leftarrow> Verify env rq;
         w \<leftarrow> accept_who env invt req signedIn;
         case w of
           Inl rep \<Rightarrow> answer rep
         | Inr who \<Rightarrow> accept_commit env rq invt tenant signedIn who
       }
   }"

definition AcceptInvite :: "auth_env \<Rightarrow> http_request \<Rightarrow> accept_request option \<Rightarrow> auth_reply act" where
  "AcceptInvite env rq body = do {
     ok \<leftarrow> allow_ip env rq;
     if \<not> ok then answer rateLimited
     else case body of
       None \<Rightarrow> answer invalidRequest
     | Some req \<Rightarrow> do {
         r \<leftarrow> run_db (GetInvitationByTokenHash (hashToken env (rq_param rq ''token'')));
         case r of
           Inl e \<Rightarrow> answer inviteNotFound
         | Inr invt \<Rightarrow>
             if inviteUnusable env invt then answer inviteNotFound else accept_invitation env rq req invt
       }
   }"

section \<open>What an acceptance grants\<close>

text \<open>Users, memberships and invitations as they were.\<close>

definition same_roster :: "tables \<Rightarrow> tables \<Rightarrow> bool" where
  "same_roster tb tb' \<longleftrightarrow> users tb' = users tb \<and> memberships tb' = memberships tb \<and> invitations tb' = invitations tb"

interpretation roster: table_frame same_roster
  by unfold_locales (auto simp: same_roster_def)

lemmas roster_intros = roster.op_bind roster.op_exec roster.op_exec_checked roster.op_insert roster.op_attempt
  roster.op_WithTx roster.op_read_only

lemma roster_ops:
  "op_rel same_roster (RevokeSession i)" "op_rel same_roster (TouchSession i t)"
  "op_rel same_roster (SetSessionActiveTenant i tn)" "op_rel same_roster (CreateSession p)"
  "op_rel same_roster (Begin it)" "op_rel same_roster (Finalize pn out det)"
  unfolding RevokeSession_def TouchSession_def SetSessionActiveTenant_def CreateSession_def Begin_def InsertAuditIntent_def
    Finalize_def FinalizeAudit_def
  by (intro roster_intros; force simp: same_roster_def update_sessions_def split: if_splits)+

lemma roster_steps:
  "roster.preserved (Verify env rq)" "roster.preserved (finalize p out det)" "roster.preserved (Revoke i)"
  "roster.preserved (reset_ip env rq)" "roster.preserved (allow_ip env rq)" "roster.preserved (Issue env uid r)"
  unfolding Verify_def finalize_def Revoke_def reset_ip_def allow_ip_def Issue_def
  by (intro roster.steps roster_ops)+

lemma roster_resolve: "roster.preserved (resolveInviteTenant invt)"
proof (cases "i_scope_type invt")
  case TenantScope
  show ?thesis unfolding resolveInviteTenant_def TenantScope scope_type.case by (intro roster.steps)
next
  case ProjectScope
  show ?thesis unfolding resolveInviteTenant_def ProjectScope scope_type.case by (intro roster.steps)
qed

lemma roster_issue: "roster.preserved (issueSessionForTenant env uid tenant rq)"
  unfolding issueSessionForTenant_def by (intro roster.steps roster_ops roster_steps)

lemma roster_who: "roster.preserved (accept_who env invt req signedIn)"
  unfolding accept_who_def by (intro roster.steps roster_ops roster_steps)

lemma roster_after:
  "roster.preserved (accept_session env rq invt tenant signedIn pending uid)"
  "roster.preserved (accept_failed pending e)"
  unfolding accept_session_def accept_failed_def by (intro roster.steps roster_issue roster_steps)+

lemma GetInvitation_Inr:
  assumes "GetInvitationByTokenHash h d = (Inr invt, d')"
  shows "invt \<in> set (invitations (tabs d))" "i_token_hash invt = h" "tabs d' = tabs d"
    "invt = hd (filter (\<lambda>r. i_token_hash r = h) (invitations (tabs d)))"
proof -
  have ne: "filter (\<lambda>r. i_token_hash r = h) (invitations (tabs d)) \<noteq> []"
      "invt = hd (filter (\<lambda>r. i_token_hash r = h) (invitations (tabs d)))" "tabs d' = tabs d"
    using assms by (simp_all add: GetInvitationByTokenHash_def op_elims)
  then show "invt \<in> set (invitations (tabs d))" "i_token_hash invt = h" "tabs d' = tabs d"
    using hd_in_set[of "filter (\<lambda>r. i_token_hash r = h) (invitations (tabs d))"] by auto
  show "invt = hd (filter (\<lambda>r. i_token_hash r = h) (invitations (tabs d)))" by (rule ne(2))
qed

text \<open>The users after an acceptance: unchanged when a user was attached, one more without privileges when an
  account was created. The acceptor's address is the invited one in both cases.\<close>

definition accepted_by :: "acceptor \<Rightarrow> string \<Rightarrow> string \<Rightarrow> tables \<Rightarrow> tables \<Rightarrow> bool" where
  "accepted_by who email uid tb tb' \<longleftrightarrow> (case who of
      Attach u \<Rightarrow> uid = u \<and> users tb' = users tb
    | CreateNew _ _ \<Rightarrow> (\<exists>u. users tb' = users tb @ [u] \<and> u_id u = uid \<and> u_email u = email \<and> \<not> u_is_platform_admin u))"

definition grants_role :: "acceptor \<Rightarrow> invitation \<Rightarrow> string \<Rightarrow> tables \<Rightarrow> tables \<Rightarrow> bool" where
  "grants_role who invt uid tb tb' \<longleftrightarrow> accepted_by who (i_email invt) uid tb tb' \<and>
     (\<exists>m. memberships tb' = memberships tb @ [m] \<and> m_user_id m = uid \<and> m_scope_type m = i_scope_type invt \<and>
        m_scope_id m = i_scope_id invt \<and> m_role m = i_role invt) \<and>
     (\<forall>r \<in> set (invitations tb'). i_id r = i_id invt \<longrightarrow> i_accepted_at r \<noteq> None)"

lemma acceptor_user_Inr:
  assumes "acceptor_user who email d = (Inr uid, d')"
  shows "accepted_by who email uid (tabs d) (tabs d')" "memberships (tabs d') = memberships (tabs d)"
    "invitations (tabs d') = invitations (tabs d)"
proof -
  have "accepted_by who email uid (tabs d) (tabs d') \<and> memberships (tabs d') = memberships (tabs d) \<and>
      invitations (tabs d') = invitations (tabs d)"
  proof (cases who)
    case (Attach u)
    with assms show ?thesis by (auto simp: acceptor_user_def accepted_by_def)
  next
    case (CreateNew display hash)
    then obtain u where u: "CreateUser \<lparr>cu_email = email, cu_display_name = display, cu_password_hash = hash,
           cu_password_algo = AlgoArgon2id, cu_is_platform_admin = False\<rparr> d = (Inr u, d')" "uid = u_id u"
      using assms by (auto simp: acceptor_user_def bind_op_Inr_iff)
    note cu = CreateUser_Inr[OF u(1)]
    have "u_email u = email" "\<not> u_is_platform_admin u" unfolding cu(1) new_user_def by simp_all
    with CreateNew u(2) cu(2) show ?thesis by (simp add: accepted_by_def)
  qed
  then show "accepted_by who email uid (tabs d) (tabs d')" "memberships (tabs d') = memberships (tabs d)"
    "invitations (tabs d') = invitations (tabs d)" by simp_all
qed

lemma MarkInvitationAccepted_Inr:
  assumes "MarkInvitationAccepted i d = (Inr b, d')"
  shows "users (tabs d') = users (tabs d)" "memberships (tabs d') = memberships (tabs d)"
    "\<forall>r \<in> set (invitations (tabs d')). i_id r = i \<longrightarrow> i_accepted_at r \<noteq> None"
proof -
  let ?P = "\<lambda>r. i_id r = i \<and> i_accepted_at r = None"
  have t: "tabs d' = (tabs d)\<lparr>invitations := update_where ?P (\<lambda>r. r\<lparr>i_accepted_at := Some (clock d), i_updated_at := clock d\<rparr>)
      (invitations (tabs d))\<rparr>"
    using assms by (auto simp: MarkInvitationAccepted_def op_elims Let_def)
  show "users (tabs d') = users (tabs d)" "memberships (tabs d') = memberships (tabs d)" unfolding t by simp_all
  show "\<forall>r \<in> set (invitations (tabs d')). i_id r = i \<longrightarrow> i_accepted_at r \<noteq> None"
    unfolding t by (simp, rule update_where_all) simp_all
qed

lemma bind_attempt: "bind_op (attempt m) k d = k (fst (m d)) (snd (m d))"
  by (simp add: bind_op_def)

lemma accept_body_Inr:
  assumes "accept_body env h who d = (Inr uid, d')"
  shows "\<exists>invt. invt = hd (filter (\<lambda>r. i_token_hash r = h) (invitations (tabs d))) \<and> invt \<in> set (invitations (tabs d)) \<and>
    i_token_hash invt = h \<and> \<not> inviteUnusable env invt \<and> grants_role who invt uid (tabs d) (tabs d')"
proof -
  let ?rest = "\<lambda>invt. bind_op (acceptor_user who (i_email invt)) (\<lambda>uid.
              bind_op (CreateMembership \<lparr>cm_user_id = uid, cm_scope_type = i_scope_type invt, cm_scope_id = i_scope_id invt,
                cm_role = i_role invt\<rparr>) (\<lambda>_.
              bind_op (MarkInvitationAccepted (i_id invt)) (\<lambda>won.
              if \<not> won then raise errInviteRaced else ret uid)))"
  obtain r d1 where r0: "GetInvitationByTokenHash h d = (r, d1)" by fastforce
  then have "(case r of Inl e \<Rightarrow> raise errInviteGone | Inr cur \<Rightarrow> if i_accepted_at cur \<noteq> None then raise errInviteRaced
         else if ev_now env > i_expires_at cur then raise errInviteGone else ?rest cur) d1 = (Inr uid, d')"
    using assms by (simp add: accept_body_def bind_attempt)
  note r = r0 this
  then obtain invt where ri: "r = Inr invt" by (cases r) simp_all
  have get: "GetInvitationByTokenHash h d = (Inr invt, d1)" "i_accepted_at invt = None" "\<not> ev_now env > i_expires_at invt"
    and rest: "?rest invt d1 = (Inr uid, d')"
    using r ri by (auto split: if_splits)
  obtain d2 d3 m won where steps: "acceptor_user who (i_email invt) d1 = (Inr uid, d2)"
      "CreateMembership \<lparr>cm_user_id = uid, cm_scope_type = i_scope_type invt, cm_scope_id = i_scope_id invt,
         cm_role = i_role invt\<rparr> d2 = (Inr m, d3)" "MarkInvitationAccepted (i_id invt) d3 = (Inr won, d')"
    using rest unfolding bind_op_Inr_iff by (auto split: if_splits)
  note a = acceptor_user_Inr[OF steps(1)] and m = CreateMembership_Inr[OF steps(2)] and k = MarkInvitationAccepted_Inr[OF steps(3)]
  note g = GetInvitation_Inr[OF get(1)]
  have "accepted_by who (i_email invt) uid (tabs d) (tabs d')"
    using a(1) m(5) k(1) g(3) by (simp add: accepted_by_def split: acceptor.splits)
  moreover have "memberships (tabs d') = memberships (tabs d) @ [m]" using a(2) m(5) k(2) g(3) by simp
  ultimately have "grants_role who invt uid (tabs d) (tabs d')"
    using m(1-4) k(3) unfolding grants_role_def by auto
  then show ?thesis using g get(2,3) by (intro exI[of _ invt]) (simp add: inviteUnusable_def)
qed

text \<open>A statement outside a transaction leaves the connection outside one.\<close>

definition keeps_tx :: "'a op \<Rightarrow> bool" where
  "keeps_tx m \<longleftrightarrow> (\<forall>d. in_tx (snd (m d)) = in_tx d)"

lemma keeps_tx_shapes:
  "keeps_tx (ret x)" "keeps_tx (raise e)" "keeps_tx (query f)" "keeps_tx (query_now g)" "keeps_tx (exec h)"
  "keeps_tx (exec_checked hc)" "keeps_tx (insert_row i)" "keeps_tx (first_row rs)" "keeps_tx (affected_or_missing n)"
  "keeps_tx (ignore_count n)"
  by (auto simp: keeps_tx_def query_def query_now_def exec_def exec_checked_def insert_row_def stmt_def Let_def first_row_def
      affected_or_missing_def ignore_count_def split: prod.split sum.split list.split)

lemma keeps_tx_bind: "\<lbrakk>keeps_tx m; \<And>x. keeps_tx (k x)\<rbrakk> \<Longrightarrow> keeps_tx (bind_op m k)"
  unfolding keeps_tx_def bind_op_def by (auto split: prod.split sum.split) (metis snd_conv)+

lemma keeps_tx_attempt: "keeps_tx m \<Longrightarrow> keeps_tx (attempt m)"
  by (simp add: keeps_tx_def)

lemma keeps_tx_query_row: "keeps_tx (query_row f)"
  unfolding query_row_def by (intro keeps_tx_bind keeps_tx_shapes)

definition quiet :: "auth_state \<Rightarrow> auth_state \<Rightarrow> bool" where
  "quiet s s' \<longleftrightarrow> same_roster (tables_of s) (tables_of s') \<and> in_tx (as_db s') = in_tx (as_db s)"

interpretation quiet: frame quiet
  by unfold_locales (auto simp: quiet_def same_roster_def)

lemma quiet_db: "\<lbrakk>op_rel same_roster m; keeps_tx m\<rbrakk> \<Longrightarrow> state_io_rel quiet (run_db m)"
  by (rule frame_db) (simp add: quiet_def op_rel_def keeps_tx_def)

lemma quiet_read: "\<lbrakk>read_only m; keeps_tx m\<rbrakk> \<Longrightarrow> state_io_rel quiet (run_db m)"
  by (intro quiet_db roster.op_read_only)

lemma quiet_other: "state_io_rel quiet (run_limiter f)" "state_io_rel quiet (rand_Read env n)"
  by (auto intro!: frame_limiter frame_rand simp: quiet_def roster.Q_refl)

lemma keeps_tx_ops:
  "keeps_tx (GetSessionByTokenHash h)" "keeps_tx (GetUserByID i)" "keeps_tx (GetUserByEmail e)"
  "keeps_tx (GetInvitationByTokenHash h)" "keeps_tx (GetTenantByID i)" "keeps_tx (GetProjectByID i)"
  "keeps_tx (TouchSession i t)" "keeps_tx (Begin it)"
  unfolding GetSessionByTokenHash_def GetUserByID_def GetUserByEmail_def GetInvitationByTokenHash_def GetTenantByID_def
    GetProjectByID_def TouchSession_def Begin_def InsertAuditIntent_def
  by (intro keeps_tx_query_row keeps_tx_bind keeps_tx_shapes)+

lemmas quiet_rules = quiet.return quiet.bind quiet.cases_if quiet.cases_sum quiet.cases_option quiet.cases_let quiet_other
  quiet_read quiet_db read_only_ops roster_ops keeps_tx_ops

lemma quiet_steps:
  "state_io_rel quiet (Verify env rq)" "state_io_rel quiet (allow_ip env rq)" "state_io_rel quiet (hashPassword env pw)"
  unfolding Verify_def allow_ip_def hashPassword_def by (intro quiet_rules)+

lemma quiet_resolve: "state_io_rel quiet (resolveInviteTenant invt)"
proof (cases "i_scope_type invt")
  case TenantScope
  show ?thesis unfolding resolveInviteTenant_def TenantScope scope_type.case by (intro quiet_rules)
next
  case ProjectScope
  show ?thesis unfolding resolveInviteTenant_def ProjectScope scope_type.case by (intro quiet_rules)
qed

lemma quiet_who: "state_io_rel quiet (accept_who env invt req signedIn)"
  unfolding accept_who_def by (intro quiet_rules quiet_steps)

text \<open>The outcome of an acceptance, from the tables before to those after.\<close>

definition accept_outcome :: "string \<Rightarrow> auth_env \<Rightarrow> acceptor \<Rightarrow> tables \<Rightarrow> auth_reply \<Rightarrow> tables \<Rightarrow> bool" where
  "accept_outcome h env who tb rep tb' \<longleftrightarrow> same_roster tb tb' \<and> ar_status rep \<noteq> 204 \<or>
     (\<exists>uid. grants_role who (hd (filter (\<lambda>r. i_token_hash r = h) (invitations tb))) uid tb tb')"

lemma grants_frame:
  "\<lbrakk>same_roster tb tb1; grants_role who invt uid tb1 tb2; same_roster tb2 tb3\<rbrakk> \<Longrightarrow> grants_role who invt uid tb tb3"
  by (cases who) (auto simp: grants_role_def accepted_by_def same_roster_def)

lemma post_always: "(\<And>x s'. P x s') \<Longrightarrow> post m s P"
  by (simp add: post_fst_snd)

lemma failed_status: "post (accept_failed pending e) s (\<lambda>rep s'. ar_status rep \<noteq> 204)"
  by (simp add: accept_failed_def inviteNotFound_def internalErr_def writeErr_def post_always)

lemma accept_commit_post:
  assumes "\<not> in_tx (as_db s)"
  shows "post (accept_commit env rq invt tenant signedIn who) s (\<lambda>rep s'.
    accept_outcome (hashToken env (rq_param rq ''token'')) env who (tables_of s) rep (tables_of s'))"
  unfolding accept_commit_def post_bind
proof (rule quiet.post_frame[OF quiet_db[OF roster_ops(5) keeps_tx_ops(8)]], goal_cases)
  case (1 p s1)
  let ?h = "hashToken env (rq_param rq ''token'')"
  have r1: "same_roster (tables_of s) (tables_of s1)" "\<not> in_tx (as_db s1)" using 1 assms by (simp_all add: quiet_def)
  show ?case
  proof (cases p)
    case (Inl e)
    then show ?thesis using r1 by (simp add: accept_outcome_def internalErr_def writeErr_def)
  next
    case (Inr pending)
    show ?thesis
      unfolding Inr sum.case post_bind
    proof (rule post_run_db_cases, goal_cases)
      case (1 e d)
      have "same_roster (tables_of s) (tables_of (s1\<lparr>as_db := d\<rparr>))"
        using WithTx_atomic[OF r1(2) 1] r1(1) by simp
      then have "post (accept_failed pending e) (s1\<lparr>as_db := d\<rparr>) (\<lambda>rep s'. same_roster (tables_of s) (tables_of s'))"
        by (intro roster.post_frame[OF roster_after(2)]) (auto simp: same_roster_def)
      from post_conj[OF this failed_status] show ?case
        unfolding sum.case by (rule post_mono) (simp add: accept_outcome_def)
    next
      case (2 uid d)
      then obtain d1 where body: "accept_body env ?h who ((pop_fault (as_db s1))\<lparr>in_tx := True\<rparr>) = (Inr uid, d1)"
          and d: "tabs d = tabs d1"
        using WithTx_Inr_iff[OF r1(2), of "accept_body env ?h who" uid d] by auto
      have "grants_role who (hd (filter (\<lambda>r. i_token_hash r = ?h) (invitations (tables_of s1)))) uid (tables_of s1) (tabs d)"
        using accept_body_Inr[OF body] d by auto
      moreover have "invitations (tables_of s1) = invitations (tables_of s)" using r1(1) by (simp add: same_roster_def)
      ultimately have g: "grants_role who (hd (filter (\<lambda>r. i_token_hash r = ?h) (invitations (tables_of s)))) uid (tables_of s1) (tabs d)"
        by simp
      show ?case unfolding sum.case
      proof (rule roster.post_frame[OF roster_after(1)])
        fix x s'
        assume "same_roster (tables_of (s1\<lparr>as_db := d\<rparr>)) (tables_of s')"
        then show "accept_outcome ?h env who (tables_of s) x (tables_of s')"
          using grants_frame[OF r1(1) g] unfolding accept_outcome_def by auto
      qed
    qed
  qed
qed

definition still :: "auth_state \<Rightarrow> auth_state \<Rightarrow> bool" where
  "still s s' \<longleftrightarrow> tables_of s' = tables_of s \<and> in_tx (as_db s') = in_tx (as_db s)"

interpretation still: frame still
  by unfold_locales (auto simp: still_def)

lemma still_read: "\<lbrakk>read_only m; keeps_tx m\<rbrakk> \<Longrightarrow> state_io_rel still (run_db m)"
  by (rule frame_db) (simp add: still_def read_onlyD keeps_tx_def)

lemma still_allow: "state_io_rel still (allow_ip env rq)"
  unfolding allow_ip_def by (rule frame_limiter) (simp add: still_def)

lemma still_resolve: "state_io_rel still (resolveInviteTenant invt)"
proof (cases "i_scope_type invt")
  case TenantScope
  show ?thesis unfolding resolveInviteTenant_def TenantScope scope_type.case
    by (intro still.frame_rules still_read read_only_ops keeps_tx_ops)
next
  case ProjectScope
  show ?thesis unfolding resolveInviteTenant_def ProjectScope scope_type.case
    by (intro still.frame_rules still_read read_only_ops keeps_tx_ops)
qed

text \<open>Who may accept an invitation: the holder of a live session whose address is the invited one, or a
  new account of that address.\<close>

definition invited :: "auth_env \<Rightarrow> http_request \<Rightarrow> invitation \<Rightarrow> tables \<Rightarrow> acceptor \<Rightarrow> bool" where
  "invited env rq invt tb who \<longleftrightarrow> (case who of
      Attach uid \<Rightarrow> (\<exists>sess u. authenticates env rq tb sess u \<and> u_id u = uid \<and> EqualFold (u_email u) (i_email invt))
    | CreateNew _ _ \<Rightarrow> True)"

lemma accept_who_invited:
  assumes "case signedIn of None \<Rightarrow> True | Some i \<Rightarrow> \<exists>sess u. authenticates env rq tb sess u \<and> i = session_identity u sess"
  shows "post (accept_who env invt req signedIn) s (\<lambda>w s'. case w of Inl rep \<Rightarrow> ar_status rep \<noteq> 204 | Inr who \<Rightarrow> invited env rq invt tb who)"
proof (cases signedIn)
  case (Some i)
  then obtain sess u where u: "authenticates env rq tb sess u" "i = session_identity u sess" using assms by auto
  then have "id_user_id i = u_id u" "id_email i = u_email u" by (simp_all add: session_identity_def)
  with Some u(1) show ?thesis by (auto simp: accept_who_def invited_def writeErr_def)
next
  case None
  then show ?thesis
    by (auto simp: accept_who_def invited_def writeErr_def internalErr_def invalidRequest_def Let_def post_run_db
        hashPassword_def validatePasswordStrength_def split: option.split sum.split)
qed

definition invite_outcome :: "auth_env \<Rightarrow> http_request \<Rightarrow> tables \<Rightarrow> auth_reply \<Rightarrow> tables \<Rightarrow> bool" where
  "invite_outcome env rq tb rep tb' \<longleftrightarrow> same_roster tb tb' \<and> ar_status rep \<noteq> 204 \<or>
    (\<exists>invt who uid. invt \<in> set (invitations tb) \<and> i_token_hash invt = hashToken env (rq_param rq ''token'') \<and>
       i_accepted_at invt = None \<and> ev_now env \<le> i_expires_at invt \<and> invited env rq invt tb who \<and>
       grants_role who invt uid tb tb')"

lemma refused_outcome: "\<lbrakk>still s s'; ar_status rep \<noteq> 204\<rbrakk> \<Longrightarrow> invite_outcome env rq (tables_of s) rep (tables_of s')"
  by (simp add: invite_outcome_def still_def roster.Q_refl)

lemmas refusal_status = inviteNotFound_def rateLimited_def invalidRequest_def writeErr_def

text \<open>What \<^verbatim>\<open>Verify\<close> gives the acceptance.\<close>

lemma Verify_signed_in:
  "post (Verify env rq) s (\<lambda>r s'. quiet s s' \<and> (case r of None \<Rightarrow> True | Some i \<Rightarrow>
     \<exists>sess u. authenticates env rq (tables_of s) sess u \<and> i = session_identity u sess))"
proof (rule post_conj)
  show "post (Verify env rq) s (\<lambda>r s'. quiet s s')" by (rule quiet.post_frame[OF quiet_steps(1)])
  show "post (Verify env rq) s (\<lambda>r s'. case r of None \<Rightarrow> True | Some i \<Rightarrow>
      \<exists>sess u. authenticates env rq (tables_of s) sess u \<and> i = session_identity u sess)"
    by (rule post_mono[OF Verify_post]) (auto split: option.splits)
qed

definition names_invite :: "auth_env \<Rightarrow> http_request \<Rightarrow> tables \<Rightarrow> invitation \<Rightarrow> bool" where
  "names_invite env rq tb invt \<longleftrightarrow> invt \<in> set (invitations tb) \<and> i_token_hash invt = hashToken env (rq_param rq ''token'') \<and>
     \<not> inviteUnusable env invt \<and> invt = hd (filter (\<lambda>r. i_token_hash r = hashToken env (rq_param rq ''token'')) (invitations tb))"

lemma commit_outcome:
  assumes "names_invite env rq tb invt" and "invited env rq invt tb who"
    and "same_roster tb (tables_of s)" and "\<not> in_tx (as_db s)"
  shows "post (accept_commit env rq invt tenant signedIn who) s (\<lambda>rep s'. invite_outcome env rq tb rep (tables_of s'))"
proof (rule post_mono[OF accept_commit_post[OF assms(4)]])
  fix rep s'
  assume "accept_outcome (hashToken env (rq_param rq ''token'')) env who (tables_of s) rep (tables_of s')"
  moreover have iv: "invitations (tables_of s) = invitations tb" using assms(3) by (simp add: same_roster_def)
  ultimately consider "same_roster (tables_of s) (tables_of s')" "ar_status rep \<noteq> 204"
    | uid where "grants_role who invt uid (tables_of s) (tables_of s')"
    using assms(1) unfolding accept_outcome_def names_invite_def by auto
  then show "invite_outcome env rq tb rep (tables_of s')"
  proof cases
    case 1
    then show ?thesis using roster.Q_trans[OF assms(3)] by (simp add: invite_outcome_def)
  next
    case (2 uid)
    then have "grants_role who invt uid tb (tables_of s')" using grants_frame[OF assms(3) _ roster.Q_refl] by blast
    moreover have "invt \<in> set (invitations tb)" "i_token_hash invt = hashToken env (rq_param rq ''token'')"
        "i_accepted_at invt = None" "ev_now env \<le> i_expires_at invt"
      using assms(1) unfolding names_invite_def inviteUnusable_def de_Morgan_disj not_not not_less by blast+
    ultimately show ?thesis using assms(2) unfolding invite_outcome_def by blast
  qed
qed

lemma accept_invitation_post:
  assumes "names_invite env rq (tables_of s) invt" and "\<not> in_tx (as_db s)"
  shows "post (accept_invitation env rq req invt) s (\<lambda>rep s'. invite_outcome env rq (tables_of s) rep (tables_of s'))"
  unfolding accept_invitation_def post_bind
proof (rule still.post_frame[OF still_resolve])
  fix sc s1
  assume s1: "still s s1"
  then have t1: "tables_of s1 = tables_of s" "\<not> in_tx (as_db s1)" using assms(2) by (simp_all add: still_def)
  have signed: "post (do { w \<leftarrow> accept_who env invt req signedIn;
      case w of Inl rep \<Rightarrow> answer rep | Inr who \<Rightarrow> accept_commit env rq invt tenant signedIn who }) s2
      (\<lambda>rep s'. invite_outcome env rq (tables_of s) rep (tables_of s'))"
    if "quiet s1 s2" and si: "case signedIn of None \<Rightarrow> True | Some i \<Rightarrow>
      \<exists>sess u. authenticates env rq (tables_of s) sess u \<and> i = session_identity u sess" for signedIn tenant s2
    unfolding post_bind
  proof (rule post_mono[OF post_conj[OF quiet.post_frame[OF quiet_who] accept_who_invited[OF si]]], assumption)
    fix w :: "auth_reply + acceptor" and s3
    assume w: "quiet s2 s3 \<and> (case w of Inl rep \<Rightarrow> ar_status rep \<noteq> 204 | Inr who \<Rightarrow> invited env rq invt (tables_of s) who)"
    then have s3: "same_roster (tables_of s) (tables_of s3)" "\<not> in_tx (as_db s3)"
      using that(1) t1 by (auto simp: quiet_def same_roster_def)
    show "post (case w of Inl rep \<Rightarrow> answer rep | Inr who \<Rightarrow> accept_commit env rq invt tenant signedIn who) s3
        (\<lambda>rep s'. invite_outcome env rq (tables_of s) rep (tables_of s'))"
      using w s3 commit_outcome[OF assms(1) _ s3] by (cases w) (simp_all add: invite_outcome_def)
  qed
  show "post (case sc of None \<Rightarrow> answer inviteNotFound
      | Some (tenant, _) \<Rightarrow> do {
          signedIn \<leftarrow> Verify env rq;
          w \<leftarrow> accept_who env invt req signedIn;
          case w of Inl rep \<Rightarrow> answer rep | Inr who \<Rightarrow> accept_commit env rq invt tenant signedIn who }) s1
      (\<lambda>rep s'. invite_outcome env rq (tables_of s) rep (tables_of s'))"
  proof (cases sc)
    case None
    then show ?thesis using refused_outcome[OF s1] by (simp add: refusal_status)
  next
    case (Some tn)
    then show ?thesis
      unfolding Some option.case case_prod_beta post_bind[of "Verify _ _"]
      by (intro post_mono[OF Verify_signed_in[of env rq s1, unfolded t1(1)]] signed) simp_all
  qed
qed

text \<open>C20: an invitation grants exactly what its row says, to the invited address, once. Whatever the request body
  and the statements that fail, \<^verbatim>\<open>AcceptInvite\<close> either leaves users, memberships and invitations as they were (and
  does not answer 204), or the token names a stored invitation that was neither accepted nor expired, and
  then exactly one membership is added, with the role and the scope of the invitation row; its user is the
  holder of the request's live session, whose address is the invited one, or a new unprivileged account of
  that address; and the invitation is stamped accepted.\<close>

theorem AcceptInvite_grants_row:
  assumes "\<not> in_tx (as_db s)"
  shows "post (AcceptInvite env rq body) s (\<lambda>rep s'. same_roster (tables_of s) (tables_of s') \<and> ar_status rep \<noteq> 204 \<or>
    (\<exists>invt who uid. invt \<in> set (invitations (tables_of s)) \<and> i_token_hash invt = hashToken env (rq_param rq ''token'') \<and>
       i_accepted_at invt = None \<and> ev_now env \<le> i_expires_at invt \<and> invited env rq invt (tables_of s) who \<and>
       grants_role who invt uid (tables_of s) (tables_of s')))"
proof -
  let ?h = "hashToken env (rq_param rq ''token'')"
  let ?P = "\<lambda>rep s'. invite_outcome env rq (tables_of s) rep (tables_of s')"
  have look: "post (do { r \<leftarrow> run_db (GetInvitationByTokenHash ?h);
      case r of Inl e \<Rightarrow> answer inviteNotFound
      | Inr invt \<Rightarrow> if inviteUnusable env invt then answer inviteNotFound else accept_invitation env rq req invt }) s1 ?P"
    if s1: "still s s1" for req s1
    unfolding post_bind
  proof (rule post_run_db_cases, goal_cases)
    case (1 e d)
    then show ?case using read_only_tabs[OF read_only_ops(5) 1] s1
      by (simp add: invite_outcome_def roster.Q_refl still_def refusal_status)
  next
    case (2 invt d)
    note g = GetInvitation_Inr[OF 2]
    have "in_tx d = in_tx (as_db s1)" using keeps_tx_ops(4)[of ?h] 2 by (metis keeps_tx_def snd_conv)
    then have s2: "still s (s1\<lparr>as_db := d\<rparr>)" using s1 g(3) by (simp add: still_def)
    then have t2: "tables_of (s1\<lparr>as_db := d\<rparr>) = tables_of s" "\<not> in_tx (as_db (s1\<lparr>as_db := d\<rparr>))"
      using assms by (simp_all add: still_def)
    show ?case
    proof (cases "inviteUnusable env invt")
      case True
      then show ?thesis using refused_outcome[OF s2] by (simp add: refusal_status)
    next
      case False
      then have "names_invite env rq (tables_of (s1\<lparr>as_db := d\<rparr>)) invt"
        using g t2(1) by (simp add: names_invite_def)
      from accept_invitation_post[OF this t2(2), of req] False show ?thesis unfolding t2(1) by simp
    qed
  qed
  have "post (AcceptInvite env rq body) s ?P"
    unfolding AcceptInvite_def post_bind[of "allow_ip _ _"]
  proof (rule still.post_frame[OF still_allow], goal_cases)
    case (1 ok s1)
    have "?P rateLimited s1" "?P invalidRequest s1"
      using refused_outcome[OF 1] by (simp_all add: refusal_status)
    then show ?case using look[OF 1] by (cases body) (simp_all del: post_bind)
  qed
  then show ?thesis unfolding invite_outcome_def .
qed

definition invite_tables :: tables where
  "invite_tables = sample_tables\<lparr>invitations := [\<lparr>i_id = ''i1'', i_token_hash = ''#tok'', i_email = ''carl@example.org'',
     i_scope_type = ProjectScope, i_scope_id = ''p1'', i_role = ''contributor'', i_invited_by = Some ''u1'', i_expires_at = 5000,
     i_accepted_at = None, i_created_at = 0, i_updated_at = 0\<rparr>]\<rparr>"

theorem AcceptInvite_grants_row_witness:
  "\<not> in_tx (as_db (sample_state invite_tables)) \<and>
   post (AcceptInvite sample_env ((cookie_request [])\<lparr>rq_param := (\<lambda>_. ''tok'')\<rparr>)
     (Some \<lparr>acr_display_name = ''Carl'', acr_password = ''correct horse battery''\<rparr>)) (sample_state invite_tables)
     (\<lambda>rep s'. same_roster invite_tables (tables_of s') \<and> ar_status rep \<noteq> 204 \<or>
       (\<exists>invt who uid. i_role invt = ''contributor'' \<and> grants_role who invt uid invite_tables (tables_of s')))"
proof -
  have tx: "\<not> in_tx (as_db (sample_state invite_tables))" by (simp add: sample_state_def)
  have role: "i_role invt = ''contributor''" if "invt \<in> set (invitations (tables_of (sample_state invite_tables)))" for invt
    using that by (simp add: sample_state_def invite_tables_def)
  have t: "tables_of (sample_state invite_tables) = invite_tables" by (simp add: sample_state_def)
  show ?thesis
    by (rule conjI[OF tx], rule post_mono[OF AcceptInvite_grants_row[OF tx]]) (use role t in auto)
qed

end
