(* ===== verification/Auth_Runs.thy ===== *)
theory Auth_Runs
  imports Auth_Invites
begin

text \<open>
  Sequences of requests to the authentication endpoints, in any order, by anyone. \<open>auth_step\<close> has one rule
  per handler; what holds after every sequence is proved by rule induction over it, from one frame that all
  store operations respect.
\<close>

section \<open>Runs\<close>

inductive auth_step :: "auth_state \<Rightarrow> auth_state \<Rightarrow> bool" where
  seed: "auth_step s (snd (run_state (SeedEnvAdmin env u h p) s))"
| bootstrap: "auth_step s (snd (run_state (Bootstrap env rq body) s))"
| login: "auth_step s (snd (run_state (Login env rq body) s))"
| login_totp: "auth_step s (snd (run_state (LoginTOTP env rq code) s))"
| logout: "auth_step s (snd (run_state (Logout env rq i) s))"
| me: "auth_step s (snd (run_state (Me i) s))"
| active_tenant: "auth_step s (snd (run_state (SetActiveTenant i t) s))"
| change_password: "auth_step s (snd (run_state (ChangePassword env rq i b) s))"
| list_sessions: "auth_step s (snd (run_state (ListSessions env i) s))"
| delete_session: "auth_step s (snd (run_state (DeleteSession env i target) s))"
| enroll: "auth_step s (snd (run_state (EnrollTOTP env i) s))"
| verify_enroll: "auth_step s (snd (run_state (VerifyEnrollTOTP env rq i code) s))"
| disable: "auth_step s (snd (run_state (DisableTOTP env rq i pw) s))"
| regenerate: "auth_step s (snd (run_state (RegenerateRecoveryCodes env rq i pw) s))"
| validate_invite: "auth_step s (snd (run_state (ValidateInvite env rq) s))"
| accept_invite: "auth_step s (snd (run_state (AcceptInvite env rq ab) s))"
| authenticate: "auth_step s (snd (run_state (Verify env rq) s))"

section \<open>The frame of all handlers\<close>

text \<open>The unique indexes of the schema, and the token of a challenge that was consumed.\<close>

definition unique_keys :: "tables \<Rightarrow> bool" where
  "unique_keys tb \<longleftrightarrow> distinct (map s_token_hash (sessions tb)) \<and> distinct (map lc_token_hash (login_challenges tb)) \<and>
     distinct (map i_token_hash (invitations tb)) \<and> distinct (map (\<lambda>u. lower_str (u_email u)) (users tb)) \<and>
     distinct (map ts_user_id (totp_secrets tb))"

definition spent_token :: "string \<Rightarrow> tables \<Rightarrow> bool" where
  "spent_token h tb \<longleftrightarrow> h \<in> lc_token_hash ` set (login_challenges tb) \<and>
     (\<forall>c \<in> set (login_challenges tb). lc_token_hash c = h \<longrightarrow> lc_consumed_at c \<noteq> None)"

definition sound_step :: "string \<Rightarrow> tables \<Rightarrow> tables \<Rightarrow> bool" where
  "sound_step h tb tb' \<longleftrightarrow> (unique_keys tb \<longrightarrow> unique_keys tb') \<and> (spent_token h tb \<longrightarrow> spent_token h tb')"

interpretation sound: table_frame "sound_step h" for h
  by unfold_locales (auto simp: sound_step_def)

text \<open>Tables that agree on what the frame looks at.\<close>

lemma sound_other:
  assumes "map s_token_hash (sessions tb') = map s_token_hash (sessions tb)" and "login_challenges tb' = login_challenges tb"
    and "map i_token_hash (invitations tb') = map i_token_hash (invitations tb)"
    and "map (\<lambda>u. lower_str (u_email u)) (users tb') = map (\<lambda>u. lower_str (u_email u)) (users tb)"
    and "map ts_user_id (totp_secrets tb') = map ts_user_id (totp_secrets tb)"
  shows "sound_step h tb tb'"
  using assms unfolding sound_step_def unique_keys_def spent_token_def by simp

lemma sound_challenges:
  assumes "\<And>c. lc_token_hash (f c) = lc_token_hash c" and "\<And>c. lc_consumed_at c \<noteq> None \<Longrightarrow> lc_consumed_at (f c) \<noteq> None"
  shows "sound_step h tb (tb\<lparr>login_challenges := update_where P f (login_challenges tb)\<rparr>)"
proof -
  have keys: "map lc_token_hash (update_where P f (login_challenges tb)) = map lc_token_hash (login_challenges tb)"
    using assms(1) by (rule map_update_where)
  have "spent_token h (tb\<lparr>login_challenges := update_where P f (login_challenges tb)\<rparr>)" if "spent_token h tb"
  proof -
    have "h \<in> set (map lc_token_hash (update_where P f (login_challenges tb)))"
      using that unfolding keys by (simp add: spent_token_def)
    moreover have "lc_consumed_at c \<noteq> None" if c: "c \<in> set (update_where P f (login_challenges tb))" "lc_token_hash c = h" for c
    proof -
      obtain c0 where c0: "c0 \<in> set (login_challenges tb)" "c = (if P c0 then f c0 else c0)"
        using c(1) unfolding in_update_where by (elim bexE)
      then have "lc_token_hash c0 = h" using c(2) assms(1) by (auto split: if_splits)
      then have "lc_consumed_at c0 \<noteq> None" using \<open>spent_token h tb\<close> c0(1) by (simp add: spent_token_def)
      with c0(2) assms(2) show ?thesis by simp
    qed
    ultimately show ?thesis by (auto simp: spent_token_def)
  qed
  moreover have "unique_keys (tb\<lparr>login_challenges := update_where P f (login_challenges tb)\<rparr>) = unique_keys tb"
    by (simp add: unique_keys_def keys)
  ultimately show ?thesis by (simp add: sound_step_def)
qed

lemmas sound_intros = sound.op_bind sound.op_exec sound.op_exec_checked sound.op_insert sound.op_attempt sound.op_WithTx
  sound.op_read_only

lemma sound_ops:
  "op_rel (sound_step h) (UpdatePasswordHash i hs a)" "op_rel (sound_step h) (RevokeSession i)"
  "op_rel (sound_step h) (TouchSession i t)" "op_rel (sound_step h) (RevokeOtherUserSessions u k)"
  "op_rel (sound_step h) (SetSessionActiveTenant i tn)" "op_rel (sound_step h) (Begin it)"
  "op_rel (sound_step h) (Finalize p out det)" "op_rel (sound_step h) (ConsumeRecoveryCode u c)"
  "op_rel (sound_step h) (DeleteRecoveryCodes u)" "op_rel (sound_step h) (SetTOTPEnabled u b)"
  "op_rel (sound_step h) (ConfirmTOTPSecret u)" "op_rel (sound_step h) (CreateMembership m)"
  "op_rel (sound_step h) (MarkInvitationAccepted i)"
  unfolding UpdatePasswordHash_def RevokeSession_def TouchSession_def RevokeOtherUserSessions_def SetSessionActiveTenant_def
    Begin_def InsertAuditIntent_def Finalize_def FinalizeAudit_def ConsumeRecoveryCode_def DeleteRecoveryCodes_def
    SetTOTPEnabled_def ConfirmTOTPSecret_def CreateMembership_def MarkInvitationAccepted_def
  by (intro sound_intros; force intro!: sound_other
      simp: update_users_def update_sessions_def map_update_where Let_def split: if_splits)+

lemma sound_ReplaceRecoveryCodes: "op_rel (sound_step h) (ReplaceRecoveryCodes u hs)"
proof -
  have "op_rel (sound_step h) (exec_checked (\<lambda>now tb. if exists_where (\<lambda>r. u_id r = u) (users tb)
      then Inr ((), tb\<lparr>recovery_codes := recovery_codes tb @ new_codes u hs\<rparr>) else Inl ErrDB))"
    by (rule sound.op_exec_checked) (auto intro!: sound_other split: if_splits)
  then show ?thesis
    unfolding ReplaceRecoveryCodes_def by (intro sound.op_bind sound_ops) (simp add: sound.op_read_only)
qed

lemma sound_challenge_ops:
  "op_rel (sound_step h) (ConsumeLoginChallenge i)" "op_rel (sound_step h) (RecordChallengeFailure i n)"
  unfolding ConsumeLoginChallenge_def RecordChallengeFailure_def Let_def
  by (rule sound.op_exec; simp; rule sound_challenges; simp add: failed_challenge_def)+

lemma sound_insert_ops:
  "op_rel (sound_step h) (CreateSession p)" "op_rel (sound_step h) (CreateLoginChallenge c)"
  "op_rel (sound_step h) (CreateUser cu)" "op_rel (sound_step h) (UpsertTOTPSecret u x)"
  "op_rel (sound_step h) (DeleteTOTPSecret u)"
proof -
  show "op_rel (sound_step h) (CreateSession p)"
    unfolding CreateSession_def
    by (rule sound.op_insert) (auto simp: sound_step_def unique_keys_def spent_token_def exists_where_def new_session_def
        split: if_splits)
  show "op_rel (sound_step h) (CreateLoginChallenge c)"
    unfolding CreateLoginChallenge_def
    by (rule sound.op_insert) (auto simp: sound_step_def unique_keys_def spent_token_def exists_where_def new_challenge_def
        split: if_splits)
  show "op_rel (sound_step h) (CreateUser cu)"
    unfolding CreateUser_def
    by (rule sound.op_insert) (auto simp: sound_step_def unique_keys_def spent_token_def exists_where_def new_user_def
        split: if_splits)
  show "op_rel (sound_step h) (UpsertTOTPSecret u x)"
    unfolding UpsertTOTPSecret_def
    by (rule sound.op_exec_checked) (auto simp: sound_step_def unique_keys_def spent_token_def exists_where_def
        map_update_where split: if_splits; blast)
  show "op_rel (sound_step h) (DeleteTOTPSecret u)"
    unfolding DeleteTOTPSecret_def
    by (rule sound.op_exec) (auto simp: sound_step_def unique_keys_def spent_token_def distinct_map_delete_where)
qed

lemma sound_if: "\<lbrakk>b \<Longrightarrow> op_rel Q m; \<not> b \<Longrightarrow> op_rel Q n\<rbrakk> \<Longrightarrow> op_rel Q (if b then m else n)"
  by simp

lemmas sound_all_ops = sound_ops sound_ReplaceRecoveryCodes sound_challenge_ops sound_insert_ops

lemma sound_tx:
  "op_rel (sound_step h) (WithTx (createFirstAdmin e n hs a))" "op_rel (sound_step h) (enable_tx u cs)"
  "op_rel (sound_step h) (disable_tx u)" "op_rel (sound_step h) (WithTx (ReplaceRecoveryCodes u cs))"
  unfolding createFirstAdmin_def enable_tx_def disable_tx_def
  by (intro sound.op_WithTx sound.op_bind sound_if sound_all_ops sound.op_read_only read_only_ops read_only_lock
      read_only_raise read_only_ret)+

lemma sound_acceptor: "op_rel (sound_step h) (acceptor_user who e)"
proof (cases who)
  case (Attach u)
  then show ?thesis by (simp add: acceptor_user_def sound.op_read_only)
next
  case (CreateNew d p)
  show ?thesis unfolding acceptor_user_def CreateNew acceptor.case
    by (intro sound.op_bind sound_all_ops sound.op_read_only read_only_ret)
qed

lemma sound_accept: "op_rel (sound_step h) (WithTx (accept_body env tk who))"
proof -
  have inner: "op_rel (sound_step h) (if i_accepted_at cur \<noteq> None then raise errInviteRaced
         else if ev_now env > i_expires_at cur then raise errInviteGone
         else bind_op (acceptor_user who (i_email cur)) (\<lambda>uid.
              bind_op (CreateMembership \<lparr>cm_user_id = uid, cm_scope_type = i_scope_type cur, cm_scope_id = i_scope_id cur,
                cm_role = i_role cur\<rparr>) (\<lambda>_.
              bind_op (MarkInvitationAccepted (i_id cur)) (\<lambda>won.
              if \<not> won then raise errInviteRaced else ret uid))))" for cur
    by (intro sound_if sound.op_bind sound_acceptor sound_all_ops sound.op_read_only read_only_raise read_only_ret)
  show ?thesis unfolding accept_body_def
  proof (intro sound.op_WithTx sound.op_bind)
    show "op_rel (sound_step h) (attempt (GetInvitationByTokenHash tk))"
      by (intro sound.op_attempt sound.op_read_only read_only_ops)
  next
    fix r
    show "op_rel (sound_step h) (case r of Inl e \<Rightarrow> raise errInviteGone
       | Inr cur \<Rightarrow> if i_accepted_at cur \<noteq> None then raise errInviteRaced
         else if ev_now env > i_expires_at cur then raise errInviteGone
         else bind_op (acceptor_user who (i_email cur)) (\<lambda>uid.
              bind_op (CreateMembership \<lparr>cm_user_id = uid, cm_scope_type = i_scope_type cur, cm_scope_id = i_scope_id cur,
                cm_role = i_role cur\<rparr>) (\<lambda>_.
              bind_op (MarkInvitationAccepted (i_id cur)) (\<lambda>won.
              if \<not> won then raise errInviteRaced else ret uid))))"
    proof (cases r)
      case (Inl e)
      then show ?thesis by (simp add: sound.op_read_only)
    next
      case (Inr cur)
      show ?thesis unfolding Inr sum.case by (rule inner)
    qed
  qed
qed

section \<open>Every handler respects the frame\<close>

lemma sound_read_roles [simp]: "read_only (GetEffectiveRoles u t)"
  unfolding GetEffectiveRoles_def by simp

lemma sound_parts:
  "sound.preserved h (Verify env rq)" "sound.preserved h (Issue env uid r)" "sound.preserved h (finalize p out det)"
  "sound.preserved h (Revoke i)" "sound.preserved h (reset_ip env rq)" "sound.preserved h (allow_ip env rq)"
  "sound.preserved h (rehash env u pw)" "sound.preserved h (login_challenge_reply env rq u)"
  "sound.preserved h (soleTenant uid)" "sound.preserved h (reverifyPassword env uid pw)"
  unfolding Verify_def Issue_def finalize_def Revoke_def reset_ip_def allow_ip_def rehash_def login_challenge_reply_def
    mintChallengeToken_def reset_ip_def soleTenant_def reverifyPassword_def
  by (intro sound.steps sound_all_ops)+

lemma sound_genCodes: "sound.preserved h (genRecoveryCodes env n)"
  by (induction n) (simp_all only: genRecoveryCodes.simps, (intro sound.steps | assumption)+)

lemma sound_issue: "sound.preserved h (issueSessionForTenant env uid tenant rq)"
  unfolding issueSessionForTenant_def by (intro sound.steps sound_all_ops sound_parts)

lemma sound_session_reply: "sound.preserved h (login_session_reply env rq u)"
  unfolding login_session_reply_def by (intro sound.steps sound_parts)

lemma sound_prod: "(\<And>a b. state_io_rel R (f a b)) \<Longrightarrow> state_io_rel R (case p of (a, b) \<Rightarrow> f a b)"
  by (cases p) simp

lemma sound_bool: "\<lbrakk>state_io_rel R m; state_io_rel R n\<rbrakk> \<Longrightarrow> state_io_rel R (case b of True \<Rightarrow> m | False \<Rightarrow> n)"
  by (cases b) simp_all

lemma sound_Login: "sound.preserved h (Login env rq body)"
  unfolding Login_def login_settle_def by (intro sound.steps sound_prod sound_all_ops sound_parts sound_session_reply)

lemma sound_Bootstrap: "sound.preserved h (Bootstrap env rq body)"
  unfolding Bootstrap_def bootstrap_create_def by (intro sound.steps sound_tx sound_parts)

lemma sound_account:
  "sound.preserved h (SeedEnvAdmin env u hs p)" "sound.preserved h (Logout env rq i)" "sound.preserved h (Me i)"
  "sound.preserved h (ChangePassword env rq i b)" "sound.preserved h (ListSessions env i)"
  "sound.preserved h (DeleteSession env i target)"
  unfolding SeedEnvAdmin_def Logout_def Me_def ChangePassword_def ListSessions_def DeleteSession_def
  by (intro sound.steps sound_tx sound_all_ops sound_parts)+

lemma sound_SetActiveTenant: "sound.preserved h (SetActiveTenant i t)"
  unfolding SetActiveTenant_def
  by (intro sound.steps sound_bool sound_all_ops sound_parts sound_read_roles)

lemma sound_audited: "sound.preserved h change \<Longrightarrow> sound.preserved h (audited_change rq ident action st change)"
  unfolding audited_change_def by (intro sound.steps sound_all_ops sound_parts)

lemma sound_replace:
  assumes tx: "\<And>hs. op_rel (sound_step h) (tx hs)"
  shows "sound.preserved h (replace_codes_by env tx)"
  unfolding replace_codes_by_def by (intro sound.steps sound_genCodes tx)

lemma sound_draw: "sound.preserved h (State (\<lambda>s. (as_draws s, s\<lparr>as_draws := Suc (as_draws s)\<rparr>)))"
  by (simp add: state_io_rel_def sound.Q_refl)

lemma sound_totp:
  "sound.preserved h (EnrollTOTP env i)" "sound.preserved h (VerifyEnrollTOTP env rq i code)"
  "sound.preserved h (DisableTOTP env rq i pw)" "sound.preserved h (RegenerateRecoveryCodes env rq i pw)"
  unfolding EnrollTOTP_def VerifyEnrollTOTP_def DisableTOTP_def RegenerateRecoveryCodes_def enable_change_def
  by (intro sound.steps sound_draw sound_audited sound_replace sound_tx sound_all_ops sound_parts)+

lemma sound_sf: "sound.preserved h (secondFactorValid env uid code)"
  unfolding secondFactorValid_def by (intro sound.steps sound_all_ops)

lemma sound_wrong: "sound.preserved h (totp_wrong env rq ch p e)"
  unfolding totp_wrong_def by (intro sound.steps sound_bool sound_all_ops sound_parts)

lemma sound_totp_session: "sound.preserved h (totp_session env rq uid p)"
  unfolding totp_session_def by (intro sound.steps sound_parts sound_issue)

lemma sound_LoginTOTP: "sound.preserved h (LoginTOTP env rq body)"
  unfolding LoginTOTP_def totp_attempt_def totp_decide_def auditSecondFactorBlocked_def
  by (intro sound.steps sound_bool sound_all_ops sound_parts sound_sf sound_wrong sound_totp_session)

lemma sound_resolve: "sound.preserved h (resolveInviteTenant invt)"
proof (cases "i_scope_type invt")
  case TenantScope
  show ?thesis unfolding resolveInviteTenant_def TenantScope scope_type.case by (intro sound.steps)
next
  case ProjectScope
  show ?thesis unfolding resolveInviteTenant_def ProjectScope scope_type.case by (intro sound.steps)
qed

lemma sound_invites:
  "sound.preserved h (ValidateInvite env rq)" "sound.preserved h (AcceptInvite env rq body)"
proof -
  show "sound.preserved h (ValidateInvite env rq)"
    unfolding ValidateInvite_def resolveInviteScope_def by (intro sound.steps sound_prod sound_parts sound_resolve)
  have "sound.preserved h (accept_commit env rq invt tenant signedIn who)" for invt tenant signedIn who
    unfolding accept_commit_def accept_failed_def accept_session_def
    by (intro sound.steps sound_all_ops sound_parts sound_accept sound_issue)
  moreover have "sound.preserved h (accept_who env invt req signedIn)" for invt req signedIn
    unfolding accept_who_def by (intro sound.steps)
  ultimately show "sound.preserved h (AcceptInvite env rq body)"
    unfolding AcceptInvite_def accept_invitation_def by (intro sound.steps sound_prod sound_parts sound_resolve)
qed

lemma auth_step_sound: "auth_step s s' \<Longrightarrow> sound_step h (tables_of s) (tables_of s')"
  by (induction rule: auth_step.induct)
    (use sound_account sound_Bootstrap sound_Login sound_LoginTOTP sound_SetActiveTenant sound_totp sound_invites sound_parts(1)
      in \<open>simp_all only: state_io_rel_def\<close>)

lemma auth_run_sound: "auth_step\<^sup>*\<^sup>* s s' \<Longrightarrow> sound_step h (tables_of s) (tables_of s')"
  by (induction rule: rtranclp_induct) (auto intro: sound.Q_refl sound.Q_trans auth_step_sound)


section \<open>A challenge buys one session\<close>

text \<open>The second step of a login neither adds nor removes challenges.\<close>

definition same_challenges :: "tables \<Rightarrow> tables \<Rightarrow> bool" where
  "same_challenges tb tb' \<longleftrightarrow> map (\<lambda>c. (lc_id c, lc_token_hash c)) (login_challenges tb')
     = map (\<lambda>c. (lc_id c, lc_token_hash c)) (login_challenges tb)"

interpretation chal: table_frame same_challenges
  by unfold_locales (auto simp: same_challenges_def)

lemmas chal_intros = chal.op_bind chal.op_exec chal.op_exec_checked chal.op_insert chal.op_attempt chal.op_WithTx
  chal.op_read_only

lemma chal_ops:
  "op_rel same_challenges (RevokeSession i)" "op_rel same_challenges (TouchSession i t)"
  "op_rel same_challenges (SetSessionActiveTenant i tn)" "op_rel same_challenges (CreateSession p)"
  "op_rel same_challenges (Begin it)" "op_rel same_challenges (Finalize pn out det)"
  "op_rel same_challenges (ConsumeRecoveryCode u c)" "op_rel same_challenges (ConsumeLoginChallenge i)"
  "op_rel same_challenges (RecordChallengeFailure i n)"
  unfolding RevokeSession_def TouchSession_def SetSessionActiveTenant_def CreateSession_def Begin_def InsertAuditIntent_def
    Finalize_def FinalizeAudit_def ConsumeRecoveryCode_def ConsumeLoginChallenge_def RecordChallengeFailure_def
  by (intro chal_intros; force simp: same_challenges_def update_sessions_def map_update_where failed_challenge_def Let_def
      split: if_splits)+

lemma chal_LoginTOTP: "chal.preserved (LoginTOTP env rq body)"
proof -
  have issue: "chal.preserved (issueSessionForTenant env uid tenant rq)" for uid tenant
    unfolding issueSessionForTenant_def Issue_def Verify_def by (intro chal.steps chal_ops)
  have sess: "chal.preserved (totp_session env rq uid p)" for uid p
    unfolding totp_session_def Verify_def soleTenant_def finalize_def Revoke_def reset_ip_def
    by (intro chal.steps chal_ops issue)
  have wrong: "chal.preserved (totp_wrong env rq ch p e)" for ch p e
    unfolding totp_wrong_def finalize_def by (intro chal.steps sound_bool chal_ops)
  show ?thesis
    unfolding LoginTOTP_def totp_attempt_def totp_decide_def auditSecondFactorBlocked_def secondFactorValid_def finalize_def allow_ip_def
    by (intro chal.steps sound_bool chal_ops sess wrong)
qed

lemma spent_after_login:
  assumes run: "run_state (LoginTOTP env rq body) s = (rep, s')" and "\<not> same_keys (tables_of s) (tables_of s')"
    and uk: "unique_keys (tables_of s)"
  shows "\<exists>v. Cookie rq ChallengeCookieName = Some v \<and> spent_token (hashToken env v) (tables_of s')"
proof -
  let ?k = "\<lambda>c. (lc_id c, lc_token_hash c)"
  obtain v ch where v: "Cookie rq ChallengeCookieName = Some v" and ch: "ch \<in> set (login_challenges (tables_of s))"
      "lc_token_hash ch = hashToken env v"
      "\<forall>c \<in> set (login_challenges (tables_of s')). lc_id c = lc_id ch \<longrightarrow> lc_consumed_at c \<noteq> None"
    using LoginTOTP_both_factors[of env rq body s] assms(2) unfolding post_run[OF run] by blast
  have "same_challenges (tables_of s) (tables_of s')"
    using chal_LoginTOTP[of env rq body] run by (metis state_io_rel_def snd_conv)
  then have keys: "?k ` set (login_challenges (tables_of s')) = ?k ` set (login_challenges (tables_of s))"
    unfolding same_challenges_def by (metis list.set_map)
  have "lc_consumed_at c \<noteq> None" if c: "c \<in> set (login_challenges (tables_of s'))" "lc_token_hash c = hashToken env v" for c
  proof -
    obtain c0 where c0: "c0 \<in> set (login_challenges (tables_of s))" "lc_id c0 = lc_id c" "lc_token_hash c0 = lc_token_hash c"
      using imageI[OF c(1), of ?k] unfolding keys by (elim imageE) simp
    then have "c0 = ch" using distinct_key_unique[OF _ c0(1) ch(1), of lc_token_hash] uk c(2) ch(2) by (simp add: unique_keys_def)
    with c0(2) c(1) ch(3) show ?thesis by simp
  qed
  moreover have "hashToken env v \<in> lc_token_hash ` set (login_challenges (tables_of s'))"
    using imageI[OF ch(1), of ?k] ch(2) unfolding keys[symmetric] by (elim imageE) (simp add: image_eqI)
  ultimately show ?thesis using v by (intro exI[of _ v]) (simp add: spent_token_def)
qed

lemma spent_refused:
  assumes "Cookie rq ChallengeCookieName = Some v" and "spent_token (hashToken env v) (tables_of s)"
  shows "post (LoginTOTP env rq body) s (\<lambda>rep s'. ar_status rep = 401 \<and> tables_of s' = tables_of s)"
proof (cases "v = ''''")
  case True
  with assms(1) show ?thesis by (simp add: LoginTOTP_def challengeExpired_def writeErr_def)
next
  case False
  show ?thesis
    unfolding LoginTOTP_def assms(1) option.case if_not_P[OF False] post_bind
  proof (rule post_run_db_cases, goal_cases)
    case (1 e d)
    then show ?case using read_only_tabs[OF read_only_ops(9) 1] by (simp add: challengeExpired_def writeErr_def)
  next
    case (2 ch d)
    then show ?case using GetChallenge_Inr[OF 2] assms(2)
      by (auto simp: spent_token_def challengeExpired_def writeErr_def)
  qed
qed

text \<open>C18: a challenge buys at most one session. Once \<^verbatim>\<open>LoginTOTP\<close> has issued a session for a challenge, then after any further
  requests to any of the authentication handlers, by anyone, in any order and with any statements failing,
  another \<^verbatim>\<open>LoginTOTP\<close> with the same challenge cookie is refused with 401 and changes no table, however valid its
  code is.\<close>

theorem challenge_buys_one_session:
  assumes "run_state (LoginTOTP env rq body) s = (rep, s1)" and "\<not> same_keys (tables_of s) (tables_of s1)"
    and "unique_keys (tables_of s)" and "auth_step\<^sup>*\<^sup>* s1 s2"
    and "Cookie rq' ChallengeCookieName = Cookie rq ChallengeCookieName" and "ev_sha env' = ev_sha env"
  shows "post (LoginTOTP env' rq' body') s2 (\<lambda>rep s3. ar_status rep = 401 \<and> tables_of s3 = tables_of s2)"
proof -
  obtain v where v: "Cookie rq ChallengeCookieName = Some v" "spent_token (hashToken env v) (tables_of s1)"
    using spent_after_login[OF assms(1-3)] by blast
  then have "spent_token (hashToken env' v) (tables_of s2)"
    using auth_run_sound[OF assms(4), of "hashToken env v"] assms(6) by (simp add: sound_step_def hashToken_def)
  then show ?thesis using v(1) assms(5) by (intro spent_refused) simp_all
qed

section \<open>Concrete runs\<close>


definition totp_tables :: tables where
  "totp_tables = sample_tables\<lparr>
     login_challenges := [\<lparr>lc_id = ''c1'', lc_token_hash = ''#ch'', lc_user_id = ''u1'', lc_attempts = 0, lc_created_at = 0,
       lc_expires_at = 5000, lc_consumed_at = None, lc_ip = None, lc_user_agent = None\<rparr>],
     totp_secrets := [\<lparr>ts_user_id = ''u1'', ts_secret_encrypted = ''nnnnnnnnnnnnS'', ts_confirmed_at = Some 1\<rparr>]\<rparr>"

definition totp_request :: http_request where
  "totp_request = cookie_request [(ChallengeCookieName, ''ch'')]"

definition totp_login :: "auth_state" where
  "totp_login = snd (run_state (LoginTOTP sample_env totp_request (Some ''123456'')) (sample_state totp_tables))"

lemma totp_login_issues: "length (sessions (tables_of totp_login)) = 1"
  by code_simp

theorem challenge_buys_one_session_witness:
  "length (sessions (tables_of totp_login)) = 1 \<and>
   ar_status (fst (run_state (LoginTOTP sample_env totp_request (Some ''123456'')) totp_login)) = 401 \<and>
   length (sessions (tables_of (snd (run_state (LoginTOTP sample_env totp_request (Some ''123456'')) totp_login)))) = 1"
proof -
  let ?s = "sample_state totp_tables"
  obtain rep where run: "run_state (LoginTOTP sample_env totp_request (Some ''123456'')) ?s = (rep, totp_login)"
    unfolding totp_login_def by (metis prod.collapse)
  have "length (map session_key (sessions (tables_of totp_login))) \<noteq> length (map session_key (sessions (tables_of ?s)))"
    by (simp add: totp_login_issues sample_state_def totp_tables_def sample_tables_def empty_tables_def)
  then have new: "\<not> same_keys (tables_of ?s) (tables_of totp_login)" unfolding same_keys_def by metis
  have uk: "unique_keys (tables_of ?s)"
    by (simp add: unique_keys_def totp_tables_def auth_sample_defs lower_str_def lower_char_def)
  from challenge_buys_one_session[OF run new uk rtranclp.rtrancl_refl HOL.refl HOL.refl, of "Some ''123456''"]
  show ?thesis by (simp add: post_fst_snd totp_login_issues)
qed

end
