(* ===== verification/Store_Lifecycle.thy ===== *)
theory Store_Lifecycle
  imports Store_Ownership Go_Lib
begin

text \<open>
  The tables behind the lifecycle features: auto-shutdown schedules (\<^verbatim>\<open>store/schedules.go\<close>), TTLs
  and the project TTL policy (\<^verbatim>\<open>store/ttl.go\<close>). All of their writes that create are
  \<^verbatim>\<open>INSERT \<dots> ON CONFLICT \<dots> DO UPDATE\<close>; the locale \<open>keyed_table\<close> states what such a write promises for
  any table with a unique key, and is interpreted for the three tables.
\<close>

section \<open>INSERT \<dots> ON CONFLICT DO UPDATE\<close>

text \<open>\<open>columns\<close> are the checks on the proposed row, made before the conflict is looked for;
  \<open>ins_fks\<close> and \<open>upd_fks\<close> the foreign keys of the row as inserted and of the columns the update
  writes.\<close>

definition upsert :: "(tables \<Rightarrow> 'r list) \<Rightarrow> (('r list \<Rightarrow> 'r list) \<Rightarrow> tables \<Rightarrow> tables) \<Rightarrow> ('r \<Rightarrow> bool) \<Rightarrow> bool \<Rightarrow>
  (tables \<Rightarrow> bool) \<Rightarrow> (tables \<Rightarrow> bool) \<Rightarrow> (string \<Rightarrow> int \<Rightarrow> 'r) \<Rightarrow> (int \<Rightarrow> 'r \<Rightarrow> 'r) \<Rightarrow> 'r op" where
  "upsert rows upd_rows hit columns ins_fks upd_fks mk upd = insert_row (\<lambda>uid now tb.
     if \<not> columns then Inl ErrDB
     else case filter hit (rows tb) of
       [] \<Rightarrow> if ins_fks tb then Inr (mk uid now, upd_rows (\<lambda>rs. rs @ [mk uid now]) tb) else Inl ErrDB
     | r # _ \<Rightarrow> if upd_fks tb then Inr (upd now r, upd_rows (update_where hit (upd now)) tb) else Inl ErrDB)"

definition project_fk :: "string \<Rightarrow> string \<Rightarrow> tables \<Rightarrow> bool" where
  "project_fk t p tb \<longleftrightarrow> exists_where (\<lambda>r. p_tenant_id r = t \<and> p_id r = p) (projects tb)"

definition user_fk :: "string option \<Rightarrow> tables \<Rightarrow> bool" where
  "user_fk u tb \<longleftrightarrow> (case u of None \<Rightarrow> True | Some i \<Rightarrow> exists_where (\<lambda>r. u_id r = i) (users tb))"

section \<open>Schedules\<close>

record schedule_params =
  sp_tenant_id :: string
  sp_project_id :: string
  sp_shutdown_time :: string
  sp_auto_start_time :: "string option"
  sp_days_of_week :: "int list"
  sp_timezone :: string
  sp_grace_seconds :: int
  sp_enabled :: bool
  sp_created_by :: "string option"

record resource_schedule_params = schedule_params +
  rs_vmid :: int
  rs_opt_out :: bool

record set_schedule_params = schedule_params +
  ss_set_id :: string

definition new_schedule :: "'a schedule_params_scheme \<Rightarrow> schedule_scope \<Rightarrow> int option \<Rightarrow> string option \<Rightarrow> bool \<Rightarrow>
  string \<Rightarrow> int \<Rightarrow> schedule" where
  "new_schedule p scope vmid set_id opt_out uid now = \<lparr>sc_id = uid, sc_scope = scope,
     sc_tenant_id = sp_tenant_id p, sc_project_id = sp_project_id p, sc_vmid = vmid, sc_set_id = set_id,
     sc_shutdown_time = sp_shutdown_time p, sc_auto_start_time = sp_auto_start_time p,
     sc_days_of_week = sp_days_of_week p, sc_timezone = sp_timezone p,
     sc_grace_seconds = sp_grace_seconds p, sc_enabled = sp_enabled p, sc_opt_out = opt_out,
     sc_created_by = sp_created_by p, sc_created_at = now, sc_updated_at = now\<rparr>"

text \<open>The columns every one of the three upserts replaces; \<open>created_by\<close> and \<open>created_at\<close> stay.\<close>

definition edited :: "'a schedule_params_scheme \<Rightarrow> int \<Rightarrow> schedule \<Rightarrow> schedule" where
  "edited p now s = s\<lparr>sc_shutdown_time := sp_shutdown_time p, sc_auto_start_time := sp_auto_start_time p,
     sc_days_of_week := sp_days_of_week p, sc_timezone := sp_timezone p,
     sc_grace_seconds := sp_grace_seconds p, sc_enabled := sp_enabled p, sc_updated_at := now\<rparr>"

definition schedule_columns :: "'a schedule_params_scheme \<Rightarrow> bool" where
  "schedule_columns p \<longleftrightarrow> int4_range (sp_grace_seconds p) \<and> list_all int4_range (sp_days_of_week p)"

definition schedule_fks :: "'a schedule_params_scheme \<Rightarrow> tables \<Rightarrow> bool" where
  "schedule_fks p tb \<longleftrightarrow> project_fk (sp_tenant_id p) (sp_project_id p) tb \<and> user_fk (sp_created_by p) tb"

definition of_guest :: "string \<Rightarrow> int \<Rightarrow> schedule \<Rightarrow> bool" where
  "of_guest t vmid s \<longleftrightarrow> sc_scope s = ResourceSchedule \<and> sc_tenant_id s = t \<and> sc_vmid s = Some vmid"

definition of_project :: "string \<Rightarrow> string \<Rightarrow> schedule \<Rightarrow> bool" where
  "of_project t p s \<longleftrightarrow> sc_scope s = ProjectSchedule \<and> sc_tenant_id s = t \<and> sc_project_id s = p"

definition of_set :: "string \<Rightarrow> string \<Rightarrow> schedule \<Rightarrow> bool" where
  "of_set t i s \<longleftrightarrow> sc_scope s = SetSchedule \<and> sc_tenant_id s = t \<and> sc_set_id s = Some i"

definition UpsertResourceSchedule :: "resource_schedule_params \<Rightarrow> schedule op" where
  "UpsertResourceSchedule p = upsert schedules schedules_update (of_guest (sp_tenant_id p) (rs_vmid p))
     (schedule_columns p \<and> int4_range (rs_vmid p))
     (schedule_fks p) (project_fk (sp_tenant_id p) (sp_project_id p))
     (new_schedule p ResourceSchedule (Some (rs_vmid p)) None (rs_opt_out p))
     (\<lambda>now s. (edited p now s)\<lparr>sc_project_id := sp_project_id p, sc_opt_out := rs_opt_out p\<rparr>)"

definition UpsertProjectSchedule :: "schedule_params \<Rightarrow> schedule op" where
  "UpsertProjectSchedule p = upsert schedules schedules_update (of_project (sp_tenant_id p) (sp_project_id p))
     (schedule_columns p) (schedule_fks p) (\<lambda>tb. True)
     (new_schedule p ProjectSchedule None None False) (edited p)"

definition UpsertSetSchedule :: "set_schedule_params \<Rightarrow> schedule op" where
  "UpsertSetSchedule p = upsert schedules schedules_update (of_set (sp_tenant_id p) (ss_set_id p))
     (schedule_columns p)
     (\<lambda>tb. schedule_fks p tb \<and> exists_where (\<lambda>s. ds_id s = ss_set_id p) (deployment_sets tb))
     (project_fk (sp_tenant_id p) (sp_project_id p))
     (new_schedule p SetSchedule None (Some (ss_set_id p)) False)
     (\<lambda>now s. (edited p now s)\<lparr>sc_project_id := sp_project_id p\<rparr>)"

text \<open>The query names the guest by its VMID alone.\<close>

definition GetResourceSchedule :: "int \<Rightarrow> schedule op" where
  "GetResourceSchedule vmid =
     query_row (\<lambda>tb. filter (\<lambda>s. sc_scope s = ResourceSchedule \<and> sc_vmid s = Some vmid) (schedules tb))"

definition GetProjectSchedule :: "string \<Rightarrow> string \<Rightarrow> schedule op" where
  "GetProjectSchedule t p = query_row (\<lambda>tb. filter (of_project t p) (schedules tb))"

definition GetSetSchedule :: "string \<Rightarrow> string \<Rightarrow> schedule op" where
  "GetSetSchedule t i = query_row (\<lambda>tb. filter (of_set t i) (schedules tb))"

text \<open>\<^verbatim>\<open>ORDER BY scope, vmid\<close>: the scope as text, a NULL last.\<close>

definition scope_text :: "schedule_scope \<Rightarrow> string" where
  "scope_text sc = (case sc of ResourceSchedule \<Rightarrow> ''resource'' | ProjectSchedule \<Rightarrow> ''project'' | SetSchedule \<Rightarrow> ''set'')"

definition vmid_order :: "int option \<Rightarrow> bool \<times> int" where
  "vmid_order v = (case v of None \<Rightarrow> (True, 0) | Some n \<Rightarrow> (False, n))"

definition ListSchedulesByProject :: "string \<Rightarrow> schedule list op" where
  "ListSchedulesByProject p = query (\<lambda>tb.
     sort_key (\<lambda>s. scope_text (sc_scope s))
       (sort_key (\<lambda>s. fst (vmid_order (sc_vmid s))) (sort_key (\<lambda>s. snd (vmid_order (sc_vmid s)))
         (filter (\<lambda>s. sc_project_id s = p) (schedules tb)))))"

definition delete_schedules :: "(schedule \<Rightarrow> bool) \<Rightarrow> unit op" where
  "delete_schedules P = bind_op (exec (\<lambda>now tb.
     (count_where P (schedules tb), tb\<lparr>schedules := delete_where P (schedules tb)\<rparr>))) affected_or_missing"

definition DeleteResourceSchedule :: "int \<Rightarrow> unit op" where
  "DeleteResourceSchedule vmid = delete_schedules (\<lambda>s. sc_scope s = ResourceSchedule \<and> sc_vmid s = Some vmid)"

definition DeleteProjectSchedule :: "string \<Rightarrow> string \<Rightarrow> unit op" where
  "DeleteProjectSchedule t p = delete_schedules (of_project t p)"

definition DeleteSetSchedule :: "string \<Rightarrow> string \<Rightarrow> unit op" where
  "DeleteSetSchedule t i = delete_schedules (of_set t i)"

section \<open>TTLs\<close>

record upsert_ttl_params =
  ut_tenant_id :: string
  ut_project_id :: string
  ut_vmid :: int
  ut_expires_at :: int
  ut_action :: string
  ut_original_duration :: int
  ut_created_by :: "string option"

text \<open>The CHECK of the action column.\<close>

definition ttl_action_of :: "string \<Rightarrow> ttl_action option" where
  "ttl_action_of s = (if s = ''stop'' then Some TTLStop else if s = ''delete'' then Some TTLDelete else None)"

definition action_text :: "ttl_action \<Rightarrow> string" where
  "action_text a = (case a of TTLStop \<Rightarrow> ''stop'' | TTLDelete \<Rightarrow> ''delete'')"

text \<open>The row holds the original duration in seconds; \<open>scanTTL\<close> makes it a duration again.\<close>

definition scanTTL :: "ttl \<Rightarrow> ttl" where
  "scanTTL r = r\<lparr>tl_original_duration := wrap64 (tl_original_duration r * second)\<rparr>"

definition new_ttl :: "upsert_ttl_params \<Rightarrow> ttl_action \<Rightarrow> string \<Rightarrow> int \<Rightarrow> ttl" where
  "new_ttl p act uid now = \<lparr>tl_id = uid, tl_tenant_id = ut_tenant_id p, tl_project_id = ut_project_id p,
     tl_vmid = ut_vmid p, tl_expires_at = ut_expires_at p, tl_action = act, tl_warned_24h = False,
     tl_warned_1h = False, tl_original_duration = whole_seconds (ut_original_duration p),
     tl_created_by = ut_created_by p, tl_created_at = now, tl_updated_at = now\<rparr>"

text \<open>On a conflict every column but the identifier and the creation time is replaced.\<close>

definition reset_ttl :: "upsert_ttl_params \<Rightarrow> ttl_action \<Rightarrow> int \<Rightarrow> ttl \<Rightarrow> ttl" where
  "reset_ttl p act now r = (new_ttl p act (tl_id r) (tl_created_at r))\<lparr>tl_updated_at := now\<rparr>"

definition UpsertTTL :: "upsert_ttl_params \<Rightarrow> ttl op" where
  "UpsertTTL p = (case ttl_action_of (ut_action p) of
      None \<Rightarrow> insert_row (\<lambda>uid now tb. Inl ErrDB)
    | Some act \<Rightarrow>
        let fks = (\<lambda>tb. project_fk (ut_tenant_id p) (ut_project_id p) tb \<and> user_fk (ut_created_by p) tb) in
        bind_op (upsert ttls ttls_update (\<lambda>r. tl_vmid r = ut_vmid p) (int4_range (ut_vmid p)) fks fks
          (new_ttl p act) (reset_ttl p act)) (\<lambda>r. ret (scanTTL r)))"

definition GetTTL :: "int \<Rightarrow> ttl op" where
  "GetTTL vmid = query_row (\<lambda>tb. map scanTTL (filter (\<lambda>r. tl_vmid r = vmid) (ttls tb)))"

definition DeleteTTL :: "int \<Rightarrow> unit op" where
  "DeleteTTL vmid = bind_op (exec (\<lambda>now tb.
     (count_where (\<lambda>r. tl_vmid r = vmid) (ttls tb), tb\<lparr>ttls := delete_where (\<lambda>r. tl_vmid r = vmid) (ttls tb)\<rparr>)))
     affected_or_missing"

definition update_ttl :: "int \<Rightarrow> (int \<Rightarrow> ttl \<Rightarrow> ttl) \<Rightarrow> unit op" where
  "update_ttl vmid f = bind_op (exec (\<lambda>now tb.
     (count_where (\<lambda>r. tl_vmid r = vmid) (ttls tb),
      tb\<lparr>ttls := update_where (\<lambda>r. tl_vmid r = vmid) (f now) (ttls tb)\<rparr>))) affected_or_missing"

text \<open>Any other tier than \<^verbatim>\<open>1h\<close> marks the 24-hour flag.\<close>

definition SetTTLWarned :: "int \<Rightarrow> string \<Rightarrow> unit op" where
  "SetTTLWarned vmid which = update_ttl vmid (\<lambda>now r.
     if which = ''1h'' then r\<lparr>tl_warned_1h := True, tl_updated_at := now\<rparr>
     else r\<lparr>tl_warned_24h := True, tl_updated_at := now\<rparr>)"

definition UpdateTTLExpiry :: "int \<Rightarrow> int \<Rightarrow> unit op" where
  "UpdateTTLExpiry vmid expires_at = update_ttl vmid (\<lambda>now r.
     r\<lparr>tl_expires_at := expires_at, tl_warned_24h := False, tl_warned_1h := False, tl_updated_at := now\<rparr>)"

definition ListTTLsByProject :: "string \<Rightarrow> ttl list op" where
  "ListTTLsByProject p = query (\<lambda>tb.
     sort_key tl_expires_at (map scanTTL (filter (\<lambda>r. tl_project_id r = p) (ttls tb))))"

section \<open>The project TTL policy\<close>

record upsert_ttl_policy_params =
  up_tenant_id :: string
  up_project_id :: string
  up_default_ttl :: "int option"
  up_max_ttl :: int

definition scanTTLPolicy :: "ttl_policy \<Rightarrow> ttl_policy" where
  "scanTTLPolicy r = r\<lparr>tp_default_ttl := map_option (\<lambda>s. wrap64 (s * second)) (tp_default_ttl r),
     tp_max_ttl := wrap64 (tp_max_ttl r * second)\<rparr>"

definition policy_of :: "string \<Rightarrow> string \<Rightarrow> ttl_policy \<Rightarrow> bool" where
  "policy_of t p r \<longleftrightarrow> tp_tenant_id r = t \<and> tp_project_id r = p"

definition GetProjectTTLPolicy :: "string \<Rightarrow> string \<Rightarrow> ttl_policy op" where
  "GetProjectTTLPolicy t p = query_row (\<lambda>tb. map scanTTLPolicy (filter (policy_of t p) (ttl_policies tb)))"

definition UpsertProjectTTLPolicy :: "upsert_ttl_policy_params \<Rightarrow> ttl_policy op" where
  "UpsertProjectTTLPolicy p =
     (let def_secs = map_option whole_seconds (up_default_ttl p); max_secs = whole_seconds (up_max_ttl p) in
      bind_op (upsert ttl_policies ttl_policies_update (policy_of (up_tenant_id p) (up_project_id p)) True
        (project_fk (up_tenant_id p) (up_project_id p)) (\<lambda>tb. True)
        (\<lambda>uid now. \<lparr>tp_tenant_id = up_tenant_id p, tp_project_id = up_project_id p, tp_default_ttl = def_secs,
           tp_max_ttl = max_secs, tp_created_at = now, tp_updated_at = now\<rparr>)
        (\<lambda>now r. r\<lparr>tp_default_ttl := def_secs, tp_max_ttl := max_secs, tp_updated_at := now\<rparr>))
        (\<lambda>r. ret (scanTTLPolicy r)))"

section \<open>What an upsert promises\<close>

locale keyed_table =
  fixes rows :: "tables \<Rightarrow> 'r list" and upd_rows :: "('r list \<Rightarrow> 'r list) \<Rightarrow> tables \<Rightarrow> tables" and key :: "'r \<Rightarrow> 'k"
  assumes get_put: "rows (upd_rows f tb) = f (rows tb)"
begin

definition unique :: "tables \<Rightarrow> bool" where
  "unique tb \<longleftrightarrow> distinct (map key (rows tb))"

lemma upsert_rows:
  assumes run: "upsert rows upd_rows (\<lambda>r. key r = k) c i u mk upd d = (Inr r, d')"
    and mk: "\<And>uid now. key (mk uid now) = k" and upd: "\<And>now r. key r = k \<Longrightarrow> key (upd now r) = k"
  shows "filter (\<lambda>r. key r = k) (rows (tabs d')) \<noteq> []"
    and "hd (filter (\<lambda>r. key r = k) (rows (tabs d'))) = r"
    and "filter (\<lambda>r. key r \<noteq> k) (rows (tabs d')) = filter (\<lambda>r. key r \<noteq> k) (rows (tabs d))"
    and "unique (tabs d) \<Longrightarrow> unique (tabs d')"
    and "clock d' = clock d" "in_tx d' = in_tx d" "faults d' = tl (faults d)"
proof -
  let ?hits = "filter (\<lambda>r. key r = k) (rows (tabs d))"
  have hits: "filter (\<lambda>r. key r = k) (update_where (\<lambda>r. key r = k) (upd now) rs) = map (upd now) (filter (\<lambda>r. key r = k) rs)"
    "filter (\<lambda>r. key r \<noteq> k) (update_where (\<lambda>r. key r = k) (upd now) rs) = filter (\<lambda>r. key r \<noteq> k) rs" for rs now
    by (induction rs) (auto simp: upd)
  have keys: "map key (update_where (\<lambda>r. key r = k) (upd now) rs) = map key rs" for rs now
    by (induction rs) (auto simp: upd)
  consider
      (new) "?hits = []" "rows (tabs d') = rows (tabs d) @ [r]" "key r = k"
    | (old) x xs where "?hits = x # xs" "r = upd (clock d) x"
        "rows (tabs d') = update_where (\<lambda>r. key r = k) (upd (clock d)) (rows (tabs d))"
    using run by (auto simp: upsert_def op_elims get_put mk split: if_splits list.splits)
  then show "filter (\<lambda>r. key r = k) (rows (tabs d')) \<noteq> []"
    and "hd (filter (\<lambda>r. key r = k) (rows (tabs d'))) = r"
    and "filter (\<lambda>r. key r \<noteq> k) (rows (tabs d')) = filter (\<lambda>r. key r \<noteq> k) (rows (tabs d))"
    and "unique (tabs d) \<Longrightarrow> unique (tabs d')"
    by (cases; auto simp: hits keys unique_def filter_empty_conv)+
  show "clock d' = clock d" "in_tx d' = in_tx d" "faults d' = tl (faults d)"
    using run by (auto simp: upsert_def op_elims)
qed

end

datatype schedule_key = GuestKey string "int option" | ProjectKey string string | SetKey string "string option"

definition schedule_key :: "schedule \<Rightarrow> schedule_key" where
  "schedule_key s = (case sc_scope s of
      ResourceSchedule \<Rightarrow> GuestKey (sc_tenant_id s) (sc_vmid s)
    | ProjectSchedule \<Rightarrow> ProjectKey (sc_tenant_id s) (sc_project_id s)
    | SetSchedule \<Rightarrow> SetKey (sc_tenant_id s) (sc_set_id s))"

lemma schedule_keys:
  "of_guest t v = (\<lambda>s. schedule_key s = GuestKey t (Some v))"
  "of_project t p = (\<lambda>s. schedule_key s = ProjectKey t p)"
  "of_set t i = (\<lambda>s. schedule_key s = SetKey t (Some i))"
  by (auto simp: fun_eq_iff of_guest_def of_project_def of_set_def schedule_key_def split: schedule_scope.split)

interpretation sched: keyed_table schedules schedules_update schedule_key
  by unfold_locales simp

interpretation ttl: keyed_table ttls ttls_update tl_vmid
  by unfold_locales simp

interpretation policy: keyed_table ttl_policies ttl_policies_update "\<lambda>r. (tp_tenant_id r, tp_project_id r)"
  by unfold_locales simp

lemma policy_key: "policy_of t p = (\<lambda>r. (tp_tenant_id r, tp_project_id r) = (t, p))"
  by (auto simp: policy_of_def)

section \<open>Runs of the lifecycle tables\<close>

inductive lifecycle_step :: "db \<Rightarrow> db \<Rightarrow> bool" where
  resource: "lifecycle_step d (snd (UpsertResourceSchedule rp d))"
| project: "lifecycle_step d (snd (UpsertProjectSchedule p d))"
| set: "lifecycle_step d (snd (UpsertSetSchedule sp d))"
| del_resource: "lifecycle_step d (snd (DeleteResourceSchedule v d))"
| del_project: "lifecycle_step d (snd (DeleteProjectSchedule t pr d))"
| del_set: "lifecycle_step d (snd (DeleteSetSchedule t i d))"
| ttl: "lifecycle_step d (snd (UpsertTTL tp d))"
| del_ttl: "lifecycle_step d (snd (DeleteTTL v d))"
| warned: "lifecycle_step d (snd (SetTTLWarned v which d))"
| expiry: "lifecycle_step d (snd (UpdateTTLExpiry v e d))"
| policy: "lifecycle_step d (snd (UpsertProjectTTLPolicy pp d))"
| time: "lifecycle_step d (d\<lparr>clock := t, faults := fs\<rparr>)"

text \<open>The unique indexes of the three tables.\<close>

definition keyed :: "tables \<Rightarrow> bool" where
  "keyed tb \<longleftrightarrow> sched.unique tb \<and> ttl.unique tb \<and> policy.unique tb"

lemma upsert_tabs:
  assumes "upsert rows upd_rows hit c i u mk upd d = (res, d')"
  shows "tabs d' = tabs d \<or> (\<exists>f. tabs d' = upd_rows f (tabs d))" "\<And>e. res = Inl e \<Longrightarrow> tabs d' = tabs d"
  using assms by (auto simp: upsert_def insert_row_def stmt_def Let_def split: if_splits sum.splits list.splits prod.splits)

lemma unique_other [simp]:
  "sched.unique (ttls_update f tb) = sched.unique tb" "sched.unique (ttl_policies_update g tb) = sched.unique tb"
  "ttl.unique (schedules_update h tb) = ttl.unique tb" "ttl.unique (ttl_policies_update g tb) = ttl.unique tb"
  "policy.unique (schedules_update h tb) = policy.unique tb" "policy.unique (ttls_update f tb) = policy.unique tb"
  by (simp_all add: sched.unique_def ttl.unique_def policy.unique_def)

lemma bind_scan_snd: "snd (bind_op m (\<lambda>r. ret (f r)) d) = snd (m d)"
  by (simp add: bind_op_def split: prod.split sum.split)

lemma exec_affected_tabs:
  "tabs (snd (bind_op (exec f) affected_or_missing d)) \<in> {tabs d, snd (f (clock d) (tabs d))}"
  by (auto simp: bind_op_def exec_def stmt_def affected_or_missing_def split: prod.split)

lemma upsert_keyed:
  assumes "\<And>r d'. upsert rows upd_rows hit c i u mk upd d = (Inr r, d') \<Longrightarrow> keyed (tabs d')" and "keyed (tabs d)"
  shows "keyed (tabs (snd (upsert rows upd_rows hit c i u mk upd d)))"
proof (cases "upsert rows upd_rows hit c i u mk upd d")
  case (Pair res d')
  then show ?thesis using assms upsert_tabs(2)[OF Pair] by (cases res) auto
qed

lemma schedule_upsert_keyed:
  assumes "keyed (tabs d)" "\<And>uid now. schedule_key (mk uid now) = k" "\<And>now r. schedule_key r = k \<Longrightarrow> schedule_key (upd now r) = k"
  shows "keyed (tabs (snd (upsert schedules schedules_update (\<lambda>s. schedule_key s = k) c i u mk upd d)))"
proof (rule upsert_keyed[OF _ assms(1)])
  fix r d' assume "upsert schedules schedules_update (\<lambda>s. schedule_key s = k) c i u mk upd d = (Inr r, d')"
  with assms sched.upsert_rows(4)[OF this assms(2,3)] upsert_tabs(1)[OF this] show "keyed (tabs d')"
    by (auto simp: keyed_def)
qed

lemma key_edits [simp]:
  "schedule_key (edited p now s) = schedule_key s"
  "schedule_key (new_schedule p ProjectSchedule None None b uid now) = ProjectKey (sp_tenant_id p) (sp_project_id p)"
  "schedule_key (new_schedule p ResourceSchedule v None b uid now) = GuestKey (sp_tenant_id p) v"
  "schedule_key (new_schedule p SetSchedule None i b uid now) = SetKey (sp_tenant_id p) i"
  by (simp_all add: edited_def new_schedule_def schedule_key_def cong: schedule_scope.case_cong)

lemma key_moved:
  "schedule_key s = GuestKey t v \<Longrightarrow> schedule_key (s\<lparr>sc_project_id := p, sc_opt_out := b\<rparr>) = GuestKey t v"
  "schedule_key s = SetKey t i \<Longrightarrow> schedule_key (s\<lparr>sc_project_id := p\<rparr>) = SetKey t i"
  by (auto simp: schedule_key_def split: schedule_scope.splits)

lemma ttl_upsert_keyed:
  assumes "keyed (tabs d)"
  shows "keyed (tabs (snd (UpsertTTL p d)))"
proof (cases "ttl_action_of (ut_action p)")
  case None
  then show ?thesis using assms by (simp add: UpsertTTL_def insert_row_def stmt_def)
next
  case (Some act)
  show ?thesis unfolding UpsertTTL_def Some option.case Let_def bind_scan_snd
  proof (rule upsert_keyed[OF _ assms], goal_cases)
    case (1 r d')
    from ttl.upsert_rows(4)[OF 1] upsert_tabs(1)[OF 1] assms show ?case
      by (auto simp: keyed_def new_ttl_def reset_ttl_def)
  qed
qed

lemma policy_upsert_keyed:
  assumes "keyed (tabs d)"
  shows "keyed (tabs (snd (UpsertProjectTTLPolicy p d)))"
  unfolding UpsertProjectTTLPolicy_def Let_def bind_scan_snd policy_key
proof (rule upsert_keyed[OF _ assms], goal_cases)
  case (1 r d')
  from policy.upsert_rows(4)[OF 1] upsert_tabs(1)[OF 1] assms show ?case
    by (auto simp: keyed_def)
qed

lemma exec_affected_keyed:
  "\<lbrakk>keyed (tabs d); keyed (snd (f (clock d) (tabs d)))\<rbrakk> \<Longrightarrow> keyed (tabs (snd (bind_op (exec f) affected_or_missing d)))"
  using exec_affected_tabs[of f d] by auto

lemma update_ttl_keyed:
  "\<lbrakk>keyed (tabs d); \<And>now r. tl_vmid (f now r) = tl_vmid r\<rbrakk> \<Longrightarrow> keyed (tabs (snd (update_ttl v f d)))"
  unfolding update_ttl_def
  by (rule exec_affected_keyed) (simp_all add: keyed_def ttl.unique_def map_update_where)

lemma delete_schedules_keyed: "keyed (tabs d) \<Longrightarrow> keyed (tabs (snd (delete_schedules P d)))"
  unfolding delete_schedules_def
  by (rule exec_affected_keyed) (simp_all add: keyed_def sched.unique_def distinct_map_delete_where)

lemma lifecycle_step_keyed: "\<lbrakk>lifecycle_step d d'; keyed (tabs d)\<rbrakk> \<Longrightarrow> keyed (tabs d')"
proof (induction rule: lifecycle_step.induct)
  case (resource d rp)
  then show ?case unfolding UpsertResourceSchedule_def schedule_keys
    by (intro schedule_upsert_keyed) (simp_all add: key_moved)
next
  case (set d sp)
  then show ?case unfolding UpsertSetSchedule_def schedule_keys
    by (intro schedule_upsert_keyed) (simp_all add: key_moved)
next
  case (project d p)
  then show ?case unfolding UpsertProjectSchedule_def schedule_keys by (intro schedule_upsert_keyed) simp_all
next
  case (warned d v which)
  then show ?case unfolding SetTTLWarned_def
    by (rule update_ttl_keyed) simp
next
  case (expiry d v e)
  then show ?case unfolding UpdateTTLExpiry_def
    by (rule update_ttl_keyed) simp
next
  case (ttl d tp)
  then show ?case by (rule ttl_upsert_keyed)
next
  case (policy d pp)
  then show ?case by (rule policy_upsert_keyed)
next
  case (del_ttl d v)
  then show ?case unfolding DeleteTTL_def
    by (intro exec_affected_keyed) (simp_all add: keyed_def ttl.unique_def distinct_map_delete_where)
next
  case (del_resource d v)
  then show ?case unfolding DeleteResourceSchedule_def
    by (rule delete_schedules_keyed)
next
  case (del_project d t pr)
  then show ?case unfolding DeleteProjectSchedule_def
    by (rule delete_schedules_keyed)
next
  case (del_set d t i)
  then show ?case unfolding DeleteSetSchedule_def
    by (rule delete_schedules_keyed)
next
  case (time d t fs)
  then show ?case by simp
qed

lemma lifecycle_run_keyed: "\<lbrakk>lifecycle_step\<^sup>*\<^sup>* d d'; keyed (tabs d)\<rbrakk> \<Longrightarrow> keyed (tabs d')"
  by (induction rule: rtranclp_induct) (auto intro: lifecycle_step_keyed)

section \<open>What was stored is what is read\<close>

lemma whole_seconds_exact: "\<lbrakk>second dvd x; int64_range x\<rbrakk> \<Longrightarrow> wrap64 (whole_seconds x * second) = x"
  by (auto simp: whole_seconds_def second_def int64_range_def wrap64_def)

lemma UpsertTTL_Inr:
  assumes "UpsertTTL p d = (Inr r, d')"
  obtains act r0 where "ttl_action_of (ut_action p) = Some act" "r = scanTTL r0"
    "r0 = new_ttl p act (tl_id r) (tl_created_at r)\<lparr>tl_updated_at := clock d\<rparr>"
    "filter (\<lambda>r. tl_vmid r = ut_vmid p) (ttls (tabs d')) \<noteq> []"
    "hd (filter (\<lambda>r. tl_vmid r = ut_vmid p) (ttls (tabs d'))) = r0"
    "filter (\<lambda>r. tl_vmid r \<noteq> ut_vmid p) (ttls (tabs d')) = filter (\<lambda>r. tl_vmid r \<noteq> ut_vmid p) (ttls (tabs d))"
    "\<exists>f. tabs d' = ttls_update f (tabs d)"
proof -
  obtain act where act: "ttl_action_of (ut_action p) = Some act"
    using assms by (cases "ttl_action_of (ut_action p)") (auto simp: UpsertTTL_def op_elims)
  let ?fks = "\<lambda>tb. project_fk (ut_tenant_id p) (ut_project_id p) tb \<and> user_fk (ut_created_by p) tb"
  obtain r0 where up: "upsert ttls ttls_update (\<lambda>r. tl_vmid r = ut_vmid p) (int4_range (ut_vmid p)) ?fks ?fks
      (new_ttl p act) (reset_ttl p act) d = (Inr r0, d')" and r: "r = scanTTL r0"
    using assms by (auto simp: UpsertTTL_def act Let_def op_elims)
  have shape: "r0 = (new_ttl p act (tl_id r0) (tl_created_at r0))\<lparr>tl_updated_at := clock d\<rparr>"
    using up by (auto simp: upsert_def op_elims reset_ttl_def new_ttl_def split: if_splits list.splits)
  have tabs: "\<exists>f. tabs d' = ttls_update f (tabs d)"
    using up by (auto simp: upsert_def op_elims split: if_splits list.splits)
  note rows = ttl.upsert_rows(1-3)[OF up]
  show thesis
    by (rule that[OF act r]) (use shape tabs rows in \<open>simp_all add: r scanTTL_def new_ttl_def reset_ttl_def\<close>)
qed

text \<open>what a TTL request stores is what the handlers later read: the row returned by the upsert is the one a
  lookup of the guest returns, with the requested expiry, action and duration and both warnings unsent, and
  the TTL of every other guest reads as before.\<close>

theorem TTL_round_trip:
  assumes "UpsertTTL p d = (Inr r, d1)" and "faults d1 = []"
    and "second dvd ut_original_duration p" and "int64_range (ut_original_duration p)" and "v \<noteq> ut_vmid p"
  shows "GetTTL (ut_vmid p) d1 = (Inr r, d1) \<and>
      tl_tenant_id r = ut_tenant_id p \<and> tl_project_id r = ut_project_id p \<and> tl_vmid r = ut_vmid p \<and>
      tl_expires_at r = ut_expires_at p \<and> action_text (tl_action r) = ut_action p \<and>
      tl_original_duration r = ut_original_duration p \<and> \<not> tl_warned_24h r \<and> \<not> tl_warned_1h r \<and>
      fst (GetTTL v d1) = fst (GetTTL v (d\<lparr>faults := []\<rparr>))"
proof -
  obtain act r0 where up: "ttl_action_of (ut_action p) = Some act" "r = scanTTL r0"
    "r0 = new_ttl p act (tl_id r) (tl_created_at r)\<lparr>tl_updated_at := clock d\<rparr>"
    "filter (\<lambda>r. tl_vmid r = ut_vmid p) (ttls (tabs d1)) \<noteq> []"
    "hd (filter (\<lambda>r. tl_vmid r = ut_vmid p) (ttls (tabs d1))) = r0"
    "filter (\<lambda>r. tl_vmid r \<noteq> ut_vmid p) (ttls (tabs d1)) = filter (\<lambda>r. tl_vmid r \<noteq> ut_vmid p) (ttls (tabs d))"
    by (rule UpsertTTL_Inr[OF assms(1)])
  have stored: "GetTTL (ut_vmid p) d1 = (Inr r, d1)"
    using assms(2) up(2,4,5) by (cases "filter (\<lambda>r. tl_vmid r = ut_vmid p) (ttls (tabs d1))") (simp_all add: GetTTL_def)
  obtain i c where r0: "r0 = (new_ttl p act i c)\<lparr>tl_updated_at := clock d\<rparr>"
    using up(3) by blast
  have "action_text act = ut_action p"
    using up(1) by (auto simp: ttl_action_of_def action_text_def split: if_splits)
  then have columns: "tl_tenant_id r = ut_tenant_id p \<and> tl_project_id r = ut_project_id p \<and> tl_vmid r = ut_vmid p \<and>
      tl_expires_at r = ut_expires_at p \<and> action_text (tl_action r) = ut_action p \<and>
      tl_original_duration r = ut_original_duration p \<and> \<not> tl_warned_24h r \<and> \<not> tl_warned_1h r"
    using whole_seconds_exact[OF assms(3,4)] unfolding up(2) r0 by (simp add: scanTTL_def new_ttl_def)
  have "filter (\<lambda>r. tl_vmid r = v) (ttls tb) = filter (\<lambda>r. tl_vmid r = v) (filter (\<lambda>r. tl_vmid r \<noteq> ut_vmid p) (ttls tb))" for tb
    using assms(5) by (auto intro!: filter_cong)
  from this[of "tabs d1"] this[of "tabs d"] have "filter (\<lambda>r. tl_vmid r = v) (ttls (tabs d1)) = filter (\<lambda>r. tl_vmid r = v) (ttls (tabs d))"
    unfolding up(6) by metis
  then have "fst (GetTTL v d1) = fst (GetTTL v (d\<lparr>faults := []\<rparr>))"
    using assms(2) by (simp add: GetTTL_def split: list.split)
  with stored columns show ?thesis by blast
qed

definition sample_ttl_params :: upsert_ttl_params where
  "sample_ttl_params = \<lparr>ut_tenant_id = ''t1'', ut_project_id = ''p1'', ut_vmid = 101, ut_expires_at = 5000 + 7 * 24 * hour,
     ut_action = ''delete'', ut_original_duration = 7 * 24 * hour, ut_created_by = Some ''u1''\<rparr>"

theorem TTL_round_trip_witness:
  "GetTTL 101 (snd (UpsertTTL sample_ttl_params (sample_db sample_tables))) =
     (fst (UpsertTTL sample_ttl_params (sample_db sample_tables)), snd (UpsertTTL sample_ttl_params (sample_db sample_tables)))"
proof -
  obtain r d1 where run: "UpsertTTL sample_ttl_params (sample_db sample_tables) = (Inr r, d1)" "faults d1 = []"
  proof -
    have "isl (fst (UpsertTTL sample_ttl_params (sample_db sample_tables))) = False"
      "faults (snd (UpsertTTL sample_ttl_params (sample_db sample_tables))) = []"
      by code_simp+
    then show thesis
      using that by (cases "UpsertTTL sample_ttl_params (sample_db sample_tables)"; cases "fst (UpsertTTL sample_ttl_params (sample_db sample_tables))") auto
  qed
  have "second dvd ut_original_duration sample_ttl_params" "int64_range (ut_original_duration sample_ttl_params)"
    "(102 :: int) \<noteq> ut_vmid sample_ttl_params" "ut_vmid sample_ttl_params = 101"
    by (simp_all add: sample_ttl_params_def second_def hour_def minute_def int64_range_def)
  with TTL_round_trip[OF run, of 102] run show ?thesis by simp
qed

end
