(* ===== verification/Lifecycle_Jobs.thy ===== *)
theory Lifecycle_Jobs
  imports Store_Lifecycle Scheduler Go_Encoding
begin

text \<open>
  How schedules and TTLs become jobs (\<^verbatim>\<open>internal/lifecycle\<close>: \<^verbatim>\<open>cron.go\<close> and the materialization halves of
  \<^verbatim>\<open>autoshutdown.go\<close> and \<^verbatim>\<open>ttl.go\<close>). Each feature cancels the jobs of its own handler prefix
  and enqueues a fresh set; the locale \<open>job_projection\<close> states what such a rewrite leaves in the queue and
  is interpreted for both features.
\<close>

section \<open>Clock times and cron expressions\<close>

definition warnLead :: int where "warnLead = 15 * minute"

text \<open>Go's \<^verbatim>\<open>%\<close>: the sign of the dividend.\<close>

definition go_rem :: "int \<Rightarrow> int \<Rightarrow> int" where
  "go_rem a b = (if a < 0 then - ((- a) mod b) else a mod b)"

definition parseHHMM :: "string \<Rightarrow> string + int \<times> int" where
  "parseHHMM s = (case split_on CHR '':'' s of
      [h, m] \<Rightarrow>
        (case atoi h of
           None \<Rightarrow> Inl (''invalid hour in '' @ go_quote s)
         | Some hh \<Rightarrow>
             if hh < 0 \<or> hh > 23 then Inl (''invalid hour in '' @ go_quote s)
             else (case atoi m of
                 None \<Rightarrow> Inl (''invalid minute in '' @ go_quote s)
               | Some mm \<Rightarrow> if mm < 0 \<or> mm > 59 then Inl (''invalid minute in '' @ go_quote s) else Inr (hh, mm)))
    | _ \<Rightarrow> Inl (''invalid time '' @ go_quote s @ '': want HH:MM''))"

definition cronExpr :: "int \<Rightarrow> int \<Rightarrow> int list \<Rightarrow> string" where
  "cronExpr hh mm days = itoa mm @ '' '' @ itoa hh @ '' * * '' @
     join_with '','' (map (\<lambda>d. itoa (go_rem (go_rem d 7 + 7) 7)) days)"

definition warnTime :: "int \<Rightarrow> int \<Rightarrow> int list \<Rightarrow> int \<times> int \<times> int list" where
  "warnTime hh mm days =
     (let total = hh * 60 + mm - warnLead div minute in
      if total \<ge> 0 then (total div 60, total mod 60, days)
      else let total = total + 24 * 60 in
        (total div 60, total mod 60, map (\<lambda>d. go_rem (go_rem (d - 1) 7 + 7) 7) days))"

section \<open>Auto-shutdown\<close>

text \<open>The services' configuration: the clock, the cron library and the default grace.\<close>

record 'loc materializer =
  mz_now :: int
  mz_cron :: "'loc cron_lib"
  mz_default_grace :: int

definition defaultGrace :: int where "defaultGrace = 120 * second"

definition grace :: "'loc materializer \<Rightarrow> int" where
  "grace mz = (if mz_default_grace mz > 0 then mz_default_grace mz else defaultGrace)"

definition HandlerStop :: string where "HandlerStop = ''autoshutdown.stop''"
definition HandlerWarn :: string where "HandlerWarn = ''autoshutdown.warn''"
definition HandlerStart :: string where "HandlerStart = ''autoshutdown.start''"

record job_payload =
  jp_schedule_id :: string
  jp_node :: string
  jp_guest_type :: string
  jp_grace_sec :: int
  jp_shutdown_time :: string

text \<open>\<^verbatim>\<open>json.Marshal\<close> of a struct: the fields in declaration order.\<close>

definition json_fields :: "(string \<times> json) list \<Rightarrow> string" where
  "json_fields kvs = ''{'' @ join_with '','' (map (\<lambda>(k, v). json_string k @ '':'' @ json_value v) kvs) @ ''}''"

definition marshal_job :: "job_payload \<Rightarrow> string" where
  "marshal_job p = json_fields ([(''schedule_id'', JStr (jp_schedule_id p)), (''node'', JStr (jp_node p)),
     (''guest_type'', JStr (jp_guest_type p)), (''grace_seconds'', JNum (jp_grace_sec p))] @
     (if jp_shutdown_time p = '''' then [] else [(''shutdown_time'', JStr (jp_shutdown_time p))]))"

definition auto_enqueue :: "'loc materializer \<Rightarrow> string \<Rightarrow> string \<Rightarrow> string \<Rightarrow> missed_policy \<Rightarrow> string \<Rightarrow>
  ownership \<Rightarrow> unit op" where
  "auto_enqueue mz handler cron tz missed payload own = (case NextCron (mz_cron mz) cron tz (mz_now mz) of
      Inl e \<Rightarrow> raise (ErrCaller (''materialize: next cron for '' @ handler @ '': '' @ e))
    | Inr next_run \<Rightarrow> bind_op (EnqueueJob \<lparr>ej_kind = Recurring, ej_handler = handler,
        ej_tenant_id = Some (o_tenant_id own), ej_project_id = Some (o_project_id own), ej_vmid = Some (o_vmid own),
        ej_payload = payload, ej_cron = Some cron, ej_timezone = Some tz, ej_run_at = next_run,
        ej_max_attempts = 0, ej_missed_policy = Some missed\<rparr>) (\<lambda>_. ret ()))"

definition schedule_grace :: "'loc materializer \<Rightarrow> int \<Rightarrow> int" where
  "schedule_grace mz g = (if g \<le> 0 then whole_seconds (grace mz) else g)"

definition auto_payload :: "'loc materializer \<Rightarrow> ownership \<Rightarrow> schedule \<Rightarrow> string" where
  "auto_payload mz own sc = marshal_job \<lparr>jp_schedule_id = sc_id sc, jp_node = o_node own,
     jp_guest_type = o_guest_type own, jp_grace_sec = schedule_grace mz (sc_grace_seconds sc),
     jp_shutdown_time = sc_shutdown_time sc\<rparr>"

definition vmid_text :: "ownership \<Rightarrow> string" where
  "vmid_text own = ''materialize vmid '' @ itoa (o_vmid own)"

definition auto_start :: "'loc materializer \<Rightarrow> ownership \<Rightarrow> schedule \<Rightarrow> unit op" where
  "auto_start mz own sc = (case sc_auto_start_time sc of
      None \<Rightarrow> ret ()
    | Some t \<Rightarrow>
        if t = '''' then ret ()
        else (case parseHHMM t of
            Inl e \<Rightarrow> raise (ErrCaller (vmid_text own @ '': auto_start_time: '' @ e))
          | Inr (sh, sm) \<Rightarrow> auto_enqueue mz HandlerStart (cronExpr sh sm (sc_days_of_week sc)) (sc_timezone sc) CatchUp
              (auto_payload mz own sc) own))"

definition auto_emit :: "'loc materializer \<Rightarrow> ownership \<Rightarrow> schedule \<Rightarrow> unit op" where
  "auto_emit mz own sc =
     (if sc_days_of_week sc = [] then raise (ErrCaller (vmid_text own @ '': schedule has no days_of_week''))
      else case parseHHMM (sc_shutdown_time sc) of
        Inl e \<Rightarrow> raise (ErrCaller (vmid_text own @ '': '' @ e))
      | Inr (hh, mm) \<Rightarrow>
          (case warnTime hh mm (sc_days_of_week sc) of (wh, wm, wdays) \<Rightarrow>
           bind_op (auto_enqueue mz HandlerStop (cronExpr hh mm (sc_days_of_week sc)) (sc_timezone sc) CatchUp
              (auto_payload mz own sc) own) (\<lambda>_.
           bind_op (auto_enqueue mz HandlerWarn (cronExpr wh wm wdays) (sc_timezone sc) RunLate
              (auto_payload mz own sc) own) (\<lambda>_.
           auto_start mz own sc))))"

definition resolve :: "ownership \<Rightarrow> schedule option op" where
  "resolve own = bind_op (attempt (GetResourceSchedule (o_vmid own))) (\<lambda>r.
     case r of
       Inr res \<Rightarrow> if sc_opt_out res \<or> \<not> sc_enabled res then ret None else ret (Some res)
     | Inl e \<Rightarrow>
         if e \<noteq> ErrNotFound then raise e
         else bind_op (attempt (GetProjectSchedule (o_tenant_id own) (o_project_id own))) (\<lambda>r.
           case r of
             Inr proj \<Rightarrow> if \<not> sc_enabled proj then ret None else ret (Some proj)
           | Inl e \<Rightarrow> if e = ErrNotFound then ret None else raise e))"

definition auto_materializeTx :: "'loc materializer \<Rightarrow> ownership \<Rightarrow> unit op" where
  "auto_materializeTx mz own =
     bind_op (CancelJobsForVMIDByPrefix (o_vmid own) ''autoshutdown.'') (\<lambda>_.
     if o_status own = Tombstoned then ret ()
     else bind_op (resolve own) (\<lambda>r. case r of None \<Rightarrow> ret () | Some sc \<Rightarrow> auto_emit mz own sc))"

definition auto_MaterializeForGuest :: "'loc materializer \<Rightarrow> ownership \<Rightarrow> unit op" where
  "auto_MaterializeForGuest mz own = WithTx (auto_materializeTx mz own)"

definition auto_MaterializeForGuestWith :: "'loc materializer \<Rightarrow> ownership \<Rightarrow> unit op" where
  "auto_MaterializeForGuestWith mz own = auto_materializeTx mz own"

text \<open>A guest that fails is logged and skipped.\<close>

fun materialize_all :: "'loc materializer \<Rightarrow> ownership list \<Rightarrow> unit op" where
  "materialize_all mz [] = ret ()"
| "materialize_all mz (own # owns) =
     (if o_status own = Tombstoned then materialize_all mz owns
      else bind_op (attempt (auto_MaterializeForGuest mz own)) (\<lambda>_. materialize_all mz owns))"

definition MaterializeProject :: "'loc materializer \<Rightarrow> string \<Rightarrow> unit op" where
  "MaterializeProject mz project = bind_op (ListOwnershipByProject project) (materialize_all mz)"

section \<open>TTLs\<close>

definition HandlerTTLWarn :: string where "HandlerTTLWarn = ''ttl.warn''"
definition HandlerTTLExpire :: string where "HandlerTTLExpire = ''ttl.expire''"
definition ttlJobPrefix :: string where "ttlJobPrefix = ''ttl.''"
definition DefaultMaxTTL :: int where "DefaultMaxTTL = 30 * 24 * hour"
definition warnLead24h :: int where "warnLead24h = 24 * hour"
definition warnLead1h :: int where "warnLead1h = hour"

record ttl_payload =
  tq_node :: string
  tq_guest_type :: string
  tq_ttl_id :: string
  tq_action :: string
  tq_which :: string

definition marshal_ttl :: "ttl_payload \<Rightarrow> string" where
  "marshal_ttl p = json_fields ([(''node'', JStr (tq_node p)), (''guest_type'', JStr (tq_guest_type p)),
     (''ttl_id'', JStr (tq_ttl_id p)), (''action'', JStr (tq_action p))] @
     (if tq_which p = '''' then [] else [(''which'', JStr (tq_which p))]))"

definition ttl_job_payload :: "ownership \<Rightarrow> ttl \<Rightarrow> string \<Rightarrow> ttl_payload" where
  "ttl_job_payload own t which = \<lparr>tq_node = o_node own, tq_guest_type = o_guest_type own, tq_ttl_id = tl_id t,
     tq_action = action_text (tl_action t), tq_which = which\<rparr>"

definition enqueueOneShot :: "string \<Rightarrow> int \<Rightarrow> ttl_payload \<Rightarrow> ownership \<Rightarrow> unit op" where
  "enqueueOneShot handler run_at pl own = bind_op (EnqueueJob \<lparr>ej_kind = OneShot, ej_handler = handler,
     ej_tenant_id = Some (o_tenant_id own), ej_project_id = Some (o_project_id own), ej_vmid = Some (o_vmid own),
     ej_payload = marshal_ttl pl, ej_cron = None, ej_timezone = None, ej_run_at = run_at,
     ej_max_attempts = 0, ej_missed_policy = Some RunLate\<rparr>) (\<lambda>_. ret ())"

definition ttl_warn :: "int \<Rightarrow> ownership \<Rightarrow> ttl \<Rightarrow> string \<Rightarrow> int \<Rightarrow> bool \<Rightarrow> unit op" where
  "ttl_warn now own t which lead already =
     (let at = tl_expires_at t - lead in
      if already \<or> \<not> at > now then ret ()
      else enqueueOneShot HandlerTTLWarn at (ttl_job_payload own t which) own)"

definition ttl_emit :: "int \<Rightarrow> ownership \<Rightarrow> ttl \<Rightarrow> unit op" where
  "ttl_emit now own t =
     bind_op (ttl_warn now own t ''24h'' warnLead24h (tl_warned_24h t)) (\<lambda>_.
     bind_op (ttl_warn now own t ''1h'' warnLead1h (tl_warned_1h t)) (\<lambda>_.
     enqueueOneShot HandlerTTLExpire (tl_expires_at t) (ttl_job_payload own t '''') own))"

definition ttl_materializeTx :: "int \<Rightarrow> ownership \<Rightarrow> unit op" where
  "ttl_materializeTx now own =
     bind_op (CancelJobsForVMIDByPrefix (o_vmid own) ttlJobPrefix) (\<lambda>_.
     if o_status own = Tombstoned then ret ()
     else bind_op (attempt (GetTTL (o_vmid own))) (\<lambda>r.
       case r of
         Inl e \<Rightarrow> if e = ErrNotFound then ret () else raise e
       | Inr t \<Rightarrow> ttl_emit now own t))"

definition ttl_MaterializeForGuest :: "int \<Rightarrow> ownership \<Rightarrow> unit op" where
  "ttl_MaterializeForGuest now own = WithTx (ttl_materializeTx now own)"

definition ttl_MaterializeForGuestWith :: "int \<Rightarrow> ownership \<Rightarrow> unit op" where
  "ttl_MaterializeForGuestWith now own = ttl_materializeTx now own"

definition CapExtension :: "int \<Rightarrow> int \<Rightarrow> int \<Rightarrow> int \<Rightarrow> int" where
  "CapExtension now expires_at original max_ttl =
     (let new_expiry = expires_at + original; ceiling = now + max_ttl
      in if new_expiry > ceiling then ceiling else new_expiry)"

definition ExtendTTL :: "int \<Rightarrow> ownership \<Rightarrow> ttl \<Rightarrow> int op" where
  "ExtendTTL now own t = bind_op (attempt (GetProjectTTLPolicy (o_tenant_id own) (o_project_id own))) (\<lambda>r.
     let extend = (\<lambda>max_ttl.
       let new_expiry = CapExtension now (tl_expires_at t) (tl_original_duration t) max_ttl in
       bind_op (WithTx (bind_op (UpdateTTLExpiry (o_vmid own) new_expiry) (\<lambda>_. ttl_materializeTx now own)))
         (\<lambda>_. ret new_expiry))
     in case r of
       Inr pol \<Rightarrow> extend (tp_max_ttl pol)
     | Inl e \<Rightarrow> if e = ErrNotFound then extend DefaultMaxTTL else raise e)"

section \<open>Warnings come a quarter of an hour early\<close>

text \<open>A minute of the week, days counted from Sunday.\<close>

definition week :: int where "week = 7 * 24 * 60"

definition week_minute :: "int \<Rightarrow> int \<Rightarrow> int \<Rightarrow> int" where
  "week_minute d hh mm = ((d * 24 + hh) * 60 + mm) mod week"

lemma go_rem_day [simp]: "go_rem (go_rem d 7 + 7) 7 = d mod 7"
proof -
  have "0 \<le> go_rem d 7 + 7"
    using pos_mod_bound[of 7 "- d"] by (simp add: go_rem_def) linarith
  moreover have "(- (- d mod 7)) mod 7 = d mod 7"
    using mod_minus_eq[of "- d" 7] by simp
  ultimately show ?thesis by (simp add: go_rem_def)
qed

lemma parseHHMM_range: "parseHHMM s = Inr (hh, mm) \<Longrightarrow> 0 \<le> hh \<and> hh \<le> 23 \<and> 0 \<le> mm \<and> mm \<le> 59"
  by (auto simp: parseHHMM_def split: list.splits option.splits if_splits)

lemma week_shift: "week_minute ((d - 1) mod 7) hh mm = (week_minute d hh mm - 24 * 60) mod week"
proof -
  have shift: "(x * 24 + hh) * 60 + mm = (d * 24 + hh) * 60 + mm - 24 * 60 + (- q) * week" if "x + 7 * q = d - 1" for x q
    using that by (simp add: week_def algebra_simps)
  have "(d - 1) mod 7 + 7 * ((d - 1) div 7) = d - 1" by simp
  from shift[OF this] show ?thesis unfolding week_minute_def by (simp only: mod_mult_self1 mod_diff_left_eq)
qed

text \<open>the warning of a scheduled shutdown fires exactly fifteen minutes of the week before it, also when that
  is on the evening before: the warning time is a valid clock time, and for every day of the schedule its
  minute of the week is the shutdown's less fifteen.\<close>

theorem warning_quarter_hour_early:
  assumes "parseHHMM s = Inr (hh, mm)" and "warnTime hh mm days = (wh, wm, wdays)"
  shows "(0 \<le> wh \<and> wh \<le> 23 \<and> 0 \<le> wm \<and> wm \<le> 59) \<and>
    map (\<lambda>d. week_minute d wh wm) wdays = map (\<lambda>d. (week_minute d hh mm - 15) mod week) days"
proof -
  note r = parseHHMM_range[OF assms(1)]
  define t where "t = hh * 60 + mm - 15"
  have lead: "warnLead div minute = 15" by (simp add: warnLead_def minute_def second_def)
  have early: "(week_minute d hh mm - 15) mod week = week_minute d 0 t" for d
    by (simp add: week_minute_def t_def mod_diff_left_eq algebra_simps)
  have parts: "week_minute d (u div 60) (u mod 60) = week_minute d 0 u" for d u
    by (simp add: week_minute_def algebra_simps)
  consider "0 \<le> t" "wh = t div 60" "wm = t mod 60" "wdays = days"
    | "t < 0" "wh = (t + 24 * 60) div 60" "wm = (t + 24 * 60) mod 60" "wdays = map (\<lambda>d. (d - 1) mod 7) days"
    using assms(2) by (auto simp: warnTime_def lead t_def Let_def split: if_splits)
  then show ?thesis
  proof cases
    case 1
    with r have "0 \<le> wh \<and> wh \<le> 23 \<and> 0 \<le> wm \<and> wm \<le> 59" by (auto simp: t_def)
    with 1 show ?thesis by (simp add: early parts)
  next
    case 2
    with r have "0 \<le> wh \<and> wh \<le> 23 \<and> 0 \<le> wm \<and> wm \<le> 59" by (auto simp: t_def)
    moreover have "(week_minute d 0 (t + 24 * 60) - 24 * 60) mod week = week_minute d 0 t" for d
      by (simp add: week_minute_def mod_diff_left_eq algebra_simps)
    ultimately show ?thesis using 2 by (simp add: early parts week_shift)
  qed
qed

theorem warning_quarter_hour_early_witness:
  "map (\<lambda>d. week_minute d 23 50) [0, 6] = map (\<lambda>d. (week_minute d 0 5 - 15) mod week) [1, 0]"
proof -
  have "parseHHMM ''00:05'' = Inr (0, 5)" "warnTime 0 5 [1, 0] = (23, 50, [0, 6])" by code_simp+
  from warning_quarter_hour_early[OF this] show ?thesis by (rule conjunct2)
qed

section \<open>A feature rewrites its own jobs\<close>

fun enqueue_all :: "enqueue_params list \<Rightarrow> unit op" where
  "enqueue_all [] = ret ()"
| "enqueue_all (p # ps) = bind_op (EnqueueJob p) (\<lambda>_. enqueue_all ps)"

lemma bind_op_assoc: "bind_op (bind_op m f) g = bind_op m (\<lambda>x. bind_op (f x) g)"
  by (simp add: fun_eq_iff bind_op_def split: prod.split sum.split)

lemma bind_op_ret [simp]: "bind_op (ret x) k = k x"
  by (simp add: fun_eq_iff bind_op_def)

lemma bind_op_raise [simp]: "bind_op (raise e) k = raise e"
  by (simp add: fun_eq_iff bind_op_def)

lemma bind_op_Pair [simp]: "bind_op (Pair (Inr x)) k = k x" "bind_op (Pair (Inl e)) k = Pair (Inl e)"
  by (simp_all add: fun_eq_iff bind_op_def)

lemma enqueue_all_append: "enqueue_all (ps @ qs) = bind_op (enqueue_all ps) (\<lambda>_. enqueue_all qs)"
  by (induction ps) (simp_all add: bind_op_assoc)

text \<open>A job as the request that made it, the defaults filled in.\<close>

definition spec_of :: "job \<Rightarrow> enqueue_params" where
  "spec_of j = \<lparr>ej_kind = j_kind j, ej_handler = j_handler j, ej_tenant_id = j_tenant_id j,
     ej_project_id = j_project_id j, ej_vmid = j_vmid j, ej_payload = j_payload j, ej_cron = j_cron j,
     ej_timezone = j_timezone j, ej_run_at = j_run_at j, ej_max_attempts = j_max_attempts j,
     ej_missed_policy = Some (j_missed_policy j)\<rparr>"

definition filled :: "enqueue_params \<Rightarrow> enqueue_params" where
  "filled p = p\<lparr>ej_max_attempts := job_max_attempts p,
     ej_missed_policy := Some (case ej_missed_policy p of None \<Rightarrow> CatchUp | Some m \<Rightarrow> m)\<rparr>"

lemma EnqueueJob_Inr:
  assumes "EnqueueJob p d = (Inr j, d')"
  shows "tabs d' = (tabs d)\<lparr>jobs := jobs (tabs d) @ [j]\<rparr>" "spec_of j = filled p" "j_status j = Scheduled"
    "clock d' = clock d" "in_tx d' = in_tx d"
  using assms by (auto simp: EnqueueJob_def op_elims new_job_def spec_of_def filled_def split: if_splits)

lemma enqueue_all_Inr:
  "enqueue_all ps d = (Inr u, d') \<Longrightarrow> \<exists>js. tabs d' = (tabs d)\<lparr>jobs := jobs (tabs d) @ js\<rparr> \<and>
     map spec_of js = map filled ps \<and> (\<forall>j \<in> set js. j_status j = Scheduled)"
proof (induction ps arbitrary: d)
  case (Cons p ps)
  then obtain j d1 where run: "EnqueueJob p d = (Inr j, d1)" "enqueue_all ps d1 = (Inr u, d')"
    by (auto simp: op_elims)
  from Cons.IH[OF run(2)] obtain js where js: "tabs d' = (tabs d1)\<lparr>jobs := jobs (tabs d1) @ js\<rparr>"
    "map spec_of js = map filled ps" "\<forall>j \<in> set js. j_status j = Scheduled" by blast
  with EnqueueJob_Inr[OF run(1)] show ?case by (intro exI[of _ "j # js"]) simp
qed simp

text \<open>The jobs of a guest whose handler has the prefix, whatever their status.\<close>

definition of_feature :: "int \<Rightarrow> string \<Rightarrow> job \<Rightarrow> bool" where
  "of_feature vmid prefix j \<longleftrightarrow> j_vmid j = Some vmid \<and> sql_like (prefix @ ''%'') (j_handler j)"

text \<open>\<open>rewritten vmid prefix ps tb tb'\<close>: the live jobs of the feature are exactly those asked for by \<open>ps\<close>; all
  other jobs and all other tables are as before.\<close>

definition rewritten :: "int \<Rightarrow> string \<Rightarrow> enqueue_params list \<Rightarrow> tables \<Rightarrow> tables \<Rightarrow> bool" where
  "rewritten vmid prefix ps tb tb' \<longleftrightarrow>
     map spec_of (filter (\<lambda>j. of_feature vmid prefix j \<and> live_job j) (jobs tb')) = map filled ps \<and>
     filter (\<lambda>j. \<not> of_feature vmid prefix j) (jobs tb') = filter (\<lambda>j. \<not> of_feature vmid prefix j) (jobs tb) \<and>
     tb'\<lparr>jobs := []\<rparr> = tb\<lparr>jobs := []\<rparr>"

lemma filter_update_where_none:
  "\<lbrakk>\<And>r. P r \<Longrightarrow> \<not> Q (f r); \<And>r. Q r \<Longrightarrow> P r\<rbrakk> \<Longrightarrow> filter Q (update_where P f rs) = []"
  by (induction rs) auto

lemma rewritten_run:
  assumes cancel: "CancelJobsForVMIDByPrefix v pre d = (Inr n, d1)" and same: "tabs d2 = tabs d1"
    and run: "enqueue_all ps d2 = (Inr u, d')"
    and own: "\<And>p. p \<in> set ps \<Longrightarrow> ej_vmid p = Some v \<and> sql_like (pre @ ''%'') (ej_handler p)"
  shows "rewritten v pre ps (tabs d) (tabs d')"
proof -
  let ?P = "\<lambda>j. j_vmid j = Some v \<and> live_job j \<and> sql_like (pre @ ''%'') (j_handler j)"
  let ?old = "update_where ?P (unlocked Cancelled (clock d)) (jobs (tabs d))"
  obtain js where js: "tabs d' = (tabs d2)\<lparr>jobs := jobs (tabs d2) @ js\<rparr>" "map spec_of js = map filled ps"
    "\<forall>j \<in> set js. j_status j = Scheduled"
    using enqueue_all_Inr[OF run] by blast
  have old: "tabs d2 = (tabs d)\<lparr>jobs := ?old\<rparr>"
    using cancel same by (auto simp: CancelJobsForVMIDByPrefix_def op_elims update_jobs_def)
  have fresh: "of_feature v pre j \<and> live_job j" if "j \<in> set js" for j
  proof -
    have "spec_of j \<in> filled ` set ps" using that js(2) by (metis image_eqI list.set_map)
    then obtain p where p: "p \<in> set ps" "spec_of j = filled p" by blast
    from arg_cong[OF p(2), of ej_vmid] arg_cong[OF p(2), of ej_handler] own[OF p(1)] js(3) that
    show ?thesis by (simp add: of_feature_def live_job_def spec_of_def filled_def)
  qed
  have "filter (\<lambda>j. of_feature v pre j \<and> live_job j) ?old = []"
    by (rule filter_update_where_none) (auto simp: of_feature_def live_job_def)
  moreover have "filter (\<lambda>j. \<not> of_feature v pre j) ?old = filter (\<lambda>j. \<not> of_feature v pre j) (jobs (tabs d))"
    by (rule filter_update_where_other) (auto simp: of_feature_def)
  ultimately show ?thesis
    using js fresh by (simp add: rewritten_def old filter_True filter_False)
qed

text \<open>What the two features promise: after the cancellation they read tables that they leave alone and enqueue
  the jobs of a plan, each of them the guest's own and with the feature's prefix.\<close>

locale job_projection =
  fixes prefix :: string and materialize :: "'c \<Rightarrow> ownership \<Rightarrow> unit op"
    and plan :: "'c \<Rightarrow> ownership \<Rightarrow> tables \<Rightarrow> enqueue_params list"
  assumes runs: "materialize c own d = (Inr u, d') \<Longrightarrow>
      \<exists>n d1 d2. CancelJobsForVMIDByPrefix (o_vmid own) prefix d = (Inr n, d1) \<and> tabs d2 = tabs d1 \<and>
        enqueue_all (plan c own (tabs d1)) d2 = (Inr u, d')"
    and plan_own: "p \<in> set (plan c own tb) \<Longrightarrow> ej_vmid p = Some (o_vmid own) \<and> sql_like (prefix @ ''%'') (ej_handler p)"
    and plan_jobs: "plan c own (tb\<lparr>jobs := js\<rparr>) = plan c own tb"
begin

lemma exact:
  assumes "materialize c own d = (Inr u, d')"
  shows "rewritten (o_vmid own) prefix (plan c own (tabs d)) (tabs d) (tabs d')"
proof -
  obtain n d1 d2 where run: "CancelJobsForVMIDByPrefix (o_vmid own) prefix d = (Inr n, d1)" "tabs d2 = tabs d1"
    "enqueue_all (plan c own (tabs d1)) d2 = (Inr u, d')"
    using runs[OF assms] by blast
  have "plan c own (tabs d1) = plan c own (tabs d)"
    using run(1) by (auto simp: CancelJobsForVMIDByPrefix_def op_elims update_jobs_def plan_jobs)
  with rewritten_run[OF run plan_own] show ?thesis by simp
qed

lemma exact_tx:
  assumes "WithTx (materialize c own) d = (Inr u, d')"
  shows "rewritten (o_vmid own) prefix (plan c own (tabs d)) (tabs d) (tabs d')"
proof (cases "in_tx d")
  case True
  with assms show ?thesis by (simp add: WithTx_joins exact)
next
  case False
  with assms obtain d1 where "materialize c own ((pop_fault d)\<lparr>in_tx := True\<rparr>) = (Inr u, d1)" "tabs d' = tabs d1"
    by (auto simp: WithTx_Inr_iff)
  with exact[OF this(1)] show ?thesis by simp
qed

end

section \<open>The plan of a TTL\<close>

definition ttl_request :: "ownership \<Rightarrow> string \<Rightarrow> int \<Rightarrow> ttl_payload \<Rightarrow> enqueue_params" where
  "ttl_request own handler run_at pl = \<lparr>ej_kind = OneShot, ej_handler = handler,
     ej_tenant_id = Some (o_tenant_id own), ej_project_id = Some (o_project_id own), ej_vmid = Some (o_vmid own),
     ej_payload = marshal_ttl pl, ej_cron = None, ej_timezone = None, ej_run_at = run_at,
     ej_max_attempts = 0, ej_missed_policy = Some RunLate\<rparr>"

text \<open>The warnings that are unsent and still ahead, a day and an hour early, then the expiry.\<close>

definition ttl_plan :: "int \<Rightarrow> ownership \<Rightarrow> ttl \<Rightarrow> enqueue_params list" where
  "ttl_plan now own t =
     [ttl_request own HandlerTTLWarn (tl_expires_at t - lead) (ttl_job_payload own t which).
        (which, lead, sent) \<leftarrow> [(''24h'', 24 * hour, tl_warned_24h t), (''1h'', hour, tl_warned_1h t)],
        \<not> sent \<and> tl_expires_at t - lead > now] @
     [ttl_request own HandlerTTLExpire (tl_expires_at t) (ttl_job_payload own t '''')]"

definition guest_ttl_plan :: "int \<Rightarrow> ownership \<Rightarrow> tables \<Rightarrow> enqueue_params list" where
  "guest_ttl_plan now own tb =
     (if o_status own = Tombstoned then []
      else case filter (\<lambda>r. tl_vmid r = o_vmid own) (ttls tb) of [] \<Rightarrow> [] | r # _ \<Rightarrow> ttl_plan now own (scanTTL r))"

lemma ttl_emit_plan: "ttl_emit now own t = enqueue_all (ttl_plan now own t)"
  by (simp add: ttl_emit_def ttl_plan_def ttl_warn_def Let_def warnLead24h_def warnLead1h_def enqueueOneShot_def
      ttl_request_def bind_op_assoc)

lemma ttl_handlers_like [simp]:
  "sql_like (ttlJobPrefix @ ''%'') HandlerTTLWarn" "sql_like (ttlJobPrefix @ ''%'') HandlerTTLExpire"
  by code_simp+

lemma ttl_materialize_runs:
  assumes "ttl_materializeTx now own d = (Inr u, d')"
  shows "\<exists>n d1 d2. CancelJobsForVMIDByPrefix (o_vmid own) ttlJobPrefix d = (Inr n, d1) \<and> tabs d2 = tabs d1 \<and>
    enqueue_all (guest_ttl_plan now own (tabs d1)) d2 = (Inr u, d')"
proof -
  let ?rest = "if o_status own = Tombstoned then ret ()
     else bind_op (attempt (GetTTL (o_vmid own))) (\<lambda>r.
       case r of Inl e \<Rightarrow> if e = ErrNotFound then ret () else raise e | Inr t \<Rightarrow> ttl_emit now own t)"
  obtain n d1 where c: "CancelJobsForVMIDByPrefix (o_vmid own) ttlJobPrefix d = (Inr n, d1)" and rest: "?rest d1 = (Inr u, d')"
    using assms unfolding ttl_materializeTx_def by (auto simp: bind_op_Inr_iff)
  have "\<exists>d2. tabs d2 = tabs d1 \<and> enqueue_all (guest_ttl_plan now own (tabs d1)) d2 = (Inr u, d')"
  proof (cases "o_status own = Tombstoned")
    case True
    with rest show ?thesis by (intro exI[of _ d1]) (simp add: guest_ttl_plan_def)
  next
    case False
    obtain res d2 where g: "GetTTL (o_vmid own) d1 = (res, d2)" by fastforce
    have "tabs d2 = tabs d1" using g read_only_query_row by (auto simp: GetTTL_def read_only_def)
    moreover have "enqueue_all (guest_ttl_plan now own (tabs d1)) d2 = (Inr u, d')"
      using rest False g
      by (auto simp: guest_ttl_plan_def bind_op_def ttl_emit_plan GetTTL_def query_row_def query_def stmt_def first_row_def
          split: list.splits if_splits)
    ultimately show ?thesis by blast
  qed
  with c show ?thesis by blast
qed

interpretation ttl_jobs: job_projection ttlJobPrefix ttl_materializeTx guest_ttl_plan
proof (unfold_locales, goal_cases)
  case (1 now own d u d')
  then show ?case by (rule ttl_materialize_runs)
next
  case (2 p now own tb)
  then show ?case
    by (auto simp: guest_ttl_plan_def ttl_plan_def ttl_request_def split: if_splits list.splits)
next
  case (3 now own tb js)
  then show ?case by (simp add: guest_ttl_plan_def)
qed

section \<open>The plan of a schedule\<close>

definition auto_request :: "'loc materializer \<Rightarrow> ownership \<Rightarrow> schedule \<Rightarrow> string \<times> string \<times> missed_policy \<Rightarrow> enqueue_params" where
  "auto_request mz own sc = (\<lambda>(handler, cron, missed). \<lparr>ej_kind = Recurring, ej_handler = handler,
     ej_tenant_id = Some (o_tenant_id own), ej_project_id = Some (o_project_id own), ej_vmid = Some (o_vmid own),
     ej_payload = auto_payload mz own sc, ej_cron = Some cron, ej_timezone = Some (sc_timezone sc),
     ej_run_at = (case NextCron (mz_cron mz) cron (sc_timezone sc) (mz_now mz) of Inl _ \<Rightarrow> 0 | Inr t \<Rightarrow> t),
     ej_max_attempts = 0, ej_missed_policy = Some missed\<rparr>)"

text \<open>The jobs of a schedule: the stop, the warning before it and, where asked for, the start.\<close>

definition start_specs :: "schedule \<Rightarrow> (string \<times> string \<times> missed_policy) list" where
  "start_specs sc = (case sc_auto_start_time sc of
      None \<Rightarrow> []
    | Some t \<Rightarrow> if t = '''' then []
        else (case parseHHMM t of
            Inl _ \<Rightarrow> []
          | Inr (sh, sm) \<Rightarrow> [(HandlerStart, cronExpr sh sm (sc_days_of_week sc), CatchUp)]))"

definition auto_specs :: "schedule \<Rightarrow> (string \<times> string \<times> missed_policy) list" where
  "auto_specs sc = (case parseHHMM (sc_shutdown_time sc) of
      Inl _ \<Rightarrow> []
    | Inr (hh, mm) \<Rightarrow> (case warnTime hh mm (sc_days_of_week sc) of (wh, wm, wdays) \<Rightarrow>
        [(HandlerStop, cronExpr hh mm (sc_days_of_week sc), CatchUp), (HandlerWarn, cronExpr wh wm wdays, RunLate)] @
        start_specs sc))"

text \<open>The schedule in force: the guest's own row decides alone where there is one, else the project's.\<close>

definition in_force :: "ownership \<Rightarrow> tables \<Rightarrow> schedule option" where
  "in_force own tb = (case filter (\<lambda>s. sc_scope s = ResourceSchedule \<and> sc_vmid s = Some (o_vmid own)) (schedules tb) of
      s # _ \<Rightarrow> if sc_opt_out s \<or> \<not> sc_enabled s then None else Some s
    | [] \<Rightarrow> (case filter (of_project (o_tenant_id own) (o_project_id own)) (schedules tb) of
          s # _ \<Rightarrow> if sc_enabled s then Some s else None
        | [] \<Rightarrow> None))"

definition guest_auto_plan :: "'loc materializer \<Rightarrow> ownership \<Rightarrow> tables \<Rightarrow> enqueue_params list" where
  "guest_auto_plan mz own tb = (if o_status own = Tombstoned then []
     else case in_force own tb of None \<Rightarrow> [] | Some sc \<Rightarrow> map (auto_request mz own sc) (auto_specs sc))"

lemma resolve_Inr:
  assumes "resolve own d = (Inr r, d')"
  shows "r = in_force own (tabs d)" "tabs d' = tabs d"
  using assms
  by (auto simp: resolve_def in_force_def GetResourceSchedule_def GetProjectSchedule_def bind_op_def query_row_def query_def
      stmt_def first_row_def split: list.splits if_splits)

lemma auto_enqueue_Inr:
  "auto_enqueue mz h c (sc_timezone sc) m (auto_payload mz own sc) own d = (Inr u, d') \<Longrightarrow>
   enqueue_all [auto_request mz own sc (h, c, m)] d = (Inr u, d')"
  by (auto simp: auto_enqueue_def auto_request_def split: sum.splits)

lemma auto_start_Inr:
  assumes "auto_start mz own sc d = (Inr u, d')"
  shows "enqueue_all (map (auto_request mz own sc) (start_specs sc)) d = (Inr u, d')"
  using assms
  by (auto simp: auto_start_def start_specs_def simp del: enqueue_all.simps(2) intro: auto_enqueue_Inr
      split: option.splits if_splits sum.splits)

lemma auto_emit_Inr:
  assumes "auto_emit mz own sc d = (Inr u, d')"
  shows "enqueue_all (map (auto_request mz own sc) (auto_specs sc)) d = (Inr u, d')"
proof -
  obtain hh mm where t: "parseHHMM (sc_shutdown_time sc) = Inr (hh, mm)"
    using assms by (auto simp: auto_emit_def split: if_splits sum.splits)
  obtain wh wm wdays where w: "warnTime hh mm (sc_days_of_week sc) = (wh, wm, wdays)" by (metis prod_cases3)
  obtain d1 d2 where run:
    "auto_enqueue mz HandlerStop (cronExpr hh mm (sc_days_of_week sc)) (sc_timezone sc) CatchUp (auto_payload mz own sc) own d = (Inr (), d1)"
    "auto_enqueue mz HandlerWarn (cronExpr wh wm wdays) (sc_timezone sc) RunLate (auto_payload mz own sc) own d1 = (Inr (), d2)"
    "auto_start mz own sc d2 = (Inr u, d')"
    using assms by (auto simp: auto_emit_def t w bind_op_Inr_iff split: if_splits)
  from auto_enqueue_Inr[OF run(1)] auto_enqueue_Inr[OF run(2)] auto_start_Inr[OF run(3)] show ?thesis
    by (auto simp: auto_specs_def t w bind_op_Inr_iff)
qed

lemma auto_handlers_like [simp]:
  "sql_like (''autoshutdown.'' @ ''%'') HandlerStop" "sql_like (''autoshutdown.'' @ ''%'') HandlerWarn"
  "sql_like (''autoshutdown.'' @ ''%'') HandlerStart"
  by code_simp+

lemma auto_specs_handlers:
  assumes "(h, c, m) \<in> set (auto_specs sc)"
  shows "h \<in> {HandlerStop, HandlerWarn, HandlerStart}"
proof -
  have "h = HandlerStart" if "(h, c, m) \<in> set (start_specs sc)"
    using that by (cases "parseHHMM (the (sc_auto_start_time sc))") (auto simp: start_specs_def split: option.splits if_splits)
  with assms show ?thesis by (auto simp: auto_specs_def split: sum.splits prod.splits)
qed

lemma in_force_jobs [simp]: "in_force own (tb\<lparr>jobs := js\<rparr>) = in_force own tb"
  by (simp add: in_force_def cong: list.case_cong)

interpretation auto_jobs: job_projection "''autoshutdown.''" auto_materializeTx guest_auto_plan
proof (unfold_locales, goal_cases)
  case (1 mz own d u d')
  then obtain n d1 where c: "CancelJobsForVMIDByPrefix (o_vmid own) ''autoshutdown.'' d = (Inr n, d1)"
    and rest: "(if o_status own = Tombstoned then ret ()
      else bind_op (resolve own) (\<lambda>r. case r of None \<Rightarrow> ret () | Some sc \<Rightarrow> auto_emit mz own sc)) d1 = (Inr u, d')"
    unfolding auto_materializeTx_def by (auto simp: bind_op_Inr_iff)
  have "\<exists>d2. tabs d2 = tabs d1 \<and> enqueue_all (guest_auto_plan mz own (tabs d1)) d2 = (Inr u, d')"
  proof (cases "o_status own = Tombstoned")
    case True
    with rest show ?thesis by (intro exI[of _ d1]) (simp add: guest_auto_plan_def)
  next
    case False
    with rest obtain r d2 where r: "resolve own d1 = (Inr r, d2)"
      and e: "(case r of None \<Rightarrow> ret () | Some sc \<Rightarrow> auto_emit mz own sc) d2 = (Inr u, d')"
      by (auto simp: bind_op_Inr_iff)
    from False resolve_Inr[OF r] e show ?thesis
      by (intro exI[of _ d2]) (auto simp: guest_auto_plan_def intro: auto_emit_Inr split: option.splits)
  qed
  with c show ?case by blast
next
  case (2 p mz own tb)
  then show ?case using auto_specs_handlers auto_handlers_like
    by (fastforce simp: guest_auto_plan_def auto_request_def split: if_splits option.splits)
next
  case (3 mz own tb js)
  then show ?case by (simp add: guest_auto_plan_def)
qed

section \<open>Materialized jobs are the plan\<close>

text \<open>C25: materializing a guest's schedule leaves in the queue exactly the jobs of the schedule in force: its own
  enabled schedule, else its project's, none when it opted out or is gone. The live auto-shutdown jobs of
  the guest are the stop, the warning and the optional start of that schedule; all other jobs, the guest's TTL jobs among
  them, and all other tables are untouched.\<close>

theorem schedule_jobs_exact:
  assumes "auto_MaterializeForGuest mz own d = (Inr u, d')"
  shows "rewritten (o_vmid own) ''autoshutdown.'' (guest_auto_plan mz own (tabs d)) (tabs d) (tabs d')"
  using assms unfolding auto_MaterializeForGuest_def by (rule auto_jobs.exact_tx)

text \<open>materializing a guest's TTL leaves in the queue exactly the unsent warnings that are still ahead and the
  expiry itself, and touches neither the guest's auto-shutdown jobs nor any other job or table.\<close>

theorem ttl_jobs_exact:
  assumes "ttl_MaterializeForGuest now own d = (Inr u, d')"
  shows "rewritten (o_vmid own) ''ttl.'' (guest_ttl_plan now own (tabs d)) (tabs d) (tabs d')"
  using assms ttl_jobs.exact_tx unfolding ttl_MaterializeForGuest_def ttlJobPrefix_def by blast

section \<open>Extending a TTL\<close>

definition max_ttl_of :: "ownership \<Rightarrow> tables \<Rightarrow> int" where
  "max_ttl_of own tb = (case filter (policy_of (o_tenant_id own) (o_project_id own)) (ttl_policies tb) of
      [] \<Rightarrow> DefaultMaxTTL | r # _ \<Rightarrow> tp_max_ttl (scanTTLPolicy r))"

lemma CapExtension_min: "CapExtension now e dur m = min (e + dur) (now + m)"
  by (simp add: CapExtension_def min_def Let_def)

lemma rewritten_ttls:
  assumes "rewritten v pre ps tb tb'"
  shows "ttls tb' = ttls tb"
proof -
  have "ttls (tb'\<lparr>jobs := []\<rparr>) = ttls (tb\<lparr>jobs := []\<rparr>)" using assms by (simp only: rewritten_def)
  then show ?thesis by simp
qed

lemma filter_update_hits:
  "(\<And>r. k (f r) = k r) \<Longrightarrow> filter (\<lambda>r. k r = v) (update_where (\<lambda>r. k r = v) f rs) = map f (filter (\<lambda>r. k r = v) rs)"
  by (induction rs) auto

lemma policy_read:
  assumes "GetProjectTTLPolicy (o_tenant_id own) (o_project_id own) d = (r, d1)"
  shows "tabs d1 = tabs d" "in_tx d1 = in_tx d"
    "r = Inl ErrNotFound \<and> max_ttl_of own (tabs d) = DefaultMaxTTL \<or> r = Inl ErrDB \<or>
      (\<exists>pol. r = Inr pol \<and> max_ttl_of own (tabs d) = tp_max_ttl pol)"
  using assms by (auto simp: GetProjectTTLPolicy_def max_ttl_of_def query_row_def query_def stmt_def bind_op_def first_row_def
      split: list.splits if_splits)

lemma ExtendTTL_Inl:
  assumes "\<not> in_tx d" and "ExtendTTL now own t d = (Inl err, d')"
  shows "tabs d' = tabs d"
proof -
  obtain r d1 where g: "GetProjectTTLPolicy (o_tenant_id own) (o_project_id own) d = (r, d1)" by fastforce
  show ?thesis using assms g policy_read(1,2)[OF g]
    by (auto simp: ExtendTTL_def Let_def bind_op_def dest!: WithTx_atomic[rotated] split: sum.splits if_splits prod.splits)
qed

lemma ExtendTTL_Inr:
  assumes "ExtendTTL now own t d = (Inr e, d')"
  obtains d1 where "e = CapExtension now (tl_expires_at t) (tl_original_duration t) (max_ttl_of own (tabs d))"
    "tabs d1 = tabs d" "in_tx d1 = in_tx d"
    "WithTx (bind_op (UpdateTTLExpiry (o_vmid own) e) (\<lambda>_. ttl_materializeTx now own)) d1 = (Inr (), d')"
proof -
  obtain r d1 where g: "GetProjectTTLPolicy (o_tenant_id own) (o_project_id own) d = (r, d1)" by fastforce
  note same = policy_read(1,2)[OF g] and r = policy_read(3)[OF g]
  show thesis
    by (rule that[of d1]) (use assms g r same in \<open>auto simp: ExtendTTL_def Let_def bind_op_Inr_iff bind_op_run\<close>)
qed

text \<open>C24: an extension never takes a guest past the project's ceiling. The new expiry is the old one plus the
  original duration or the ceiling, whichever comes first; the stored TTL then expires there with both warnings unsent,
  and the guest's TTL jobs are exactly the ones for that expiry. An extension that fails changes no table.\<close>

theorem ExtendTTL_capped:
  assumes "\<not> in_tx d" and "ExtendTTL now own t d = (r, d')" and "o_status own \<noteq> Tombstoned"
  shows "case r of
      Inl err \<Rightarrow> tabs d' = tabs d
    | Inr e \<Rightarrow> e = min (tl_expires_at t + tl_original_duration t) (now + max_ttl_of own (tabs d)) \<and>
        (\<exists>t'. fst (GetTTL (o_vmid own) (d'\<lparr>faults := []\<rparr>)) = Inr t' \<and> tl_expires_at t' = e \<and>
           \<not> tl_warned_24h t' \<and> \<not> tl_warned_1h t' \<and>
           rewritten (o_vmid own) ''ttl.'' (ttl_plan now own t') ((tabs d)\<lparr>ttls := ttls (tabs d')\<rparr>) (tabs d'))"
proof (cases r)
  case (Inl err)
  with ExtendTTL_Inl[OF assms(1)] assms(2) show ?thesis by simp
next
  case (Inr e)
  let ?v = "o_vmid own"
  let ?f = "\<lambda>now r. r\<lparr>tl_expires_at := e, tl_warned_24h := False, tl_warned_1h := False, tl_updated_at := now\<rparr>"
  obtain d1 where d1: "e = CapExtension now (tl_expires_at t) (tl_original_duration t) (max_ttl_of own (tabs d))"
    "tabs d1 = tabs d" "in_tx d1 = in_tx d"
    "WithTx (bind_op (UpdateTTLExpiry ?v e) (\<lambda>_. ttl_materializeTx now own)) d1 = (Inr (), d')"
    using ExtendTTL_Inr assms(2) unfolding Inr by blast
  then obtain da db dc where run: "da = (pop_fault d1)\<lparr>in_tx := True\<rparr>" "UpdateTTLExpiry ?v e da = (Inr (), db)"
      "ttl_materializeTx now own db = (Inr (), dc)" "tabs d' = tabs dc"
    using assms(1) by (auto simp: WithTx_Inr_iff bind_op_Inr_iff)
  have upd: "tabs db = (tabs d)\<lparr>ttls := update_where (\<lambda>r. tl_vmid r = ?v) (?f (clock da)) (ttls (tabs d))\<rparr>"
    "exists_where (\<lambda>r. tl_vmid r = ?v) (ttls (tabs d))"
    using run(1,2) d1(2) by (auto simp: UpdateTTLExpiry_def update_ttl_def op_elims count_where_pos_iff exists_where_def)
  have rew: "rewritten ?v ''ttl.'' (guest_ttl_plan now own (tabs db)) (tabs db) (tabs d')"
    using ttl_jobs.exact[OF run(3)] run(4) by (simp add: ttlJobPrefix_def)
  have ttls': "ttls (tabs d') = ttls (tabs db)"
    by (rule rewritten_ttls[OF rew])
  obtain x xs where hits: "filter (\<lambda>r. tl_vmid r = ?v) (ttls (tabs d)) = x # xs"
    using upd(2) unfolding exists_where_def by (cases "filter (\<lambda>r. tl_vmid r = ?v) (ttls (tabs d))") (auto simp: filter_empty_conv)
  have x: "filter (\<lambda>r. tl_vmid r = ?v) (ttls (tabs db)) = ?f (clock da) x # map (?f (clock da)) xs"
    by (simp add: upd(1) filter_update_hits hits)
  let ?t = "scanTTL (?f (clock da) x)"
  have "fst (GetTTL ?v (d'\<lparr>faults := []\<rparr>)) = Inr ?t"
    by (simp add: GetTTL_def ttls' x)
  moreover have "guest_ttl_plan now own (tabs db) = ttl_plan now own ?t"
    using assms(3) by (simp add: guest_ttl_plan_def x)
  moreover have "(tabs d)\<lparr>ttls := ttls (tabs d')\<rparr> = tabs db" by (simp add: ttls' upd(1))
  ultimately show ?thesis
    using rew d1(1) Inr by (simp add: CapExtension_min scanTTL_def)
qed

section \<open>Sample runs\<close>

definition any_cron :: "unit cron_lib" where
  "any_cron = \<lparr>parse_standard = (\<lambda>_. Inr (\<lambda>_ t. (t div minute + 1) * minute)), load_location = (\<lambda>_. Inr ()), utc = ()\<rparr>"

definition sample_mz :: "unit materializer" where
  "sample_mz = \<lparr>mz_now = 2000, mz_cron = any_cron, mz_default_grace = 0\<rparr>"

definition sample_schedule :: "string \<Rightarrow> schedule_scope \<Rightarrow> string \<Rightarrow> string \<Rightarrow> int option \<Rightarrow> string \<Rightarrow> schedule" where
  "sample_schedule i scope t p v time = \<lparr>sc_id = i, sc_scope = scope, sc_tenant_id = t, sc_project_id = p, sc_vmid = v,
     sc_set_id = None, sc_shutdown_time = time, sc_auto_start_time = None, sc_days_of_week = [1, 2, 3, 4, 5],
     sc_timezone = ''Europe/Berlin'', sc_grace_seconds = 60, sc_enabled = True, sc_opt_out = False,
     sc_created_by = None, sc_created_at = 0, sc_updated_at = 0\<rparr>"

definition sample_ttl :: ttl where
  "sample_ttl = \<lparr>tl_id = ''l1'', tl_tenant_id = ''t1'', tl_project_id = ''p1'', tl_vmid = 101, tl_expires_at = 9 * 24 * hour,
     tl_action = TTLDelete, tl_warned_24h = False, tl_warned_1h = True, tl_original_duration = 7 * 24 * 3600,
     tl_created_by = None, tl_created_at = 0, tl_updated_at = 0\<rparr>"

definition sample_guest :: ownership where
  "sample_guest = sample_ownership ''o1'' ''t1'' ''p1'' 101 Active"

definition life_db :: db where
  "life_db = sample_db (sample_tables\<lparr>ownerships := [sample_guest],
     schedules := [sample_schedule ''s1'' ResourceSchedule ''t1'' ''p1'' (Some 101) ''18:00'',
                   sample_schedule ''s2'' ProjectSchedule ''t2'' ''p2'' None ''23:30''],
     ttls := [sample_ttl]\<rparr>)"

lemma inr_run: "fst (m d) = Inr x \<Longrightarrow> m d = (Inr x, snd (m d))"
  by (simp add: prod_eq_iff)

theorem schedule_jobs_exact_witness:
  "rewritten 101 ''autoshutdown.'' (guest_auto_plan sample_mz sample_guest (tabs life_db)) (tabs life_db)
     (tabs (snd (auto_MaterializeForGuest sample_mz sample_guest life_db))) \<and>
   map ej_handler (guest_auto_plan sample_mz sample_guest (tabs life_db)) = [''autoshutdown.stop'', ''autoshutdown.warn'']"
proof -
  have "fst (auto_MaterializeForGuest sample_mz sample_guest life_db) = Inr ()" by code_simp
  note schedule_jobs_exact[OF inr_run[of "auto_MaterializeForGuest sample_mz sample_guest", OF this]]
  moreover have "o_vmid sample_guest = 101"
    "map ej_handler (guest_auto_plan sample_mz sample_guest (tabs life_db)) = [''autoshutdown.stop'', ''autoshutdown.warn'']"
    by code_simp+
  ultimately show ?thesis by simp
qed

theorem ttl_jobs_exact_witness:
  "rewritten 101 ''ttl.'' (guest_ttl_plan 2000 sample_guest (tabs life_db)) (tabs life_db)
     (tabs (snd (ttl_MaterializeForGuest 2000 sample_guest life_db))) \<and>
   map ej_run_at (guest_ttl_plan 2000 sample_guest (tabs life_db)) = [8 * 24 * hour, 9 * 24 * hour]"
proof -
  have "fst (ttl_MaterializeForGuest 2000 sample_guest life_db) = Inr ()" by code_simp
  note ttl_jobs_exact[OF inr_run[of "ttl_MaterializeForGuest 2000 sample_guest", OF this]]
  moreover have "o_vmid sample_guest = 101"
    "map ej_run_at (guest_ttl_plan 2000 sample_guest (tabs life_db)) = [8 * 24 * hour, 9 * 24 * hour]"
    by code_simp+
  ultimately show ?thesis by simp
qed

theorem ExtendTTL_capped_witness:
  "fst (ExtendTTL 2000 sample_guest (scanTTL sample_ttl) life_db) =
     Inr (min (tl_expires_at sample_ttl + 7 * 24 * hour) (2000 + 30 * 24 * hour))"
proof -
  have "fst (ExtendTTL 2000 sample_guest (scanTTL sample_ttl) life_db) = Inr (16 * 24 * hour)"
    "max_ttl_of sample_guest (tabs life_db) = 30 * 24 * hour" "tl_original_duration (scanTTL sample_ttl) = 7 * 24 * hour"
    "tl_expires_at (scanTTL sample_ttl) = tl_expires_at sample_ttl"
    by code_simp+
  moreover have "\<not> in_tx life_db" "o_status sample_guest \<noteq> Tombstoned" by code_simp+
  ultimately show ?thesis
    using ExtendTTL_capped[of life_db 2000 sample_guest "scanTTL sample_ttl", OF _ inr_run[of "ExtendTTL 2000 sample_guest (scanTTL sample_ttl)"]]
    by simp
qed

section \<open>What a destroyed guest leaves behind\<close>

text \<open>The guest 101 of tenant t1 is destroyed: its row is tombstoned and its jobs are cancelled. Tenant t2 then
  creates a guest that gets the free VMID.\<close>

definition t2_guest :: create_ownership_params where
  "t2_guest = \<lparr>co_tenant_id = ''t2'', co_project_id = ''p2'', co_vmid = 101, co_guest_type = ''qemu'', co_node = ''pve1'',
     co_created_by = None, co_status = Active, co_reserved_vcpu = None, co_reserved_ram_mb = None, co_reserved_disk_gb = None,
     co_set_id = None, co_role = None\<rparr>"

definition reuse :: "ownership op" where
  "reuse = bind_op (TombstoneOwnership ''o1'') (\<lambda>_. bind_op (CancelJobsForVMID 101) (\<lambda>_. CreateOwnership t2_guest))"

text \<open>The new owner's guest is shut down at the time the previous owner chose, not at its project's: the resource
  schedule outlived the guest, and it is looked up by VMID alone.\<close>

theorem stale_schedule_governs_new_owner:
  "succeeds (bind_op reuse (\<lambda>own. bind_op (MaterializeProject sample_mz ''p2'') (\<lambda>_. ret own)) life_db)
     (\<lambda>own d'. o_tenant_id own = ''t2'' \<and>
        map (\<lambda>j. (j_handler j, j_tenant_id j, j_cron j)) (filter (\<lambda>j. live_job j \<and> j_vmid j = Some 101) (jobs (tabs d'))) =
          [(''autoshutdown.stop'', Some ''t2'', Some ''0 18 * * 1,2,3,4,5''), (''autoshutdown.warn'', Some ''t2'', Some ''45 17 * * 1,2,3,4,5'')])"
  by code_simp

text \<open>The new owner's guest can be armed for destruction without the typed confirmation that a delete TTL demands: the
  TTL row of the destroyed guest is still there, and extending it enqueues its expiry for the new guest.\<close>

theorem stale_ttl_destroys_new_guest:
  "succeeds (bind_op reuse (\<lambda>own. bind_op (GetTTL (o_vmid own)) (\<lambda>t. bind_op (ExtendTTL 2000 own t) (\<lambda>e. ret (own, t, e)))) life_db)
     (\<lambda>(own, t, e) d'. o_tenant_id own = ''t2'' \<and> tl_tenant_id t = ''t1'' \<and> tl_action t = TTLDelete \<and>
        (''ttl.expire'', Some ''t2'', e) \<in> set (map (\<lambda>j. (j_handler j, j_tenant_id j, j_run_at j))
          (filter (\<lambda>j. live_job j \<and> j_vmid j = Some 101) (jobs (tabs d')))))"
  by code_simp

end
