(* ===== verification/Task_Registry.thy ===== *)
theory Task_Registry
  imports Go_Lib
begin

text \<open>
  The registry of the Proxmox tasks the backend itself started (\<^verbatim>\<open>internal/tasks/registry.go\<close>): running
  tasks, their outcomes, the goroutines waiting for them, and the notification ring. Every method holds the
  registry's mutex, so a run is a sequence of method calls. A waiting goroutine is a name; the buffered channel it
  reads is its place in \<open>rg_delivered\<close>. Maps are association lists, iterated in list order.
\<close>

section \<open>Data\<close>

record task_resource =
  re_type :: string
  re_vmid :: int
  re_node :: string
  re_name :: string

record outcome =
  oc_succeeded :: bool
  oc_exit_status :: string

record tracked =
  tr_upid :: string
  tr_action :: string
  tr_transitional :: string
  tr_resource :: task_resource
  tr_tenant_id :: string
  tr_notif_id :: string

record notification =
  nt_id :: string
  nt_kind :: string
  nt_title :: string
  nt_detail :: string
  nt_upid :: string
  nt_status :: string
  nt_created_at :: int
  nt_read :: bool

record notifEntry =
  ne_n :: notification
  ne_vmid :: int
  ne_tenant_id :: string

record task_registry =
  rg_running :: "(string \<times> tracked) list"
  rg_completed :: "(string \<times> outcome) list"
  rg_waiters :: "(string \<times> string list) list"
  rg_delivered :: "(string \<times> outcome) list"
  rg_notifs :: "notifEntry list"
  rg_next_id :: int

definition notificationCap :: nat where "notificationCap = 200"
definition completionCap :: nat where "completionCap = 500"

definition NewRegistry :: task_registry where
  "NewRegistry = \<lparr>rg_running = [], rg_completed = [], rg_waiters = [], rg_delivered = [], rg_notifs = [], rg_next_id = 0\<rparr>"

section \<open>Methods\<close>

definition prependNotif :: "notifEntry \<Rightarrow> task_registry \<Rightarrow> task_registry" where
  "prependNotif e r = r\<lparr>rg_notifs := take notificationCap (e # rg_notifs r)\<rparr>"

definition display_name :: "task_resource \<Rightarrow> string" where
  "display_name res = (if re_name res = '''' then re_type res @ ''/'' @ itoa (re_vmid res) else re_name res)"

text \<open>The separator is U+00B7 between spaces, in UTF-8.\<close>

definition middle_dot :: string where
  "middle_dot = [CHR '' '', CHR 0xC2, CHR 0xB7, CHR '' '']"

definition notif_detail :: "task_resource \<Rightarrow> string \<Rightarrow> string" where
  "notif_detail res text = display_name res @ '' (VMID '' @ itoa (re_vmid res) @ '')'' @ middle_dot @ text"

definition Track :: "int \<Rightarrow> string \<Rightarrow> string \<Rightarrow> string \<Rightarrow> task_resource \<Rightarrow> string \<Rightarrow> task_registry \<Rightarrow> task_registry" where
  "Track now upid action transitional res tenant r =
     (let n = rg_next_id r + 1; i = ''n'' @ itoa n in
      prependNotif \<lparr>ne_n = \<lparr>nt_id = i, nt_kind = ''prog'', nt_title = action,
          nt_detail = notif_detail res ''in progress'', nt_upid = upid, nt_status = ''running'',
          nt_created_at = now, nt_read = False\<rparr>, ne_vmid = re_vmid res, ne_tenant_id = tenant\<rparr>
        (r\<lparr>rg_next_id := n, rg_running := AList.update upid \<lparr>tr_upid = upid, tr_action = action,
           tr_transitional = transitional, tr_resource = res, tr_tenant_id = tenant, tr_notif_id = i\<rparr> (rg_running r)\<rparr>))"

text \<open>\<open>update_first P f\<close> changes the first entry that satisfies \<open>P\<close>, as the loop with its \<^verbatim>\<open>break\<close>.\<close>

fun update_first :: "('a \<Rightarrow> bool) \<Rightarrow> ('a \<Rightarrow> 'a) \<Rightarrow> 'a list \<Rightarrow> 'a list" where
  "update_first P f [] = []"
| "update_first P f (x # xs) = (if P x then f x # xs else x # update_first P f xs)"

definition settled :: "task_resource \<Rightarrow> bool \<Rightarrow> string \<Rightarrow> notification \<Rightarrow> notification" where
  "settled res succeeded exit_status n =
     (if succeeded
      then n\<lparr>nt_kind := ''ok'', nt_status := ''succeeded'', nt_detail := notif_detail res ''completed successfully'', nt_read := False\<rparr>
      else n\<lparr>nt_kind := ''err'', nt_status := ''failed'', nt_detail := notif_detail res exit_status, nt_read := False\<rparr>)"

definition waiting :: "string \<Rightarrow> task_registry \<Rightarrow> string list" where
  "waiting upid r = (case map_of (rg_waiters r) upid of None \<Rightarrow> [] | Some ws \<Rightarrow> ws)"

definition Complete :: "string \<Rightarrow> bool \<Rightarrow> string \<Rightarrow> task_registry \<Rightarrow> tracked option \<times> task_registry" where
  "Complete upid succeeded exit_status r = (case map_of (rg_running r) upid of
      None \<Rightarrow> (None, r)
    | Some tr \<Rightarrow>
        let out = \<lparr>oc_succeeded = succeeded, oc_exit_status = exit_status\<rparr>;
            kept = (if length (rg_completed r) \<ge> completionCap then [] else rg_completed r)
        in (Some tr, r\<lparr>rg_running := AList.delete upid (rg_running r),
             rg_completed := AList.update upid out kept,
             rg_delivered := rg_delivered r @ map (\<lambda>w. (w, out)) (waiting upid r),
             rg_waiters := AList.delete upid (rg_waiters r),
             rg_notifs := update_first (\<lambda>e. nt_id (ne_n e) = tr_notif_id tr)
               (\<lambda>e. e\<lparr>ne_n := settled (tr_resource tr) succeeded exit_status (ne_n e)\<rparr>) (rg_notifs r)\<rparr>))"

definition Running_tasks :: "task_registry \<Rightarrow> string list" where
  "Running_tasks r = map fst (rg_running r)"

definition ActiveFor :: "int \<Rightarrow> task_registry \<Rightarrow> (string \<times> string) option" where
  "ActiveFor vmid r = (case filter (\<lambda>(u, tr). re_vmid (tr_resource tr) = vmid) (rg_running r) of
      [] \<Rightarrow> None | (u, tr) # _ \<Rightarrow> Some (tr_transitional tr, u))"

definition task_Lookup :: "string \<Rightarrow> task_registry \<Rightarrow> tracked option" where
  "task_Lookup upid r = map_of (rg_running r) upid"

definition Notify :: "int \<Rightarrow> int \<Rightarrow> string \<Rightarrow> notification \<Rightarrow> task_registry \<Rightarrow> task_registry" where
  "Notify now vmid tenant n r =
     (let (n1, r1) = (if nt_id n = '''' then (n\<lparr>nt_id := ''n'' @ itoa (rg_next_id r + 1)\<rparr>, r\<lparr>rg_next_id := rg_next_id r + 1\<rparr>)
                      else (n, r));
          n2 = (if nt_created_at n1 = zero_time then n1\<lparr>nt_created_at := now\<rparr> else n1)
      in prependNotif \<lparr>ne_n = n2, ne_vmid = vmid, ne_tenant_id = tenant\<rparr> r1)"

definition visible :: "string \<Rightarrow> bool \<Rightarrow> notifEntry \<Rightarrow> bool" where
  "visible tenant admin e \<longleftrightarrow> admin \<or> tenant \<noteq> '''' \<and> ne_tenant_id e = tenant"

definition Notifications :: "string \<Rightarrow> bool \<Rightarrow> task_registry \<Rightarrow> notification list" where
  "Notifications tenant admin r = map ne_n (filter (visible tenant admin) (rg_notifs r))"

definition MarkRead :: "string list \<Rightarrow> string \<Rightarrow> bool \<Rightarrow> task_registry \<Rightarrow> task_registry" where
  "MarkRead ids tenant admin r = r\<lparr>rg_notifs := update_where (\<lambda>e. nt_id (ne_n e) \<in> set ids \<and> visible tenant admin e)
     (\<lambda>e. e\<lparr>ne_n := (ne_n e)\<lparr>nt_read := True\<rparr>\<rparr>) (rg_notifs r)\<rparr>"

definition DropVMID :: "int \<Rightarrow> task_registry \<Rightarrow> task_registry" where
  "DropVMID vmid r = r\<lparr>rg_notifs := filter (\<lambda>e. ne_vmid e \<noteq> vmid) (rg_notifs r)\<rparr>"

text \<open>The locked half of \<^verbatim>\<open>AwaitCompletion\<close>: a recorded outcome is consumed, else the caller \<open>w\<close> queues up. What
  follows is the receive on its channel, \<open>received w\<close>, or the end of its context.\<close>

definition AwaitCompletion :: "string \<Rightarrow> string \<Rightarrow> task_registry \<Rightarrow> outcome option \<times> task_registry" where
  "AwaitCompletion upid w r = (case map_of (rg_completed r) upid of
      Some out \<Rightarrow> (Some out, r\<lparr>rg_completed := AList.delete upid (rg_completed r)\<rparr>)
    | None \<Rightarrow> (None, r\<lparr>rg_waiters := AList.update upid (waiting upid r @ [w]) (rg_waiters r)\<rparr>))"

definition received :: "string \<Rightarrow> task_registry \<Rightarrow> outcome option" where
  "received w r = map_of (rg_delivered r) w"

section \<open>Runs\<close>

datatype registry_op =
    OpTrack int string string string task_resource string
  | OpComplete string bool string
  | OpMarkRead "string list" string bool
  | OpDrop int
  | OpAwait string string

fun perform :: "registry_op \<Rightarrow> task_registry \<Rightarrow> task_registry" where
  "perform (OpTrack now upid action transitional res tenant) r = Track now upid action transitional res tenant r"
| "perform (OpComplete upid s x) r = snd (Complete upid s x r)"
| "perform (OpMarkRead ids tenant admin) r = MarkRead ids tenant admin r"
| "perform (OpDrop vmid) r = DropVMID vmid r"
| "perform (OpAwait upid w) r = snd (AwaitCompletion upid w r)"

definition run_ops :: "registry_op list \<Rightarrow> task_registry \<Rightarrow> task_registry" where
  "run_ops ops r = foldl (\<lambda>r op. perform op r) r ops"

lemma run_ops_simps [simp]: "run_ops [] r = r" "run_ops (ops @ [op]) r = perform op (run_ops ops r)"
  "run_ops (op # ops) r = run_ops ops (perform op r)"
  by (simp_all add: run_ops_def)

text \<open>What an entry of the ring may say: it stems from a task tracked for its tenant, and its text is about that
  task's resource and, once settled, carries that task's own exit status.\<close>

definition about :: "registry_op list \<Rightarrow> notifEntry \<Rightarrow> bool" where
  "about ops e \<longleftrightarrow> (\<exists>now upid action transitional res.
     OpTrack now upid action transitional res (ne_tenant_id e) \<in> set ops \<and> ne_vmid e = re_vmid res \<and>
     nt_title (ne_n e) = action \<and> nt_upid (ne_n e) = upid \<and>
     (\<exists>text. nt_detail (ne_n e) = notif_detail res text \<and>
        (text \<in> {''in progress'', ''completed successfully''} \<or> (\<exists>s. OpComplete upid s text \<in> set ops))))"

text \<open>The task behind a running entry and the entry it announced agree.\<close>

definition announces :: "registry_op list \<Rightarrow> string \<times> tracked \<Rightarrow> notifEntry \<Rightarrow> bool" where
  "announces ops p e \<longleftrightarrow> (case p of (u, tr) \<Rightarrow>
     ne_tenant_id e = tr_tenant_id tr \<and> ne_vmid e = re_vmid (tr_resource tr) \<and> nt_title (ne_n e) = tr_action tr \<and>
     nt_upid (ne_n e) = u \<and>
     (\<exists>now. OpTrack now u (tr_action tr) (tr_transitional tr) (tr_resource tr) (tr_tenant_id tr) \<in> set ops))"

definition notif_number :: "int \<Rightarrow> string \<Rightarrow> bool" where
  "notif_number n i \<longleftrightarrow> (\<exists>k. 1 \<le> k \<and> k \<le> n \<and> i = ''n'' @ itoa k)"

definition wf_registry :: "registry_op list \<Rightarrow> task_registry \<Rightarrow> bool" where
  "wf_registry ops r \<longleftrightarrow> 0 \<le> rg_next_id r \<and> length (rg_notifs r) \<le> notificationCap \<and>
     length (rg_completed r) \<le> completionCap \<and> distinct (map (nt_id \<circ> ne_n) (rg_notifs r)) \<and>
     (\<forall>e \<in> set (rg_notifs r). notif_number (rg_next_id r) (nt_id (ne_n e)) \<and> about ops e) \<and>
     (\<forall>p \<in> set (rg_running r). notif_number (rg_next_id r) (tr_notif_id (snd p)) \<and>
        (\<forall>e \<in> set (rg_notifs r). nt_id (ne_n e) = tr_notif_id (snd p) \<longrightarrow> announces ops p e))"

lemma itoa_inj:
  assumes "0 \<le> a" "0 \<le> b" "itoa a = itoa b"
  shows "a = b"
proof -
  have "nat_digits (nat a) = nat_digits (nat b)" using assms by (simp add: itoa_def)
  then have "Some (nat a) = Some (nat b)" using digits_val_nat_digits by metis
  with assms show ?thesis by simp
qed

lemma notif_number_mono: "\<lbrakk>notif_number n i; n \<le> m\<rbrakk> \<Longrightarrow> notif_number m i"
  unfolding notif_number_def by force

lemma notif_number_fresh: "notif_number n i \<Longrightarrow> i \<noteq> ''n'' @ itoa (n + 1)"
  unfolding notif_number_def by (auto dest!: itoa_inj[rotated 2])

lemma length_update_le: "length (AList.update k v m) \<le> Suc (length m)"
  by (induction m) auto

lemma alist_update_subset: "set (AList.update k v m) \<subseteq> insert (k, v) (set m)"
  by (induction m) auto

lemma about_mono: "\<lbrakk>about ops e; set ops \<subseteq> set ops'\<rbrakk> \<Longrightarrow> about ops' e"
  unfolding about_def by blast

lemma aboutI:
  assumes "OpTrack now u a t res (ne_tenant_id e) \<in> set ops" "OpComplete u s x \<in> set ops" "ne_vmid e = re_vmid res"
    "nt_title (ne_n e) = a" "nt_upid (ne_n e) = u" "nt_detail (ne_n e) = notif_detail res (if s then ''completed successfully'' else x)"
  shows "about ops e"
proof -
  have "(if s then ''completed successfully'' else x) \<in> {''in progress'', ''completed successfully''} \<or>
    (\<exists>s'. OpComplete u s' (if s then ''completed successfully'' else x) \<in> set ops)"
    using assms(2) by (cases s) auto
  with assms show ?thesis unfolding about_def by blast
qed

lemma aboutI':
  assumes "OpTrack now u a t res (ne_tenant_id e) \<in> set ops" "ne_vmid e = re_vmid res"
    "nt_title (ne_n e) = a" "nt_upid (ne_n e) = u" "nt_detail (ne_n e) = notif_detail res ''in progress''"
  shows "about ops e"
  using assms unfolding about_def by blast

lemma announces_mono: "\<lbrakk>announces ops p e; set ops \<subseteq> set ops'\<rbrakk> \<Longrightarrow> announces ops' p e"
  unfolding announces_def by (auto split: prod.splits)

lemma wf_registryI:
  assumes "0 \<le> rg_next_id r" "length (rg_notifs r) \<le> notificationCap" "length (rg_completed r) \<le> completionCap"
    "distinct (map (nt_id \<circ> ne_n) (rg_notifs r))"
    "\<And>e. e \<in> set (rg_notifs r) \<Longrightarrow> notif_number (rg_next_id r) (nt_id (ne_n e))" "\<And>e. e \<in> set (rg_notifs r) \<Longrightarrow> about ops e"
    "\<And>p. p \<in> set (rg_running r) \<Longrightarrow> notif_number (rg_next_id r) (tr_notif_id (snd p))"
    "\<And>p e. \<lbrakk>p \<in> set (rg_running r); e \<in> set (rg_notifs r); nt_id (ne_n e) = tr_notif_id (snd p)\<rbrakk> \<Longrightarrow> announces ops p e"
  shows "wf_registry ops r"
  using assms unfolding wf_registry_def by blast

lemma wf_registryD:
  assumes "wf_registry ops r"
  shows "0 \<le> rg_next_id r" "length (rg_notifs r) \<le> notificationCap" "length (rg_completed r) \<le> completionCap"
    "distinct (map (nt_id \<circ> ne_n) (rg_notifs r))"
    "e \<in> set (rg_notifs r) \<Longrightarrow> notif_number (rg_next_id r) (nt_id (ne_n e))" "e \<in> set (rg_notifs r) \<Longrightarrow> about ops e"
    "p \<in> set (rg_running r) \<Longrightarrow> notif_number (rg_next_id r) (tr_notif_id (snd p))"
    "\<lbrakk>p \<in> set (rg_running r); e \<in> set (rg_notifs r); nt_id (ne_n e) = tr_notif_id (snd p)\<rbrakk> \<Longrightarrow> announces ops p e"
  using assms by (auto simp: wf_registry_def)

section \<open>The invariant\<close>

lemma wf_grow:
  assumes "wf_registry ops r" and "set ops \<subseteq> set ops'"
  shows "wf_registry ops' r"
  using assms about_mono announces_mono unfolding wf_registry_def by meson

lemma Track_parts:
  obtains e tr where
    "rg_notifs (Track now u a t res ten r) = take notificationCap (e # rg_notifs r)"
    "rg_running (Track now u a t res ten r) = AList.update u tr (rg_running r)"
    "rg_next_id (Track now u a t res ten r) = rg_next_id r + 1"
    "rg_completed (Track now u a t res ten r) = rg_completed r"
    "nt_id (ne_n e) = ''n'' @ itoa (rg_next_id r + 1)" "tr_notif_id tr = ''n'' @ itoa (rg_next_id r + 1)"
    "OpTrack now u a t res ten \<in> set ops \<Longrightarrow> about ops e" "OpTrack now u a t res ten \<in> set ops \<Longrightarrow> announces ops (u, tr) e"
proof -
  let ?i = "''n'' @ itoa (rg_next_id r + 1)"
  let ?e = "\<lparr>ne_n = \<lparr>nt_id = ?i, nt_kind = ''prog'', nt_title = a, nt_detail = notif_detail res ''in progress'', nt_upid = u,
      nt_status = ''running'', nt_created_at = now, nt_read = False\<rparr>, ne_vmid = re_vmid res, ne_tenant_id = ten\<rparr>"
  let ?tr = "\<lparr>tr_upid = u, tr_action = a, tr_transitional = t, tr_resource = res, tr_tenant_id = ten, tr_notif_id = ?i\<rparr>"
  show thesis
  proof (rule that[of ?e ?tr])
    assume "OpTrack now u a t res ten \<in> set ops"
    then show "about ops ?e" by (intro aboutI'[of now u a t res]) simp_all
  next
    assume "OpTrack now u a t res ten \<in> set ops"
    then show "announces ops (u, ?tr) ?e" by (auto simp: announces_def)
  qed (simp_all add: Track_def prependNotif_def Let_def)
qed

lemma wf_Track:
  assumes wf: "wf_registry ops r"
  shows "wf_registry (ops @ [OpTrack now u a t res ten]) (Track now u a t res ten r)" (is "wf_registry ?ops ?r")
proof -
  let ?i = "''n'' @ itoa (rg_next_id r + 1)"
  obtain en tr where run: "rg_notifs ?r = take notificationCap (en # rg_notifs r)"
    "rg_running ?r = AList.update u tr (rg_running r)" "rg_next_id ?r = rg_next_id r + 1" "rg_completed ?r = rg_completed r"
    "nt_id (ne_n en) = ?i" "tr_notif_id tr = ?i" and new: "about ?ops en" "announces ?ops (u, tr) en"
    by (rule Track_parts[of now u a t res ten r ?ops]) auto
  have wf': "wf_registry ?ops r" by (rule wf_grow[OF wf]) auto
  note w = wf_registryD[OF wf']
  have sub: "e \<in> set (rg_notifs ?r) \<Longrightarrow> e = en \<or> e \<in> set (rg_notifs r)" for e
    unfolding run using in_set_takeD by fastforce
  have running: "p \<in> set (rg_running ?r) \<Longrightarrow> p = (u, tr) \<or> p \<in> set (rg_running r)" for p
    unfolding run using alist_update_subset[of u tr "rg_running r"] by auto
  have fresh: "nt_id (ne_n e) \<noteq> ?i" if "e \<in> set (rg_notifs r)" for e
    using w(5)[OF that] by (rule notif_number_fresh)
  have number: "notif_number (rg_next_id r + 1) ?i"
    unfolding notif_number_def using w(1) by (intro exI[of _ "rg_next_id r + 1"]) simp
  have grown: "notif_number (rg_next_id r) i \<Longrightarrow> notif_number (rg_next_id r + 1) i" for i
    by (erule notif_number_mono) simp
  have "nt_id (ne_n en) \<notin> (nt_id \<circ> ne_n) ` set (rg_notifs r)"
  proof
    assume "nt_id (ne_n en) \<in> (nt_id \<circ> ne_n) ` set (rg_notifs r)"
    then obtain e where e: "e \<in> set (rg_notifs r)" "nt_id (ne_n en) = nt_id (ne_n e)" by (auto simp only: image_iff comp_apply)
    show False using fresh[OF e(1)] e(2) run(5) by (rule_tac notE) (simp only:)+
  qed
  then have "distinct (map (nt_id \<circ> ne_n) (en # rg_notifs r))" using w(4) by simp
  then have dist: "distinct (map (nt_id \<circ> ne_n) (rg_notifs ?r))" unfolding run(1) by (subst take_map[symmetric]) (rule distinct_take)
  show ?thesis
  proof (rule wf_registryI)
    fix e assume "e \<in> set (rg_notifs ?r)"
    from sub[OF this] show "notif_number (rg_next_id ?r) (nt_id (ne_n e))" "about ?ops e"
      using number new(1) w(5,6) grown run(3,5) by (elim disjE; simp)+
  next
    fix p assume "p \<in> set (rg_running ?r)"
    from running[OF this] show "notif_number (rg_next_id ?r) (tr_notif_id (snd p))"
      using number w(7) grown run(3,6) by (elim disjE; simp)
  next
    fix p e assume that: "p \<in> set (rg_running ?r)" "e \<in> set (rg_notifs ?r)" "nt_id (ne_n e) = tr_notif_id (snd p)"
    from running[OF that(1)] sub[OF that(2)] show "announces ?ops p e"
    proof (elim disjE)
      assume "p = (u, tr)" "e \<in> set (rg_notifs r)"
      with that(3) fresh run(6) show ?thesis by simp
    next
      assume "p \<in> set (rg_running r)" "e = en"
      with notif_number_fresh[OF w(7)[of p]] that(3) run(5) show ?thesis by simp
    qed (use that(3) w(8) new(2) in simp_all)
  qed (use w(1-3) dist run in simp_all)
qed

text \<open>The other methods leave the identifiers, tenants and guests of the entries alone.\<close>

lemma update_first_map: "(\<And>x. g (f x) = g x) \<Longrightarrow> map g (update_first P f xs) = map g xs"
  by (induction xs) auto

lemma update_first_in: "x \<in> set (update_first P f xs) \<Longrightarrow> x \<in> set xs \<or> (\<exists>y \<in> set xs. P y \<and> x = f y)"
  by (induction xs) (auto split: if_splits)

lemma settled_simps [simp]:
  "nt_id (settled res s x n) = nt_id n" "nt_title (settled res s x n) = nt_title n" "nt_upid (settled res s x n) = nt_upid n"
  "nt_detail (settled res s x n) = notif_detail res (if s then ''completed successfully'' else x)"
  by (simp_all add: settled_def)

lemma wf_Complete:
  assumes wf: "wf_registry ops r"
  shows "wf_registry (ops @ [OpComplete u s x]) (snd (Complete u s x r))"
proof (cases "map_of (rg_running r) u")
  case None
  then show ?thesis using wf_grow[OF wf] by (simp add: Complete_def subset_insertI)
next
  case (Some tr)
  let ?op = "OpComplete u s x"
  let ?f = "\<lambda>e. e\<lparr>ne_n := settled (tr_resource tr) s x (ne_n e)\<rparr>"
  define r' where "r' = snd (Complete u s x r)"
  have wf': "wf_registry (ops @ [?op]) r" by (rule wf_grow[OF wf]) auto
  note w = wf_registryD[OF wf']
  have run: "rg_notifs r' = update_first (\<lambda>e. nt_id (ne_n e) = tr_notif_id tr) ?f (rg_notifs r)" "rg_next_id r' = rg_next_id r"
    "rg_running r' = AList.delete u (rg_running r)"
    "rg_completed r' = AList.update u \<lparr>oc_succeeded = s, oc_exit_status = x\<rparr>
       (if length (rg_completed r) \<ge> completionCap then [] else rg_completed r)"
    by (simp_all add: r'_def Complete_def Some Let_def)
  have tr: "(u, tr) \<in> set (rg_running r)" using Some by (rule map_of_SomeD)
  have entry: "\<exists>e0 \<in> set (rg_notifs r). nt_id (ne_n e) = nt_id (ne_n e0) \<and> ne_tenant_id e = ne_tenant_id e0 \<and>
      ne_vmid e = ne_vmid e0 \<and> nt_title (ne_n e) = nt_title (ne_n e0) \<and> nt_upid (ne_n e) = nt_upid (ne_n e0) \<and>
      about (ops @ [?op]) e" if "e \<in> set (rg_notifs r')" for e
    using update_first_in[OF that[unfolded run]]
  proof
    assume "e \<in> set (rg_notifs r)"
    then show ?thesis using w(6) by auto
  next
    assume "\<exists>y \<in> set (rg_notifs r). nt_id (ne_n y) = tr_notif_id tr \<and> e = ?f y"
    then obtain y where y: "y \<in> set (rg_notifs r)" "nt_id (ne_n y) = tr_notif_id tr" "e = ?f y" by blast
    have "announces (ops @ [?op]) (u, tr) y" using w(8)[OF tr y(1)] y(2) by simp
    then have "about (ops @ [?op]) e"
      unfolding y(3) by (auto simp: announces_def intro: aboutI[of _ u _ _ "tr_resource tr" _ _ s x])
    with y show ?thesis by (intro bexI[of _ y]) simp_all
  qed
  have len: "length (rg_completed r') \<le> completionCap"
    using w(3) by (simp add: run completionCap_def length_update_le[THEN order_trans])
  have dist: "distinct (map (nt_id \<circ> ne_n) (rg_notifs r'))" using w(4) by (simp add: run update_first_map)
  have number: "length (rg_notifs r') = length (rg_notifs r)"
    unfolding run by (rule map_eq_imp_length_eq[OF update_first_map[of "nt_id \<circ> ne_n"]]) simp
  show ?thesis unfolding r'_def[symmetric]
  proof (rule wf_registryI)
    fix e assume "e \<in> set (rg_notifs r')"
    from entry[OF this] show "notif_number (rg_next_id r') (nt_id (ne_n e))" "about (ops @ [?op]) e"
      using w(5) unfolding run(2) by auto
  next
    fix p assume "p \<in> set (rg_running r')"
    then show "notif_number (rg_next_id r') (tr_notif_id (snd p))"
      using w(7) unfolding run by (auto simp: AList.delete_eq)
  next
    fix p e assume that: "p \<in> set (rg_running r')" "e \<in> set (rg_notifs r')" "nt_id (ne_n e) = tr_notif_id (snd p)"
    have "p \<in> set (rg_running r)" using that(1) unfolding run by (auto simp: AList.delete_eq)
    with entry[OF that(2)] w(8) that(3) show "announces (ops @ [?op]) p e" unfolding announces_def by fastforce
  qed (use w(1,2) len dist number in \<open>simp_all add: run(2)\<close>)
qed

text \<open>Entries that differ in their read mark at most.\<close>

definition same_text :: "notifEntry \<Rightarrow> notifEntry \<Rightarrow> bool" where
  "same_text e e0 \<longleftrightarrow> e = e0 \<or> e = e0\<lparr>ne_n := (ne_n e0)\<lparr>nt_read := True\<rparr>\<rparr>"

lemma same_textD:
  assumes "same_text e e0"
  shows "nt_id (ne_n e) = nt_id (ne_n e0)" "about ops e = about ops e0" "announces ops p e = announces ops p e0"
  using assms unfolding same_text_def by (elim disjE; simp add: about_def announces_def)+

lemma wf_same:
  assumes "wf_registry ops r" "set ops \<subseteq> set ops'" "rg_next_id r' = rg_next_id r" "rg_running r' = rg_running r"
    "length (rg_completed r') \<le> length (rg_completed r)"
    "distinct (map (nt_id \<circ> ne_n) (rg_notifs r'))" "length (rg_notifs r') \<le> length (rg_notifs r)"
    and same: "\<And>e. e \<in> set (rg_notifs r') \<Longrightarrow> \<exists>e0 \<in> set (rg_notifs r). same_text e e0"
  shows "wf_registry ops' r'"
proof -
  note w = wf_registryD[OF wf_grow[OF assms(1,2)]]
  show ?thesis
  proof (rule wf_registryI)
    fix e assume "e \<in> set (rg_notifs r')"
    from same[OF this] obtain e0 where "e0 \<in> set (rg_notifs r)" "same_text e e0" by blast
    then show "notif_number (rg_next_id r') (nt_id (ne_n e))" "about ops' e"
      using w(5,6) by (simp_all add: assms(3) same_textD)
  next
    fix p e assume *: "p \<in> set (rg_running r')" "e \<in> set (rg_notifs r')" "nt_id (ne_n e) = tr_notif_id (snd p)"
    from same[OF *(2)] obtain e0 where "e0 \<in> set (rg_notifs r)" "same_text e e0" by blast
    with *(1,3) w(8)[of p e0] show "announces ops' p e" by (simp add: assms(4) same_textD)
  qed (use w(1-3,7) assms(3-7) in auto)
qed

lemma wf_perform:
  assumes wf: "wf_registry ops r"
  shows "wf_registry (ops @ [op]) (perform op r)"
proof (cases op)
  case (OpMarkRead ids ten admin)
  have keys: "map (nt_id \<circ> ne_n) (rg_notifs (MarkRead ids ten admin r)) = map (nt_id \<circ> ne_n) (rg_notifs r)"
    unfolding MarkRead_def by (simp add: map_update_where)
  have "distinct (map (nt_id \<circ> ne_n) (rg_notifs (MarkRead ids ten admin r)))" unfolding keys by (rule wf_registryD(4)[OF wf])
  moreover have "length (rg_notifs (MarkRead ids ten admin r)) = length (rg_notifs r)" by (rule map_eq_imp_length_eq[OF keys])
  ultimately show ?thesis unfolding OpMarkRead perform.simps
    by (intro wf_same[OF wf]) (auto simp: MarkRead_def in_update_where same_text_def simp del: map_map)
next
  case (OpDrop v)
  show ?thesis using wf_registryD(4)[OF wf]
    by (intro wf_same[OF wf]) (auto simp: OpDrop DropVMID_def distinct_map_filter same_text_def)
next
  case (OpAwait u w)
  have "length (AList.delete u m) \<le> length m" for m :: "(string \<times> outcome) list" by (simp add: AList.delete_eq)
  then show ?thesis using wf_registryD(4)[OF wf]
    unfolding OpAwait perform.simps
    by (cases "map_of (rg_completed r) u"; intro wf_same[OF wf]) (auto simp: AwaitCompletion_def same_text_def)
qed (simp_all add: wf wf_Track wf_Complete)

lemma wf_run: "wf_registry ops0 r \<Longrightarrow> wf_registry (ops0 @ ops) (run_ops ops r)"
  by (induction ops rule: rev_induct) (simp_all add: wf_perform flip: append_assoc)

lemma wf_new: "wf_registry [] NewRegistry"
  by (simp add: wf_registry_def NewRegistry_def)

text \<open>C26: task notifications never cross tenants. Whatever tasks were tracked, completed, read, dropped and awaited since the
  start, a tenant's list holds at most the ring's capacity of entries, and each of them is about a guest of a
  task that was tracked for that tenant: its title and task are that task's, and its text names that task's
  resource with the state or the exit status of that very task, although VMIDs are reused.\<close>

theorem notifications_stay_with_tenant:
  "length (Notifications tenant False (run_ops ops NewRegistry)) \<le> notificationCap \<and>
   set (Notifications tenant False (run_ops ops NewRegistry)) \<subseteq>
     {n. tenant \<noteq> '''' \<and> (\<exists>vmid. about ops \<lparr>ne_n = n, ne_vmid = vmid, ne_tenant_id = tenant\<rparr>)}"
proof -
  let ?r = "run_ops ops NewRegistry"
  have wf: "wf_registry ops ?r" using wf_run[OF wf_new, of ops] by simp
  have "length (Notifications tenant False ?r) \<le> length (rg_notifs ?r)" by (simp add: Notifications_def)
  moreover have "n \<in> set (Notifications tenant False ?r) \<Longrightarrow>
      tenant \<noteq> '''' \<and> (\<exists>vmid. about ops \<lparr>ne_n = n, ne_vmid = vmid, ne_tenant_id = tenant\<rparr>)" for n
  proof -
    assume "n \<in> set (Notifications tenant False ?r)"
    then obtain e where e: "e \<in> set (rg_notifs ?r)" "ne_n e = n" "tenant \<noteq> ''''" "ne_tenant_id e = tenant"
      by (auto simp: Notifications_def visible_def)
    then have "about ops \<lparr>ne_n = n, ne_vmid = ne_vmid e, ne_tenant_id = tenant\<rparr>"
      using wf_registryD(6)[OF wf e(1)] by (simp add: about_def)
    with e(3) show ?thesis by blast
  qed
  ultimately show ?thesis using wf_registryD(2)[OF wf] by auto
qed

section \<open>Waiting for a task\<close>

text \<open>A goroutine name that is in use by nobody, and the calls in between that leave a wait alone.\<close>

definition unused :: "string \<Rightarrow> task_registry \<Rightarrow> bool" where
  "unused w r \<longleftrightarrow> received w r = None \<and> (\<forall>(u, ws) \<in> set (rg_waiters r). w \<notin> set ws)"

fun waits_apart :: "string \<Rightarrow> string \<Rightarrow> registry_op \<Rightarrow> bool" where
  "waits_apart u w (OpComplete u' s x) \<longleftrightarrow> u' \<noteq> u"
| "waits_apart u w (OpAwait u' w') \<longleftrightarrow> w' \<noteq> w"
| "waits_apart u w op \<longleftrightarrow> True"

definition sole_wait :: "string \<Rightarrow> string \<Rightarrow> task_registry \<Rightarrow> bool" where
  "sole_wait u w r \<longleftrightarrow> received w r = None \<and> w \<in> set (waiting u r) \<and> (\<forall>u'. u' \<noteq> u \<longrightarrow> w \<notin> set (waiting u' r))"

lemma other_fields [simp]:
  "rg_waiters (Track now u a t res ten r) = rg_waiters r" "rg_delivered (Track now u a t res ten r) = rg_delivered r"
  "rg_completed (Track now u a t res ten r) = rg_completed r"
  "rg_waiters (MarkRead ids ten adm r) = rg_waiters r" "rg_delivered (MarkRead ids ten adm r) = rg_delivered r"
  "rg_completed (MarkRead ids ten adm r) = rg_completed r"
  "rg_waiters (DropVMID v r) = rg_waiters r" "rg_delivered (DropVMID v r) = rg_delivered r"
  "rg_completed (DropVMID v r) = rg_completed r"
  by (simp_all add: Track_def prependNotif_def Let_def MarkRead_def DropVMID_def)

lemma waiting_cong: "rg_waiters r = rg_waiters r' \<Longrightarrow> waiting u r = waiting u r'"
  by (simp add: waiting_def)

lemma map_of_handed: "map_of (map (\<lambda>w. (w, out)) ws) w = (if w \<in> set ws then Some out else None)"
  by (induction ws) auto

lemma Complete_delivers:
  "map_of (rg_running r) u = Some tr \<Longrightarrow> received w (snd (Complete u s x r)) =
     (if w \<in> set (waiting u r) then Some \<lparr>oc_succeeded = s, oc_exit_status = x\<rparr> else received w r) \<or> received w r \<noteq> None"
  by (auto simp: Complete_def received_def Let_def map_add_def map_of_handed split: option.splits)

lemma sole_wait_Complete:
  assumes "sole_wait u w r" "u' \<noteq> u"
  shows "sole_wait u w (snd (Complete u' s x r))"
proof (cases "map_of (rg_running r) u'")
  case (Some tr)
  have "waiting v (snd (Complete u' s x r)) = (if v = u' then [] else waiting v r)" for v
    by (simp add: Complete_def Some Let_def waiting_def AList.delete_conv')
  moreover have "received w (snd (Complete u' s x r)) = None"
    using assms Complete_delivers[OF Some, of w s x] by (auto simp: sole_wait_def)
  ultimately show ?thesis using assms by (simp add: sole_wait_def)
qed (use assms in \<open>simp add: Complete_def\<close>)

lemma waiting_AwaitCompletion:
  "waiting v (snd (AwaitCompletion u w r)) = (if v = u \<and> map_of (rg_completed r) u = None then waiting u r @ [w] else waiting v r)"
  "rg_delivered (snd (AwaitCompletion u w r)) = rg_delivered r"
  by (auto simp: AwaitCompletion_def waiting_def update_conv' split: option.split)

lemma sole_wait_perform:
  assumes "sole_wait u w r" "waits_apart u w op"
  shows "sole_wait u w (perform op r)"
proof (cases op)
  case (OpAwait u' w')
  then show ?thesis using assms by (auto simp: sole_wait_def received_def waiting_AwaitCompletion)
next
  case (OpComplete u' s x)
  then show ?thesis using assms sole_wait_Complete by simp
qed (use assms in \<open>auto simp: sole_wait_def received_def waiting_def\<close>)

lemma sole_wait_run: "\<lbrakk>sole_wait u w r; \<forall>op \<in> set ops. waits_apart u w op\<rbrakk> \<Longrightarrow> sole_wait u w (run_ops ops r)"
  by (induction ops rule: rev_induct) (simp_all add: sole_wait_perform)

lemma sole_wait_AwaitCompletion:
  assumes "unused w r" "fst (AwaitCompletion u w r) = None"
  shows "sole_wait u w (snd (AwaitCompletion u w r))"
proof -
  have "w \<notin> set (waiting v r)" for v
    using assms(1) map_of_SomeD[of "rg_waiters r" v] unfolding unused_def waiting_def
    by (cases "map_of (rg_waiters r) v") auto
  moreover have "map_of (rg_completed r) u = None" using assms(2) by (auto simp: AwaitCompletion_def split: option.splits)
  ultimately show ?thesis using assms(1) by (auto simp: sole_wait_def unused_def received_def waiting_AwaitCompletion)
qed

text \<open>no lost wake-up for a waiter. A goroutine that queued for a task still running is handed that task's own
  outcome when the poller completes it, whatever other tasks were tracked, completed or awaited in between.\<close>

theorem waiter_is_served:
  assumes "unused w r" and "fst (AwaitCompletion u w r) = None"
    and "\<forall>op \<in> set ops. waits_apart u w op"
    and "task_Lookup u (run_ops ops (snd (AwaitCompletion u w r))) \<noteq> None"
  shows "received w (run_ops (ops @ [OpComplete u s x]) (snd (AwaitCompletion u w r))) =
    Some \<lparr>oc_succeeded = s, oc_exit_status = x\<rparr>"
proof -
  let ?r = "run_ops ops (snd (AwaitCompletion u w r))"
  have wait: "sole_wait u w ?r" using assms(1-3) by (intro sole_wait_run sole_wait_AwaitCompletion)
  obtain tr where "map_of (rg_running ?r) u = Some tr" using assms(4) by (auto simp: task_Lookup_def)
  from Complete_delivers[OF this, of w s x] wait show ?thesis by (simp add: sole_wait_def)
qed

definition sample_task_guest :: task_resource where
  "sample_task_guest = \<lparr>re_type = ''qemu'', re_vmid = 100, re_node = ''pve1'', re_name = ''web''\<rparr>"

definition two_running :: task_registry where
  "two_running = run_ops [OpTrack 0 ''a'' ''Stop'' ''stopping'' sample_task_guest ''t1'', OpTrack 0 ''b'' ''Start'' ''starting'' sample_task_guest ''t1''] NewRegistry"

theorem waiter_is_served_witness:
  "received ''w1'' (run_ops ([OpComplete ''b'' False ''boom'', OpAwait ''c'' ''w2''] @ [OpComplete ''a'' True ''OK''])
     (snd (AwaitCompletion ''a'' ''w1'' two_running))) = Some \<lparr>oc_succeeded = True, oc_exit_status = ''OK''\<rparr>"
  by (rule waiter_is_served) code_simp+

text \<open>A fast completion is recorded for a waiter to come.\<close>

fun completions :: "registry_op list \<Rightarrow> nat" where
  "completions [] = 0"
| "completions (OpComplete u s x # ops) = Suc (completions ops)"
| "completions (_ # ops) = completions ops"

fun keeps_outcome :: "string \<Rightarrow> registry_op \<Rightarrow> bool" where
  "keeps_outcome u (OpComplete u' s x) \<longleftrightarrow> u' \<noteq> u"
| "keeps_outcome u (OpAwait u' w) \<longleftrightarrow> u' \<noteq> u"
| "keeps_outcome u op \<longleftrightarrow> True"

lemma recorded_run:
  assumes "map_of (rg_completed r) u = Some out" and "\<forall>op \<in> set ops. keeps_outcome u op"
    and "length (rg_completed r) + completions ops \<le> completionCap"
  shows "map_of (rg_completed (run_ops ops r)) u = Some out"
  using assms
proof (induction ops arbitrary: r)
  case (Cons op ops)
  have "length (AList.delete u' m) \<le> length m" for u' and m :: "(string \<times> outcome) list" by (simp add: AList.delete_eq)
  moreover have "Suc (length m + n) \<le> completionCap \<Longrightarrow> length (AList.update k v m) + n \<le> completionCap"
    for k n and v :: outcome and m using length_update_le[of k v m] by linarith
  ultimately have "map_of (rg_completed (perform op r)) u = Some out \<and> length (rg_completed (perform op r)) + completions ops \<le> completionCap"
    using Cons.prems
    by (cases op) (auto simp: Complete_def AwaitCompletion_def Let_def update_conv' AList.delete_conv'
        intro: order_trans[OF add_le_mono1] split: option.splits)
  then show ?case using Cons.IH Cons.prems(2) by simp
qed simp

text \<open>a completion that comes before the wait is not lost while the record of outcomes has room. After a running
  task completes, a later wait for it returns its outcome at once, as long as at most the record's capacity of
  completions is held in between and nobody else has consumed it.\<close>

theorem early_outcome_is_kept:
  assumes "task_Lookup u r \<noteq> None" and "\<forall>op \<in> set ops. keeps_outcome u op"
    and "length (rg_completed (snd (Complete u s x r))) + completions ops \<le> completionCap"
  shows "fst (AwaitCompletion u w (run_ops (OpComplete u s x # ops) r)) = Some \<lparr>oc_succeeded = s, oc_exit_status = x\<rparr>"
proof -
  have "map_of (rg_completed (snd (Complete u s x r))) u = Some \<lparr>oc_succeeded = s, oc_exit_status = x\<rparr>"
    using assms(1) by (auto simp: task_Lookup_def Complete_def Let_def update_conv')
  from recorded_run[OF this assms(2,3)] show ?thesis by (simp add: AwaitCompletion_def)
qed

theorem early_outcome_is_kept_witness:
  "fst (AwaitCompletion ''a'' ''w'' (run_ops (OpComplete ''a'' False ''locked'' # [OpComplete ''b'' True ''OK'', OpDrop 100]) two_running)) =
    Some \<lparr>oc_succeeded = False, oc_exit_status = ''locked''\<rparr>"
  by (rule early_outcome_is_kept) code_simp+

text \<open>The bound is real. Once the record is full, the next completion empties it: an outcome that nobody has
  awaited yet is dropped, its task is no longer running, and a wait that starts then queues with no completion
  left to serve it.\<close>

theorem full_record_drops_outcomes:
  assumes "length (rg_completed r) = completionCap" and "task_Lookup u r = None"
    and "u \<noteq> v" and "task_Lookup v r \<noteq> None"
  shows "fst (AwaitCompletion u w (snd (Complete v s x r))) = None \<and> task_Lookup u (snd (Complete v s x r)) = None"
  using assms by (auto simp: task_Lookup_def Complete_def Let_def AwaitCompletion_def AList.delete_conv' split: option.splits)

end
