(* ===== verification/Lifecycle_Expiry.thy ===== *)
theory Lifecycle_Expiry
  imports Lifecycle_Jobs Task_Registry Store_Audit Scheduler Effects "HOL-Library.Sublist"
begin

text \<open>
  The scheduler's handlers that act on guests: \<^verbatim>\<open>AutoShutdownStop\<close>, \<^verbatim>\<open>AutoShutdownStart\<close> and
  \<^verbatim>\<open>AutoShutdownWarn\<close> of \<^verbatim>\<open>lifecycle/autoshutdown.go\<close>, \<^verbatim>\<open>TTLWarn\<close> and \<^verbatim>\<open>TTLExpire\<close> of
  \<^verbatim>\<open>lifecycle/ttl.go\<close>. A handler is a computation over the database, the task registry, the Proxmox cluster
  and the events published. The cluster is a parameter: its state has any type \<open>'w\<close>, its calls may answer
  anything, and while a handler waits for a task the rest of the system (\<open>le_wait\<close>: the task poller, other
  requests) may change the database, the registry and the cluster. A trace records every call and every wait with
  its answer and with the tables of that moment.
\<close>

section \<open>State and environment\<close>

record guest_ref =
  gr_node :: string
  gr_type :: string
  gr_vmid :: int

record guest_status =
  gs_status :: string
  gs_name :: string

datatype pve_call =
    StatusCall guest_ref "string + guest_status"
  | ConfigCall guest_ref "string + string"
  | ShutdownCall guest_ref int "string + string"
  | ActionCall guest_ref string "string + string"
  | DeleteCall guest_ref bool "string + string"
  | AwaitCall string int "outcome option"

datatype life_event =
    TaskEvent string string string task_resource
  | ScheduleWarningEvent guest_ref string string string int
  | TtlWarningEvent guest_ref string int ttl_action

record 'w life =
  ls_db :: db
  ls_registry :: task_registry
  ls_world :: 'w
  ls_waiters :: nat
  ls_published :: "life_event list"
  ls_trace :: "(pve_call \<times> tables) list"

record 'w life_env =
  le_now :: "'w \<Rightarrow> int"
  le_status :: "guest_ref \<Rightarrow> 'w \<Rightarrow> (string + guest_status) \<times> 'w"
  le_config :: "guest_ref \<Rightarrow> 'w \<Rightarrow> (string + string) \<times> 'w"
  le_shutdown :: "guest_ref \<Rightarrow> int \<Rightarrow> 'w \<Rightarrow> (string + string) \<times> 'w"
  le_action :: "guest_ref \<Rightarrow> string \<Rightarrow> 'w \<Rightarrow> (string + string) \<times> 'w"
  le_delete :: "guest_ref \<Rightarrow> bool \<Rightarrow> 'w \<Rightarrow> (string + string) \<times> 'w"
  le_wait :: "string \<Rightarrow> int \<Rightarrow> db \<times> task_registry \<times> 'w \<Rightarrow> db \<times> task_registry \<times> 'w"
  le_decode_job :: "string \<Rightarrow> string + job_payload"
  le_decode_ttl :: "string \<Rightarrow> string + ttl_payload"
  le_error_text :: "store_error \<Rightarrow> string"
  le_time_json :: "int \<Rightarrow> string"
  le_default_grace :: int
  le_await_timeout :: int
  le_broker :: bool
  le_registry :: bool

type_synonym ('w, 'a) life_act = "('w life, 'a) state"

definition store :: "'a op \<Rightarrow> ('w, store_error + 'a) life_act" where
  "store m = State (\<lambda>s. case m (ls_db s) of (r, d) \<Rightarrow> (r, s\<lparr>ls_db := d\<rparr>))"

text \<open>A call of the Proxmox client, entered in the trace with its answer.\<close>

definition pve :: "('w \<Rightarrow> 'a \<times> 'w) \<Rightarrow> ('a \<Rightarrow> pve_call) \<Rightarrow> ('w, 'a) life_act" where
  "pve f call = State (\<lambda>s. case f (ls_world s) of (r, w) \<Rightarrow>
     (r, s\<lparr>ls_world := w, ls_trace := ls_trace s @ [(call r, tabs (ls_db s))]\<rparr>))"

definition GuestStatus :: "'w life_env \<Rightarrow> guest_ref \<Rightarrow> ('w, string + guest_status) life_act" where
  "GuestStatus env ref = pve (le_status env ref) (StatusCall ref)"

definition GuestConfig :: "'w life_env \<Rightarrow> guest_ref \<Rightarrow> ('w, string + string) life_act" where
  "GuestConfig env ref = pve (le_config env ref) (ConfigCall ref)"

definition GuestShutdown :: "'w life_env \<Rightarrow> guest_ref \<Rightarrow> int \<Rightarrow> ('w, string + string) life_act" where
  "GuestShutdown env ref g = pve (le_shutdown env ref g) (ShutdownCall ref g)"

definition GuestAction :: "'w life_env \<Rightarrow> guest_ref \<Rightarrow> string \<Rightarrow> ('w, string + string) life_act" where
  "GuestAction env ref a = pve (le_action env ref a) (ActionCall ref a)"

definition DeleteGuest :: "'w life_env \<Rightarrow> guest_ref \<Rightarrow> bool \<Rightarrow> ('w, string + string) life_act" where
  "DeleteGuest env ref purge = pve (le_delete env ref purge) (DeleteCall ref purge)"

definition life_now :: "'w life_env \<Rightarrow> ('w, int) life_act" where
  "life_now env = State (\<lambda>s. (le_now env (ls_world s), s))"

text \<open>The registry and the event broker may be absent (nil).\<close>

definition on_registry :: "'w life_env \<Rightarrow> (task_registry \<Rightarrow> task_registry) \<Rightarrow> ('w, unit) life_act" where
  "on_registry env f = State (\<lambda>s. ((), if le_registry env then s\<lparr>ls_registry := f (ls_registry s)\<rparr> else s))"

definition Publish :: "'w life_env \<Rightarrow> life_event \<Rightarrow> ('w, unit) life_act" where
  "Publish env e = State (\<lambda>s. ((), if le_broker env then s\<lparr>ls_published := ls_published s @ [e]\<rparr> else s))"

section \<open>Shared helpers\<close>

text \<open>Both services have these with the same text but for the prefix of their messages.\<close>

definition actorSystem :: string where "actorSystem = ''system:scheduler''"
definition defaultAwaitTimeout :: int where "defaultAwaitTimeout = 5 * minute"
definition actionStop :: string where "actionStop = ''guest.scheduler.stop''"
definition actionStart :: string where "actionStart = ''guest.scheduler.start''"
definition actionTTLStop :: string where "actionTTLStop = ''guest.ttl.stop''"
definition actionTTLDelete :: string where "actionTTLDelete = ''guest.ttl.delete''"

definition life_grace :: "'w life_env \<Rightarrow> int" where
  "life_grace env = (if le_default_grace env > 0 then le_default_grace env else defaultGrace)"

definition awaitTimeout :: "'w life_env \<Rightarrow> int" where
  "awaitTimeout env = (if le_await_timeout env > 0 then le_await_timeout env else defaultAwaitTimeout)"

definition awaitFor :: "'w life_env \<Rightarrow> int \<Rightarrow> int" where
  "awaitFor env graceSec = (let d = wrap64 (wrap64 (graceSec * second) + 90 * second); base = awaitTimeout env in
     if d < base then base else d)"

definition track :: "'w life_env \<Rightarrow> string \<Rightarrow> string \<Rightarrow> string \<Rightarrow> ownership \<Rightarrow> ('w, unit) life_act" where
  "track env upid action transitional own =
     (let res = \<lparr>re_type = o_guest_type own, re_vmid = o_vmid own, re_node = o_node own, re_name = ''''\<rparr> in
      do {
        now \<leftarrow> life_now env;
        on_registry env (Track now upid action transitional res (o_tenant_id own));
        Publish env (TaskEvent upid action ''running'' res)
      })"

text \<open>\<^verbatim>\<open>AwaitCompletion\<close> under a deadline: an outcome already recorded is taken at once; otherwise the
  handler queues, the system goes on, and the handler resumes with what its channel holds, or nothing when the
  deadline passed first.\<close>

definition await_outcome :: "'w life_env \<Rightarrow> string \<Rightarrow> int \<Rightarrow> ('w, outcome option) life_act" where
  "await_outcome env upid bound = State (\<lambda>s.
     let w = ''w'' @ itoa (int (ls_waiters s)); s = s\<lparr>ls_waiters := Suc (ls_waiters s)\<rparr> in
     case AwaitCompletion upid w (ls_registry s) of
       (Some out, reg') \<Rightarrow> (Some out, s\<lparr>ls_registry := reg'\<rparr>)
     | (None, reg') \<Rightarrow> (case le_wait env upid bound (ls_db s, reg', ls_world s) of (d, reg'', w') \<Rightarrow>
         (received w reg'', s\<lparr>ls_db := d, ls_registry := reg'', ls_world := w'\<rparr>)))"

definition note_wait :: "string \<Rightarrow> int \<Rightarrow> outcome option \<Rightarrow> ('w, outcome option) life_act" where
  "note_wait upid bound r = State (\<lambda>s. (r, s\<lparr>ls_trace := ls_trace s @ [(AwaitCall upid bound r, tabs (ls_db s))]\<rparr>))"

definition await :: "'w life_env \<Rightarrow> string \<Rightarrow> int \<Rightarrow> ('w, unit) life_act" where
  "await env upid bound =
     (if \<not> le_registry env then State_Monad.return ()
      else do { out \<leftarrow> await_outcome env upid bound; _ \<leftarrow> note_wait upid bound out; State_Monad.return () })"

definition awaitDestroy :: "'w life_env \<Rightarrow> string \<Rightarrow> ('w, bool) life_act" where
  "awaitDestroy env upid =
     (if \<not> le_registry env then State_Monad.return True
      else do {
         out \<leftarrow> await_outcome env upid (awaitTimeout env);
         _ \<leftarrow> note_wait upid (awaitTimeout env) out;
         State_Monad.return (case out of None \<Rightarrow> False | Some oc \<Rightarrow> oc_succeeded oc) })"

definition system_intent :: "job \<Rightarrow> string \<Rightarrow> audit_intent" where
  "system_intent j action = \<lparr>ai_actor_user_id = None, ai_actor_system = Some actorSystem, ai_tenant_id = j_tenant_id j,
     ai_project_id = j_project_id j, ai_action = action, ai_target_type = Some ''guest'',
     ai_target_id = map_option itoa (j_vmid j), ai_ip = None\<rparr>"

definition beginAudit :: "job \<Rightarrow> string \<Rightarrow> ('w, store_error + string) life_act" where
  "beginAudit j action = store (InsertAuditIntent (system_intent j action))"

text \<open>A failed finalize is logged only. The extra keys never collide with the two given ones.\<close>

definition finish_with :: "string \<Rightarrow> string \<Rightarrow> string \<Rightarrow> string \<Rightarrow> string \<Rightarrow> (string \<times> json) list \<Rightarrow> ('w, unit) life_act" where
  "finish_with key audit_id out ref_id job_id extra = do {
     _ \<leftarrow> store (FinalizeAudit audit_id out (Some (json_object ([(key, JStr ref_id), (''job_id'', JStr job_id)] @ extra))));
     State_Monad.return () }"

definition auto_finishAudit :: "string \<Rightarrow> string \<Rightarrow> string \<Rightarrow> string \<Rightarrow> (string \<times> json) list \<Rightarrow> ('w, unit) life_act" where
  "auto_finishAudit audit_id out schedule_id job_id extra = finish_with ''schedule_id'' audit_id out schedule_id job_id extra"

definition ttl_finishAudit :: "string \<Rightarrow> string \<Rightarrow> string \<Rightarrow> string \<Rightarrow> (string \<times> json) list \<Rightarrow> ('w, unit) life_act" where
  "ttl_finishAudit audit_id out ttl_id job_id extra = finish_with ''ttl_id'' audit_id out ttl_id job_id extra"

definition auditSkip :: "job \<Rightarrow> string \<Rightarrow> string \<Rightarrow> string \<Rightarrow> ('w, unit) life_act" where
  "auditSkip j action schedule_id reason = do {
     r \<leftarrow> beginAudit j action;
     case r of Inl _ \<Rightarrow> State_Monad.return ()
     | Inr i \<Rightarrow> auto_finishAudit i ''success'' schedule_id (j_id j) [(''skipped'', JBool True), (''reason'', JStr reason)] }"

definition cancelGone :: "int \<Rightarrow> ('w, unit) life_act" where
  "cancelGone vmid = do { _ \<leftarrow> store (CancelJobsForVMID vmid); State_Monad.return () }"

datatype 'p loaded = LoadFailed string | LoadGone | Loaded ownership 'p guest_ref

text \<open>The preamble of every handler. An empty payload is left undecoded.\<close>

definition load_with :: "string \<Rightarrow> (string \<Rightarrow> string + 'p) \<Rightarrow> 'p \<Rightarrow> 'w life_env \<Rightarrow> job \<Rightarrow> ('w, 'p loaded) life_act" where
  "load_with svc decode blank env j = (case j_vmid j of
      None \<Rightarrow> State_Monad.return (LoadFailed (svc @ '': job '' @ j_id j @ '' has no vmid''))
    | Some vmid \<Rightarrow> (case (if j_payload j = '''' then Inr blank else decode (j_payload j)) of
        Inl e \<Rightarrow> State_Monad.return (LoadFailed (svc @ '': decode payload: '' @ e))
      | Inr pl \<Rightarrow> do {
          r \<leftarrow> store (GetOwnershipByVMID vmid);
          case r of
            Inl ErrNotFound \<Rightarrow> do { cancelGone vmid; State_Monad.return LoadGone }
          | Inl e \<Rightarrow> State_Monad.return (LoadFailed (le_error_text env e))
          | Inr own \<Rightarrow>
              if o_status own = Tombstoned then do { cancelGone vmid; State_Monad.return LoadGone }
              else State_Monad.return (Loaded own pl \<lparr>gr_node = o_node own, gr_type = o_guest_type own, gr_vmid = vmid\<rparr>) }))"

definition auto_load :: "'w life_env \<Rightarrow> job \<Rightarrow> ('w, job_payload loaded) life_act" where
  "auto_load env j = load_with ''autoshutdown'' (le_decode_job env)
     \<lparr>jp_schedule_id = '''', jp_node = '''', jp_guest_type = '''', jp_grace_sec = 0, jp_shutdown_time = ''''\<rparr> env j"

definition ttl_load :: "'w life_env \<Rightarrow> job \<Rightarrow> ('w, ttl_payload loaded) life_act" where
  "ttl_load env j = load_with ''ttl'' (le_decode_ttl env)
     \<lparr>tq_node = '''', tq_guest_type = '''', tq_ttl_id = '''', tq_action = '''', tq_which = ''''\<rparr> env j"

section \<open>Auto-shutdown handlers\<close>

abbreviation done_ok :: "('w, handler_result) life_act" where "done_ok \<equiv> State_Monad.return HandlerOK"
abbreviation failed_with :: "string \<Rightarrow> ('w, handler_result) life_act" where "failed_with e \<equiv> State_Monad.return (HandlerError e)"

text \<open>The guest's state after the shutdown task, the marker and the audit outcome.\<close>

definition still_running :: "int \<Rightarrow> string \<Rightarrow> string" where
  "still_running graceSec remark = ''guest still running after shutdown (grace '' @ itoa graceSec @ ''s)'' @ remark"

definition auto_verify_stop :: "'w life_env \<Rightarrow> job \<Rightarrow> job_payload \<Rightarrow> guest_ref \<Rightarrow> int \<Rightarrow> string \<Rightarrow> ('w, handler_result) life_act" where
  "auto_verify_stop env j pl ref graceSec audit_id = do {
     after \<leftarrow> GuestStatus env ref;
     case after of
       Inl e \<Rightarrow> do { auto_finishAudit audit_id ''error'' (jp_schedule_id pl) (j_id j) [(''error'', JStr e)]; failed_with e }
     | Inr st \<Rightarrow>
         if gs_status st \<noteq> ''stopped'' then do {
           auto_finishAudit audit_id ''error'' (jp_schedule_id pl) (j_id j) [(''error'', JStr (still_running graceSec ''''))];
           failed_with (still_running graceSec '''') }
         else do {
           _ \<leftarrow> store (SetAutoStopped (gr_vmid ref) True);
           auto_finishAudit audit_id ''success'' (jp_schedule_id pl) (j_id j) [(''grace_seconds'', JNum graceSec)];
           done_ok } }"

definition auto_stop_grace :: "'w life_env \<Rightarrow> job_payload \<Rightarrow> int" where
  "auto_stop_grace env pl = (if jp_grace_sec pl \<le> 0 then whole_seconds (life_grace env) else jp_grace_sec pl)"

definition auto_act_stop :: "'w life_env \<Rightarrow> job \<Rightarrow> ownership \<Rightarrow> job_payload \<Rightarrow> guest_ref \<Rightarrow> ('w, handler_result) life_act" where
  "auto_act_stop env j own pl ref = (let graceSec = auto_stop_grace env pl in do {
     a \<leftarrow> beginAudit j actionStop;
     case a of
       Inl e \<Rightarrow> failed_with (''autoshutdown: audit intent: '' @ le_error_text env e)
     | Inr audit_id \<Rightarrow> do {
         u \<leftarrow> GuestShutdown env ref graceSec;
         case u of
           Inl e \<Rightarrow> do {
             auto_finishAudit audit_id ''error'' (jp_schedule_id pl) (j_id j) [(''error'', JStr e)];
             failed_with (''autoshutdown: shutdown vmid '' @ itoa (gr_vmid ref) @ '': '' @ e) }
         | Inr upid \<Rightarrow> do {
             track env upid ''Auto-shutdown'' ''stopping'' own;
             await env upid (awaitFor env graceSec);
             auto_verify_stop env j pl ref graceSec audit_id } } })"

definition AutoShutdownStop :: "'w life_env \<Rightarrow> job \<Rightarrow> ('w, handler_result) life_act" where
  "AutoShutdownStop env j = do {
     l \<leftarrow> auto_load env j;
     case l of LoadFailed e \<Rightarrow> failed_with e | LoadGone \<Rightarrow> done_ok
     | Loaded own pl ref \<Rightarrow> do {
         st \<leftarrow> GuestStatus env ref;
         case st of
           Inl e \<Rightarrow> failed_with e
         | Inr st \<Rightarrow>
             if gs_status st = ''stopped'' then do { auditSkip j actionStop (jp_schedule_id pl) ''already_stopped''; done_ok }
             else auto_act_stop env j own pl ref } }"

definition auto_act_start :: "'w life_env \<Rightarrow> job \<Rightarrow> ownership \<Rightarrow> job_payload \<Rightarrow> guest_ref \<Rightarrow> ('w, handler_result) life_act" where
  "auto_act_start env j own pl ref = do {
     a \<leftarrow> beginAudit j actionStart;
     case a of
       Inl e \<Rightarrow> failed_with (''autoshutdown: audit intent: '' @ le_error_text env e)
     | Inr audit_id \<Rightarrow> do {
         u \<leftarrow> GuestAction env ref ''start'';
         case u of
           Inl e \<Rightarrow> do {
             auto_finishAudit audit_id ''error'' (jp_schedule_id pl) (j_id j) [(''error'', JStr e)];
             failed_with (''autoshutdown: start vmid '' @ itoa (gr_vmid ref) @ '': '' @ e) }
         | Inr upid \<Rightarrow> do {
             track env upid ''Auto-start'' ''starting'' own;
             await env upid (awaitTimeout env);
             _ \<leftarrow> store (SetAutoStopped (gr_vmid ref) False);
             auto_finishAudit audit_id ''success'' (jp_schedule_id pl) (j_id j) [];
             done_ok } } }"

definition AutoShutdownStart :: "'w life_env \<Rightarrow> job \<Rightarrow> ('w, handler_result) life_act" where
  "AutoShutdownStart env j = do {
     l \<leftarrow> auto_load env j;
     case l of LoadFailed e \<Rightarrow> failed_with e | LoadGone \<Rightarrow> done_ok
     | Loaded own pl ref \<Rightarrow>
         if \<not> o_auto_stopped own then done_ok
         else do {
           st \<leftarrow> GuestStatus env ref;
           case st of
             Inl e \<Rightarrow> failed_with e
           | Inr st \<Rightarrow>
               if gs_status st = ''running'' then do {
                 _ \<leftarrow> store (SetAutoStopped (gr_vmid ref) False);
                 auditSkip j actionStart (jp_schedule_id pl) ''already_running'';
                 done_ok }
               else auto_act_start env j own pl ref } }"

definition AutoShutdownWarn :: "'w life_env \<Rightarrow> job \<Rightarrow> ('w, handler_result) life_act" where
  "AutoShutdownWarn env j = do {
     l \<leftarrow> auto_load env j;
     case l of LoadFailed e \<Rightarrow> failed_with e | LoadGone \<Rightarrow> done_ok
     | Loaded own pl ref \<Rightarrow> do {
         now \<leftarrow> life_now env;
         Publish env (ScheduleWarningEvent ref ''autoshutdown'' ''Scheduled shutdown soon''
           (gr_type ref @ ''/'' @ itoa (gr_vmid ref) @ '' will auto-shut-down at '' @ jp_shutdown_time pl) (now + warnLead));
         done_ok } }"

section \<open>TTL handlers\<close>

definition TTLWarn :: "'w life_env \<Rightarrow> job \<Rightarrow> ('w, handler_result) life_act" where
  "TTLWarn env j = do {
     l \<leftarrow> ttl_load env j;
     case l of LoadFailed e \<Rightarrow> failed_with e | LoadGone \<Rightarrow> done_ok
     | Loaded own pl ref \<Rightarrow> do {
         t \<leftarrow> store (GetTTL (gr_vmid ref));
         case t of
           Inl ErrNotFound \<Rightarrow> done_ok
         | Inl e \<Rightarrow> failed_with (le_error_text env e)
         | Inr tt \<Rightarrow>
             if tq_which pl = ''24h'' \<and> tl_warned_24h tt \<or> tq_which pl = ''1h'' \<and> tl_warned_1h tt then done_ok
             else do {
               Publish env (TtlWarningEvent ref (tq_which pl) (tl_expires_at tt) (tl_action tt));
               w \<leftarrow> store (SetTTLWarned (gr_vmid ref) (tq_which pl));
               case w of Inl e \<Rightarrow> failed_with (le_error_text env e) | Inr _ \<Rightarrow> done_ok } } }"

text \<open>Marking the guest expired, and the outcome of the attempt.\<close>

definition mark_expired :: "'w life_env \<Rightarrow> job \<Rightarrow> guest_ref \<Rightarrow> ttl \<Rightarrow> int \<Rightarrow> string \<Rightarrow> (string \<times> json) list \<Rightarrow> ('w, handler_result) life_act" where
  "mark_expired env j ref tt now audit_id extra = do {
     r \<leftarrow> store (SetExpiredAt (gr_vmid ref) (Some now));
     case r of
       Inl e \<Rightarrow> do { ttl_finishAudit audit_id ''error'' (tl_id tt) (j_id j) [(''error'', JStr (le_error_text env e))];
                    failed_with (le_error_text env e) }
     | Inr _ \<Rightarrow> do { ttl_finishAudit audit_id ''success'' (tl_id tt) (j_id j) extra; done_ok } }"

text \<open>Both expiries shut the guest down the same way and go on only when it is seen stopped.\<close>

definition ttl_shut_down :: "'w life_env \<Rightarrow> job \<Rightarrow> ownership \<Rightarrow> guest_ref \<Rightarrow> ttl \<Rightarrow> string \<Rightarrow> string \<Rightarrow> string \<Rightarrow> string \<Rightarrow>
  ('w, handler_result) life_act \<Rightarrow> ('w, handler_result) life_act" where
  "ttl_shut_down env j own ref tt audit_id title before remark k = (let graceSec = whole_seconds (life_grace env) in do {
     u \<leftarrow> GuestShutdown env ref graceSec;
     case u of
       Inl e \<Rightarrow> do { ttl_finishAudit audit_id ''error'' (tl_id tt) (j_id j) [(''error'', JStr e)];
                    failed_with (''ttl: shutdown '' @ before @ ''vmid '' @ itoa (gr_vmid ref) @ '': '' @ e) }
     | Inr upid \<Rightarrow> do {
         track env upid title ''stopping'' own;
         await env upid (awaitFor env graceSec);
         after \<leftarrow> GuestStatus env ref;
         case after of
           Inl e \<Rightarrow> do { ttl_finishAudit audit_id ''error'' (tl_id tt) (j_id j) [(''error'', JStr e)]; failed_with e }
         | Inr st \<Rightarrow>
             if gs_status st \<noteq> ''stopped'' then do {
               ttl_finishAudit audit_id ''error'' (tl_id tt) (j_id j) [(''error'', JStr (still_running graceSec remark))];
               failed_with (still_running graceSec remark) }
             else k } })"

definition stop_intended :: "'w life_env \<Rightarrow> job \<Rightarrow> ownership \<Rightarrow> guest_ref \<Rightarrow> ttl \<Rightarrow> guest_status \<Rightarrow> string \<Rightarrow> ('w, handler_result) life_act" where
  "stop_intended env j own ref tt st audit_id = do {
     now \<leftarrow> life_now env;
     if gs_status st = ''stopped''
     then mark_expired env j ref tt now audit_id [(''skipped'', JBool True), (''reason'', JStr ''already_stopped'')]
     else ttl_shut_down env j own ref tt audit_id ''TTL expiry (stop)'' '''' ''''
       (mark_expired env j ref tt now audit_id [(''grace_seconds'', JNum (whole_seconds (life_grace env)))]) }"

definition expireStop :: "'w life_env \<Rightarrow> job \<Rightarrow> ownership \<Rightarrow> guest_ref \<Rightarrow> ttl \<Rightarrow> ('w, handler_result) life_act" where
  "expireStop env j own ref tt = do {
     st \<leftarrow> GuestStatus env ref;
     case st of
       Inl e \<Rightarrow> failed_with e
     | Inr st \<Rightarrow> do {
         a \<leftarrow> beginAudit j actionTTLStop;
         case a of
           Inl e \<Rightarrow> failed_with (''ttl: audit intent: '' @ le_error_text env e)
         | Inr audit_id \<Rightarrow> stop_intended env j own ref tt st audit_id } }"

definition snapshot_fields :: "'w life_env \<Rightarrow> guest_ref \<Rightarrow> ownership \<Rightarrow> ttl \<Rightarrow> guest_status \<Rightarrow> (string \<times> json) list" where
  "snapshot_fields env ref own tt st =
     [(''vmid'', JNum (gr_vmid ref)), (''node'', JStr (o_node own)), (''guest_type'', JStr (o_guest_type own)),
      (''tenant_id'', JStr (o_tenant_id own)), (''project_id'', JStr (o_project_id own)), (''ttl_id'', JStr (tl_id tt)),
      (''action'', JStr (action_text (tl_action tt))), (''expires_at'', JRaw (le_time_json env (tl_expires_at tt))),
      (''name'', JStr (gs_name st)), (''status'', JStr (gs_status st))]"

definition snapshot_guest :: "'w life_env \<Rightarrow> guest_ref \<Rightarrow> ownership \<Rightarrow> ttl \<Rightarrow> guest_status \<Rightarrow> ('w, string) life_act" where
  "snapshot_guest env ref own tt st = do {
     c \<leftarrow> GuestConfig env ref;
     State_Monad.return (json_object (snapshot_fields env ref own tt st @
       (case c of Inl e \<Rightarrow> [(''config_error'', JStr e)] | Inr cfg \<Rightarrow> [(''config'', JRaw cfg)]))) }"

text \<open>After a confirmed destroy: the tombstone, the cancelled jobs, the cleared notifications.\<close>

definition settle_destroyed :: "'w life_env \<Rightarrow> job \<Rightarrow> ownership \<Rightarrow> guest_ref \<Rightarrow> ttl \<Rightarrow> string \<Rightarrow> string \<Rightarrow> ('w, handler_result) life_act" where
  "settle_destroyed env j own ref tt audit_id snap = do {
     t \<leftarrow> store (TombstoneOwnership (o_id own));
     case t of
       Inl e \<Rightarrow> do {
         ttl_finishAudit audit_id ''error'' (tl_id tt) (j_id j) [(''error'', JStr (le_error_text env e))];
         failed_with (''ttl: tombstone ownership vmid '' @ itoa (gr_vmid ref) @ '': '' @ le_error_text env e) }
     | Inr _ \<Rightarrow> do {
         _ \<leftarrow> store (CancelJobsForVMID (gr_vmid ref));
         on_registry env (DropVMID (gr_vmid ref));
         ttl_finishAudit audit_id ''success'' (tl_id tt) (j_id j) [(''action'', JStr ''delete''), (''config_snapshot'', JRaw snap)];
         done_ok } }"

definition destroy_submitted :: "'w life_env \<Rightarrow> job \<Rightarrow> ownership \<Rightarrow> guest_ref \<Rightarrow> ttl \<Rightarrow> string \<Rightarrow> string \<Rightarrow> string + string \<Rightarrow>
  ('w, handler_result) life_act" where
  "destroy_submitted env j own ref tt audit_id snap u = (case u of
       Inl e \<Rightarrow> do {
         ttl_finishAudit audit_id ''error'' (tl_id tt) (j_id j) [(''error'', JStr e)];
         failed_with (''ttl: destroy vmid '' @ itoa (gr_vmid ref) @ '': '' @ e) }
     | Inr upid \<Rightarrow> do {
         track env upid ''TTL expiry (delete)'' ''deleting'' own;
         destroyed \<leftarrow> awaitDestroy env upid;
         if \<not> destroyed then do {
           ttl_finishAudit audit_id ''error'' (tl_id tt) (j_id j)
             [(''error'', JStr (''destroy task did not complete successfully for vmid '' @ itoa (gr_vmid ref)))];
           failed_with (''destroy task did not complete successfully for vmid '' @ itoa (gr_vmid ref)) }
         else settle_destroyed env j own ref tt audit_id snap })"

definition destroy_guest :: "'w life_env \<Rightarrow> job \<Rightarrow> ownership \<Rightarrow> guest_ref \<Rightarrow> ttl \<Rightarrow> string \<Rightarrow> string \<Rightarrow> ('w, handler_result) life_act" where
  "destroy_guest env j own ref tt audit_id snap =
     do { u \<leftarrow> DeleteGuest env ref True; destroy_submitted env j own ref tt audit_id snap u }"

definition delete_intended :: "'w life_env \<Rightarrow> job \<Rightarrow> ownership \<Rightarrow> guest_ref \<Rightarrow> ttl \<Rightarrow> guest_status \<Rightarrow> string \<Rightarrow> string \<Rightarrow>
  ('w, handler_result) life_act" where
  "delete_intended env j own ref tt st snap audit_id =
     (if gs_status st \<noteq> ''stopped''
      then ttl_shut_down env j own ref tt audit_id ''TTL expiry (delete)'' ''before delete '' ''; not destroying''
             (destroy_guest env j own ref tt audit_id snap)
      else destroy_guest env j own ref tt audit_id snap)"

definition expireDelete :: "'w life_env \<Rightarrow> job \<Rightarrow> ownership \<Rightarrow> guest_ref \<Rightarrow> ttl \<Rightarrow> ('w, handler_result) life_act" where
  "expireDelete env j own ref tt = do {
     st \<leftarrow> GuestStatus env ref;
     case st of
       Inl e \<Rightarrow> failed_with e
     | Inr st \<Rightarrow> do {
         snap \<leftarrow> snapshot_guest env ref own tt st;
         a \<leftarrow> beginAudit j actionTTLDelete;
         case a of
           Inl e \<Rightarrow> failed_with (''ttl: audit intent: '' @ le_error_text env e)
         | Inr audit_id \<Rightarrow> delete_intended env j own ref tt st snap audit_id } }"

definition TTLExpire :: "'w life_env \<Rightarrow> job \<Rightarrow> ('w, handler_result) life_act" where
  "TTLExpire env j = do {
     l \<leftarrow> ttl_load env j;
     case l of LoadFailed e \<Rightarrow> failed_with e | LoadGone \<Rightarrow> done_ok
     | Loaded own pl ref \<Rightarrow> do {
         t \<leftarrow> store (GetTTL (gr_vmid ref));
         case t of
           Inl ErrNotFound \<Rightarrow> done_ok
         | Inl e \<Rightarrow> failed_with (le_error_text env e)
         | Inr tt \<Rightarrow> do {
             now \<leftarrow> life_now env;
             if tl_expires_at tt > now then done_ok
             else (case tl_action tt of
                 TTLStop \<Rightarrow> expireStop env j own ref tt
               | TTLDelete \<Rightarrow> expireDelete env j own ref tt) } } }"

section \<open>Traces\<close>

text \<open>\<open>calls W s s'\<close>: from \<open>s\<close> to \<open>s'\<close> the trace only grew, and every new call satisfies \<open>W\<close> in the light of the
  trace before it and of the tables of its moment.\<close>

type_synonym pve_trace = "(pve_call \<times> tables) list"

abbreviation life_tables :: "'w life \<Rightarrow> tables" where "life_tables s \<equiv> tabs (ls_db s)"

fun mutating :: "pve_call \<Rightarrow> bool" where
  "mutating (ShutdownCall ref g a) = True"
| "mutating (ActionCall ref act a) = True"
| "mutating (DeleteCall ref p a) = True"
| "mutating (StatusCall ref a) = False"
| "mutating (ConfigCall ref a) = False"
| "mutating (AwaitCall u b out) = False"

fun all_calls :: "(pve_trace \<Rightarrow> pve_call \<Rightarrow> tables \<Rightarrow> bool) \<Rightarrow> pve_trace \<Rightarrow> pve_trace \<Rightarrow> bool" where
  "all_calls W before [] = True"
| "all_calls W before ((c, tb) # es) = (W before c tb \<and> all_calls W (before @ [(c, tb)]) es)"

definition calls :: "(pve_trace \<Rightarrow> pve_call \<Rightarrow> tables \<Rightarrow> bool) \<Rightarrow> 'w life \<Rightarrow> 'w life \<Rightarrow> bool" where
  "calls W s s' \<longleftrightarrow> (\<exists>es. ls_trace s' = ls_trace s @ es \<and> all_calls W (ls_trace s) es)"

lemma all_calls_append: "all_calls W tr (es @ fs) \<longleftrightarrow> all_calls W tr es \<and> all_calls W (tr @ es) fs"
  by (induction es arbitrary: tr) auto

lemma all_calls_mono: "\<lbrakk>all_calls W tr es; \<And>tr c tb. W tr c tb \<Longrightarrow> V tr c tb\<rbrakk> \<Longrightarrow> all_calls V tr es"
  by (induction es arbitrary: tr) auto

lemma all_calls_nth:
  assumes "all_calls W tr es" "i < length es"
  shows "W (tr @ take i es) (fst (es ! i)) (snd (es ! i))"
proof -
  have "all_calls W tr (take i es @ es ! i # drop (Suc i) es)" using assms by (simp add: id_take_nth_drop[symmetric])
  then show ?thesis by (cases "es ! i") (simp add: all_calls_append)
qed

lemma calls_refl: "calls W s s" "ls_trace s' = ls_trace s \<Longrightarrow> calls W s s'"
  by (auto simp: calls_def intro: exI[of _ "[]"])

lemma calls_trans: "\<lbrakk>calls W s t; calls W t u\<rbrakk> \<Longrightarrow> calls W s u"
  unfolding calls_def using all_calls_append by fastforce

lemma calls_mono: "\<lbrakk>calls W s t; \<And>tr c tb. W tr c tb \<Longrightarrow> V tr c tb\<rbrakk> \<Longrightarrow> calls V s t"
  unfolding calls_def using all_calls_mono by blast

lemma calls_nth:
  assumes "calls W s s'" "length (ls_trace s) \<le> i" "i < length (ls_trace s')"
  shows "W (take i (ls_trace s')) (fst (ls_trace s' ! i)) (snd (ls_trace s' ! i))"
proof -
  obtain es where es: "ls_trace s' = ls_trace s @ es" "all_calls W (ls_trace s) es" using assms(1) by (auto simp: calls_def)
  show ?thesis using all_calls_nth[OF es(2), of "i - length (ls_trace s)"] assms(2,3) es(1) by (simp add: nth_append)
qed

lemma post_then_calls:
  assumes "post m s (\<lambda>x s1. calls V s s1 \<and> post (f x) s1 (\<lambda>y s'. calls V s1 s'))"
  shows "post (m \<bind> f) s (\<lambda>y s'. calls V s s')"
  unfolding post_bind by (rule post_mono[OF assms]) (auto elim!: post_mono intro: calls_trans)

text \<open>While the database satisfies \<open>J\<close> it goes on to do so, and the calls made satisfy \<open>W\<close>.\<close>

definition under :: "(pve_trace \<Rightarrow> pve_call \<Rightarrow> tables \<Rightarrow> bool) \<Rightarrow> (db \<Rightarrow> bool) \<Rightarrow> 'w life \<Rightarrow> 'w life \<Rightarrow> bool" where
  "under W J s s' \<longleftrightarrow> (J (ls_db s) \<longrightarrow> J (ls_db s') \<and> calls W s s')"

interpretation under: frame "under W J" for W J
  by unfold_locales (auto simp: under_def calls_refl intro: calls_trans)

section \<open>What a handler does between its calls\<close>

text \<open>The contract of the helpers towards a property \<open>J\<close> of the database that waiting and the finalizing of audit
  entries keep, and a condition \<open>W\<close> on calls that observing never violates.\<close>

locale watch =
  fixes env :: "'w life_env" and W :: "pve_trace \<Rightarrow> pve_call \<Rightarrow> tables \<Rightarrow> bool" and J :: "db \<Rightarrow> bool"
  assumes observing: "\<not> mutating c \<Longrightarrow> W tr c tb"
    and waiting_keeps: "J d \<Longrightarrow> J (fst (le_wait env u b (d, r, w)))"
    and finalize_keeps: "J d \<Longrightarrow> J (snd (FinalizeAudit i out det d))"
begin

abbreviation kept :: "('w, 'a) life_act \<Rightarrow> bool" where "kept m \<equiv> state_io_rel (under W J) m"

lemma quiet_step:
  assumes "\<And>s. ls_trace (snd (f s)) = ls_trace s" "\<And>s. ls_db (snd (f s)) = ls_db s"
  shows "kept (State f)"
  using assms by (simp add: state_io_rel_def under_def calls_refl)

lemma store: "(\<And>d. J d \<Longrightarrow> J (snd (m d))) \<Longrightarrow> kept (store m)"
  by (simp add: store_def state_io_rel_def under_def calls_refl split: prod.split) (metis snd_conv)

lemma pve: "(\<And>(s :: 'w life) r. J (ls_db s) \<Longrightarrow> W (ls_trace s) (call r) (life_tables s)) \<Longrightarrow> kept (pve f call)"
  by (auto simp: pve_def state_io_rel_def under_def calls_def split: prod.split)

lemma looks: "kept (GuestStatus env ref)" "kept (GuestConfig env ref)"
  unfolding GuestStatus_def GuestConfig_def by (intro pve observing; simp)+

lemma simple: "kept (life_now env)" "kept (on_registry env g)" "kept (Publish env e)"
  unfolding life_now_def on_registry_def Publish_def by (rule quiet_step; simp)+

lemma await_outcome: "kept (await_outcome env u b)"
  unfolding await_outcome_def state_io_rel_def under_def
  using waiting_keeps by (auto simp: Let_def calls_refl split: prod.split option.split) (metis fst_conv)

lemma note_wait: "kept (note_wait u b out)"
  by (auto simp: note_wait_def state_io_rel_def under_def calls_def observing)

lemma track: "kept (track env u a t own)"
  unfolding track_def Let_def by (intro under.bind simple)

lemma await: "kept (await env u b)" "kept (awaitDestroy env u)"
  unfolding await_def awaitDestroy_def
  by (intro under.bind under.cases_if under.return await_outcome note_wait)+

lemma finish: "kept (finish_with key i out ref_id job_id extra)"
  unfolding finish_with_def by (intro under.bind under.return store finalize_keeps)

lemmas finish_audit = finish[of "''schedule_id''", folded auto_finishAudit_def] finish[of "''ttl_id''", folded ttl_finishAudit_def]

lemma cases_error: "(\<And>e. r = Inl e \<Longrightarrow> kept (f e)) \<Longrightarrow> (\<And>x. r = Inr x \<Longrightarrow> kept (g x)) \<Longrightarrow> kept m \<Longrightarrow>
  kept (case r of Inl ErrNotFound \<Rightarrow> m | Inl e \<Rightarrow> f e | Inr x \<Rightarrow> g x)"
  by (cases r; cases "projl r") simp_all

lemmas kept_rules = under.frame_rules looks simple track await finish_audit

lemma post_kept: "\<lbrakk>kept m; J (ls_db s)\<rbrakk> \<Longrightarrow> post m s (\<lambda>_ s'. calls W s s')"
  by (erule under.post_frame) (simp add: under_def)

lemma post_chain:
  assumes "kept m" "J (ls_db s)" "\<And>x s1. J (ls_db s1) \<Longrightarrow> post (f x) s1 Q"
  shows "post (m \<bind> f) s Q"
  unfolding post_bind by (rule under.post_frame[OF assms(1)]) (use assms(2,3) in \<open>simp add: under_def\<close>)

lemma post_end: "\<lbrakk>kept m; J (ls_db s); \<And>x s'. J (ls_db s') \<Longrightarrow> Q x s'\<rbrakk> \<Longrightarrow> post m s Q"
  by (erule under.post_frame) (simp add: under_def)

lemma post_seq:
  assumes "kept m" "J (ls_db s)" "\<And>x s1. J (ls_db s1) \<Longrightarrow> post (f x) s1 (\<lambda>_ s'. calls W s1 s')"
  shows "post (m \<bind> f) s (\<lambda>_ s'. calls W s s')"
  by (rule post_then_calls, rule under.post_frame[OF assms(1)]) (use assms(2,3) in \<open>auto simp: under_def\<close>)

end

section \<open>Audited power changes\<close>

definition entry_for :: "job \<Rightarrow> string \<Rightarrow> audit_entry \<Rightarrow> bool" where
  "entry_for j action e \<longleftrightarrow> ae_action e = action \<and> ae_actor_system e = Some actorSystem \<and> ae_actor_user_id e = None \<and>
     ae_target_type e = Some ''guest'' \<and> ae_target_id e = map_option itoa (j_vmid j) \<and> ae_tenant_id e = j_tenant_id j"

text \<open>The log of \<open>tb\<close> continues that of \<open>tb0\<close>; \<open>logged\<close>: with an entry of this job's handler for the action.\<close>

definition log_extends :: "tables \<Rightarrow> tables \<Rightarrow> bool" where
  "log_extends tb0 tb \<longleftrightarrow> prefix (map who_what_when (audit_log tb0)) (map who_what_when (audit_log tb))"

definition logged :: "job \<Rightarrow> string \<Rightarrow> tables \<Rightarrow> tables \<Rightarrow> bool" where
  "logged j action tb0 tb \<longleftrightarrow> log_extends tb0 tb \<and>
     (\<exists>e \<in> set (drop (length (audit_log tb0)) (map who_what_when (audit_log tb))). entry_for j action e)"

lemma log_extends_refl: "log_extends tb tb"
  by (simp add: log_extends_def)

lemma log_extends_trans: "\<lbrakk>log_extends a b; log_extends b c\<rbrakk> \<Longrightarrow> log_extends a c"
  unfolding log_extends_def by (rule prefix_order.trans)

lemma logged_extends: "\<lbrakk>logged j a tb0 tb; log_extends tb tb'\<rbrakk> \<Longrightarrow> logged j a tb0 tb'"
  unfolding logged_def log_extends_def by (auto simp: prefix_def)

lemma log_extends_finalize: "log_extends tb0 (tabs d) \<Longrightarrow> log_extends tb0 (tabs (snd (FinalizeAudit i out det d)))"
  by (simp add: log_extends_def FinalizeAudit_log)

lemma logged_finalize: "logged j a tb0 (tabs d) \<Longrightarrow> logged j a tb0 (tabs (snd (FinalizeAudit i out det d)))"
  by (simp add: logged_def log_extends_def FinalizeAudit_log)

lemma logged_intent:
  assumes "log_extends tb0 (tabs d)" "InsertAuditIntent (system_intent j a) d = (Inr i, d')"
  shows "logged j a tb0 (tabs d')"
  using assms unfolding logged_def log_extends_def
  by (auto simp: InsertAuditIntent_Inr(2) prefix_def system_intent_def intent_row_def who_what_when_def entry_for_def
      dest: arg_cong[where f = length])

text \<open>The rest of the system keeps the audit log append-only while a handler waits.\<close>

definition honest :: "'w life_env \<Rightarrow> bool" where
  "honest env \<longleftrightarrow> (\<forall>u b d r w. log_extends (tabs d) (tabs (fst (le_wait env u b (d, r, w)))))"

text \<open>The last state the guest was seen in is stopped.\<close>

fun seen_stopped :: "guest_ref \<Rightarrow> pve_call list \<Rightarrow> bool" where
  "seen_stopped ref [] = False"
| "seen_stopped ref (StatusCall ref' (Inr st) # cs) = (ref' = ref \<and> gs_status st = ''stopped'')"
| "seen_stopped ref (StatusCall ref' (Inl e) # cs) = False"
| "seen_stopped ref (ConfigCall ref' a # cs) = seen_stopped ref cs"
| "seen_stopped ref (_ # cs) = False"

text \<open>When a changing call is in order: it is the call of its audit action, on the guest of the handler, logged
  before; a destroy purges and follows directly on the sight of the stopped guest.\<close>

fun call_fits :: "string \<Rightarrow> guest_ref \<Rightarrow> pve_trace \<Rightarrow> pve_call \<Rightarrow> bool" where
  "call_fits action ref tr (ShutdownCall ref' g a) = (ref' = ref \<and> action \<in> {actionStop, actionTTLStop, actionTTLDelete})"
| "call_fits action ref tr (ActionCall ref' act a) = (ref' = ref \<and> action = actionStart \<and> act = ''start'')"
| "call_fits action ref tr (DeleteCall ref' purge a) =
     (ref' = ref \<and> action = actionTTLDelete \<and> purge \<and> seen_stopped ref (rev (map fst tr)))"
| "call_fits action ref tr _ = True"

definition in_order :: "'w life_env \<Rightarrow> job \<Rightarrow> string \<Rightarrow> tables \<Rightarrow> guest_ref \<Rightarrow> pve_trace \<Rightarrow> pve_call \<Rightarrow> tables \<Rightarrow> bool" where
  "in_order env j action tb0 ref tr c tb \<longleftrightarrow>
     (mutating c \<longrightarrow> call_fits action ref tr c \<and> (honest env \<longrightarrow> logged j action tb0 tb))"

definition intent_kept :: "'w life_env \<Rightarrow> job \<Rightarrow> string \<Rightarrow> tables \<Rightarrow> tables \<Rightarrow> bool" where
  "intent_kept env j action tb0 tb \<longleftrightarrow> (honest env \<longrightarrow> logged j action tb0 tb)"

interpretation acts: watch env "in_order env j action tb0 ref" "\<lambda>d. intent_kept env j action tb0 (tabs d)" for env j action tb0 ref
proof unfold_locales
  fix d :: db and u b r w assume "intent_kept env j action tb0 (tabs d)"
  then show "intent_kept env j action tb0 (tabs (fst (le_wait env u b (d, r, w))))"
    using logged_extends unfolding intent_kept_def honest_def by blast
qed (simp_all add: in_order_def intent_kept_def logged_finalize)

lemma post_pve:
  "post (pve f call) s P = (case f (ls_world s) of (r, w) \<Rightarrow>
     P r (s\<lparr>ls_world := w, ls_trace := ls_trace s @ [(call r, life_tables s)]\<rparr>))"
  by (simp add: post_def pve_def split: prod.split)

lemma post_store: "post (store m) s P = (case m (ls_db s) of (r, d) \<Rightarrow> P r (s\<lparr>ls_db := d\<rparr>))"
  by (simp add: post_def store_def split: prod.split)

lemma other_tables_audit [simp]:
  "audit_log (tabs (snd (TombstoneOwnership i d))) = audit_log (tabs d)"
  "audit_log (tabs (snd (SetAutoStopped v b d))) = audit_log (tabs d)"
  "audit_log (tabs (snd (SetExpiredAt v at d))) = audit_log (tabs d)"
  "audit_log (tabs (snd (CancelJobsForVMID v d))) = audit_log (tabs d)"
  by (auto simp: TombstoneOwnership_def SetAutoStopped_def SetExpiredAt_def CancelJobsForVMID_def bind_op_def exec_def stmt_def
      update_ownerships_def update_jobs_def affected_or_missing_def split: prod.splits)

lemma intent_kept_same_log:
  "\<lbrakk>intent_kept env j a tb0 tb; audit_log tb' = audit_log tb\<rbrakk> \<Longrightarrow> intent_kept env j a tb0 tb'"
  by (simp add: intent_kept_def logged_def log_extends_def)

lemma kept_marks:
  "acts.kept env j a tb0 ref (store (TombstoneOwnership i))" "acts.kept env j a tb0 ref (store (SetAutoStopped v b))"
  "acts.kept env j a tb0 ref (store (SetExpiredAt v at))" "acts.kept env j a tb0 ref (store (CancelJobsForVMID v))"
  by (intro acts.store; erule intent_kept_same_log; simp)+

lemma kept_shutdown:
  "a \<in> {actionStop, actionTTLStop, actionTTLDelete} \<Longrightarrow> acts.kept env j a tb0 ref (GuestShutdown env ref g)"
  unfolding GuestShutdown_def by (rule acts.pve) (auto simp: in_order_def intent_kept_def)

lemma kept_start: "acts.kept env j actionStart tb0 ref (GuestAction env ref ''start'')"
  unfolding GuestAction_def by (rule acts.pve) (auto simp: in_order_def intent_kept_def)

lemma settle_destroyed_kept: "acts.kept env j a tb0 ref (settle_destroyed env j own ref tt i snap)"
  unfolding settle_destroyed_def by (intro acts.kept_rules kept_marks)

lemma mark_expired_kept: "acts.kept env j a tb0 ref (mark_expired env j ref tt now i extra)"
  unfolding mark_expired_def by (intro acts.kept_rules kept_marks)

lemma destroy_submitted_kept: "acts.kept env j a tb0 ref (destroy_submitted env j own ref tt i snap u)"
  unfolding destroy_submitted_def by (intro acts.kept_rules settle_destroyed_kept)

lemma destroy_guest_in_order:
  assumes "intent_kept env j actionTTLDelete tb0 (life_tables s)" "seen_stopped ref (rev (map fst (ls_trace s)))"
  shows "post (destroy_guest env j own ref tt i snap) s (\<lambda>_ s'. calls (in_order env j actionTTLDelete tb0 ref) s s')"
  unfolding destroy_guest_def DeleteGuest_def
proof (rule post_then_calls, unfold post_pve, clarsimp split: prod.split, intro conjI)
  fix u w
  let ?s = "s\<lparr>ls_world := w, ls_trace := ls_trace s @ [(DeleteCall ref True u, life_tables s)]\<rparr>"
  show "calls (in_order env j actionTTLDelete tb0 ref) s ?s"
    using assms by (auto simp: calls_def in_order_def intent_kept_def)
  show "post (destroy_submitted env j own ref tt i snap u) ?s (\<lambda>_ s'. calls (in_order env j actionTTLDelete tb0 ref) ?s s')"
    by (rule acts.post_kept[OF destroy_submitted_kept]) (use assms in simp)
qed

text \<open>A look at the guest, and what follows it.\<close>

lemma post_GuestStatus:
  assumes "\<And>s1 r. \<lbrakk>ls_trace s1 = ls_trace s @ [(StatusCall ref r, life_tables s)]; ls_db s1 = ls_db s;
      ls_registry s1 = ls_registry s; ls_published s1 = ls_published s\<rbrakk> \<Longrightarrow> P r s1"
  shows "post (GuestStatus env ref) s P"
  unfolding GuestStatus_def post_pve using assms by (auto split: prod.split)

lemma observed: "ls_trace s1 = ls_trace s @ [(StatusCall ref r, tb)] \<Longrightarrow> calls (in_order env j a tb0 ref') s s1"
  by (simp add: calls_def in_order_def)

lemma ttl_shut_down_in_order:
  assumes kept: "intent_kept env j a tb0 (life_tables s)" and a: "a \<in> {actionTTLStop, actionTTLDelete}"
    and k: "\<And>s1. \<lbrakk>intent_kept env j a tb0 (life_tables s1); seen_stopped ref (rev (map fst (ls_trace s1)))\<rbrakk> \<Longrightarrow>
      post k s1 (\<lambda>_ s'. calls (in_order env j a tb0 ref) s1 s')"
  shows "post (ttl_shut_down env j own ref tt i title before remark k) s (\<lambda>_ s'. calls (in_order env j a tb0 ref) s s')"
  unfolding ttl_shut_down_def Let_def
proof (rule acts.post_seq[OF kept_shutdown kept], goal_cases)
  case 1 then show ?case using a by auto
next
  case (2 u s1)
  show ?case
  proof (cases u)
    case (Inl e)
    show ?thesis unfolding Inl by (simp del: post_bind, rule acts.post_kept[OF _ 2], intro acts.kept_rules)
  next
    case (Inr upid)
    show ?thesis unfolding Inr sum.case
    proof (rule acts.post_seq[OF acts.track 2], rule acts.post_seq[OF acts.await(1)], assumption, rule post_then_calls,
        rule post_GuestStatus, intro conjI, erule observed, goal_cases)
      case (1 _ s2 _ s3 s4 r)
      have s4: "intent_kept env j a tb0 (life_tables s4)" using 1 by simp
      consider (err) e where "r = Inl e" | (up) st where "r = Inr st" "gs_status st \<noteq> ''stopped''"
        | (down) st where "r = Inr st" "gs_status st = ''stopped''" by (cases r) auto
      then show ?case
      proof cases
        case down
        then show ?thesis using k[OF s4] 1 by simp
      qed (simp_all del: post_bind, (rule acts.post_kept[OF _ s4], intro acts.kept_rules)+)
    qed
  qed
qed

lemma post_beginAudit:
  assumes "log_extends tb0 (life_tables s)"
    and "\<And>s1 e. ls_trace s1 = ls_trace s \<Longrightarrow> P (Inl e) s1"
    and "\<And>s1 i. \<lbrakk>ls_trace s1 = ls_trace s; logged j a tb0 (life_tables s1)\<rbrakk> \<Longrightarrow> P (Inr i) s1"
  shows "post (beginAudit j a) s P"
proof -
  obtain r d where run: "InsertAuditIntent (system_intent j a) (ls_db s) = (r, d)" by (cases "InsertAuditIntent (system_intent j a) (ls_db s)")
  have "P r (s\<lparr>ls_db := d\<rparr>)"
  proof (cases r)
    case (Inr i)
    with logged_intent[OF assms(1)] run have "logged j a tb0 (tabs d)" by blast
    then show ?thesis unfolding Inr by (intro assms(3)) simp_all
  qed (simp add: assms(2))
  then show ?thesis by (simp add: beginAudit_def post_store run)
qed

text \<open>The handlers' shape: look at the guest, write the intent, act.\<close>

lemma intended_act_in_order:
  assumes tb: "life_tables s = tb0"
    and act: "\<And>i s1. \<lbrakk>ls_trace s1 = ls_trace s; intent_kept env j a tb0 (life_tables s1)\<rbrakk> \<Longrightarrow>
      post (k i) s1 (\<lambda>_ s'. calls (in_order env j a tb0 ref) s1 s')"
  shows "post (beginAudit j a \<bind> (\<lambda>r. case r of Inl e \<Rightarrow> failed_with (m e) | Inr i \<Rightarrow> k i)) s
    (\<lambda>_ s'. calls (in_order env j a tb0 ref) s s')"
proof (rule post_then_calls, rule post_beginAudit[of tb0])
  show "log_extends tb0 (life_tables s)" by (simp add: tb log_extends_refl)
qed (simp_all add: calls_refl act intent_kept_def)

lemma looked_act_in_order:
  assumes "\<And>st s1. \<lbrakk>ls_trace s1 = ls_trace s @ [(StatusCall ref (Inr st), life_tables s)]; ls_db s1 = ls_db s\<rbrakk> \<Longrightarrow>
    post (k st) s1 (\<lambda>_ s'. calls (in_order env j a tb0 ref) s1 s')"
  shows "post (GuestStatus env ref \<bind> (\<lambda>r. case r of Inl e \<Rightarrow> failed_with e | Inr st \<Rightarrow> k st)) s
    (\<lambda>_ s'. calls (in_order env j a tb0 ref) s s')"
proof (rule post_then_calls, rule post_GuestStatus, intro conjI, erule observed, goal_cases)
  case (1 s1 r)
  then show ?case using assms by (cases r) (simp_all add: calls_refl)
qed

lemma expireStop_in_order:
  assumes "life_tables s = tb0"
  shows "post (expireStop env j own ref tt) s (\<lambda>_ s'. calls (in_order env j actionTTLStop tb0 ref) s s')"
  unfolding expireStop_def stop_intended_def
proof (intro looked_act_in_order intended_act_in_order acts.post_seq[OF acts.simple(1)], goal_cases)
  case (3 st s1 i s2 now s3)
  then show ?case using acts.post_kept[OF mark_expired_kept] by (auto intro!: ttl_shut_down_in_order)
qed (use assms in simp_all)

lemma post_snapshot:
  assumes "\<And>snap s1 c. \<lbrakk>ls_trace s1 = ls_trace s @ [(ConfigCall ref c, life_tables s)]; ls_db s1 = ls_db s\<rbrakk> \<Longrightarrow> P snap s1"
  shows "post (snapshot_guest env ref own tt st) s P"
  unfolding snapshot_guest_def GuestConfig_def using assms by (auto simp: post_pve split: prod.split)

lemma expireDelete_in_order:
  assumes "life_tables s = tb0"
  shows "post (expireDelete env j own ref tt) s (\<lambda>_ s'. calls (in_order env j actionTTLDelete tb0 ref) s s')"
  unfolding expireDelete_def
proof (rule looked_act_in_order, rule post_then_calls, rule post_snapshot, intro conjI intended_act_in_order, goal_cases)
  case (1 st s1 snap s2 c)
  then show ?case by (simp add: calls_def in_order_def)
next
  case (3 st s1 snap s2 c i s3)
  then show ?case unfolding delete_intended_def by (auto intro!: ttl_shut_down_in_order destroy_guest_in_order)
qed (use assms in simp_all)

lemma auto_stop_in_order:
  assumes "life_tables s = tb0"
  shows "post (auto_act_stop env j own pl ref) s (\<lambda>_ s'. calls (in_order env j actionStop tb0 ref) s s')"
  unfolding auto_act_stop_def Let_def
proof (rule intended_act_in_order[OF assms], rule acts.post_kept, goal_cases)
  case (1 i s1)
  show ?case unfolding auto_verify_stop_def by (intro acts.kept_rules kept_shutdown kept_marks) simp
qed

lemma auto_start_in_order:
  assumes "life_tables s = tb0"
  shows "post (auto_act_start env j own pl ref) s (\<lambda>_ s'. calls (in_order env j actionStart tb0 ref) s s')"
  unfolding auto_act_start_def
proof (rule intended_act_in_order[OF assms], rule acts.post_kept, goal_cases)
  case (1 i s1)
  show ?case by (intro acts.kept_rules kept_start kept_marks)
qed

section \<open>The preamble\<close>

text \<open>The guest a job stands for, in the tables its handler starts from.\<close>

definition guest_of :: "job \<Rightarrow> tables \<Rightarrow> guest_ref \<Rightarrow> ownership \<Rightarrow> bool" where
  "guest_of j tb ref own \<longleftrightarrow> own \<in> set (ownerships tb) \<and> j_vmid j = Some (o_vmid own) \<and> o_status own \<noteq> Tombstoned \<and>
     ref = \<lparr>gr_node = o_node own, gr_type = o_guest_type own, gr_vmid = o_vmid own\<rparr>"

lemma GetOwnershipByVMID_run:
  assumes "GetOwnershipByVMID v d = (r, d')"
  shows "tabs d' = tabs d" "r = Inr own \<Longrightarrow> own \<in> set (ownerships (tabs d)) \<and> o_vmid own = v"
  using assms by (auto simp: GetOwnershipByVMID_def query_row_def bind_op_def query_def stmt_def first_row_def filter_eq_Cons_iff
      split: if_splits list.splits)

lemma post_cancelGone [simp]: "post (cancelGone v) s P \<longleftrightarrow> P () (s\<lparr>ls_db := snd (CancelJobsForVMID v (ls_db s))\<rparr>)"
  by (simp add: cancelGone_def post_store split: prod.split)

lemma load_with_post:
  assumes gone: "\<And>x s1. \<lbrakk>ls_trace s1 = ls_trace s; \<forall>own pl ref. x \<noteq> Loaded own pl ref\<rbrakk> \<Longrightarrow> P x s1"
    and found: "\<And>own pl ref s1. \<lbrakk>ls_trace s1 = ls_trace s; life_tables s1 = life_tables s; ls_world s1 = ls_world s;
      guest_of j (life_tables s) ref own\<rbrakk> \<Longrightarrow> P (Loaded own pl ref) s1"
  shows "post (load_with svc dec blank env j) s P"
proof (cases "j_vmid j")
  case (Some v)
  show ?thesis
  proof (cases "if j_payload j = '''' then Inr blank else dec (j_payload j)")
    case (Inr pl)
    obtain r d where run: "GetOwnershipByVMID v (ls_db s) = (r, d)" by (cases "GetOwnershipByVMID v (ls_db s)")
    note got = GetOwnershipByVMID_run[OF run]
    show ?thesis
    proof (cases r)
      case (Inl e)
      then show ?thesis unfolding load_with_def Some Inr option.case sum.case
        by (cases e) (simp_all add: post_store run gone)
    next
      case r: (Inr own)
      show ?thesis
      proof (cases "o_status own = Tombstoned")
        case True
        then show ?thesis unfolding load_with_def Some Inr option.case sum.case
          by (simp add: post_store run r gone)
      next
        case False
        have "P (Loaded own pl \<lparr>gr_node = o_node own, gr_type = o_guest_type own, gr_vmid = v\<rparr>) (s\<lparr>ls_db := d\<rparr>)"
          using got r False Some by (intro found) (auto simp: guest_of_def)
        with False show ?thesis unfolding load_with_def Some Inr option.case sum.case by (simp add: post_store run r)
      qed
    qed
  qed (simp add: load_with_def Some gone)
qed (simp add: load_with_def gone)

section \<open>Expiry\<close>

definition expiry_action :: "ttl_action \<Rightarrow> string" where
  "expiry_action a = (case a of TTLStop \<Rightarrow> actionTTLStop | TTLDelete \<Rightarrow> actionTTLDelete)"

text \<open>A TTL of the job's guest that has run out at \<open>now\<close>.\<close>

definition run_out :: "job \<Rightarrow> tables \<Rightarrow> int \<Rightarrow> guest_ref \<Rightarrow> ttl \<Rightarrow> bool" where
  "run_out j tb now ref tt \<longleftrightarrow> (\<exists>own. guest_of j tb ref own) \<and> tt \<in> set (ttls tb) \<and> tl_vmid tt = gr_vmid ref \<and> tl_expires_at tt \<le> now"

definition expires :: "'w life_env \<Rightarrow> job \<Rightarrow> tables \<Rightarrow> int \<Rightarrow> pve_trace \<Rightarrow> pve_call \<Rightarrow> tables \<Rightarrow> bool" where
  "expires env j tb0 now tr c tb \<longleftrightarrow> (mutating c \<longrightarrow>
     (\<exists>ref tt. run_out j tb0 now ref tt \<and> in_order env j (expiry_action (tl_action tt)) tb0 ref tr c tb))"

lemma GetTTL_run:
  assumes "GetTTL v d = (r, d')"
  shows "tabs d' = tabs d" "r = Inr t \<Longrightarrow> \<exists>t0 \<in> set (ttls (tabs d)). t = scanTTL t0 \<and> tl_vmid t0 = v"
  using assms by (auto simp: GetTTL_def query_row_def bind_op_def query_def stmt_def first_row_def map_eq_Cons_conv filter_eq_Cons_iff
      split: if_splits list.splits)

lemma TTLExpire_calls:
  "post (TTLExpire env j) s (\<lambda>_ s'. calls (expires env j (life_tables s) (le_now env (ls_world s))) s s')"
  (is "post _ s (\<lambda>_ s'. calls ?V s s')")
  unfolding TTLExpire_def ttl_load_def
proof (rule post_then_calls, rule load_with_post, goal_cases)
  case (1 l s1)
  then show ?case by (cases l) (simp_all add: calls_refl)
next
  case (2 own pl ref s1)
  obtain r d where run: "GetTTL (gr_vmid ref) (ls_db s1) = (r, d)" by (cases "GetTTL (gr_vmid ref) (ls_db s1)")
  let ?s = "s1\<lparr>ls_db := d\<rparr>"
  have tb: "life_tables ?s = life_tables s" using GetTTL_run(1)[OF run] 2 by simp
  have "post (case tl_action tt of TTLStop \<Rightarrow> expireStop env j own ref tt | TTLDelete \<Rightarrow> expireDelete env j own ref tt) ?s
      (\<lambda>_ s'. calls ?V s1 s')" if r: "r = Inr tt" and due: "tl_expires_at tt \<le> le_now env (ls_world s1)" for tt
  proof -
    obtain t0 where t0: "t0 \<in> set (ttls (life_tables s1))" "tt = scanTTL t0" "tl_vmid t0 = gr_vmid ref"
      using GetTTL_run(2)[OF run r] by auto
    then have "run_out j (life_tables s) (le_now env (ls_world s)) ref t0"
      using 2 due by (auto simp: run_out_def scanTTL_def)
    then have V: "in_order env j (expiry_action (tl_action tt)) (life_tables s) ref tr c tb \<Longrightarrow> ?V tr c tb" for tr c tb
      using t0(2) by (auto simp: expires_def scanTTL_def)
    show ?thesis
      using expireStop_in_order[OF tb, of env j own ref tt] expireDelete_in_order[OF tb, of env j own ref tt] V
      by (auto simp: expiry_action_def calls_def elim!: post_mono all_calls_mono split: ttl_action.splits)
  qed
  then show ?case using 2
    by (cases r; cases "projl r") (simp_all add: post_store run calls_refl life_now_def post_def[of "State _"] not_less)
qed

text \<open>C27: a TTL destroys only what has expired. Whatever the cluster answers and whatever the rest of the system does while
  the handler waits (as long as the audit log is only appended to), every changing call of \<^verbatim>\<open>TTLExpire\<close> goes to the
  guest of a live ownership row whose TTL had run out when the handler started, comes after the audit intent of that
  action was written in the name of the scheduler, and is the call of the stored action: a destroy happens only for a TTL
  of action delete, and only directly after the guest was seen stopped.\<close>

theorem TTLExpire_only_expired:
  assumes "honest env" and "run_state (TTLExpire env j) s = (r, s')"
    and "length (ls_trace s) \<le> i" "i < length (ls_trace s')" "mutating (fst (ls_trace s' ! i))"
  shows "\<exists>ref tt. run_out j (life_tables s) (le_now env (ls_world s)) ref tt \<and>
    call_fits (expiry_action (tl_action tt)) ref (take i (ls_trace s')) (fst (ls_trace s' ! i)) \<and>
    logged j (expiry_action (tl_action tt)) (life_tables s) (snd (ls_trace s' ! i))"
proof -
  let ?V = "expires env j (life_tables s) (le_now env (ls_world s))"
  have "calls ?V s s'" using TTLExpire_calls[of env j s] assms(2) by (simp add: post_def)
  from calls_nth[OF this assms(3,4)] show ?thesis using assms(1,5) by (auto simp: expires_def in_order_def)
qed

section \<open>Confirmed destruction\<close>

definition tombs :: "tables \<Rightarrow> string set" where
  "tombs tb = fst ` set (filter (\<lambda>p. snd p = Tombstoned) (map (\<lambda>r. (o_id r, o_status r)) (ownerships tb)))"

text \<open>Nobody else tombstones a row while the handler waits.\<close>

definition spares :: "'w life_env \<Rightarrow> bool" where
  "spares env \<longleftrightarrow> (\<forall>u b d r w. tombs (tabs (fst (le_wait env u b (d, r, w)))) = tombs (tabs d))"

lemma finalize_tombs: "tombs (tabs (snd (FinalizeAudit i out det d))) = tombs (tabs d)"
  unfolding tombs_def by (subst FinalizeAudit_other_tables) simp

definition tombs_kept :: "'w life_env \<Rightarrow> string set \<Rightarrow> tables \<Rightarrow> bool" where
  "tombs_kept env T tb \<longleftrightarrow> (spares env \<longrightarrow> tombs tb = T)"

interpretation tombs: watch env "\<lambda>_ _ _. True" "\<lambda>d. tombs_kept env T (tabs d)" for env T
  by unfold_locales (simp_all add: tombs_kept_def spares_def finalize_tombs)

lemma tombs_stores:
  "tombs (tabs (snd (InsertAuditIntent a d))) = tombs (tabs d)"
  "tombs (tabs (snd (CancelJobsForVMID v d))) = tombs (tabs d)"
  "tombs (tabs (snd (SetExpiredAt v at d))) = tombs (tabs d)"
  unfolding tombs_def
  by (auto simp: InsertAuditIntent_def CancelJobsForVMID_def SetExpiredAt_def insert_row_def bind_op_def exec_def stmt_def Let_def
      update_jobs_def affected_or_missing_def update_ownerships_def map_update_where simp del: set_map)

lemma tombs_keeps:
  "tombs.kept env T (beginAudit j a)" "tombs.kept env T (store (SetExpiredAt v at))"
  unfolding beginAudit_def by (intro tombs.store; simp add: tombs_kept_def tombs_stores)+

lemma tombs_pve: "tombs.kept env T (pve f call)"
  by (rule tombs.pve) simp

text \<open>The run ends with a destroy task accepted and reported successful.\<close>

definition destroyed_seen :: "pve_trace \<Rightarrow> bool" where
  "destroyed_seen tr \<longleftrightarrow> (\<exists>tr0 ref upid b oc tb1 tb2.
     tr = tr0 @ [(DeleteCall ref True (Inr upid), tb1), (AwaitCall upid b (Some oc), tb2)] \<and> oc_succeeded oc)"

definition confirmed :: "'w life_env \<Rightarrow> string set \<Rightarrow> handler_result \<Rightarrow> 'w life \<Rightarrow> bool" where
  "confirmed env T r s \<longleftrightarrow> tombs_kept env T (life_tables s) \<or> destroyed_seen (ls_trace s)"

lemma settle_destroyed_trace: "post (settle_destroyed env j own ref tt i snap) s (\<lambda>_ s'. ls_trace s' = ls_trace s)"
  by (auto simp: settle_destroyed_def post_store ttl_finishAudit_def finish_with_def on_registry_def post_def[of "State _"]
      split: prod.split sum.split)

lemma awaitDestroy_seen:
  assumes "le_registry env" "tombs_kept env T (life_tables s)"
  shows "post (awaitDestroy env upid) s (\<lambda>b s'. tombs_kept env T (life_tables s') \<and>
    (b \<longrightarrow> (\<exists>bd oc tb. ls_trace s' = ls_trace s @ [(AwaitCall upid bd (Some oc), tb)] \<and> oc_succeeded oc)))"
proof -
  have out: "post (await_outcome env upid bd) s (\<lambda>_ s'. ls_trace s' = ls_trace s \<and> tombs_kept env T (life_tables s'))" for bd
    using assms(2) tombs.waiting_keeps[of env T "ls_db s"]
    by (auto simp: await_outcome_def post_def Let_def split: prod.split option.split) (metis fst_conv)
  show ?thesis unfolding awaitDestroy_def using assms(1)
    by (auto simp: note_wait_def post_def[of "State _"] split: option.splits intro!: post_mono[OF out])
qed

lemma track_same: "post (track env upid a t own) s (\<lambda>_ s1. ls_trace s1 = ls_trace s \<and> life_tables s1 = life_tables s)"
  by (simp add: track_def Let_def life_now_def on_registry_def Publish_def post_def)

lemma destroy_guest_confirmed:
  assumes "le_registry env" "tombs_kept env T (life_tables s)"
  shows "post (destroy_guest env j own ref tt i snap) s (confirmed env T)"
  unfolding destroy_guest_def DeleteGuest_def post_bind post_pve
proof (clarsimp split: prod.split)
  fix u w
  let ?s = "s\<lparr>ls_world := w, ls_trace := ls_trace s @ [(DeleteCall ref True u, life_tables s)]\<rparr>"
  show "post (destroy_submitted env j own ref tt i snap u) ?s (confirmed env T)"
  proof (cases u)
    case (Inl e)
    show ?thesis unfolding destroy_submitted_def Inl sum.case
      by (rule tombs.post_end[where env = env and T = T], intro tombs.kept_rules) (use assms in \<open>simp_all add: confirmed_def\<close>)
  next
    case (Inr upid)
    show ?thesis unfolding destroy_submitted_def Inr sum.case post_bind
    proof (rule post_mono[OF track_same], rule post_mono[OF awaitDestroy_seen[OF assms(1)]])
      fix s1 s2 :: "'a life" and b
      let ?s1 = "s\<lparr>ls_world := w, ls_trace := ls_trace s @ [(DeleteCall ref True (Inr upid), life_tables s)]\<rparr>"
      assume s1: "ls_trace s1 = ls_trace ?s1 \<and> life_tables s1 = life_tables ?s1"
      show "tombs_kept env T (life_tables s1)" using s1 assms by simp
      assume s2: "tombs_kept env T (life_tables s2) \<and> (b \<longrightarrow> (\<exists>bd oc tb. ls_trace s2 = ls_trace s1 @ [(AwaitCall upid bd (Some oc), tb)] \<and> oc_succeeded oc))"
      have "post (settle_destroyed env j own ref tt i snap) s2 (confirmed env T)" if b
        by (rule post_mono[OF settle_destroyed_trace]) (use s1 s2 that Inr in \<open>auto simp: confirmed_def destroyed_seen_def\<close>)
      moreover have "post (do { ttl_finishAudit i ''error'' x y z; failed_with e }) s2 (confirmed env T)" for x y z e
        by (rule tombs.post_end[where env = env and T = T], intro tombs.kept_rules) (use s2 in \<open>simp_all add: confirmed_def\<close>)
      ultimately show "post (if \<not> b then do {
           ttl_finishAudit i ''error'' (tl_id tt) (j_id j)
             [(''error'', JStr (''destroy task did not complete successfully for vmid '' @ itoa (gr_vmid ref)))];
           failed_with (''destroy task did not complete successfully for vmid '' @ itoa (gr_vmid ref)) }
         else settle_destroyed env j own ref tt i snap) s2 (confirmed env T)" by (auto simp del: post_bind)
    qed
  qed
qed

lemma looked_confirmed:
  assumes "tombs_kept env T (life_tables s)"
    and "\<And>st s1. tombs_kept env T (life_tables s1) \<Longrightarrow> post (k st) s1 (confirmed env T)"
  shows "post (GuestStatus env ref \<bind> (\<lambda>r. case r of Inl e \<Rightarrow> failed_with e | Inr st \<Rightarrow> k st)) s (confirmed env T)"
  by (rule tombs.post_chain[OF tombs.looks(1) assms(1)]) (auto simp: confirmed_def assms(2) split: sum.split)

lemma kept_confirmed: "\<lbrakk>tombs.kept env T m; tombs_kept env T (life_tables s)\<rbrakk> \<Longrightarrow> post m s (confirmed env T)"
  by (erule tombs.post_end) (simp_all add: confirmed_def)

lemma ttl_shut_down_confirmed:
  assumes "tombs_kept env T (life_tables s)" and k: "\<And>s1. tombs_kept env T (life_tables s1) \<Longrightarrow> post k s1 (confirmed env T)"
  shows "post (ttl_shut_down env j own ref tt i title before remark k) s (confirmed env T)"
  unfolding ttl_shut_down_def Let_def
proof (rule tombs.post_chain[OF _ assms(1)], goal_cases)
  case 1 show ?case unfolding GuestShutdown_def by (rule tombs_pve)
next
  case (2 u s1)
  show ?case
  proof (cases u)
    case (Inl e)
    show ?thesis unfolding Inl sum.case by (rule kept_confirmed[OF _ 2], intro tombs.kept_rules)
  next
    case (Inr upid)
    show ?thesis unfolding Inr sum.case
    proof (rule tombs.post_chain[OF tombs.track 2], rule tombs.post_chain[OF tombs.await(1)], assumption,
        rule tombs.post_chain[OF tombs.looks(1)], assumption, goal_cases)
      case (1 _ s2 _ s3 r s4)
      show ?case
      proof (cases r)
        case (Inl e)
        show ?thesis unfolding Inl sum.case by (rule kept_confirmed[OF _ 1(3)], intro tombs.kept_rules)
      next
        case (Inr st)
        have "post (if gs_status st \<noteq> ''stopped'' then m else k) s4 (confirmed env T)" if "tombs.kept env T m" for m
          using k[OF 1(3)] kept_confirmed[OF that 1(3)] by simp
        then show ?thesis unfolding Inr sum.case by this (intro tombs.kept_rules)
      qed
    qed
  qed
qed

lemma expireDelete_confirmed:
  assumes "le_registry env" "tombs_kept env T (life_tables s)"
  shows "post (expireDelete env j own ref tt) s (confirmed env T)"
  unfolding expireDelete_def
proof (rule looked_confirmed[OF assms(2)], rule tombs.post_chain[where env = env and T = T], goal_cases)
  case (1 st s1) show ?case unfolding snapshot_guest_def by (intro tombs.kept_rules)
next
  case (3 st s1 snap s2)
  show ?case
  proof (rule tombs.post_chain[OF tombs_keeps(1) 3(2)], goal_cases)
    case (1 r s3)
    then show ?case unfolding delete_intended_def
      by (cases r) (auto simp: confirmed_def intro!: ttl_shut_down_confirmed destroy_guest_confirmed assms(1))
  qed
qed

lemma expireStop_confirmed:
  assumes "tombs_kept env T (life_tables s)"
  shows "post (expireStop env j own ref tt) s (confirmed env T)"
  unfolding expireStop_def
proof (rule looked_confirmed[OF assms], rule tombs.post_chain[OF tombs_keeps(1)], assumption, goal_cases)
  case (1 st s1 r s2)
  have "post (mark_expired env j ref tt now i extra) s3 (confirmed env T)" if "tombs_kept env T (life_tables s3)" for s3 now i extra
    unfolding mark_expired_def by (rule kept_confirmed[OF _ that], intro tombs.kept_rules tombs_keeps)
  then show ?case using 1 unfolding stop_intended_def
    by (cases r) (auto simp: confirmed_def intro!: ttl_shut_down_confirmed tombs.post_chain[OF tombs.simple(1)] simp del: post_bind)
qed

lemma tombs_load: "tombs.kept env T (load_with svc dec blank env' j)" "tombs.kept env T (store (GetTTL v))"
proof -
  have [simp]: "tombs (tabs (snd (GetOwnershipByVMID v d))) = tombs (tabs d)" "tombs (tabs (snd (GetTTL v d))) = tombs (tabs d)" for v d
    by (metis GetOwnershipByVMID_run(1) prod.collapse, metis GetTTL_run(1) prod.collapse)
  have gone: "tombs.kept env T (cancelGone v \<bind> (\<lambda>_. State_Monad.return LoadGone))" for v
    unfolding cancelGone_def by (intro tombs.kept_rules tombs.store) (simp add: tombs_kept_def tombs_stores)
  show "tombs.kept env T (store (GetTTL v))" by (rule tombs.store) (simp add: tombs_kept_def)
  show "tombs.kept env T (load_with svc dec blank env' j)"
    unfolding load_with_def by (intro tombs.cases_error tombs.kept_rules gone tombs.store) (simp add: tombs_kept_def)
qed

text \<open>C28: ownership ends only with the guest. In a system with a task registry, if \<^verbatim>\<open>TTLExpire\<close> ends with an ownership row
  tombstoned that was not before (and nobody else tombstones rows while it waits), then its last two dealings with the
  cluster were a destroy call that was accepted and the report that this very task succeeded.\<close>

theorem TTLExpire_tombstones_destroyed:
  assumes "le_registry env" and "spares env" and "run_state (TTLExpire env j) s = (r, s')"
    and "x \<in> tombs (life_tables s')" "x \<notin> tombs (life_tables s)"
  shows "destroyed_seen (ls_trace s')"
proof -
  let ?T = "tombs (life_tables s)"
  have "post (TTLExpire env j) s (confirmed env ?T)"
    unfolding TTLExpire_def
  proof (rule tombs.post_chain[where env = env and T = ?T], goal_cases)
    case (3 l s1)
    have "post (life_now env \<bind> (\<lambda>now. if tl_expires_at tt > now then done_ok else (case tl_action tt of
        TTLStop \<Rightarrow> expireStop env j own ref tt | TTLDelete \<Rightarrow> expireDelete env j own ref tt))) s2 (confirmed env ?T)"
      if "tombs_kept env ?T (life_tables s2)" for s2 own ref tt
      using that by (intro tombs.post_chain[OF tombs.simple(1) that])
        (auto simp: confirmed_def intro: expireStop_confirmed expireDelete_confirmed[OF assms(1)] split: ttl_action.split)
    then show ?case using 3
      by (cases l) (auto simp: confirmed_def intro!: tombs.post_chain[OF tombs_load(2)] split: sum.split store_error.split simp del: post_bind)
  qed (unfold ttl_load_def, rule tombs_load(1), simp add: tombs_kept_def)
  then have "confirmed env ?T r s'" using assms(3) by (simp add: post_def)
  with assms(2,4,5) show ?thesis by (auto simp: confirmed_def tombs_kept_def)
qed

section \<open>Auto-shutdown\<close>

definition powers :: "'w life_env \<Rightarrow> job \<Rightarrow> string \<Rightarrow> tables \<Rightarrow> pve_trace \<Rightarrow> pve_call \<Rightarrow> tables \<Rightarrow> bool" where
  "powers env j a tb0 tr c tb \<longleftrightarrow> (mutating c \<longrightarrow>
     (\<exists>own ref. guest_of j tb0 ref own \<and> (a = actionStart \<longrightarrow> o_auto_stopped own) \<and> in_order env j a tb0 ref tr c tb))"

lemma powers_mono:
  assumes "post m s (\<lambda>_ s'. calls (in_order env j a tb0 ref) s s')" "guest_of j tb0 ref own" "a = actionStart \<Longrightarrow> o_auto_stopped own"
  shows "post m s (\<lambda>_ s'. calls (powers env j a tb0) s s')"
proof -
  have "in_order env j a tb0 ref tr c tb \<Longrightarrow> powers env j a tb0 tr c tb" for tr c tb
    using assms(2,3) unfolding powers_def by blast
  with assms(1) show ?thesis by (auto elim!: post_mono calls_mono)
qed

lemma auditSkip_calls: "post (auditSkip j a sid why \<bind> (\<lambda>_. done_ok)) s (\<lambda>_ s'. calls W s s')"
  by (auto simp: auditSkip_def beginAudit_def auto_finishAudit_def finish_with_def post_store calls_refl split: prod.split sum.split)

lemma AutoShutdownStop_calls: "post (AutoShutdownStop env j) s (\<lambda>_ s'. calls (powers env j actionStop (life_tables s)) s s')"
  unfolding AutoShutdownStop_def auto_load_def
proof (rule post_then_calls, rule load_with_post, goal_cases)
  case (1 l s1)
  then show ?case by (cases l) (simp_all add: calls_refl)
next
  case (2 own pl ref s1)
  have "post (if gs_status st = ''stopped'' then auditSkip j actionStop (jp_schedule_id pl) ''already_stopped'' \<bind> (\<lambda>_. done_ok)
      else auto_act_stop env j own pl ref) s2 (\<lambda>_ s'. calls (in_order env j actionStop (life_tables s) ref) s2 s')"
    if "ls_db s2 = ls_db s1" for st and s2 :: "'a life"
    using that 2(2) by (auto simp del: post_bind intro!: auditSkip_calls auto_stop_in_order)
  with 2(2) have "post (GuestStatus env ref \<bind> (\<lambda>r. case r of Inl e \<Rightarrow> failed_with e | Inr st \<Rightarrow>
      if gs_status st = ''stopped'' then auditSkip j actionStop (jp_schedule_id pl) ''already_stopped'' \<bind> (\<lambda>_. done_ok)
      else auto_act_stop env j own pl ref)) s1 (\<lambda>_ s'. calls (in_order env j actionStop (life_tables s) ref) s1 s')"
    by (intro looked_act_in_order)
  from powers_mono[OF this 2(4)] 2(1) show ?case by (auto simp: calls_refl actionStop_def actionStart_def simp del: post_bind)
qed

lemma AutoShutdownStart_calls: "post (AutoShutdownStart env j) s (\<lambda>_ s'. calls (powers env j actionStart (life_tables s)) s s')"
  unfolding AutoShutdownStart_def auto_load_def
proof (rule post_then_calls, rule load_with_post, goal_cases)
  case (1 l s1)
  then show ?case by (cases l) (simp_all add: calls_refl)
next
  case (2 own pl ref s1)
  have "post (if gs_status st = ''running'' then do { _ \<leftarrow> store (SetAutoStopped (gr_vmid ref) False);
        auditSkip j actionStart (jp_schedule_id pl) ''already_running''; done_ok }
      else auto_act_start env j own pl ref) s2 (\<lambda>_ s'. calls (in_order env j actionStart (life_tables s) ref) s2 s')"
    if "ls_db s2 = ls_db s1" for st and s2 :: "'a life"
    using that 2(2)
    by (auto simp: post_store calls_refl simp del: post_bind intro!: post_then_calls[of "store _"] auditSkip_calls auto_start_in_order split: prod.split)
  then have look: "post (GuestStatus env ref \<bind> (\<lambda>r. case r of Inl e \<Rightarrow> failed_with e | Inr st \<Rightarrow>
      if gs_status st = ''running'' then do { _ \<leftarrow> store (SetAutoStopped (gr_vmid ref) False);
        auditSkip j actionStart (jp_schedule_id pl) ''already_running''; done_ok }
      else auto_act_start env j own pl ref)) s1 (\<lambda>_ s'. calls (in_order env j actionStart (life_tables s) ref) s1 s')"
    by (intro looked_act_in_order)
  show ?case
  proof (cases "o_auto_stopped own")
    case True
    with powers_mono[OF look 2(4)] 2(1) show ?thesis by (auto simp: calls_refl simp del: post_bind)
  qed (use 2(1) in \<open>simp add: calls_refl\<close>)
qed

text \<open>C29: the scheduler powers a guest only in the open and never against its user. Under the same conditions, every changing
  call of \<^verbatim>\<open>AutoShutdownStop\<close> is a shutdown, and every one of \<^verbatim>\<open>AutoShutdownStart\<close> a start, of the live guest
  of its job, made after the intent of that action is in the audit log; and a guest is started only when its row says the
  scheduler itself had stopped it.\<close>

theorem autoshutdown_acts_audited:
  assumes "honest env" and "(h, a) \<in> {(AutoShutdownStop env j, actionStop), (AutoShutdownStart env j, actionStart)}"
    and "run_state h s = (r, s')"
    and "length (ls_trace s) \<le> i" "i < length (ls_trace s')" "mutating (fst (ls_trace s' ! i))"
  shows "\<exists>own ref. guest_of j (life_tables s) ref own \<and> (a = actionStart \<longrightarrow> o_auto_stopped own) \<and>
    call_fits a ref (take i (ls_trace s')) (fst (ls_trace s' ! i)) \<and> logged j a (life_tables s) (snd (ls_trace s' ! i))"
proof -
  let ?V = "powers env j a (life_tables s)"
  have "post h s (\<lambda>_ s'. calls ?V s s')" using assms(2) AutoShutdownStop_calls AutoShutdownStart_calls by auto
  then have "calls ?V s s'" using assms(3) by (simp add: post_def)
  from calls_nth[OF this assms(4,5)] show ?thesis using assms(1,6) by (auto simp: powers_def in_order_def)
qed

section \<open>Under the scheduler\<close>

text \<open>A handler as the scheduler runs it: its effect on the database, from any state of registry and cluster.\<close>

definition as_job_handler :: "('w life_env \<Rightarrow> job \<Rightarrow> ('w, handler_result) life_act) \<Rightarrow> 'w life_env \<Rightarrow> 'w life \<Rightarrow> job_handler" where
  "as_job_handler h env s0 j d = (case run_state (h env j) (s0\<lparr>ls_db := d\<rparr>) of (r, s') \<Rightarrow> (r, ls_db s'))"

text \<open>The services register the five handlers under their dispatch keys.\<close>

definition lifecycle_handlers :: "'w life_env \<Rightarrow> 'w life \<Rightarrow> string \<Rightarrow> job_handler option" where
  "lifecycle_handlers env s0 = map_of
     [(HandlerStop, as_job_handler AutoShutdownStop env s0), (HandlerStart, as_job_handler AutoShutdownStart env s0),
      (HandlerWarn, as_job_handler AutoShutdownWarn env s0), (HandlerTTLWarn, as_job_handler TTLWarn env s0),
      (HandlerTTLExpire, as_job_handler TTLExpire env s0)]"

text \<open>While a handler waits, no statement fails and no other scheduler claims a job.\<close>

definition calm_wait :: "'w life_env \<Rightarrow> bool" where
  "calm_wait env \<longleftrightarrow> (\<forall>u b d r w. faults d = [] \<longrightarrow> faults (fst (le_wait env u b (d, r, w))) = [] \<and>
     running_ids (fst (le_wait env u b (d, r, w))) \<subseteq> running_ids d)"

definition settled_within :: "'w life_env \<Rightarrow> string set \<Rightarrow> db \<Rightarrow> bool" where
  "settled_within env R d \<longleftrightarrow> (calm_wait env \<longrightarrow> faults d = [] \<and> running_ids d \<subseteq> R)"

text \<open>A statement that claims no job and, unless it is made to fail, does not fail.\<close>

definition calm_op :: "'a op \<Rightarrow> bool" where
  "calm_op m \<longleftrightarrow> (\<forall>d. faults d = [] \<longrightarrow> faults (snd (m d)) = [] \<and> running_ids (snd (m d)) \<subseteq> running_ids d)"

lemma calm_same_jobs:
  assumes "\<And>d. faults d = [] \<Longrightarrow> faults (snd (m d)) = []" "\<And>d. faults d = [] \<Longrightarrow> jobs (tabs (snd (m d))) = jobs (tabs d)"
  shows "calm_op m"
  using assms by (simp add: calm_op_def running_ids_def)

lemma calm_statements:
  "calm_op (InsertAuditIntent a)" "calm_op (FinalizeAudit i out det)" "calm_op (SetAutoStopped v b)" "calm_op (SetExpiredAt v at)"
  "calm_op (TombstoneOwnership x)" "calm_op (GetOwnershipByVMID v)" "calm_op (GetTTL v)" "calm_op (SetTTLWarned v w)"
  by (rule calm_same_jobs; auto simp: InsertAuditIntent_def FinalizeAudit_def SetAutoStopped_def SetExpiredAt_def TombstoneOwnership_def
      GetOwnershipByVMID_def GetTTL_def SetTTLWarned_def update_ttl_def insert_row_def bind_op_def exec_def stmt_def Let_def
      affected_or_missing_def update_ownerships_def query_row_def query_def first_row_def split: prod.splits sum.splits list.splits)+

lemma calm_cancel: "calm_op (CancelJobsForVMID v)"
  unfolding calm_op_def running_ids_def
  by (auto simp: CancelJobsForVMID_def exec_def stmt_def update_jobs_def set_update_where unlocked_def)

interpretation calm: watch env "\<lambda>_ _ _. True" "settled_within env R" for env R
proof unfold_locales
  fix d i out det assume "settled_within env R d"
  then show "settled_within env R (snd (FinalizeAudit i out det d))"
    using calm_statements(2)[of i out det] unfolding settled_within_def calm_op_def by blast
next
  fix d u b r w assume "settled_within env R d"
  then show "settled_within env R (fst (le_wait env u b (d, r, w)))"
    unfolding settled_within_def calm_wait_def by blast
qed simp

lemma calm_store: "calm_op m \<Longrightarrow> calm.kept env R (store m)"
  by (rule calm.store) (auto simp: calm_op_def settled_within_def)

lemmas calm_stores = calm_statements[THEN calm_store] calm_cancel[THEN calm_store]

lemma calm_pve: "calm.kept env R (pve f call)"
  by (rule calm.pve) simp

lemma calm_load: "calm.kept env R (load_with svc dec blank env' j)"
  unfolding load_with_def cancelGone_def by (intro calm.cases_error calm.kept_rules calm_stores)

lemma calm_shut_down: "calm.kept env R k \<Longrightarrow> calm.kept env R (ttl_shut_down env j own ref tt i title before remark k)"
  unfolding ttl_shut_down_def GuestShutdown_def by (intro calm.kept_rules calm_pve)

lemma calm_cases_loaded:
  "\<lbrakk>\<And>e. calm.kept env R (f e); calm.kept env R m; \<And>own pl ref. calm.kept env R (g own pl ref)\<rbrakk> \<Longrightarrow>
   calm.kept env R (case l of LoadFailed e \<Rightarrow> f e | LoadGone \<Rightarrow> m | Loaded own pl ref \<Rightarrow> g own pl ref)"
  by (cases l) simp_all

lemma calm_cases_action:
  "\<lbrakk>calm.kept env R m; calm.kept env R n\<rbrakk> \<Longrightarrow> calm.kept env R (case a of TTLStop \<Rightarrow> m | TTLDelete \<Rightarrow> n)"
  by (cases a) simp_all

lemmas calm_rules = calm_cases_loaded calm_cases_action calm.cases_error calm.kept_rules calm_stores calm_pve calm_load

lemma calm_handlers:
  "calm.kept env R (AutoShutdownStop env j)" "calm.kept env R (AutoShutdownStart env j)" "calm.kept env R (AutoShutdownWarn env j)"
  "calm.kept env R (TTLWarn env j)" "calm.kept env R (TTLExpire env j)"
  unfolding AutoShutdownStop_def AutoShutdownStart_def AutoShutdownWarn_def TTLWarn_def TTLExpire_def auto_load_def ttl_load_def
    auto_act_stop_def auto_verify_stop_def auto_act_start_def auditSkip_def beginAudit_def GuestShutdown_def GuestAction_def
    expireStop_def stop_intended_def mark_expired_def expireDelete_def delete_intended_def snapshot_guest_def
    destroy_guest_def destroy_submitted_def settle_destroyed_def DeleteGuest_def
  by (intro calm_rules calm_shut_down)+

lemma as_job_handler_ok:
  assumes "calm_wait env" "\<And>R j. calm.kept env R (h env j)"
  shows "handler_ok (as_job_handler h env s0)"
  unfolding handler_ok_def
proof (intro allI impI)
  fix j and d :: db assume "faults d = []"
  then have "post (h env j) (s0\<lparr>ls_db := d\<rparr>) (\<lambda>_ s'. settled_within env (running_ids d) (ls_db s'))"
    by (intro calm.post_end[OF assms(2)]) (simp_all add: settled_within_def)
  then show "faults (snd (as_job_handler h env s0 j d)) = [] \<and> running_ids (snd (as_job_handler h env s0 j d)) \<subseteq> running_ids d"
    using assms(1) by (simp add: as_job_handler_def settled_within_def post_def split: prod.splits)
qed

lemma lifecycle_handlers_ok:
  assumes "calm_wait env" "lifecycle_handlers env s0 n = Some h"
  shows "handler_ok h"
proof -
  have "h \<in> {as_job_handler AutoShutdownStop env s0, as_job_handler AutoShutdownStart env s0, as_job_handler AutoShutdownWarn env s0,
      as_job_handler TTLWarn env s0, as_job_handler TTLExpire env s0}"
    using assms(2) by (auto simp: lifecycle_handlers_def split: if_splits)
  then show ?thesis
    by (elim insertE emptyE; simp only:; intro as_job_handler_ok[OF assms(1)] calm_handlers)
qed

text \<open>C30: the scheduler and the lifecycle handlers together lose no job. When a tick dispatches to the five handlers, with any
  answers of the cluster and as long as no statement fails and nothing else claims jobs during their waits, a job that is
  still running after the tick was running before it, under a claim that is not stale.\<close>

theorem lifecycle_tick_settles:
  assumes "faults d = []" and "calm_wait env"
    and "Tick lib sch (lifecycle_handlers env s0) False now d = (n, d')"
    and "j' \<in> set (jobs (tabs d'))" and "j_status j' = Running"
  shows "\<exists>j \<in> set (jobs (tabs d)). j_id j = j_id j' \<and> j_status j = Running \<and>
     (\<forall>l. j_locked_at j = Some l \<longrightarrow> now - staleAfter sch \<le> l)"
  using Tick_settles[OF assms(1) _ assms(3-5)] lifecycle_handlers_ok[OF assms(2)] by blast

section \<open>A cluster to run on\<close>

text \<open>One guest, which stops when told to; tasks complete while a handler waits, and \<open>meanwhile\<close> is what else happens.\<close>

definition small_cluster :: "(string \<Rightarrow> int \<Rightarrow> db \<Rightarrow> db) \<Rightarrow> (string \<times> int) life_env" where
  "small_cluster meanwhile = \<lparr>le_now = snd, le_status = (\<lambda>ref w. (Inr \<lparr>gs_status = fst w, gs_name = ''web''\<rparr>, w)),
     le_config = (\<lambda>ref w. (Inr ''{}'', w)), le_shutdown = (\<lambda>ref g w. (Inr ''UPID:stop'', (''stopped'', snd w))),
     le_action = (\<lambda>ref a w. (Inr ''UPID:start'', (''running'', snd w))), le_delete = (\<lambda>ref p w. (Inr ''UPID:destroy'', w)),
     le_wait = (\<lambda>u b (d, r, w). (meanwhile u (snd w) d, snd (Complete u True ''OK'' r), w)),
     le_decode_job = (\<lambda>p. Inr \<lparr>jp_schedule_id = ''s1'', jp_node = ''pve1'', jp_guest_type = ''qemu'', jp_grace_sec = 60, jp_shutdown_time = ''18:00''\<rparr>),
     le_decode_ttl = (\<lambda>p. Inr \<lparr>tq_node = ''pve1'', tq_guest_type = ''qemu'', tq_ttl_id = ''l1'', tq_action = ''delete'', tq_which = ''1h''\<rparr>),
     le_error_text = (\<lambda>e. ''error''), le_time_json = (\<lambda>t. ''null''), le_default_grace = 0, le_await_timeout = 0, le_broker = False, le_registry = True\<rparr>"

abbreviation still_cluster :: "(string \<times> int) life_env" where "still_cluster \<equiv> small_cluster (\<lambda>_ _ d. d)"

definition guest_job :: job where
  "guest_job = (sample_job ''j1'' 0 Running)\<lparr>j_vmid := Some 101, j_tenant_id := None, j_project_id := None\<rparr>"

definition small_db :: db where
  "small_db = sample_db (empty_tables\<lparr>ownerships := [sample_guest], ttls := [sample_ttl]\<rparr>)"

definition life_at :: "string \<Rightarrow> int \<Rightarrow> (string \<times> int) life" where
  "life_at status now = \<lparr>ls_db = small_db, ls_registry = NewRegistry, ls_world = (status, now), ls_waiters = 0,
     ls_published = [], ls_trace = []\<rparr>"

abbreviation expired_start :: "(string \<times> int) life" where "expired_start \<equiv> life_at ''stopped'' (10 * 24 * hour)"

lemma still_cluster_ok: "honest still_cluster" "spares still_cluster" "calm_wait still_cluster"
  by (simp_all add: honest_def spares_def calm_wait_def small_cluster_def log_extends_refl)

definition expired_end :: "(string \<times> int) life" where
  "expired_end = snd (run_state (TTLExpire still_cluster guest_job) expired_start)"

lemma expired_end_run: "run_state (TTLExpire still_cluster guest_job) expired_start =
    (fst (run_state (TTLExpire still_cluster guest_job) expired_start), expired_end)"
  by (simp only: expired_end_def prod.collapse)

lemma expired_run:
  "map (mutating \<circ> fst) (ls_trace expired_end) = [False, False, True, False] \<and> tombs (life_tables expired_end) = {''o1''}"
  by code_simp

theorem TTLExpire_only_expired_witness:
  "mutating (fst (ls_trace expired_end ! 2)) \<and>
   (\<exists>ref tt. run_out guest_job (tabs small_db) (10 * 24 * hour) ref tt \<and>
     call_fits (expiry_action (tl_action tt)) ref (take 2 (ls_trace expired_end)) (fst (ls_trace expired_end ! 2)) \<and>
     logged guest_job (expiry_action (tl_action tt)) (tabs small_db) (snd (ls_trace expired_end ! 2)))"
proof -
  have start: "life_tables expired_start = tabs small_db" "le_now still_cluster (ls_world expired_start) = 10 * 24 * hour" "ls_trace expired_start = []"
    by (simp_all add: life_at_def small_cluster_def)
  have len: "length (ls_trace expired_end) = 4" using arg_cong[OF conjunct1[OF expired_run], of length] by simp
  have mut: "mutating (fst (ls_trace expired_end ! 2))"
    using arg_cong[OF conjunct1[OF expired_run], of "\<lambda>bs. bs ! 2"] len by simp
  note TTLExpire_only_expired[OF still_cluster_ok(1) expired_end_run _ _ mut, unfolded start]
  with mut len show ?thesis by simp
qed

theorem TTLExpire_tombstones_destroyed_witness:
  "''o1'' \<in> tombs (life_tables expired_end) \<and> destroyed_seen (ls_trace expired_end)"
proof -
  have tomb: "''o1'' \<in> tombs (life_tables expired_end)" "''o1'' \<notin> tombs (life_tables expired_start)" "le_registry still_cluster"
    using expired_run by (simp, code_simp, code_simp)
  show ?thesis using TTLExpire_tombstones_destroyed[OF tomb(3) still_cluster_ok(2) expired_end_run tomb(1,2)] tomb(1) by simp
qed

text \<open>The guest is extended by its user while the handler waits for the shutdown (the write that
  \<^verbatim>\<open>ExtendTTL\<close> commits): the check of the expiry is not repeated
  after the wait, and the guest is destroyed although its TTL now ends six days ahead.\<close>

definition extending_user :: "string \<Rightarrow> int \<Rightarrow> db \<Rightarrow> db" where
  "extending_user upid now d = (if upid = ''UPID:stop'' then snd (UpdateTTLExpiry 101 (now + 6 * 24 * hour) d) else d)"

theorem extended_ttl_still_destroyed:
  "map (\<lambda>(c, tb). (mutating c, map tl_expires_at (ttls tb)))
     (ls_trace (snd (run_state (TTLExpire (small_cluster extending_user) guest_job) (life_at ''running'' (10 * 24 * hour))))) =
     [(False, [9 * 24 * hour]), (False, [9 * 24 * hour]), (True, [9 * 24 * hour]), (False, [16 * 24 * hour]), (False, [16 * 24 * hour]),
      (True, [16 * 24 * hour]), (False, [16 * 24 * hour])]"
  by code_simp

definition stopped_start :: "(string \<times> int) life" where
  "stopped_start = (life_at ''stopped'' 0)\<lparr>ls_db := sample_db (empty_tables\<lparr>ownerships := [sample_guest\<lparr>o_auto_stopped := True\<rparr>]\<rparr>)\<rparr>"

theorem autoshutdown_acts_audited_witness:
  "let s' = snd (run_state (AutoShutdownStart still_cluster guest_job) stopped_start) in
   length (ls_trace s') = 3 \<and>
   (\<exists>own ref. guest_of guest_job (life_tables stopped_start) ref own \<and> o_auto_stopped own \<and>
      call_fits actionStart ref (take 1 (ls_trace s')) (fst (ls_trace s' ! 1)) \<and>
      logged guest_job actionStart (life_tables stopped_start) (snd (ls_trace s' ! 1)))"
proof -
  define h where "h = AutoShutdownStart still_cluster guest_job"
  define s' where "s' = snd (run_state h stopped_start)"
  have facts: "length (ls_trace s') = 3 \<and> mutating (fst (ls_trace s' ! 1)) \<and> length (ls_trace stopped_start) \<le> 1"
    unfolding s'_def h_def by code_simp
  have run: "run_state h stopped_start = (fst (run_state h stopped_start), s')" by (simp add: s'_def)
  show ?thesis
    using autoshutdown_acts_audited[OF still_cluster_ok(1) _ run, of actionStart guest_job 1] facts
    by (simp add: h_def s'_def Let_def)
qed

abbreviation warning_db :: db where
  "warning_db \<equiv> small_db\<lparr>tabs := (tabs small_db)\<lparr>ttls := [sample_ttl\<lparr>tl_warned_1h := False\<rparr>],
     jobs := [guest_job\<lparr>j_handler := HandlerTTLWarn, j_status := Scheduled, j_locked_at := None, j_locked_by := None\<rparr>,
       (sample_job ''j2'' 10 Running)\<lparr>j_locked_at := Some (8 * 24 * hour)\<rparr>]\<rparr>\<rparr>"

theorem lifecycle_tick_settles_witness:
  "let d' = snd (Tick sample_cron default_scheduler (lifecycle_handlers still_cluster expired_start) False (8 * 24 * hour) warning_db) in
   map (\<lambda>j. (j_id j, j_status j)) (jobs (tabs d')) = [(''j1'', Succeeded), (''j2'', Running)] \<and>
   map tl_warned_1h (ttls (tabs d')) = [True] \<and>
   (\<exists>j \<in> set (jobs (tabs warning_db)). j_id j = ''j2'' \<and> j_status j = Running)"
proof -
  define d' where "d' = snd (Tick sample_cron default_scheduler (lifecycle_handlers still_cluster expired_start) False (8 * 24 * hour) warning_db)"
  have js: "map (\<lambda>j. (j_id j, j_status j)) (jobs (tabs d')) = [(''j1'', Succeeded), (''j2'', Running)]" "map tl_warned_1h (ttls (tabs d')) = [True]"
    "faults warning_db = []"
    unfolding d'_def by code_simp+
  have "(''j2'', Running) \<in> set (map (\<lambda>j. (j_id j, j_status j)) (jobs (tabs d')))" unfolding js(1) by simp
  then obtain j' where j': "j' \<in> set (jobs (tabs d'))" "j_id j' = ''j2''" "j_status j' = Running" by auto
  have run: "Tick sample_cron default_scheduler (lifecycle_handlers still_cluster expired_start) False (8 * 24 * hour) warning_db =
      (fst (Tick sample_cron default_scheduler (lifecycle_handlers still_cluster expired_start) False (8 * 24 * hour) warning_db), d')"
    by (simp only: d'_def prod.collapse)
  show ?thesis using lifecycle_tick_settles[OF js(3) still_cluster_ok(3) run j'(1,3)] js(1,2) j'(2)
    unfolding Let_def d'_def[symmetric] by auto
qed

end
