(* ===== verification/Deploy_Params.thy ===== *)
theory Deploy_Params
  imports Go_Encoding Scheduler "HOL-Library.Sublist"
begin

text \<open>
  Turning a create request into the parameters of a Proxmox call (\<^verbatim>\<open>internal/deploy/params.go\<close>): validation by
  regular expressions, the composite option strings, and the create and clone parameters. A Go map of
  parameters is an association list, every key set once.
\<close>

section \<open>Regular expressions\<close>

text \<open>Every expression of the file is anchored at both ends and is a sequence of character classes, each with its
  least and greatest number of repetitions; the bounded group of the address expressions is written out.\<close>

type_synonym piece = "(char \<Rightarrow> bool) \<times> nat \<times> nat option"

fun MatchString :: "piece list \<Rightarrow> string \<Rightarrow> bool" where
  "MatchString [] s = (s = [])"
| "MatchString ((p, lo, hi) # ps) [] = (lo = 0 \<and> MatchString ps [])"
| "MatchString ((p, lo, hi) # ps) (c # cs) =
     (lo = 0 \<and> MatchString ps (c # cs) \<or>
      hi \<noteq> Some 0 \<and> p c \<and> MatchString ((p, lo - 1, map_option (\<lambda>h. h - 1) hi) # ps) cs)"

abbreviation once :: "(char \<Rightarrow> bool) \<Rightarrow> piece" where "once p \<equiv> (p, 1, Some 1)"
abbreviation many :: "(char \<Rightarrow> bool) \<Rightarrow> piece" where "many p \<equiv> (p, 0, None)"
abbreviation upto_times :: "nat \<Rightarrow> (char \<Rightarrow> bool) \<Rightarrow> piece" where "upto_times n p \<equiv> (p, 0, Some n)"
abbreviation lit :: "string \<Rightarrow> piece list" where "lit s \<equiv> map (\<lambda>c. once (\<lambda>x. x = c)) s"

definition between :: "char \<Rightarrow> char \<Rightarrow> char \<Rightarrow> bool" where "between a b c \<longleftrightarrow> a \<le> c \<and> c \<le> b"

definition is_lower :: "char \<Rightarrow> bool" where "is_lower = between CHR ''a'' CHR ''z''"
definition is_alnum :: "char \<Rightarrow> bool" where
  "is_alnum c \<longleftrightarrow> between CHR ''A'' CHR ''Z'' c \<or> is_lower c \<or> between CHR ''0'' CHR ''9'' c"
definition is_dec :: "char \<Rightarrow> bool" where "is_dec = between CHR ''0'' CHR ''9''"
definition one_of :: "(char \<Rightarrow> bool) \<Rightarrow> string \<Rightarrow> char \<Rightarrow> bool" where "one_of p s c \<longleftrightarrow> p c \<or> c \<in> set s"

definition lower_dec :: "char \<Rightarrow> bool" where "lower_dec c \<longleftrightarrow> is_lower c \<or> is_dec c"

definition nameRe :: "piece list" where
  "nameRe = [once is_lower, upto_times 39 (one_of lower_dec ''-'')]"
definition tagRe :: "piece list" where
  "tagRe = [once (one_of lower_dec ''_''), many (one_of lower_dec ''_.-'')]"
definition quad :: "piece list" where
  "quad = [(is_dec, 1, Some 3)] @ concat (replicate 3 (lit ''.'' @ [(is_dec, 1, Some 3)]))"
definition cidrRe :: "piece list" where "cidrRe = quad @ lit ''/'' @ [(is_dec, 1, Some 2)]"
definition ipRe :: "piece list" where "ipRe = quad"
definition pveIDRe :: "piece list" where
  "pveIDRe = [once is_alnum, upto_times 63 (one_of is_alnum ''._-'')]"
definition volIDRe :: "piece list" where
  "volIDRe = [once is_alnum, many (one_of is_alnum ''._-'')] @ lit '':'' @ [once is_alnum, many (one_of is_alnum ''._/-'')]"
definition hostnameRe :: "piece list" where
  "hostnameRe = [once is_alnum, upto_times 253 (one_of is_alnum ''.:-'')]"
definition snippetRefRe :: "piece list" where
  "snippetRefRe = [once is_alnum, many (one_of is_alnum ''._-'')] @ lit '':snippets/proxcloud-'' @
     [(one_of lower_dec ''-'', 1, None)] @ lit ''.yaml''"

definition validPVEID :: "string \<Rightarrow> bool" where
  "validPVEID s \<longleftrightarrow> s \<noteq> ''.'' \<and> s \<noteq> ''..'' \<and> MatchString pveIDRe s"

section \<open>Requests\<close>

record create_source =
  cs_mode :: string
  cs_iso_vol :: string
  cs_image_vol :: string
  cs_vztmpl_vol :: string
  cs_clone_vmid :: int
  cs_clone_node :: string
  cs_clone_mode :: string

record ip_config =
  ic_mode :: string
  ic_cidr :: string
  ic_gateway :: string

record cloud_init =
  ci_user :: string
  ci_password :: string
  ci_ssh_keys :: "string list"
  ci_nameserver :: string
  ci_search_domain :: string

record catalog_provision =
  ca_service_id :: string
  ca_snippet_ref :: string
  ca_ports :: "int list"
  ca_credential_hint :: string
  ca_user_supplied :: bool

record create_guest_request =
  cr_type :: string
  cr_name :: string
  cr_node :: string
  cr_vmid :: int
  cr_project_id :: string
  cr_pool :: string
  cr_source :: create_source
  cr_cores :: int
  cr_memory_mb :: int
  cr_disk_gb :: int
  cr_storage :: string
  cr_bridge :: string
  cr_vlan_tag :: int
  cr_firewall :: bool
  cr_ip_config :: "ip_config option"
  cr_cloud_init :: "cloud_init option"
  cr_tags :: "string list"
  cr_start_after_create :: bool
  cr_catalog :: "catalog_provision option"

section \<open>Validation\<close>

text \<open>\<open>first_failure\<close>: the checks in order, each with its message; the first that fails is the error.\<close>

fun first_failure :: "(bool \<times> string) list \<Rightarrow> string option" where
  "first_failure [] = None"
| "first_failure ((bad, msg) # cs) = (if bad then Some msg else first_failure cs)"

definition source_checks :: "create_guest_request \<Rightarrow> (bool \<times> string) list" where
  "source_checks req = (let src = cr_source req; mode = cs_mode src in
     if mode = ''vztmpl'' then
       [(cr_type req \<noteq> ''lxc'', ''vztmpl source is only valid for lxc''),
        (cs_vztmpl_vol src = '''', ''template volume is required''),
        (\<not> MatchString volIDRe (cs_vztmpl_vol src), ''template volume id has an invalid format'')]
     else if mode = ''iso'' then
       [(cr_type req \<noteq> ''qemu'', ''iso source is only valid for qemu''),
        (cs_iso_vol src = '''', ''ISO volume is required''),
        (\<not> MatchString volIDRe (cs_iso_vol src), ''ISO volume id has an invalid format'')]
     else if mode = ''image'' then
       [(cr_type req \<noteq> ''qemu'', ''image source is only valid for qemu''),
        (cs_image_vol src = '''', ''image volume is required''),
        (\<not> MatchString volIDRe (cs_image_vol src), ''image volume id has an invalid format'')]
     else if mode = ''clone'' then
       [(cr_type req \<noteq> ''qemu'', ''clone source is only valid for qemu in v1''),
        (cs_clone_vmid src < 100, ''clone source VMID is required''),
        (cs_clone_mode src \<noteq> ''full'' \<and> cs_clone_mode src \<noteq> ''linked'', ''clone mode must be full or linked'')]
     else [(True, ''source mode must be iso, image, vztmpl, or clone'')])"

definition storage_checks :: "create_guest_request \<Rightarrow> (bool \<times> string) list" where
  "storage_checks req =
     (if cs_mode (cr_source req) \<noteq> ''clone'' then
        [(cr_disk_gb req < 1, ''disk size must be at least 1 GiB''),
         (\<not> validPVEID (cr_storage req), ''storage must be a valid PVE storage name''),
         (\<not> validPVEID (cr_bridge req), ''bridge must be a valid interface name'')]
      else [(cr_storage req \<noteq> '''' \<and> \<not> validPVEID (cr_storage req), ''storage must be a valid PVE storage name'')])"

definition ip_checks :: "create_guest_request \<Rightarrow> (bool \<times> string) list" where
  "ip_checks req = (case cr_ip_config req of
      None \<Rightarrow> []
    | Some ic \<Rightarrow>
        if ic_mode ic = ''static'' then
          [(\<not> MatchString cidrRe (ic_cidr ic), ''static IP must be CIDR notation, e.g. 192.168.1.50/24''),
           (ic_gateway ic \<noteq> '''' \<and> \<not> MatchString ipRe (ic_gateway ic), ''gateway must be an IPv4 address'')]
        else [])"

text \<open>The dash in the message about tags is U+2014, in UTF-8.\<close>

definition tag_message :: "string \<Rightarrow> string" where
  "tag_message t = ''invalid tag '' @ go_quote t @ '' '' @ [CHR 0xE2, CHR 0x80, CHR 0x94] @ '' lowercase letters, digits, . - _ only''"

definition cloud_checks :: "create_guest_request \<Rightarrow> (bool \<times> string) list" where
  "cloud_checks req = (case cr_cloud_init req of
      None \<Rightarrow> []
    | Some ci \<Rightarrow>
        [(ci_nameserver ci \<noteq> '''' \<and> \<not> MatchString hostnameRe (ci_nameserver ci), ''nameserver has an invalid format''),
         (ci_search_domain ci \<noteq> '''' \<and> \<not> MatchString hostnameRe (ci_search_domain ci), ''search domain has an invalid format'')])"

definition catalog_checks :: "create_guest_request \<Rightarrow> (bool \<times> string) list" where
  "catalog_checks req = (case cr_catalog req of
      None \<Rightarrow> []
    | Some ca \<Rightarrow>
        [(cr_type req \<noteq> ''qemu'', ''catalog provisioning is qemu-only''),
         (ca_service_id ca = '''', ''catalog serviceId is required''),
         (\<not> MatchString snippetRefRe (ca_snippet_ref ca), ''catalog snippetRef must be <datastore>:snippets/proxcloud-<name>.yaml'')])"

definition Validate :: "create_guest_request \<Rightarrow> string option" where
  "Validate req = first_failure
     ([(cr_type req \<noteq> ''qemu'' \<and> cr_type req \<noteq> ''lxc'', ''type must be qemu or lxc''),
       (\<not> MatchString nameRe (cr_name req),
        ''name must start with a lowercase letter and contain only lowercase letters, digits, and hyphens (max 40)''),
       (\<not> validPVEID (cr_node req), ''node must be a valid PVE node name''),
       (cr_vmid req < 100 \<or> cr_vmid req > 999999999, ''vmid must be between 100 and 999999999''),
       (cr_cores req < 1 \<or> cr_cores req > 128, ''cores must be between 1 and 128''),
       (cr_memory_mb req < 128, ''memory must be at least 128 MiB'')] @
      source_checks req @ storage_checks req @
      [(cr_pool req \<noteq> '''' \<and> \<not> validPVEID (cr_pool req), ''pool must be a valid PVE pool name''),
       (cr_vlan_tag req < 0 \<or> cr_vlan_tag req > 4094, ''vlan tag must be between 1 and 4094'')] @
      ip_checks req @
      map (\<lambda>t. (\<not> MatchString tagRe t, tag_message t)) (cr_tags req) @
      cloud_checks req @ catalog_checks req)"

section \<open>Parameters\<close>

datatype param = PInt int | PStr string

definition net0_parts :: "create_guest_request \<Rightarrow> string list" where
  "net0_parts req =
     [if cr_type req = ''qemu'' then ''virtio'' else ''name=eth0'', ''bridge='' @ cr_bridge req] @
     (if cr_vlan_tag req > 0 then [''tag='' @ itoa (cr_vlan_tag req)] else []) @
     (if cr_firewall req then [''firewall=1''] else []) @
     (if cr_type req = ''lxc'' then
        (case cr_ip_config req of
           Some ic \<Rightarrow> if ic_mode ic = ''static''
             then [''ip='' @ ic_cidr ic] @ (if ic_gateway ic \<noteq> '''' then [''gw='' @ ic_gateway ic] else [])
             else [''ip=dhcp'']
         | None \<Rightarrow> [''ip=dhcp''])
      else [])"

definition net0String :: "create_guest_request \<Rightarrow> string" where
  "net0String req = join_with '','' (net0_parts req)"

definition hex_upper :: "nat \<Rightarrow> char" where
  "hex_upper n = (if n < 10 then char_of (48 + n) else char_of (55 + n))"

text \<open>\<^verbatim>\<open>url.QueryEscape\<close>.\<close>

definition QueryEscape :: "string \<Rightarrow> string" where
  "QueryEscape s = concat (map (\<lambda>c. if one_of is_alnum ''-_.~'' c then [c] else if c = CHR '' '' then ''+''
     else (let n = of_char c :: nat in [CHR ''%'', hex_upper (n div 16), hex_upper (n mod 16)])) s)"

definition newline :: string where "newline = [CHR 0x0A]"

definition dns_params :: "cloud_init \<Rightarrow> (string \<times> param) list" where
  "dns_params ci =
     (if ci_nameserver ci \<noteq> '''' then [(''nameserver'', PStr (ci_nameserver ci))] else []) @
     (if ci_search_domain ci \<noteq> '''' then [(''searchdomain'', PStr (ci_search_domain ci))] else [])"

definition lxc_params :: "create_guest_request \<Rightarrow> (string \<times> param) list" where
  "lxc_params req =
     [(''hostname'', PStr (cr_name req)), (''ostemplate'', PStr (cs_vztmpl_vol (cr_source req))),
      (''rootfs'', PStr (cr_storage req @ '':'' @ itoa (cr_disk_gb req))), (''unprivileged'', PInt 1)] @
     (case cr_cloud_init req of
        None \<Rightarrow> []
      | Some ci \<Rightarrow>
          (if ci_password ci \<noteq> '''' then [(''password'', PStr (ci_password ci))] else []) @
          (if ci_ssh_keys ci \<noteq> [] then [(''ssh-public-keys'', PStr (join_with newline (ci_ssh_keys ci)))] else []) @
          dns_params ci)"

definition disk_params :: "create_guest_request \<Rightarrow> (string \<times> param) list" where
  "disk_params req =
     (if cs_mode (cr_source req) = ''image'' then
        [(''scsi0'', PStr (cr_storage req @ '':0,import-from='' @ cs_image_vol (cr_source req))), (''boot'', PStr ''order=scsi0'')]
      else
        [(''scsi0'', PStr (cr_storage req @ '':'' @ itoa (cr_disk_gb req))), (''ide2'', PStr (cs_iso_vol (cr_source req) @ '',media=cdrom'')),
         (''boot'', PStr ''order=scsi0;ide2'')])"

definition inline_params :: "cloud_init \<Rightarrow> (string \<times> param) list" where
  "inline_params ci =
     (if ci_user ci \<noteq> '''' then [(''ciuser'', PStr (ci_user ci))] else []) @
     (if ci_password ci \<noteq> '''' then [(''cipassword'', PStr (ci_password ci))] else []) @
     (if ci_ssh_keys ci \<noteq> [] then [(''sshkeys'', PStr (QueryEscape (join_with newline (ci_ssh_keys ci))))] else [])"

definition ipconfig0 :: "ip_config \<Rightarrow> string" where
  "ipconfig0 ic = (if ic_mode ic = ''static''
     then ''ip='' @ ic_cidr ic @ (if ic_gateway ic \<noteq> '''' then '',gw='' @ ic_gateway ic else '''')
     else ''ip=dhcp'')"

definition cloud_params :: "create_guest_request \<Rightarrow> (string \<times> param) list" where
  "cloud_params req =
     (if cr_cloud_init req = None \<and> cr_catalog req = None then []
      else [(''ide0'', PStr (cr_storage req @ '':cloudinit''))] @
        (case cr_catalog req of
           Some ca \<Rightarrow> [(''cicustom'', PStr (''user='' @ ca_snippet_ref ca))]
         | None \<Rightarrow> (case cr_cloud_init req of None \<Rightarrow> [] | Some ci \<Rightarrow> inline_params ci)) @
        (case cr_cloud_init req of None \<Rightarrow> [] | Some ci \<Rightarrow> dns_params ci) @
        (case cr_ip_config req of None \<Rightarrow> [] | Some ic \<Rightarrow> [(''ipconfig0'', PStr (ipconfig0 ic))]))"

definition qemu_params :: "create_guest_request \<Rightarrow> (string \<times> param) list" where
  "qemu_params req =
     [(''name'', PStr (cr_name req)), (''ostype'', PStr ''l26''), (''scsihw'', PStr ''virtio-scsi-single''), (''agent'', PInt 1)] @
     disk_params req @ cloud_params req"

definition BuildCreateParams :: "create_guest_request \<Rightarrow> string + (string \<times> param) list" where
  "BuildCreateParams req = (case Validate req of
      Some e \<Rightarrow> Inl e
    | None \<Rightarrow>
        if cs_mode (cr_source req) = ''clone'' then Inl ''clone requests use BuildCloneParams''
        else Inr ([(''vmid'', PInt (cr_vmid req)), (''cores'', PInt (cr_cores req)), (''memory'', PInt (cr_memory_mb req)),
            (''net0'', PStr (net0String req))] @
          (if cr_pool req \<noteq> '''' then [(''pool'', PStr (cr_pool req))] else []) @
          (if cr_tags req \<noteq> [] then [(''tags'', PStr (join_with '';'' (cr_tags req)))] else []) @
          (if cr_type req = ''lxc'' then lxc_params req else qemu_params req)))"

record clone_params =
  cl_new_vmid :: int
  cl_name :: string
  cl_pool :: string
  cl_full :: bool
  cl_storage :: string
  cl_target :: string

definition BuildCloneParams :: "create_guest_request \<Rightarrow> string + clone_params" where
  "BuildCloneParams req = (case Validate req of
      Some e \<Rightarrow> Inl e
    | None \<Rightarrow> (let full = (cs_clone_mode (cr_source req) = ''full'') in
        Inr \<lparr>cl_new_vmid = cr_vmid req, cl_name = cr_name req, cl_pool = cr_pool req, cl_full = full,
          cl_storage = (if full \<and> cr_storage req \<noteq> '''' then cr_storage req else ''''), cl_target = ''''\<rparr>))"

section \<open>What a match says about a string\<close>

lemma MatchString_chars: "\<lbrakk>MatchString ps s; c \<in> set s\<rbrakk> \<Longrightarrow> \<exists>q \<in> set ps. fst q c"
  by (induction ps s rule: MatchString.induct) auto

text \<open>Free of the characters that separate options, and of those alone that matter to the option parser.\<close>

definition plain :: "string \<Rightarrow> bool" where
  "plain s \<longleftrightarrow> CHR '','' \<notin> set s \<and> CHR ''='' \<notin> set s"

lemma plainI: "\<lbrakk>MatchString ps s; \<forall>q \<in> set ps. \<not> fst q CHR '','' \<and> \<not> fst q CHR ''=''\<rbrakk> \<Longrightarrow> plain s"
  unfolding plain_def using MatchString_chars by blast

lemmas classes = between_def is_lower_def is_alnum_def is_dec_def one_of_def lower_dec_def

lemma plain_matches:
  "MatchString pveIDRe s \<Longrightarrow> plain s" "MatchString volIDRe s \<Longrightarrow> plain s" "MatchString cidrRe s \<Longrightarrow> plain s"
  "MatchString ipRe s \<Longrightarrow> plain s" "MatchString snippetRefRe s \<Longrightarrow> plain s"
  by (erule plainI; simp add: pveIDRe_def volIDRe_def cidrRe_def ipRe_def quad_def snippetRefRe_def classes numeral_3_eq_3)+

lemma plain_append [simp]: "plain (s @ t) \<longleftrightarrow> plain s \<and> plain t"
  by (auto simp: plain_def)

lemma plain_itoa: "plain (itoa n)"
proof -
  have "list_all (\<lambda>c. is_digit c \<or> c = CHR ''-'') (itoa n)"
    using nat_digits_all by (auto simp: itoa_def list_all_iff)
  moreover have "\<not> is_digit CHR '',''" "\<not> is_digit CHR ''=''" by code_simp+
  ultimately show ?thesis unfolding plain_def by (auto simp: list_all_iff)
qed

section \<open>The option strings\<close>

text \<open>How Proxmox reads a composite value: options separated by commas, each a value or a key and its value.\<close>

definition options_of :: "string \<Rightarrow> string list list" where
  "options_of s = map (split_on CHR ''='') (split_on CHR '','' s)"

lemma split_on_join: "\<lbrakk>ps \<noteq> []; \<forall>p \<in> set ps. c \<notin> set p\<rbrakk> \<Longrightarrow> split_on c (join_with [c] ps) = ps"
  by (induction "[c]" ps rule: join_with.induct) (auto simp: split_on_no_sep split_on_append)

lemma split_key: "plain v \<Longrightarrow> CHR ''='' \<notin> set k \<Longrightarrow> split_on CHR ''='' (k @ CHR ''='' # v) = [k, v]"
  by (simp add: split_on_append split_on_no_sep plain_def)

lemma split_value: "plain v \<Longrightarrow> split_on CHR ''='' v = [v]"
  by (simp add: split_on_no_sep plain_def)

definition ip_options :: "ip_config option \<Rightarrow> string list list" where
  "ip_options ic = (case ic of
      Some c \<Rightarrow> if ic_mode c = ''static'' then [[''ip'', ic_cidr c]] @ (if ic_gateway c \<noteq> '''' then [[''gw'', ic_gateway c]] else [])
        else [[''ip'', ''dhcp'']]
    | None \<Rightarrow> [[''ip'', ''dhcp'']])"

text \<open>The options the request asks for under each composite key.\<close>

definition intended :: "create_guest_request \<Rightarrow> string \<Rightarrow> string list list" where
  "intended req key =
     (if key = ''net0'' then
        [if cr_type req = ''qemu'' then [''virtio''] else [''name'', ''eth0''], [''bridge'', cr_bridge req]] @
        (if cr_vlan_tag req > 0 then [[''tag'', itoa (cr_vlan_tag req)]] else []) @
        (if cr_firewall req then [[''firewall'', ''1'']] else []) @
        (if cr_type req = ''lxc'' then ip_options (cr_ip_config req) else [])
      else if key = ''scsi0'' \<and> cs_mode (cr_source req) = ''image'' then
        [[cr_storage req @ '':0''], [''import-from'', cs_image_vol (cr_source req)]]
      else if key \<in> {''scsi0'', ''rootfs''} then [[cr_storage req @ '':'' @ itoa (cr_disk_gb req)]]
      else if key = ''ide2'' then [[cs_iso_vol (cr_source req)], [''media'', ''cdrom'']]
      else if key = ''ide0'' then [[cr_storage req @ '':cloudinit'']]
      else if key = ''cicustom'' then (case cr_catalog req of None \<Rightarrow> [] | Some ca \<Rightarrow> [[''user'', ca_snippet_ref ca]])
      else ip_options (cr_ip_config req))"

definition composite_keys :: "string set" where
  "composite_keys = {''net0'', ''scsi0'', ''rootfs'', ''ide2'', ''ide0'', ''cicustom'', ''ipconfig0''}"

lemma first_failure_None: "first_failure cs = None \<longleftrightarrow> list_all (\<lambda>x. \<not> fst x) cs"
  by (induction cs rule: first_failure.induct) auto

lemma Validate_facts:
  assumes "Validate req = None" "cs_mode (cr_source req) \<noteq> ''clone''"
  shows "plain (cr_storage req)" "plain (cr_bridge req)" "cr_type req = ''qemu'' \<or> cr_type req = ''lxc''"
    "cr_type req = ''qemu'' \<Longrightarrow> plain (if cs_mode (cr_source req) = ''image'' then cs_image_vol (cr_source req) else cs_iso_vol (cr_source req))"
    "\<lbrakk>cr_ip_config req = Some ic; ic_mode ic = ''static''\<rbrakk> \<Longrightarrow> plain (ic_cidr ic) \<and> (ic_gateway ic = '''' \<or> plain (ic_gateway ic))"
    "cr_catalog req = Some ca \<Longrightarrow> plain (ca_snippet_ref ca)"
    "100 \<le> cr_vmid req \<and> cr_vmid req \<le> 999999999 \<and> 1 \<le> cr_cores req \<and> cr_cores req \<le> 128 \<and> 128 \<le> cr_memory_mb req"
proof -
  have all: "list_all (\<lambda>x. \<not> fst x) (source_checks req)" "list_all (\<lambda>x. \<not> fst x) (storage_checks req)"
      "list_all (\<lambda>x. \<not> fst x) (ip_checks req)" "list_all (\<lambda>x. \<not> fst x) (catalog_checks req)"
    and head: "cr_type req = ''qemu'' \<or> cr_type req = ''lxc''"
      "100 \<le> cr_vmid req \<and> cr_vmid req \<le> 999999999 \<and> 1 \<le> cr_cores req \<and> cr_cores req \<le> 128 \<and> 128 \<le> cr_memory_mb req"
    using assms(1) unfolding Validate_def first_failure_None by simp_all
  show "cr_type req = ''qemu'' \<or> cr_type req = ''lxc''"
    "100 \<le> cr_vmid req \<and> cr_vmid req \<le> 999999999 \<and> 1 \<le> cr_cores req \<and> cr_cores req \<le> 128 \<and> 128 \<le> cr_memory_mb req" using head by auto
  have "validPVEID (cr_storage req)" "validPVEID (cr_bridge req)"
    using all(2) assms(2) by (simp_all add: storage_checks_def)
  then show "plain (cr_storage req)" "plain (cr_bridge req)" by (auto simp: validPVEID_def plain_matches)
  show "plain (if cs_mode (cr_source req) = ''image'' then cs_image_vol (cr_source req) else cs_iso_vol (cr_source req))" if "cr_type req = ''qemu''"
    using all(1) assms(2) that by (simp add: source_checks_def Let_def plain_matches split: if_splits)
  show "plain (ic_cidr ic) \<and> (ic_gateway ic = '''' \<or> plain (ic_gateway ic))" if "cr_ip_config req = Some ic" "ic_mode ic = ''static''"
    using all(3) that by (auto simp: ip_checks_def plain_matches)
  show "plain (ca_snippet_ref ca)" if "cr_catalog req = Some ca"
    using all(4) that by (simp add: catalog_checks_def plain_matches)
qed

lemma options_join: "\<lbrakk>ps \<noteq> []; \<forall>p \<in> set ps. CHR '','' \<notin> set p\<rbrakk> \<Longrightarrow> options_of (join_with '','' ps) = map (split_on CHR ''='') ps"
  by (simp add: options_of_def split_on_join)

lemma split_named:
  assumes "plain v"
  shows "split_on CHR ''='' (''bridge='' @ v) = [''bridge'', v]" "split_on CHR ''='' (''tag='' @ v) = [''tag'', v]"
    "split_on CHR ''='' (''ip='' @ v) = [''ip'', v]" "split_on CHR ''='' (''gw='' @ v) = [''gw'', v]"
    "split_on CHR ''='' (''user='' @ v) = [''user'', v]" "split_on CHR ''='' (''import-from='' @ v) = [''import-from'', v]"
  using split_value[OF assms] by simp_all

definition ip_parts :: "ip_config option \<Rightarrow> string list" where
  "ip_parts ic = (case ic of
      Some c \<Rightarrow> if ic_mode c = ''static'' then [''ip='' @ ic_cidr c] @ (if ic_gateway c \<noteq> '''' then [''gw='' @ ic_gateway c] else []) else [''ip=dhcp'']
    | None \<Rightarrow> [''ip=dhcp''])"

lemma ip_parts_options:
  assumes "\<And>c. \<lbrakk>ic = Some c; ic_mode c = ''static''\<rbrakk> \<Longrightarrow> plain (ic_cidr c) \<and> (ic_gateway c = '''' \<or> plain (ic_gateway c))"
  shows "map (split_on CHR ''='') (ip_parts ic) = ip_options ic" "\<forall>p \<in> set (ip_parts ic). CHR '','' \<notin> set p"
proof -
  have "map (split_on CHR ''='') (ip_parts ic) = ip_options ic \<and> (\<forall>p \<in> set (ip_parts ic). CHR '','' \<notin> set p)"
  proof (cases ic)
    case (Some c)
    show ?thesis
    proof (cases "ic_mode c = ''static''")
      case True
      from assms[OF Some True] have "plain (ic_cidr c)" "ic_gateway c = '''' \<or> plain (ic_gateway c)" by auto
      then show ?thesis using Some True by (auto simp: ip_parts_def ip_options_def split_value plain_def)
    qed (simp add: Some ip_parts_def ip_options_def)
  qed (simp add: ip_parts_def ip_options_def)
  then show "map (split_on CHR ''='') (ip_parts ic) = ip_options ic" "\<forall>p \<in> set (ip_parts ic). CHR '','' \<notin> set p" by auto
qed

lemma net0_options:
  assumes "Validate req = None" "cs_mode (cr_source req) \<noteq> ''clone''"
  shows "options_of (net0String req) = intended req ''net0''"
proof -
  note v = Validate_facts[OF assms]
  note ip = ip_parts_options[OF v(5)]
  have parts: "net0_parts req = [if cr_type req = ''qemu'' then ''virtio'' else ''name=eth0'', ''bridge='' @ cr_bridge req] @
      (if cr_vlan_tag req > 0 then [''tag='' @ itoa (cr_vlan_tag req)] else []) @ (if cr_firewall req then [''firewall=1''] else []) @
      (if cr_type req = ''lxc'' then ip_parts (cr_ip_config req) else [])"
    by (auto simp: net0_parts_def ip_parts_def split: option.split)
  have "\<forall>p \<in> set (net0_parts req). CHR '','' \<notin> set p"
    unfolding parts using v(2) ip(2) plain_itoa[of "cr_vlan_tag req"] by (auto simp: plain_def)
  then have "options_of (net0String req) = map (split_on CHR ''='') (net0_parts req)"
    unfolding net0String_def by (intro options_join) (simp_all add: parts)
  also have "\<dots> = intended req ''net0''"
    unfolding parts using ip(1) split_value[OF v(2)] split_value[OF plain_itoa] by (simp add: intended_def)
  finally show ?thesis .
qed

lemma options_single: "plain v \<Longrightarrow> options_of v = [[v]]"
  by (simp add: options_of_def split_on_no_sep plain_def)

lemma options_ipconfig0:
  assumes "\<And>c. \<lbrakk>ic = Some c; ic_mode c = ''static''\<rbrakk> \<Longrightarrow> plain (ic_cidr c) \<and> (ic_gateway c = '''' \<or> plain (ic_gateway c))" "ic = Some c"
  shows "options_of (ipconfig0 c) = ip_options ic"
proof -
  have "ipconfig0 c = join_with '','' (ip_parts ic)" by (auto simp: ipconfig0_def ip_parts_def assms(2))
  moreover have "ip_parts ic \<noteq> []" by (simp add: ip_parts_def split: option.split)
  ultimately show ?thesis using ip_parts_options[OF assms(1)] by (simp add: options_join)
qed

text \<open>Which entries of the assembled parameters are composite.\<close>

lemma sub_keys:
  "\<lbrakk>(key, x) \<in> set (dns_params ci); key \<in> composite_keys\<rbrakk> \<Longrightarrow> False" "\<lbrakk>(key, x) \<in> set (inline_params ci); key \<in> composite_keys\<rbrakk> \<Longrightarrow> False"
  by (auto simp: dns_params_def inline_params_def composite_keys_def split: if_splits)

lemma cloud_composite:
  assumes "(key, PStr v) \<in> set (cloud_params req)" "key \<in> composite_keys"
  obtains "key = ''ide0''" "v = cr_storage req @ '':cloudinit''"
    | ca where "key = ''cicustom''" "cr_catalog req = Some ca" "v = ''user='' @ ca_snippet_ref ca"
    | ic where "key = ''ipconfig0''" "cr_ip_config req = Some ic" "v = ipconfig0 ic"
proof -
  have "(key, PStr v) = (''ide0'', PStr (cr_storage req @ '':cloudinit'')) \<or>
     (\<exists>ca. cr_catalog req = Some ca \<and> (key, PStr v) = (''cicustom'', PStr (''user='' @ ca_snippet_ref ca))) \<or>
     (\<exists>ci. (key, PStr v) \<in> set (inline_params ci)) \<or> (\<exists>ci. (key, PStr v) \<in> set (dns_params ci)) \<or>
     (\<exists>ic. cr_ip_config req = Some ic \<and> (key, PStr v) = (''ipconfig0'', PStr (ipconfig0 ic)))"
    using assms(1) unfolding cloud_params_def
    by (cases "cr_catalog req"; cases "cr_cloud_init req"; cases "cr_ip_config req"; simp del: append.simps; blast)
  with assms(2) sub_keys show thesis using that unfolding prod.inject param.inject by metis
qed

lemma lxc_composite:
  assumes "(key, PStr v) \<in> set (lxc_params req)" "key \<in> composite_keys"
  shows "key = ''rootfs'' \<and> v = cr_storage req @ '':'' @ itoa (cr_disk_gb req)"
proof -
  have key: "key \<noteq> ''hostname'' \<and> key \<noteq> ''ostemplate'' \<and> key \<noteq> ''unprivileged'' \<and> key \<noteq> ''password'' \<and> key \<noteq> ''ssh-public-keys''"
    using assms(2) by (auto simp: composite_keys_def)
  define disk where "disk = cr_storage req @ '':'' @ itoa (cr_disk_gb req)"
  have dns: "(key, PStr v) \<notin> set (dns_params ci)" for ci using sub_keys(1) assms(2) by blast
  show ?thesis unfolding disk_def[symmetric]
    using assms(1) key dns unfolding lxc_params_def disk_def[symmetric] by (cases "cr_cloud_init req") (simp_all split: if_splits)
qed

lemma create_composite:
  assumes "BuildCreateParams req = Inr p" "(key, PStr v) \<in> set p" "key \<in> composite_keys"
  obtains "key = ''net0''" "v = net0String req" | "(key, PStr v) \<in> set (lxc_params req)"
    | "cr_type req = ''qemu''" "(key, PStr v) \<in> set (disk_params req)" | "cr_type req = ''qemu''" "(key, PStr v) \<in> set (cloud_params req)"
proof -
  have ok: "Validate req = None" "cs_mode (cr_source req) \<noteq> ''clone''"
    using assms(1) by (auto simp: BuildCreateParams_def split: option.splits if_splits)
  have key: "key \<notin> {''vmid'', ''cores'', ''memory'', ''pool'', ''tags'', ''name'', ''ostype'', ''scsihw'', ''agent''}"
    using assms(3) by (auto simp: composite_keys_def)
  have "p = [(''vmid'', PInt (cr_vmid req)), (''cores'', PInt (cr_cores req)), (''memory'', PInt (cr_memory_mb req)), (''net0'', PStr (net0String req))] @
      (if cr_pool req \<noteq> '''' then [(''pool'', PStr (cr_pool req))] else []) @
      (if cr_tags req \<noteq> [] then [(''tags'', PStr (join_with '';'' (cr_tags req)))] else []) @
      (if cr_type req = ''lxc'' then lxc_params req else qemu_params req)"
    using assms(1) ok by (simp add: BuildCreateParams_def)
  then consider "key = ''net0'' \<and> v = net0String req" | "(key, PStr v) \<in> set (lxc_params req)"
    | "cr_type req \<noteq> ''lxc''" "(key, PStr v) \<in> set (qemu_params req)"
    using assms(2) key unfolding set_append Un_iff by (fastforce split: if_splits)
  then show thesis
  proof cases
    case 3
    then show ?thesis using that(3,4) Validate_facts(3)[OF ok] key by (auto simp: qemu_params_def)
  qed (use that in auto)
qed

lemma options_two: "plain a \<Longrightarrow> options_of (a @ CHR '','' # b) = [a] # options_of b"
  by (simp add: options_of_def split_on_append split_value plain_def split_on_no_sep)

lemma options_named: "\<lbrakk>plain v; plain k\<rbrakk> \<Longrightarrow> options_of (k @ CHR ''='' # v) = [[k, v]]"
  by (simp add: options_of_def split_on_no_sep split_on_append plain_def)

lemma disk_options:
  assumes ok: "Validate req = None" "cs_mode (cr_source req) \<noteq> ''clone''" and "cr_type req = ''qemu''"
    and "(key, PStr v) \<in> set (disk_params req)" "key \<in> composite_keys"
  shows "options_of v = intended req key"
proof -
  note f = Validate_facts[OF ok]
  have disk: "plain (cr_storage req @ '':'' @ itoa (cr_disk_gb req))" "plain (cr_storage req @ '':0'')"
    using f(1) plain_itoa by (simp_all add: plain_def)
  show ?thesis
  proof (cases "cs_mode (cr_source req) = ''image''")
    case True
    then have "key = ''scsi0''" "v = (cr_storage req @ '':0'') @ CHR '','' # ''import-from'' @ CHR ''='' # cs_image_vol (cr_source req)"
      using assms(4,5) by (auto simp: disk_params_def composite_keys_def)
    moreover have "plain (cs_image_vol (cr_source req))" "plain ''import-from''" using f(4)[OF assms(3)] True by (simp_all add: plain_def)
    ultimately show ?thesis using options_two[OF disk(2)] options_named True by (simp only: intended_def) simp
  next
    case False
    then consider "key = ''scsi0''" "v = cr_storage req @ '':'' @ itoa (cr_disk_gb req)"
      | "key = ''ide2''" "v = cs_iso_vol (cr_source req) @ CHR '','' # ''media'' @ CHR ''='' # ''cdrom''"
      using assms(4,5) by (auto simp: disk_params_def composite_keys_def)
    then show ?thesis
    proof cases
      case 1 then show ?thesis using options_single[OF disk(1)] False by (simp add: intended_def)
    next
      case 2
      have "plain (cs_iso_vol (cr_source req))" "plain ''media''" "plain ''cdrom''" using f(4)[OF assms(3)] False by (simp_all add: plain_def)
      then show ?thesis unfolding 2 using options_two options_named by (simp only: intended_def) simp
    qed
  qed
qed

lemma build_ok:
  assumes "BuildCreateParams req = Inr p"
  shows "Validate req = None" "cs_mode (cr_source req) \<noteq> ''clone''"
  using assms unfolding BuildCreateParams_def by (cases "Validate req"; auto split: if_splits)+

text \<open>C31: a create request cannot smuggle an option into a Proxmox parameter. Whenever \<^verbatim>\<open>BuildCreateParams\<close> accepts a
  request, every composite value it sends (network card, disks, CD-ROM, cloud-init drive and reference, address) reads
  back, split at commas and equals signs as Proxmox does, as exactly the options the request asked for.\<close>

theorem create_params_no_smuggling:
  assumes build: "BuildCreateParams req = Inr p" and "(key, PStr v) \<in> set p" "key \<in> composite_keys"
  shows "options_of v = intended req key"
proof -
  note ok = build_ok[OF build]
  note f = Validate_facts[OF ok]
  show ?thesis using assms
  proof (cases rule: create_composite)
    case 1 then show ?thesis using net0_options[OF ok] by simp
  next
    case 2
    then have "key = ''rootfs''" "v = cr_storage req @ '':'' @ itoa (cr_disk_gb req)" using lxc_composite assms(3) by auto
    moreover have "plain (cr_storage req @ '':'' @ itoa (cr_disk_gb req))" using f(1) plain_itoa by (simp add: plain_def)
    ultimately show ?thesis using options_single by (simp add: intended_def)
  next
    case 3 then show ?thesis using disk_options[OF ok] assms(3) by blast
  next
    case 4
    from 4(2) assms(3) show ?thesis
    proof (cases rule: cloud_composite)
      case 1
      have "plain (cr_storage req @ '':cloudinit'')" using f(1) by (simp add: plain_def)
      then show ?thesis unfolding 1 using options_single by (simp add: intended_def)
    next
      case (2 ca)
      have "plain ''user''" by (simp add: plain_def)
      then have "options_of (''user'' @ CHR ''='' # ca_snippet_ref ca) = [[''user'', ca_snippet_ref ca]]"
        using f(6)[OF 2(2)] by (rule_tac options_named)
      then show ?thesis using 2 by (simp add: intended_def)
    next
      case (3 ic)
      then show ?thesis using options_ipconfig0[OF f(5) 3(2)] by (simp add: intended_def)
    qed
  qed
qed

section \<open>The parameters as a whole\<close>

text \<open>The types Proxmox documents for the numeric keys; every other key takes a string.\<close>

definition typed_param :: "string \<times> param \<Rightarrow> bool" where
  "typed_param kv \<longleftrightarrow> (case kv of (k, x) \<Rightarrow>
     if k = ''vmid'' then (\<exists>n. x = PInt n \<and> 100 \<le> n \<and> n \<le> 999999999)
     else if k = ''cores'' then (\<exists>n. x = PInt n \<and> 1 \<le> n \<and> n \<le> 128)
     else if k = ''memory'' then (\<exists>n. x = PInt n \<and> 128 \<le> n)
     else if k = ''unprivileged'' \<or> k = ''agent'' then x = PInt 1
     else (\<exists>s. x = PStr s))"

lemma typed_str: "k \<notin> {''vmid'', ''cores'', ''memory'', ''unprivileged'', ''agent''} \<Longrightarrow> typed_param (k, PStr v)"
  by (simp add: typed_param_def)

lemma typed_option: "typed_param (k, x) \<Longrightarrow> list_all typed_param (if c then [(k, x)] else [])"
  by simp

lemma typed_append: "\<lbrakk>list_all typed_param xs; list_all typed_param ys\<rbrakk> \<Longrightarrow> list_all typed_param (xs @ ys)"
  by simp

lemma typed_dns: "list_all typed_param (dns_params ci)"
  unfolding dns_params_def by (intro typed_append typed_option typed_str) simp_all

lemma typed_inline: "list_all typed_param (inline_params ci)"
  unfolding inline_params_def by (intro typed_append typed_option typed_str) simp_all

lemma typed_disk: "list_all typed_param (disk_params req)"
  using typed_str by (simp add: disk_params_def)

lemma typed_lxc: "list_all typed_param (lxc_params req)"
proof -
  have "list_all typed_param (case cr_cloud_init req of None \<Rightarrow> [] | Some ci \<Rightarrow>
      (if ci_password ci \<noteq> '''' then [(''password'', PStr (ci_password ci))] else []) @
      (if ci_ssh_keys ci \<noteq> [] then [(''ssh-public-keys'', PStr (join_with newline (ci_ssh_keys ci)))] else []) @ dns_params ci)"
    using typed_dns typed_str by (cases "cr_cloud_init req") simp_all
  moreover have "typed_param (''unprivileged'', PInt 1)" by (simp add: typed_param_def)
  ultimately show ?thesis unfolding lxc_params_def using typed_str by simp
qed

lemma typed_cloud: "list_all typed_param (cloud_params req)"
proof -
  have "list_all typed_param (case cr_catalog req of Some ca \<Rightarrow> [(''cicustom'', PStr (''user='' @ ca_snippet_ref ca))]
      | None \<Rightarrow> (case cr_cloud_init req of None \<Rightarrow> [] | Some ci \<Rightarrow> inline_params ci))"
    "list_all typed_param (case cr_cloud_init req of None \<Rightarrow> [] | Some ci \<Rightarrow> dns_params ci)"
    "list_all typed_param (case cr_ip_config req of None \<Rightarrow> [] | Some ic \<Rightarrow> [(''ipconfig0'', PStr (ipconfig0 ic))])"
    "typed_param (''ide0'', PStr (cr_storage req @ '':cloudinit''))"
    using typed_dns typed_inline typed_str by (simp_all split: option.split)
  then show ?thesis unfolding cloud_params_def by (simp only: list_all_append list.pred_inject simp_thms split: if_split)
qed

lemma typed_qemu: "list_all typed_param (qemu_params req)"
proof -
  have "typed_param (''agent'', PInt 1)" by (simp add: typed_param_def)
  then show ?thesis unfolding qemu_params_def using typed_str typed_disk typed_cloud by simp
qed

lemma subseq_distinct: "\<lbrakk>subseq xs ys; distinct ys\<rbrakk> \<Longrightarrow> distinct xs"
  by (induction rule: list_emb.induct) (auto dest: list_emb_set)

lemma subseq_option: "subseq (map fst (if c then [(k, x)] else [])) [k]"
  by simp

lemma keys_dns: "subseq (map fst (dns_params ci)) ([''nameserver''] @ [''searchdomain''])"
  unfolding dns_params_def map_append by (intro list_emb_append_mono subseq_option)

lemma keys_inline: "subseq (map fst (inline_params ci)) ([''ciuser''] @ [''cipassword''] @ [''sshkeys''])"
  unfolding inline_params_def map_append by (intro list_emb_append_mono subseq_option)

lemma keys_lxc: "subseq (map fst (lxc_params req))
  ([''hostname'', ''ostemplate'', ''rootfs'', ''unprivileged''] @ [''password''] @ [''ssh-public-keys''] @ [''nameserver''] @ [''searchdomain''])"
proof -
  have "subseq (map fst (case cr_cloud_init req of None \<Rightarrow> [] | Some ci \<Rightarrow>
      (if ci_password ci \<noteq> '''' then [(''password'', PStr (ci_password ci))] else []) @
      (if ci_ssh_keys ci \<noteq> [] then [(''ssh-public-keys'', PStr (join_with newline (ci_ssh_keys ci)))] else []) @ dns_params ci))
    ([''password''] @ [''ssh-public-keys''] @ [''nameserver''] @ [''searchdomain''])"
  proof (cases "cr_cloud_init req")
    case (Some ci)
    show ?thesis unfolding Some option.case map_append by (intro list_emb_append_mono subseq_option keys_dns)
  qed simp
  then show ?thesis unfolding lxc_params_def map_append by (rule list_emb_append_mono[rotated]) simp
qed

lemma keys_cloud: "subseq (map fst (cloud_params req))
  ([''ide0''] @ ([''cicustom''] @ [''ciuser''] @ [''cipassword''] @ [''sshkeys'']) @ ([''nameserver''] @ [''searchdomain'']) @ [''ipconfig0''])"
proof (cases "cr_cloud_init req = None \<and> cr_catalog req = None")
  case False
  have "subseq (map fst (case cr_catalog req of Some ca \<Rightarrow> [(''cicustom'', PStr (''user='' @ ca_snippet_ref ca))]
      | None \<Rightarrow> (case cr_cloud_init req of None \<Rightarrow> [] | Some ci \<Rightarrow> inline_params ci))) ([''cicustom''] @ [''ciuser''] @ [''cipassword''] @ [''sshkeys''])"
  proof (cases "cr_catalog req")
    case None
    then show ?thesis using keys_inline by (cases "cr_cloud_init req") (simp_all only: option.case list.map list_emb_Nil append_Cons append_Nil list_emb_Cons)
  qed simp
  moreover have "subseq (map fst (case cr_cloud_init req of None \<Rightarrow> [] | Some ci \<Rightarrow> dns_params ci)) ([''nameserver''] @ [''searchdomain''])"
    using keys_dns by (cases "cr_cloud_init req") simp_all
  moreover have "subseq (map fst (case cr_ip_config req of None \<Rightarrow> [] | Some ic \<Rightarrow> [(''ipconfig0'', PStr (ipconfig0 ic))])) [''ipconfig0'']"
    by (cases "cr_ip_config req") simp_all
  moreover have "subseq (map fst [(''ide0'', PStr (cr_storage req @ '':cloudinit''))]) [''ide0'']" by simp
  ultimately show ?thesis unfolding cloud_params_def if_not_P[OF False] map_append by (intro list_emb_append_mono)
qed (simp add: cloud_params_def)

definition qemu_keys :: "string list" where
  "qemu_keys = [''name'', ''ostype'', ''scsihw'', ''agent''] @ [''scsi0'', ''ide2'', ''boot''] @
     [''ide0''] @ ([''cicustom''] @ [''ciuser''] @ [''cipassword''] @ [''sshkeys'']) @ ([''nameserver''] @ [''searchdomain'']) @ [''ipconfig0'']"

lemma keys_qemu: "subseq (map fst (qemu_params req)) qemu_keys"
  unfolding qemu_params_def qemu_keys_def map_append
  by (intro list_emb_append_mono keys_cloud) (simp_all add: disk_params_def)

text \<open>The keys every kind of guest has.\<close>

definition common_keys :: "string list" where
  "common_keys = [''vmid'', ''cores'', ''memory'', ''net0'', ''pool'', ''tags'']"

lemma distinct_common:
  assumes "subseq xs common_keys" "subseq ys ks" "distinct (common_keys @ ks)"
  shows "distinct (xs @ ys)"
  using subseq_distinct[OF list_emb_append_mono[OF assms(1,2)] assms(3)] .

definition lxc_keys :: "string list" where
  "lxc_keys = [''hostname'', ''ostemplate'', ''rootfs'', ''unprivileged''] @ [''password''] @ [''ssh-public-keys''] @ [''nameserver''] @ [''searchdomain'']"

lemma distinct_keys: "distinct (common_keys @ lxc_keys)" "distinct (common_keys @ qemu_keys)"
  by code_simp+

text \<open>C32: the parameters of an accepted request are well typed. No key is given twice, the VMID, the core count and the memory are
  numbers within Proxmox's ranges, the two switches are 1, and every other value is a string.\<close>

theorem create_params_typed:
  assumes "BuildCreateParams req = Inr p"
  shows "distinct (map fst p) \<and> list_all typed_param p"
proof -
  note ok = build_ok[OF assms]
  define rest where "rest = (if cr_type req = ''lxc'' then lxc_params req else qemu_params req)"
  define pool where "pool = (if cr_pool req \<noteq> '''' then [(''pool'', PStr (cr_pool req))] else [])"
  define tags where "tags = (if cr_tags req \<noteq> [] then [(''tags'', PStr (join_with '';'' (cr_tags req)))] else [])"
  define base where "base = [(''vmid'', PInt (cr_vmid req)), (''cores'', PInt (cr_cores req)), (''memory'', PInt (cr_memory_mb req)),
    (''net0'', PStr (net0String req))]"
  have "Inr p = (Inr (base @ pool @ tags @ rest) :: string + (string \<times> param) list)"
    unfolding assms[symmetric] BuildCreateParams_def ok(1) option.case if_not_P[OF ok(2)] base_def pool_def tags_def rest_def by (rule refl)
  then have p: "p = (base @ pool @ tags) @ rest" by simp
  have base: "list_all typed_param base" "map fst base = [''vmid'', ''cores'', ''memory'', ''net0'']"
    using Validate_facts(7)[OF ok] by (simp_all add: base_def typed_param_def)
  obtain ks where rest: "list_all typed_param rest" "subseq (map fst rest) ks" "distinct (common_keys @ ks)"
  proof (cases "cr_type req = ''lxc''")
    case True
    show ?thesis by (rule that[unfolded rest_def if_P[OF True], OF typed_lxc keys_lxc[folded lxc_keys_def] distinct_keys(1)])
  next
    case False
    show ?thesis by (rule that[unfolded rest_def if_not_P[OF False], OF typed_qemu keys_qemu distinct_keys(2)])
  qed
  have "list_all typed_param pool" "list_all typed_param tags"
    unfolding pool_def tags_def by (intro typed_option typed_str; simp)+
  then have typed: "list_all typed_param p" unfolding p using base(1) rest(1) by (intro typed_append)
  have "subseq (map fst (base @ pool @ tags)) ([''vmid'', ''cores'', ''memory'', ''net0''] @ [''pool''] @ [''tags''])"
    unfolding map_append base(2) pool_def tags_def by (intro list_emb_append_mono subseq_option subseq_order.order_refl)
  then have "subseq (map fst (base @ pool @ tags)) common_keys" unfolding common_keys_def append_Cons append_Nil .
  then have "distinct (map fst (base @ pool @ tags) @ map fst rest)"
    by (rule distinct_common[OF _ rest(2,3)])
  then show ?thesis unfolding p map_append[symmetric] using typed[unfolded p] by (rule conjI)
qed

definition sample_request :: create_guest_request where
  "sample_request = \<lparr>cr_type = ''qemu'', cr_name = ''web-1'', cr_node = ''pve1'', cr_vmid = 120, cr_project_id = ''p1'', cr_pool = ''pc-p1'',
     cr_source = \<lparr>cs_mode = ''image'', cs_iso_vol = '''', cs_image_vol = ''local:import/noble.qcow2'', cs_vztmpl_vol = '''', cs_clone_vmid = 0,
       cs_clone_node = '''', cs_clone_mode = ''''\<rparr>,
     cr_cores = 2, cr_memory_mb = 2048, cr_disk_gb = 8, cr_storage = ''local-lvm'', cr_bridge = ''vmbr0'', cr_vlan_tag = 12, cr_firewall = True,
     cr_ip_config = Some \<lparr>ic_mode = ''static'', ic_cidr = ''10.0.0.5/24'', ic_gateway = ''10.0.0.1''\<rparr>,
     cr_cloud_init = Some \<lparr>ci_user = ''root'', ci_password = ''secret'', ci_ssh_keys = [], ci_nameserver = ''9.9.9.9'', ci_search_domain = ''''\<rparr>,
     cr_tags = [''prod''], cr_start_after_create = True,
     cr_catalog = Some \<lparr>ca_service_id = ''db'', ca_snippet_ref = ''local:snippets/proxcloud-db.yaml'', ca_ports = [5432], ca_credential_hint = '''',
       ca_user_supplied = False\<rparr>\<rparr>"

definition sample_params :: "(string \<times> param) list" where
  "sample_params = projr (BuildCreateParams sample_request)"

lemma sample_build: "BuildCreateParams sample_request = Inr sample_params"
proof -
  have "Validate sample_request = None" "cs_mode (cr_source sample_request) \<noteq> ''clone''" by code_simp+
  then show ?thesis by (simp add: sample_params_def BuildCreateParams_def)
qed

theorem create_params_typed_witness:
  "distinct (map fst sample_params) \<and> list_all typed_param sample_params \<and> length sample_params = 16"
proof -
  have "length sample_params = 16" by code_simp
  with create_params_typed[OF sample_build] show ?thesis by simp
qed

theorem create_params_no_smuggling_witness:
  "options_of (''ip=10.0.0.5/24,gw=10.0.0.1'') = intended sample_request ''ipconfig0'' \<and>
   intended sample_request ''ipconfig0'' = [[''ip'', ''10.0.0.5/24''], [''gw'', ''10.0.0.1'']]"
proof -
  have "(''ipconfig0'', PStr ''ip=10.0.0.5/24,gw=10.0.0.1'') \<in> set sample_params" "intended sample_request ''ipconfig0'' = [[''ip'', ''10.0.0.5/24''], [''gw'', ''10.0.0.1'']]"
    by code_simp+
  with create_params_no_smuggling[OF sample_build this(1)] show ?thesis by (simp add: composite_keys_def)
qed

text \<open>A catalog guest gets its login from the snippet alone: the inline credentials of the same request are not sent.\<close>

theorem catalog_sends_no_inline_login:
  assumes "BuildCreateParams req = Inr p" "cr_catalog req \<noteq> None"
  shows "set (map fst p) \<inter> {''ciuser'', ''cipassword'', ''sshkeys'', ''password'', ''ssh-public-keys''} = {}"
proof -
  note ok = build_ok[OF assms(1)]
  obtain ca where ca: "cr_catalog req = Some ca" using assms(2) by blast
  have "list_all (\<lambda>x. \<not> fst x) (catalog_checks req)" using ok(1) unfolding Validate_def first_failure_None by simp
  then have "cr_type req = ''qemu''" by (simp add: catalog_checks_def ca)
  moreover have "set (map fst (qemu_params req)) \<inter> {''ciuser'', ''cipassword'', ''sshkeys'', ''password'', ''ssh-public-keys''} = {}"
    by (auto simp: qemu_params_def disk_params_def cloud_params_def dns_params_def ca split: option.splits if_splits)
  ultimately show ?thesis using assms(1) ok by (auto simp: BuildCreateParams_def split: if_splits)
qed

end
