(* ===== verification/Deploy_Engine.thy ===== *)
theory Deploy_Engine
  imports Deploy_Params Lifecycle_Expiry
begin

text \<open>
  The step engine of a deployment (\<^verbatim>\<open>internal/deploy/engine.go\<close>): write the cloud-init snippet, submit the
  create or clone, wait for its task, settle the ownership reservation, start the guest, wait until its service
  answers. The goroutine of one deployment is a computation over the database, the task registry, the deployments
  held in memory and the Proxmox cluster; whenever it waits or sleeps, everything else may happen (\<open>de_wait\<close>,
  \<open>de_sleep\<close>). The two polling loops are partial functions; that they return is a theorem. The calls of the
  Proxmox client, the snippet writer and the probe are parameters. \<open>en_trace\<close> records what this goroutine did.
\<close>

section \<open>Data\<close>

record deployment_step =
  stp_key :: string
  stp_label :: string
  stp_status :: string
  stp_upid :: string
  stp_message :: string
  stp_started_at :: "int option"
  stp_ended_at :: "int option"

record deployment =
  dp_id :: string
  dp_name :: string
  dp_type :: string
  dp_node :: string
  dp_vmid :: int
  dp_status :: string
  dp_created_at :: int
  dp_steps :: "deployment_step list"
  dp_connection :: string
  dp_ports :: "int list"
  dp_credential_hint :: string

record create_context =
  cc_tenant_id :: string
  cc_project_id :: string
  cc_pool_id :: string
  cc_actor_user_id :: string
  cc_ownership_id :: string
  cc_clone_source_ok :: bool
  cc_snippet_content :: string
  cc_snippet_filename :: string
  cc_readiness_port :: int

record guest_nic =
  gn_name :: string
  gn_mac :: string
  gn_ipv4 :: "string list"
  gn_ipv6 :: "string list"

datatype pve_error = PveAPIError string string string | PveError string

datatype eng_call =
    WriteSnippetCall string string "string option"
  | RemoveSnippetCall string "string option"
  | CreateVMCall string "(string \<times> param) list" "pve_error + string"
  | CreateLXCCall string "(string \<times> param) list" "pve_error + string"
  | CloneCall guest_ref clone_params "pve_error + string"
  | StartCall guest_ref "pve_error + string"
  | TaskWait string "outcome option"
  | FinalizeCall string string
  | ReleaseCall string
  | AgentCall guest_ref "pve_error + guest_nic list"
  | ProbeCall string int "string option"

record 'w eng =
  en_db :: db
  en_registry :: task_registry
  en_runs :: "(string \<times> deployment) list"
  en_started :: "(string \<times> create_guest_request \<times> create_context) list"
  en_world :: 'w
  en_waiters :: nat
  en_published :: "deployment list"
  en_trace :: "eng_call list"

record 'w eng_env =
  de_now :: "'w \<Rightarrow> int"
  de_random :: "'w \<Rightarrow> nat list \<times> 'w"
  de_create_vm :: "string \<Rightarrow> (string \<times> param) list \<Rightarrow> 'w \<Rightarrow> (pve_error + string) \<times> 'w"
  de_create_lxc :: "string \<Rightarrow> (string \<times> param) list \<Rightarrow> 'w \<Rightarrow> (pve_error + string) \<times> 'w"
  de_clone :: "guest_ref \<Rightarrow> clone_params \<Rightarrow> 'w \<Rightarrow> (pve_error + string) \<times> 'w"
  de_action :: "guest_ref \<Rightarrow> string \<Rightarrow> 'w \<Rightarrow> (pve_error + string) \<times> 'w"
  de_agent :: "guest_ref \<Rightarrow> 'w \<Rightarrow> (pve_error + guest_nic list) \<times> 'w"
  de_probe :: "string \<Rightarrow> int \<Rightarrow> int \<Rightarrow> 'w \<Rightarrow> string option \<times> 'w"
  de_write_snippet :: "string \<Rightarrow> string \<Rightarrow> 'w \<Rightarrow> string option \<times> 'w"
  de_remove_snippet :: "string \<Rightarrow> 'w \<Rightarrow> string option \<times> 'w"
  de_wait :: "string \<Rightarrow> int \<Rightarrow> 'w eng \<Rightarrow> 'w eng"
  de_sleep :: "int \<Rightarrow> 'w eng \<Rightarrow> 'w eng"
  de_duration_text :: "int \<Rightarrow> string"
  de_snippets :: bool
  de_broker :: bool
  de_finalize :: bool
  de_release :: bool
  de_configure_timeout :: int
  de_configure_poll :: int
  de_probe_timeout :: int

type_synonym ('w, 'a) eng_act = "('w eng, 'a) state"

definition stepTimeout :: int where "stepTimeout = 30 * minute"
definition configureTimeoutDefault :: int where "configureTimeoutDefault = 15 * minute"
definition configurePollDefault :: int where "configurePollDefault = 5 * second"
definition probeTimeoutDefault :: int where "probeTimeoutDefault = 5 * second"
definition runRetention :: int where "runRetention = hour"
definition maxRuns :: nat where "maxRuns = 256"

definition configureTimeout :: "'w eng_env \<Rightarrow> int" where
  "configureTimeout env = (if de_configure_timeout env > 0 then de_configure_timeout env else configureTimeoutDefault)"

definition configurePoll :: "'w eng_env \<Rightarrow> int" where
  "configurePoll env = (if de_configure_poll env > 0 then de_configure_poll env else configurePollDefault)"

definition probeTimeout :: "'w eng_env \<Rightarrow> int" where
  "probeTimeout env = (if de_probe_timeout env > 0 then de_probe_timeout env else probeTimeoutDefault)"

section \<open>Addresses\<close>

text \<open>\<^verbatim>\<open>net.ParseIP\<close> as far as the engine looks at it: the four bytes of an address for which \<^verbatim>\<open>To4\<close> is not nil,
  that is a dotted quad or an IPv6 text of an IPv4-mapped address. A decimal field has no leading zero.\<close>

definition ipv4_field :: "string \<Rightarrow> nat option" where
  "ipv4_field s = (if s = '''' \<or> \<not> list_all is_dec s \<or> length s > 3 \<or> (length s > 1 \<and> hd s = CHR ''0'') then None
     else (case digits_val 0 s of Some n \<Rightarrow> (if n \<le> 255 then Some n else None) | None \<Rightarrow> None))"

fun all_some :: "'a option list \<Rightarrow> 'a list option" where
  "all_some [] = Some []"
| "all_some (x # xs) = (case x of None \<Rightarrow> None | Some y \<Rightarrow> map_option ((#) y) (all_some xs))"

definition parse_ipv4 :: "string \<Rightarrow> nat list option" where
  "parse_ipv4 s = (let fs = split_on CHR ''.'' s in if length fs = 4 then all_some (map ipv4_field fs) else None)"

definition hex_val :: "char \<Rightarrow> nat option" where
  "hex_val c = (if is_dec c then Some (of_char c - 48) else if between CHR ''a'' CHR ''f'' c then Some (of_char c - 87)
     else if between CHR ''A'' CHR ''F'' c then Some (of_char c - 55) else None)"

definition ipv6_group :: "string \<Rightarrow> nat option" where
  "ipv6_group s = (if s = '''' \<or> length s > 4 then None
     else map_option (foldl (\<lambda>a d. 16 * a + d) 0) (all_some (map hex_val s)))"

text \<open>The groups of a part of the text between colons; the last may be a dotted quad.\<close>

definition ipv6_part :: "bool \<Rightarrow> string \<Rightarrow> nat list option" where
  "ipv6_part final s = (if s = '''' then Some []
     else let gs = split_on CHR '':'' s; l = last gs in
       (if final \<and> CHR ''.'' \<in> set l then
          (case (all_some (map ipv6_group (butlast gs)), parse_ipv4 l) of
             (Some hs, Some [a, b, c, d]) \<Rightarrow> Some (hs @ [256 * a + b, 256 * c + d]) | _ \<Rightarrow> None)
        else all_some (map ipv6_group gs)))"

fun split_ellipsis :: "string \<Rightarrow> (string \<times> string) option" where
  "split_ellipsis (c # d # s) = (if c = CHR '':'' \<and> d = CHR '':'' then Some ([], s)
     else map_option (\<lambda>(l, r). (c # l, r)) (split_ellipsis (d # s)))"
| "split_ellipsis _ = None"

definition parse_ipv6 :: "string \<Rightarrow> nat list option" where
  "parse_ipv6 s = (case split_ellipsis s of
      None \<Rightarrow> (case ipv6_part True s of Some gs \<Rightarrow> (if length gs = 8 then Some gs else None) | None \<Rightarrow> None)
    | Some (l, r) \<Rightarrow> (case (ipv6_part False l, ipv6_part True r) of
        (Some ls, Some rs) \<Rightarrow> (if length ls + length rs < 8 then Some (ls @ replicate (8 - length ls - length rs) 0 @ rs) else None)
      | _ \<Rightarrow> None))"

definition ip_to4 :: "string \<Rightarrow> nat list option" where
  "ip_to4 s = (if CHR '':'' \<in> set s
     then (case parse_ipv6 s of
        Some [g0, g1, g2, g3, g4, g5, g6, g7] \<Rightarrow>
          if g0 = 0 \<and> g1 = 0 \<and> g2 = 0 \<and> g3 = 0 \<and> g4 = 0 \<and> g5 = 65535
          then Some [g6 div 256, g6 mod 256, g7 div 256, g7 mod 256] else None
      | _ \<Rightarrow> None)
     else parse_ipv4 s)"

text \<open>Not loopback, not link-local, not unspecified.\<close>

definition routable :: "nat list \<Rightarrow> bool" where
  "routable b \<longleftrightarrow> b ! 0 \<noteq> 127 \<and> \<not> (b ! 0 = 169 \<and> b ! 1 = 254) \<and> b \<noteq> [0, 0, 0, 0]"

definition routable_ip :: "string \<Rightarrow> string option" where
  "routable_ip cidr = (let ipStr = takeWhile (\<lambda>c. c \<noteq> CHR ''/'') cidr in
     case ip_to4 ipStr of None \<Rightarrow> None | Some b \<Rightarrow> if routable b then Some ipStr else None)"

definition firstRoutableIPv4 :: "guest_nic list \<Rightarrow> string" where
  "firstRoutableIPv4 nics = (case List.map_filter routable_ip (concat (map gn_ipv4 nics)) of [] \<Rightarrow> '''' | ip # _ \<Rightarrow> ip)"

definition JoinHostPort :: "string \<Rightarrow> string \<Rightarrow> string" where
  "JoinHostPort h p = (if CHR '':'' \<in> set h then ''['' @ h @ '']:'' @ p else h @ '':'' @ p)"

section \<open>Primitive actions\<close>

definition eng_call_pve :: "('w \<Rightarrow> 'a \<times> 'w) \<Rightarrow> ('a \<Rightarrow> eng_call) \<Rightarrow> ('w, 'a) eng_act" where
  "eng_call_pve f call = State (\<lambda>s. case f (en_world s) of (r, w) \<Rightarrow> (r, s\<lparr>en_world := w, en_trace := en_trace s @ [call r]\<rparr>))"

definition eng_store :: "'a op \<Rightarrow> eng_call \<Rightarrow> ('w, store_error + 'a) eng_act" where
  "eng_store m call = State (\<lambda>s. case m (en_db s) of (r, d) \<Rightarrow> (r, s\<lparr>en_db := d, en_trace := en_trace s @ [call]\<rparr>))"

definition eng_now :: "'w eng_env \<Rightarrow> ('w, int) eng_act" where
  "eng_now env = State (\<lambda>s. (de_now env (en_world s), s))"

text \<open>While the goroutine sleeps or waits, the rest of the system runs; the trace is this goroutine's own.\<close>

definition others :: "('w eng \<Rightarrow> 'w eng) \<Rightarrow> 'w eng \<Rightarrow> 'w eng" where
  "others f s = (f s)\<lparr>en_trace := en_trace s\<rparr>"

definition eng_track :: "'w eng_env \<Rightarrow> string \<Rightarrow> string \<Rightarrow> string \<Rightarrow> task_resource \<Rightarrow> string \<Rightarrow> ('w, unit) eng_act" where
  "eng_track env upid action transitional res tenant = State (\<lambda>s.
     ((), s\<lparr>en_registry := Track (de_now env (en_world s)) upid action transitional res tenant (en_registry s)\<rparr>))"

text \<open>\<^verbatim>\<open>Registry.AwaitCompletion\<close> under \<open>stepTimeout\<close>: a recorded outcome at once, else what the goroutine's channel holds when
  it resumes.\<close>

definition eng_await :: "'w eng_env \<Rightarrow> string \<Rightarrow> ('w, outcome option) eng_act" where
  "eng_await env upid = State (\<lambda>s0.
     let w = ''d'' @ itoa (int (en_waiters s0)); s = s0\<lparr>en_waiters := Suc (en_waiters s0)\<rparr> in
     case AwaitCompletion upid w (en_registry s) of
       (Some out, reg) \<Rightarrow> (Some out, s\<lparr>en_registry := reg, en_trace := en_trace s @ [TaskWait upid (Some out)]\<rparr>)
     | (None, reg) \<Rightarrow> (let s1 = others (de_wait env upid stepTimeout) (s\<lparr>en_registry := reg\<rparr>); r = received w (en_registry s1)
         in (r, s1\<lparr>en_trace := en_trace s1 @ [TaskWait upid r]\<rparr>)))"

section \<open>Deployments in memory\<close>

definition get_run :: "string \<Rightarrow> 'w eng \<Rightarrow> deployment option" where
  "get_run i s = map_of (en_runs s) i"

definition change_run :: "string \<Rightarrow> (deployment \<Rightarrow> deployment) \<Rightarrow> 'w eng \<Rightarrow> 'w eng" where
  "change_run i f s = (case get_run i s of None \<Rightarrow> s | Some d \<Rightarrow> s\<lparr>en_runs := AList.update i (f d) (en_runs s)\<rparr>)"

definition publish :: "'w eng_env \<Rightarrow> string \<Rightarrow> 'w eng \<Rightarrow> 'w eng" where
  "publish env i s = (if \<not> de_broker env then s
     else case get_run i s of None \<Rightarrow> s | Some d \<Rightarrow> s\<lparr>en_published := en_published s @ [d]\<rparr>)"

definition step_update :: "int \<Rightarrow> string \<Rightarrow> string \<Rightarrow> string \<Rightarrow> string \<Rightarrow> deployment_step \<Rightarrow> deployment_step" where
  "step_update now key status upid msg st =
     (if stp_key st \<noteq> key then st
      else st\<lparr>stp_status := status,
             stp_upid := (if upid \<noteq> '''' then upid else stp_upid st),
             stp_message := (if msg \<noteq> '''' then msg else stp_message st),
             stp_started_at := (if status = ''running'' \<and> stp_started_at st = None then Some now else stp_started_at st),
             stp_ended_at := (if status = ''succeeded'' \<or> status = ''failed'' then Some now else stp_ended_at st)\<rparr>)"

definition updateStep :: "'w eng_env \<Rightarrow> string \<Rightarrow> string \<Rightarrow> string \<Rightarrow> string \<Rightarrow> string \<Rightarrow> ('w, unit) eng_act" where
  "updateStep env i key status upid msg = State (\<lambda>s. let now = de_now env (en_world s) in
     ((), publish env i (change_run i (\<lambda>d. d\<lparr>dp_steps := map (step_update now key status upid msg) (dp_steps d)\<rparr>) s)))"

definition finish :: "'w eng_env \<Rightarrow> string \<Rightarrow> string \<Rightarrow> ('w, unit) eng_act" where
  "finish env i status = State (\<lambda>s. ((), publish env i (change_run i (\<lambda>d. d\<lparr>dp_status := status\<rparr>) s)))"

definition setConnection :: "'w eng_env \<Rightarrow> string \<Rightarrow> string \<Rightarrow> catalog_provision option \<Rightarrow> ('w, unit) eng_act" where
  "setConnection env i ip cat = State (\<lambda>s. ((), publish env i (change_run i (\<lambda>d.
     let d1 = d\<lparr>dp_connection := (case cat of
           Some ca \<Rightarrow> if ca_ports ca \<noteq> [] \<and> hd (ca_ports ca) > 0 then JoinHostPort ip (itoa (hd (ca_ports ca))) else ip
         | None \<Rightarrow> ip)\<rparr>
     in (case cat of None \<Rightarrow> d1 | Some ca \<Rightarrow> d1\<lparr>dp_ports := ca_ports ca, dp_credential_hint := ca_credential_hint ca\<rparr>)) s)))"

text \<open>A missing deployment is a nil dereference.\<close>

definition stepLabel :: "string \<Rightarrow> string \<Rightarrow> ('w, string option) eng_act" where
  "stepLabel i key = State (\<lambda>s. (map_option (\<lambda>d. case filter (\<lambda>st. stp_key st = key) (dp_steps d) of
       [] \<Rightarrow> key | st # _ \<Rightarrow> stp_label st) (get_run i s), s))"

definition error_message :: "pve_error \<Rightarrow> string" where
  "error_message e = (case e of PveAPIError code msg detail \<Rightarrow> if detail \<noteq> '''' then detail else msg | PveError msg \<Rightarrow> msg)"

definition failStep :: "'w eng_env \<Rightarrow> string \<Rightarrow> string \<Rightarrow> pve_error \<Rightarrow> ('w, unit) eng_act" where
  "failStep env i key e = do { updateStep env i key ''failed'' '''' (error_message e); finish env i ''failed'' }"

definition pruneRunsLocked :: "int \<Rightarrow> (string \<times> deployment) list \<Rightarrow> (string \<times> deployment) list" where
  "pruneRunsLocked now runs = (if length runs \<le> maxRuns then runs
     else filter (\<lambda>(i, d). \<not> (dp_status d \<noteq> ''running'' \<and> dp_created_at d < now - runRetention)) runs)"

section \<open>Submitting\<close>

definition new_step :: "string \<Rightarrow> string \<Rightarrow> deployment_step" where
  "new_step key label = \<lparr>stp_key = key, stp_label = label, stp_status = ''pending'', stp_upid = '''', stp_message = '''',
     stp_started_at = None, stp_ended_at = None\<rparr>"

definition kind_text :: "create_guest_request \<Rightarrow> string" where
  "kind_text req = (if cr_type req = ''lxc'' then ''container'' else ''virtual machine'')"

definition create_label :: "create_guest_request \<Rightarrow> string" where
  "create_label req = (if cs_mode (cr_source req) = ''clone''
     then ''Clone VMID '' @ itoa (cs_clone_vmid (cr_source req)) @ '' into '' @ cr_name req
     else ''Create '' @ kind_text req @ '' '' @ cr_name req)"

definition new_steps :: "create_guest_request \<Rightarrow> deployment_step list" where
  "new_steps req =
     (case cr_catalog req of None \<Rightarrow> [] | Some ca \<Rightarrow> [new_step ''prepare'' (''Prepare cloud-init for '' @ cr_name req)]) @
     [new_step ''create'' (create_label req)] @
     (if cr_start_after_create req then [new_step ''start'' (''Start '' @ kind_text req @ '' '' @ cr_name req)] else []) @
     (case cr_catalog req of None \<Rightarrow> []
      | Some ca \<Rightarrow> [new_step ''configuring'' (''Configure '' @ cr_name req @
          (if ca_service_id ca \<noteq> '''' then '' ('' @ ca_service_id ca @ '')'' else ''''))])"

definition hex_lower :: "nat list \<Rightarrow> string" where
  "hex_lower bs = concat (map (\<lambda>b. [hex_digit (b div 16), hex_digit (b mod 16)]) bs)"

definition new_deployment :: "string \<Rightarrow> int \<Rightarrow> create_guest_request \<Rightarrow> deployment" where
  "new_deployment i now req = \<lparr>dp_id = i, dp_name = cr_name req, dp_type = cr_type req, dp_node = cr_node req, dp_vmid = cr_vmid req,
     dp_status = ''running'', dp_created_at = now, dp_steps = new_steps req, dp_connection = '''', dp_ports = [], dp_credential_hint = ''''\<rparr>"

text \<open>\<^verbatim>\<open>go e.run(...)\<close> is an entry of \<open>en_started\<close>.\<close>

definition Submit :: "'w eng_env \<Rightarrow> create_guest_request \<Rightarrow> create_context \<Rightarrow> ('w, pve_error + deployment) eng_act" where
  "Submit env req cctx = State (\<lambda>s. case Validate req of
      Some e \<Rightarrow> (Inl (PveAPIError ''invalid_request'' e ''''), s)
    | None \<Rightarrow> (case de_random env (en_world s) of (bs, w) \<Rightarrow>
        let i = ''dep_'' @ hex_lower bs; now = de_now env w; dep = new_deployment i now req in
        (Inr dep, s\<lparr>en_world := w, en_runs := pruneRunsLocked now (AList.update i dep (en_runs s)),
           en_started := en_started s @ [(i, req, cctx)]\<rparr>)))"

definition Get :: "string \<Rightarrow> ('w, deployment option) eng_act" where
  "Get i = State (\<lambda>s. (get_run i s, s))"

section \<open>Settling the reservation, the snippet and a task\<close>

definition finalizeOwnership :: "'w eng_env \<Rightarrow> create_context \<Rightarrow> string \<Rightarrow> ('w, unit) eng_act" where
  "finalizeOwnership env cctx upid = (if \<not> de_finalize env \<or> cc_ownership_id cctx = '''' then State_Monad.return ()
     else do { _ \<leftarrow> eng_store (FinalizeOwnership (cc_ownership_id cctx) upid) (FinalizeCall (cc_ownership_id cctx) upid);
               State_Monad.return () })"

definition releaseOwnership :: "'w eng_env \<Rightarrow> create_context \<Rightarrow> ('w, unit) eng_act" where
  "releaseOwnership env cctx = (if \<not> de_release env \<or> cc_ownership_id cctx = '''' then State_Monad.return ()
     else do { _ \<leftarrow> eng_store (ReleaseOwnership (cc_ownership_id cctx)) (ReleaseCall (cc_ownership_id cctx));
               State_Monad.return () })"

definition removeSnippet :: "'w eng_env \<Rightarrow> create_context \<Rightarrow> ('w, unit) eng_act" where
  "removeSnippet env cctx = (if \<not> de_snippets env \<or> cc_snippet_filename cctx = '''' then State_Monad.return ()
     else do { _ \<leftarrow> eng_call_pve (de_remove_snippet env (cc_snippet_filename cctx)) (RemoveSnippetCall (cc_snippet_filename cctx));
               State_Monad.return () })"

definition RemoveSnippet :: "'w eng_env \<Rightarrow> string \<Rightarrow> ('w, string option) eng_act" where
  "RemoveSnippet env filename = (if \<not> de_snippets env \<or> filename = '''' then State_Monad.return None
     else eng_call_pve (de_remove_snippet env filename) (RemoveSnippetCall filename))"

definition prepareSnippet :: "'w eng_env \<Rightarrow> string \<Rightarrow> create_context \<Rightarrow> ('w, bool) eng_act" where
  "prepareSnippet env i cctx = do {
     updateStep env i ''prepare'' ''running'' '''' '''';
     if \<not> de_snippets env then do {
       updateStep env i ''prepare'' ''failed'' '''' ''snippet writer is not configured (CATALOG_ENABLED without node SSH)'';
       State_Monad.return False }
     else do {
       e \<leftarrow> eng_call_pve (de_write_snippet env (cc_snippet_filename cctx) (cc_snippet_content cctx))
              (WriteSnippetCall (cc_snippet_filename cctx) (cc_snippet_content cctx));
       case e of
         Some msg \<Rightarrow> do { updateStep env i ''prepare'' ''failed'' '''' msg; State_Monad.return False }
       | None \<Rightarrow> do { updateStep env i ''prepare'' ''succeeded'' '''' ''''; State_Monad.return True } } }"

definition awaitTask :: "'w eng_env \<Rightarrow> string \<Rightarrow> string \<Rightarrow> string \<Rightarrow> ('w, bool) eng_act" where
  "awaitTask env i step upid = do {
     r \<leftarrow> eng_await env upid;
     case r of
       None \<Rightarrow> do {
         updateStep env i step ''failed'' upid ''timed out waiting for the Proxmox task'';
         finish env i ''failed''; State_Monad.return False }
     | Some out \<Rightarrow>
         if oc_succeeded out then do { updateStep env i step ''succeeded'' upid ''''; State_Monad.return True }
         else do { updateStep env i step ''failed'' upid (oc_exit_status out); finish env i ''failed''; State_Monad.return False } }"

definition submitCreate :: "'w eng_env \<Rightarrow> create_guest_request \<Rightarrow> ('w, pve_error + string) eng_act" where
  "submitCreate env req =
     (if cs_mode (cr_source req) = ''clone'' then
        (case BuildCloneParams req of
           Inl e \<Rightarrow> State_Monad.return (Inl (PveAPIError ''invalid_request'' e ''''))
         | Inr cp \<Rightarrow>
             (let src = \<lparr>gr_node = (if cs_clone_node (cr_source req) = '''' then cr_node req else cs_clone_node (cr_source req)),
                         gr_type = ''qemu'', gr_vmid = cs_clone_vmid (cr_source req)\<rparr>
              in eng_call_pve (de_clone env src cp) (CloneCall src cp)))
      else
        (case BuildCreateParams req of
           Inl e \<Rightarrow> State_Monad.return (Inl (PveAPIError ''invalid_request'' e ''''))
         | Inr ps \<Rightarrow>
             if cr_type req = ''lxc'' then eng_call_pve (de_create_lxc env (cr_node req) ps) (CreateLXCCall (cr_node req) ps)
             else eng_call_pve (de_create_vm env (cr_node req) ps) (CreateVMCall (cr_node req) ps)))"

section \<open>A run\<close>

datatype progress = Stopped | GoesOn | Crashed

definition request_guest :: "create_guest_request \<Rightarrow> guest_ref" where
  "request_guest req = \<lparr>gr_node = cr_node req, gr_type = cr_type req, gr_vmid = cr_vmid req\<rparr>"

definition resource_of :: "create_guest_request \<Rightarrow> task_resource" where
  "resource_of req = \<lparr>re_type = cr_type req, re_vmid = cr_vmid req, re_node = cr_node req, re_name = cr_name req\<rparr>"

definition prepare_phase :: "'w eng_env \<Rightarrow> string \<Rightarrow> create_guest_request \<Rightarrow> create_context \<Rightarrow> ('w, progress) eng_act" where
  "prepare_phase env i req cctx =
     (if cr_catalog req = None then State_Monad.return GoesOn
      else do {
        ok \<leftarrow> prepareSnippet env i cctx;
        if ok then State_Monad.return GoesOn
        else do { releaseOwnership env cctx; finish env i ''failed''; State_Monad.return Stopped } })"

definition create_phase :: "'w eng_env \<Rightarrow> string \<Rightarrow> create_guest_request \<Rightarrow> create_context \<Rightarrow> ('w, progress) eng_act" where
  "create_phase env i req cctx = do {
     label \<leftarrow> stepLabel i ''create'';
     case label of
       None \<Rightarrow> State_Monad.return Crashed
     | Some label \<Rightarrow> do {
         r \<leftarrow> submitCreate env req;
         case r of
           Inl e \<Rightarrow> do { releaseOwnership env cctx; removeSnippet env cctx; failStep env i ''create'' e; State_Monad.return Stopped }
         | Inr upid \<Rightarrow> do {
             eng_track env upid label ''provisioning'' (resource_of req) (cc_tenant_id cctx);
             updateStep env i ''create'' ''running'' upid '''';
             ok \<leftarrow> awaitTask env i ''create'' upid;
             if ok then do { finalizeOwnership env cctx upid; State_Monad.return GoesOn }
             else do { releaseOwnership env cctx; removeSnippet env cctx; State_Monad.return Stopped } } } }"

definition start_phase :: "'w eng_env \<Rightarrow> string \<Rightarrow> create_guest_request \<Rightarrow> create_context \<Rightarrow> ('w, progress) eng_act" where
  "start_phase env i req cctx =
     (if \<not> cr_start_after_create req then State_Monad.return GoesOn
      else do {
        r \<leftarrow> eng_call_pve (de_action env (request_guest req) ''start'') (StartCall (request_guest req));
        case r of
          Inl e \<Rightarrow> do { removeSnippet env cctx; failStep env i ''start'' e; State_Monad.return Stopped }
        | Inr upid \<Rightarrow> do {
            label \<leftarrow> stepLabel i ''start'';
            case label of
              None \<Rightarrow> State_Monad.return Crashed
            | Some label \<Rightarrow> do {
                eng_track env upid label ''starting'' (resource_of req) (cc_tenant_id cctx);
                updateStep env i ''start'' ''running'' upid '''';
                ok \<leftarrow> awaitTask env i ''start'' upid;
                if ok then State_Monad.return GoesOn
                else do { removeSnippet env cctx; State_Monad.return Stopped } } } })"

definition next_phase :: "('w, progress) eng_act \<Rightarrow> ('w, progress) eng_act \<Rightarrow> ('w, progress) eng_act" where
  "next_phase m n = do { p \<leftarrow> m; case p of GoesOn \<Rightarrow> n | _ \<Rightarrow> State_Monad.return p }"

definition AgentInterfaces :: "'w eng_env \<Rightarrow> guest_ref \<Rightarrow> ('w, pve_error + guest_nic list) eng_act" where
  "AgentInterfaces env ref = eng_call_pve (de_agent env ref) (AgentCall ref)"

definition probe :: "'w eng_env \<Rightarrow> string \<Rightarrow> int \<Rightarrow> ('w, string option) eng_act" where
  "probe env ip port = eng_call_pve (de_probe env ip port (probeTimeout env)) (ProbeCall ip port)"

definition no_ip :: "'w eng_env \<Rightarrow> string" where
  "no_ip env = ''guest booted but no routable IP appeared within '' @ de_duration_text env (configureTimeout env)"

definition no_port :: "'w eng_env \<Rightarrow> string \<Rightarrow> int \<Rightarrow> string" where
  "no_port env ip port = ''guest booted at '' @ ip @ '' but port '' @ itoa port @ '' never became reachable within '' @
     de_duration_text env (configureTimeout env)"

definition found_ip :: "pve_error + guest_nic list \<Rightarrow> string" where
  "found_ip r = (case r of Inl e \<Rightarrow> '''' | Inr nics \<Rightarrow> firstRoutableIPv4 nics)"

partial_function (option) awaitGuestIP :: "'w eng_env \<Rightarrow> guest_ref \<Rightarrow> int \<Rightarrow> 'w eng \<Rightarrow> ((string + string) \<times> 'w eng) option" where
  "awaitGuestIP env ref deadline s =
     (let rs = run_state (AgentInterfaces env ref) s; s1 = snd rs in
      if found_ip (fst rs) \<noteq> '''' then Some (Inr (found_ip (fst rs)), s1)
      else if \<not> de_now env (en_world s1) < deadline then Some (Inl (no_ip env), s1)
      else awaitGuestIP env ref deadline (others (de_sleep env (configurePoll env)) s1))"

partial_function (option) awaitReadyPort :: "'w eng_env \<Rightarrow> string \<Rightarrow> int \<Rightarrow> int \<Rightarrow> 'w eng \<Rightarrow> (string option \<times> 'w eng) option" where
  "awaitReadyPort env ip port deadline s =
     (let rs = run_state (probe env ip port) s; s1 = snd rs in
      if fst rs = None then Some (None, s1)
      else if \<not> de_now env (en_world s1) < deadline then Some (Some (no_port env ip port), s1)
      else awaitReadyPort env ip port deadline (others (de_sleep env (configurePoll env)) s1))"

declare awaitGuestIP.simps [code] awaitReadyPort.simps [code]

definition failConfigure :: "'w eng_env \<Rightarrow> string \<Rightarrow> create_context \<Rightarrow> string \<Rightarrow> ('w, unit) eng_act" where
  "failConfigure env i cctx msg = do {
     updateStep env i ''configuring'' ''failed'' '''' msg; removeSnippet env cctx; finish env i ''failed'' }"

definition configured :: "'w eng_env \<Rightarrow> string \<Rightarrow> create_guest_request \<Rightarrow> string \<Rightarrow> ('w, unit) eng_act" where
  "configured env i req ip = do {
     setConnection env i ip (cr_catalog req); updateStep env i ''configuring'' ''succeeded'' '''' ''''; finish env i ''succeeded'' }"

definition configure :: "'w eng_env \<Rightarrow> string \<Rightarrow> create_guest_request \<Rightarrow> create_context \<Rightarrow> 'w eng \<Rightarrow> 'w eng option" where
  "configure env i req cctx s =
     (let s0 = snd (run_state (updateStep env i ''configuring'' ''running'' '''' '''') s);
          deadline = de_now env (en_world s0) + configureTimeout env in
      case awaitGuestIP env (request_guest req) deadline s0 of
        None \<Rightarrow> None
      | Some (Inl msg, s1) \<Rightarrow> Some (snd (run_state (failConfigure env i cctx msg) s1))
      | Some (Inr ip, s1) \<Rightarrow>
          if cc_readiness_port cctx > 0 then
            (case awaitReadyPort env ip (cc_readiness_port cctx) deadline s1 of
               None \<Rightarrow> None
             | Some (Some msg, s2) \<Rightarrow> Some (snd (run_state (failConfigure env i cctx msg) s2))
             | Some (None, s2) \<Rightarrow> Some (snd (run_state (configured env i req ip) s2)))
          else Some (snd (run_state (configured env i req ip) s1)))"

definition provision :: "'w eng_env \<Rightarrow> string \<Rightarrow> create_guest_request \<Rightarrow> create_context \<Rightarrow> ('w, progress) eng_act" where
  "provision env i req cctx =
     next_phase (prepare_phase env i req cctx) (next_phase (create_phase env i req cctx) (start_phase env i req cctx))"

definition run :: "'w eng_env \<Rightarrow> string \<Rightarrow> create_guest_request \<Rightarrow> create_context \<Rightarrow> 'w eng \<Rightarrow> (progress \<times> 'w eng) option" where
  "run env i req cctx s = (case run_state (provision env i req cctx) s of
      (GoesOn, s1) \<Rightarrow>
        if cr_catalog req \<noteq> None then map_option (Pair Stopped) (configure env i req cctx s1)
        else Some (Stopped, snd (run_state (finish env i ''succeeded'') s1))
    | (p, s1) \<Rightarrow> Some (p, s1))"

section \<open>What a computation did\<close>

text \<open>While a deployment is running, the rest of the system leaves its entry alone: the other goroutines write to their own
  entries, and pruning removes finished ones only (\<open>Submit_keeps_running\<close>).\<close>

definition status_of :: "string \<Rightarrow> 'w eng \<Rightarrow> string option" where
  "status_of i s = map_option dp_status (get_run i s)"

definition undisturbed :: "'w eng_env \<Rightarrow> string \<Rightarrow> bool" where
  "undisturbed env i \<longleftrightarrow>
     (\<forall>u b s. status_of i s = Some ''running'' \<longrightarrow> get_run i (de_wait env u b s) = get_run i s) \<and>
     (\<forall>b s. status_of i s = Some ''running'' \<longrightarrow> get_run i (de_sleep env b s) = get_run i s)"

text \<open>\<open>does i st m Q\<close>: from a state in which deployment \<open>i\<close> has status \<open>st\<close>, the run of \<open>m\<close> appends events to the trace and leaves
  the deployment in a status, such that \<open>Q\<close> holds of the result, the events and the status.\<close>

definition does :: "string \<Rightarrow> string \<Rightarrow> ('w, 'a) eng_act \<Rightarrow> ('a \<Rightarrow> eng_call list \<Rightarrow> string \<Rightarrow> bool) \<Rightarrow> bool" where
  "does i st m Q \<longleftrightarrow> (\<forall>s. status_of i s = Some st \<longrightarrow>
     post m s (\<lambda>x s'. \<exists>evs st'. en_trace s' = en_trace s @ evs \<and> status_of i s' = Some st' \<and> Q x evs st'))"

lemma does_return: "Q x [] st \<Longrightarrow> does i st (State_Monad.return x) Q"
  by (simp add: does_def)

lemma does_bind:
  assumes "does i st m P" "\<And>x e st'. P x e st' \<Longrightarrow> does i st' (f x) (\<lambda>y e'. Q y (e @ e'))"
  shows "does i st (m \<bind> f) Q"
  unfolding does_def post_bind
proof (intro allI impI)
  fix s :: "'a eng"
  assume st: "status_of i s = Some st"
  show "post m s (\<lambda>x s1. post (f x) s1 (\<lambda>y s'. \<exists>evs st'. en_trace s' = en_trace s @ evs \<and> status_of i s' = Some st' \<and> Q y evs st'))"
  proof (rule post_mono[OF assms(1)[unfolded does_def, rule_format, OF st]], elim exE conjE)
    fix x e st1 and s1 :: "'a eng"
    assume s1: "en_trace s1 = en_trace s @ e" "status_of i s1 = Some st1" "P x e st1"
    show "post (f x) s1 (\<lambda>y s'. \<exists>evs st'. en_trace s' = en_trace s @ evs \<and> status_of i s' = Some st' \<and> Q y evs st')"
      by (rule post_mono[OF assms(2)[OF s1(3), unfolded does_def, rule_format, OF s1(2)]]) (auto simp: s1(1))
  qed
qed

lemma does_mono: "\<lbrakk>does i st m P; \<And>x e st'. P x e st' \<Longrightarrow> Q x e st'\<rbrakk> \<Longrightarrow> does i st m Q"
  unfolding does_def by (blast intro: post_mono)

lemma does_if: "\<lbrakk>b \<Longrightarrow> does i st m Q; \<not> b \<Longrightarrow> does i st n Q\<rbrakk> \<Longrightarrow> does i st (if b then m else n) Q"
  by simp

lemma does_sum:
  "\<lbrakk>\<And>e. r = Inl e \<Longrightarrow> does i st (f e) Q; \<And>x. r = Inr x \<Longrightarrow> does i st (g x) Q\<rbrakk> \<Longrightarrow> does i st (case r of Inl e \<Rightarrow> f e | Inr x \<Rightarrow> g x) Q"
  by (cases r) simp_all

lemma does_option:
  "\<lbrakk>r = None \<Longrightarrow> does i st m Q; \<And>x. r = Some x \<Longrightarrow> does i st (g x) Q\<rbrakk> \<Longrightarrow> does i st (case r of None \<Rightarrow> m | Some x \<Rightarrow> g x) Q"
  by (cases r) simp_all

text \<open>The primitive actions, followed by the rest of a computation.\<close>

lemma get_change: "get_run i (change_run j f s) = (if i = j then map_option f (get_run i s) else get_run i s)"
  by (auto simp: change_run_def get_run_def update_conv' split: option.split)

lemma publish_simps [simp]: "get_run i (publish env j s) = get_run i s" "en_trace (publish env j s) = en_trace s"
  by (auto simp: publish_def get_run_def split: option.split)

lemma change_trace [simp]: "en_trace (change_run j f s) = en_trace s"
  by (simp add: change_run_def split: option.split)

lemma does_quiet:
  assumes "\<And>s. en_trace (snd (run_state m s)) = en_trace s" "\<And>s. status_of i (snd (run_state m s)) = status_of i s"
    "\<And>x. does i st (f x) Q"
  shows "does i st (m \<bind> f) Q"
proof (rule does_bind)
  show "does i st m (\<lambda>x e st'. e = [] \<and> st' = st)" using assms(1,2) by (auto simp: does_def post_fst_snd)
qed (use assms(3) in auto)

lemma does_step: "does i st (f ()) Q \<Longrightarrow> does i st (updateStep env i key status upid msg \<bind> f) Q"
  by (rule does_quiet) (auto simp: updateStep_def status_of_def get_change Let_def option.map_comp comp_def)

lemma does_track: "does i st (f ()) Q \<Longrightarrow> does i st (eng_track env u a t res ten \<bind> f) Q"
  by (rule does_quiet) (auto simp: eng_track_def status_of_def get_run_def)

lemma does_connection: "does i st (f ()) Q \<Longrightarrow> does i st (setConnection env i ip cat \<bind> f) Q"
  by (rule does_quiet)
    (auto simp: setConnection_def status_of_def get_change Let_def option.map_comp comp_def split: option.split)

lemma does_finish: "does i st' (f ()) Q \<Longrightarrow> does i st (finish env i st' \<bind> f) Q"
proof (rule does_bind)
  show "does i st (finish env i st') (\<lambda>x e t. e = [] \<and> t = st')"
    by (auto simp: does_def post_fst_snd finish_def status_of_def get_change)
qed auto

lemma does_label: "(\<And>l. does i st (f (Some l)) Q) \<Longrightarrow> does i st (stepLabel i key \<bind> f) Q"
proof (rule does_bind)
  show "does i st (stepLabel i key) (\<lambda>x e t. e = [] \<and> t = st \<and> x \<noteq> None)"
    by (auto simp: does_def post_fst_snd stepLabel_def status_of_def)
qed auto

lemma does_call: "(\<And>r. does i st (f r) (\<lambda>y e. Q y (c r # e))) \<Longrightarrow> does i st (eng_call_pve g c \<bind> f) Q"
proof (rule does_bind)
  show "does i st (eng_call_pve g c) (\<lambda>x e t. e = [c x] \<and> t = st)"
    by (auto simp: does_def post_fst_snd eng_call_pve_def status_of_def get_run_def split: prod.split)
qed auto

lemma does_store: "(\<And>r. does i st (f r) (\<lambda>y e. Q y (c # e))) \<Longrightarrow> does i st (eng_store m c \<bind> f) Q"
proof (rule does_bind)
  show "does i st (eng_store m c) (\<lambda>x e t. e = [c] \<and> t = st)"
    by (auto simp: does_def post_fst_snd eng_store_def status_of_def get_run_def split: prod.split)
qed auto

lemma others_simps [simp]: "en_trace (others f s) = en_trace s" "get_run i (others f s) = get_run i (f s)"
  "en_world (others f s) = en_world (f s)" "status_of i (others f s) = status_of i (f s)"
  by (simp_all add: others_def get_run_def status_of_def)

lemma does_await:
  assumes "undisturbed env i" "\<And>r. does i ''running'' (f r) (\<lambda>y e. Q y (TaskWait u r # e))"
  shows "does i ''running'' (eng_await env u \<bind> f) Q"
proof (rule does_bind)
  have keep: "status_of i (de_wait env u stepTimeout s) = Some ''running''" if "status_of i s = Some ''running''" for s
    using assms(1) that unfolding undisturbed_def status_of_def by metis
  have reg: "status_of i (s\<lparr>en_waiters := n, en_registry := r\<rparr>) = status_of i s" "status_of i (s\<lparr>en_trace := t\<rparr>) = status_of i s"
    "status_of i (s\<lparr>en_waiters := n, en_registry := r, en_trace := t\<rparr>) = status_of i s" for s :: "'a eng" and n r t
    by (simp_all add: status_of_def get_run_def)
  show "does i ''running'' (eng_await env u) (\<lambda>x e t. e = [TaskWait u x] \<and> t = ''running'')"
    unfolding does_def post_fst_snd
    by (auto simp: eng_await_def Let_def reg keep split: prod.split option.split)
qed (use assms(2) in auto)

lemmas does_rules = does_return does_if does_sum does_option does_step does_track does_connection does_finish does_label does_call does_store

lemma Submit_keeps_running:
  assumes "get_run i s = Some d" "dp_status d = ''running''" "\<And>bs w. de_random env (en_world s) = (bs, w) \<Longrightarrow> i \<noteq> ''dep_'' @ hex_lower bs"
  shows "get_run i (snd (run_state (Submit env req cctx) s)) = Some d"
proof -
  have "map_of (filter (\<lambda>(j, e). \<not> (dp_status e \<noteq> ''running'' \<and> dp_created_at e < now - runRetention)) runs) i = Some d"
    if "map_of runs i = Some d" for now runs
    using that assms(2) by (induction runs) (auto split: if_splits)
  then have "map_of (pruneRunsLocked now runs) i = Some d" if "map_of runs i = Some d" for now runs
    using that by (simp add: pruneRunsLocked_def)
  then show ?thesis using assms(1,3)
    by (auto simp: Submit_def get_run_def Let_def update_conv' split: option.split prod.split)
qed

section \<open>The protocol of a deployment\<close>

text \<open>The abstract specification: which sequences of calls one deployment may make, and the status each ends with.\<close>

definition released :: "'w eng_env \<Rightarrow> create_context \<Rightarrow> eng_call list" where
  "released env cctx = (if \<not> de_release env \<or> cc_ownership_id cctx = '''' then [] else [ReleaseCall (cc_ownership_id cctx)])"

definition finalized :: "'w eng_env \<Rightarrow> create_context \<Rightarrow> string \<Rightarrow> eng_call list" where
  "finalized env cctx u = (if \<not> de_finalize env \<or> cc_ownership_id cctx = '''' then [] else [FinalizeCall (cc_ownership_id cctx) u])"

definition removal :: "'w eng_env \<Rightarrow> create_context \<Rightarrow> eng_call list \<Rightarrow> bool" where
  "removal env cctx e \<longleftrightarrow> (if \<not> de_snippets env \<or> cc_snippet_filename cctx = '''' then e = []
     else \<exists>r. e = [RemoveSnippetCall (cc_snippet_filename cctx) r])"

abbreviation write_call :: "create_context \<Rightarrow> string option \<Rightarrow> eng_call" where
  "write_call cctx \<equiv> WriteSnippetCall (cc_snippet_filename cctx) (cc_snippet_content cctx)"

definition prepared :: "create_guest_request \<Rightarrow> create_context \<Rightarrow> eng_call list \<Rightarrow> bool" where
  "prepared req cctx e \<longleftrightarrow> e = (if cr_catalog req = None then [] else [write_call cctx None])"

fun create_result :: "eng_call \<Rightarrow> (pve_error + string) option" where
  "create_result (CreateVMCall n p r) = Some r"
| "create_result (CreateLXCCall n p r) = Some r"
| "create_result (CloneCall g c r) = Some r"
| "create_result _ = None"

definition successful :: "outcome option \<Rightarrow> bool" where
  "successful x \<longleftrightarrow> (case x of None \<Rightarrow> False | Some out \<Rightarrow> oc_succeeded out)"

definition created :: "'w eng_env \<Rightarrow> create_context \<Rightarrow> eng_call list \<Rightarrow> bool" where
  "created env cctx e \<longleftrightarrow> (\<exists>c u out. create_result c = Some (Inr u) \<and> successful out \<and> e = [c, TaskWait u out] @ finalized env cctx u)"

definition not_created :: "eng_call list \<Rightarrow> bool" where
  "not_created e \<longleftrightarrow> e = [] \<or> (\<exists>c x. create_result c = Some (Inl x) \<and> e = [c]) \<or>
     (\<exists>c u out. create_result c = Some (Inr u) \<and> \<not> successful out \<and> e = [c, TaskWait u out])"

definition powered :: "create_guest_request \<Rightarrow> eng_call list \<Rightarrow> bool" where
  "powered req e \<longleftrightarrow> (if cr_start_after_create req then \<exists>u out. successful out \<and> e = [StartCall (request_guest req) (Inr u), TaskWait u out] else e = [])"

definition not_powered :: "create_guest_request \<Rightarrow> eng_call list \<Rightarrow> bool" where
  "not_powered req e \<longleftrightarrow> (\<exists>x. e = [StartCall (request_guest req) (Inl x)]) \<or>
     (\<exists>u out. \<not> successful out \<and> e = [StartCall (request_guest req) (Inr u), TaskWait u out])"

definition polls :: "guest_ref \<Rightarrow> eng_call list \<Rightarrow> bool" where
  "polls ref e \<longleftrightarrow> (\<forall>c \<in> set e. \<exists>r. c = AgentCall ref r)"

definition located :: "guest_ref \<Rightarrow> string \<Rightarrow> eng_call list \<Rightarrow> bool" where
  "located ref ip e \<longleftrightarrow> (\<exists>e' nics. e = e' @ [AgentCall ref (Inr nics)] \<and> polls ref e' \<and> firstRoutableIPv4 nics = ip \<and> ip \<noteq> '''')"

definition refused :: "string \<Rightarrow> int \<Rightarrow> eng_call list \<Rightarrow> bool" where
  "refused ip port e \<longleftrightarrow> (\<forall>c \<in> set e. \<exists>m. c = ProbeCall ip port (Some m))"

definition answered :: "create_context \<Rightarrow> string \<Rightarrow> eng_call list \<Rightarrow> bool" where
  "answered cctx ip e \<longleftrightarrow> (if cc_readiness_port cctx > 0
     then \<exists>e'. e = e' @ [ProbeCall ip (cc_readiness_port cctx) None] \<and> refused ip (cc_readiness_port cctx) e' else e = [])"

inductive protocol :: "'w eng_env \<Rightarrow> create_guest_request \<Rightarrow> create_context \<Rightarrow> eng_call list \<Rightarrow> string \<Rightarrow> bool"
  for env req cctx where
  NotPrepared: "\<lbrakk>cr_catalog req \<noteq> None; w = [] \<or> (\<exists>m. w = [write_call cctx (Some m)])\<rbrakk> \<Longrightarrow>
     protocol env req cctx (w @ released env cctx) ''failed''"
| NotCreated: "\<lbrakk>prepared req cctx p; not_created c; removal env cctx r\<rbrakk> \<Longrightarrow> protocol env req cctx (p @ c @ released env cctx @ r) ''failed''"
| NotStarted: "\<lbrakk>prepared req cctx p; created env cctx c; not_powered req w; removal env cctx r\<rbrakk> \<Longrightarrow> protocol env req cctx (p @ c @ w @ r) ''failed''"
| Started: "\<lbrakk>cr_catalog req = None; prepared req cctx p; created env cctx c; powered req w\<rbrakk> \<Longrightarrow> protocol env req cctx (p @ c @ w) ''succeeded''"
| NoAddress: "\<lbrakk>cr_catalog req \<noteq> None; prepared req cctx p; created env cctx c; powered req w; polls (request_guest req) a; removal env cctx r\<rbrakk> \<Longrightarrow>
     protocol env req cctx (p @ c @ w @ a @ r) ''failed''"
| NoAnswer: "\<lbrakk>cr_catalog req \<noteq> None; prepared req cctx p; created env cctx c; powered req w; located (request_guest req) ip a;
     refused ip (cc_readiness_port cctx) t; removal env cctx r\<rbrakk> \<Longrightarrow> protocol env req cctx (p @ c @ w @ a @ t @ r) ''failed''"
| Ready: "\<lbrakk>cr_catalog req \<noteq> None; prepared req cctx p; created env cctx c; powered req w; located (request_guest req) ip a;
     answered cctx ip t\<rbrakk> \<Longrightarrow> protocol env req cctx (p @ c @ w @ a @ t) ''succeeded''"

section \<open>The phases follow the protocol\<close>

lemma does_release:
  assumes "does i st (f ()) (\<lambda>y e. Q y (released env cctx @ e))"
  shows "does i st (releaseOwnership env cctx \<bind> f) Q"
proof (rule does_bind)
  show "does i st (releaseOwnership env cctx) (\<lambda>x e t. e = released env cctx \<and> t = st)"
    unfolding releaseOwnership_def released_def by (intro does_rules) auto
qed (use assms in auto)

lemma does_finalize:
  assumes "does i st (f ()) (\<lambda>y e. Q y (finalized env cctx u @ e))"
  shows "does i st (finalizeOwnership env cctx u \<bind> f) Q"
proof (rule does_bind)
  show "does i st (finalizeOwnership env cctx u) (\<lambda>x e t. e = finalized env cctx u \<and> t = st)"
    unfolding finalizeOwnership_def finalized_def by (intro does_rules) auto
qed (use assms in auto)

lemma does_remove:
  assumes "\<And>r. removal env cctx r \<Longrightarrow> does i st (f ()) (\<lambda>y e. Q y (r @ e))"
  shows "does i st (removeSnippet env cctx \<bind> f) Q"
proof (rule does_bind)
  show "does i st (removeSnippet env cctx) (\<lambda>x e t. removal env cctx e \<and> t = st)"
    unfolding removeSnippet_def removal_def by (intro does_rules) auto
qed (use assms in auto)

lemma does_create:
  assumes "\<And>e. does i st (f (Inl e)) Q"
    "\<And>c e. create_result c = Some (Inl e) \<Longrightarrow> does i st (f (Inl e)) (\<lambda>y e. Q y (c # e))"
    "\<And>c u. create_result c = Some (Inr u) \<Longrightarrow> does i st (f (Inr u)) (\<lambda>y e. Q y (c # e))"
  shows "does i st (submitCreate env req \<bind> f) Q"
proof (rule does_bind)
  have call: "does i st (eng_call_pve g c) (\<lambda>x e t. e = [c x] \<and> t = st)" for g c
    by (auto simp: does_def post_fst_snd eng_call_pve_def status_of_def get_run_def split: prod.split)
  show "does i st (submitCreate env req)
      (\<lambda>x e t. t = st \<and> ((\<exists>y. x = Inl y \<and> e = []) \<or> (\<exists>c. create_result c = Some x \<and> e = [c])))"
    unfolding submitCreate_def Let_def by (intro does_if does_sum does_return does_mono[OF call]) auto
next
  fix x e t
  assume "t = st \<and> ((\<exists>y. x = Inl y \<and> e = []) \<or> (\<exists>c. create_result c = Some x \<and> e = [c]))"
  then show "does i t (f x) (\<lambda>y e'. Q y (e @ e'))" using assms by (cases x) auto
qed

lemma does_task:
  assumes "undisturbed env i"
    "\<And>out. successful out \<Longrightarrow> does i ''running'' (f True) (\<lambda>y e. Q y (TaskWait u out # e))"
    "\<And>out. \<not> successful out \<Longrightarrow> does i ''failed'' (f False) (\<lambda>y e. Q y (TaskWait u out # e))"
  shows "does i ''running'' (awaitTask env i key u \<bind> f) Q"
proof (rule does_bind)
  show "does i ''running'' (awaitTask env i key u) (\<lambda>ok e st. \<exists>out. e = [TaskWait u out] \<and> ok = successful out \<and>
      st = (if ok then ''running'' else ''failed''))"
    unfolding awaitTask_def
    by (intro does_await[OF assms(1)] does_rules) (auto simp: successful_def)
qed (use assms in auto)

lemma prepare_does:
  "does i ''running'' (prepare_phase env i req cctx) (\<lambda>p e st.
     p = GoesOn \<and> st = ''running'' \<and> prepared req cctx e \<or>
     p = Stopped \<and> st = ''failed'' \<and> protocol env req cctx e ''failed'')"
proof -
  have prep: "does i ''running'' (prepareSnippet env i cctx) (\<lambda>ok e st. st = ''running'' \<and>
      (if ok then e = [write_call cctx None] else e = [] \<or> (\<exists>m. e = [write_call cctx (Some m)])))"
    unfolding prepareSnippet_def by (intro does_rules) auto
  show ?thesis
  proof (cases "cr_catalog req = None")
    case True
    then show ?thesis unfolding prepare_phase_def by (simp add: does_return prepared_def)
  next
    case False
    have "does i ''running'' (prepareSnippet env i cctx \<bind> (\<lambda>ok. if ok then State_Monad.return GoesOn
        else do { releaseOwnership env cctx; finish env i ''failed''; State_Monad.return Stopped })) (\<lambda>p e st.
        p = GoesOn \<and> st = ''running'' \<and> prepared req cctx e \<or> p = Stopped \<and> st = ''failed'' \<and> protocol env req cctx e ''failed'')"
    proof (rule does_bind[OF prep], elim conjE)
      fix ok e st
      assume st: "st = ''running''" and e: "if ok then e = [write_call cctx None] else e = [] \<or> (\<exists>m. e = [write_call cctx (Some m)])"
      have "protocol env req cctx (e @ released env cctx) ''failed''" if "\<not> ok"
        using protocol.NotPrepared[OF False, of e] e that by simp
      with st e False show "does i st (if ok then State_Monad.return GoesOn
          else do { releaseOwnership env cctx; finish env i ''failed''; State_Monad.return Stopped })
          (\<lambda>p e'. \<lambda>st. p = GoesOn \<and> st = ''running'' \<and> prepared req cctx (e @ e') \<or> p = Stopped \<and> st = ''failed'' \<and> protocol env req cctx (e @ e') ''failed'')"
        by (intro does_release does_rules) (auto simp: prepared_def)
    qed
    then show ?thesis unfolding prepare_phase_def if_not_P[OF False] .
  qed
qed

lemma does_fail: "does i ''failed'' (f ()) Q \<Longrightarrow> does i st (failStep env i key e \<bind> f) Q"
proof (rule does_bind)
  have "does i st (do { updateStep env i key ''failed'' '''' (error_message e); finish env i ''failed''; State_Monad.return () }) (\<lambda>x e t. e = [] \<and> t = ''failed'')"
    by (intro does_rules) simp
  then show "does i st (failStep env i key e) (\<lambda>x e t. e = [] \<and> t = ''failed'')"
    unfolding failStep_def by simp
qed auto

definition create_stops :: "'w eng_env \<Rightarrow> create_context \<Rightarrow> eng_call list \<Rightarrow> bool" where
  "create_stops env cctx e \<longleftrightarrow> (\<exists>c r. not_created c \<and> removal env cctx r \<and> e = c @ released env cctx @ r)"

lemma create_stopsI:
  "removal env cctx r \<Longrightarrow> create_stops env cctx (released env cctx @ r)"
  "\<lbrakk>create_result c = Some (Inl x); removal env cctx r\<rbrakk> \<Longrightarrow> create_stops env cctx (c # released env cctx @ r)"
  "\<lbrakk>create_result c = Some (Inr u); \<not> successful out; removal env cctx r\<rbrakk> \<Longrightarrow> create_stops env cctx (c # TaskWait u out # released env cctx @ r)"
proof -
  have gen: "create_stops env cctx (c @ released env cctx @ r)" if "not_created c" "removal env cctx r" for c
    using that unfolding create_stops_def by blast
  show "removal env cctx r \<Longrightarrow> create_stops env cctx (released env cctx @ r)"
    using gen[of "[]"] by (simp add: not_created_def)
  show "\<lbrakk>create_result c = Some (Inl x); removal env cctx r\<rbrakk> \<Longrightarrow> create_stops env cctx (c # released env cctx @ r)"
    using gen[of "[c]"] by (simp add: not_created_def)
  show "\<lbrakk>create_result c = Some (Inr u); \<not> successful out; removal env cctx r\<rbrakk> \<Longrightarrow> create_stops env cctx (c # TaskWait u out # released env cctx @ r)"
    using gen[of "[c, TaskWait u out]"] by (simp add: not_created_def)
qed

definition start_stops :: "'w eng_env \<Rightarrow> create_guest_request \<Rightarrow> create_context \<Rightarrow> eng_call list \<Rightarrow> bool" where
  "start_stops env req cctx e \<longleftrightarrow> (\<exists>w r. not_powered req w \<and> removal env cctx r \<and> e = w @ r)"

lemma start_stopsI:
  "removal env cctx r \<Longrightarrow> start_stops env req cctx (StartCall (request_guest req) (Inl x) # r)"
  "\<lbrakk>\<not> successful out; removal env cctx r\<rbrakk> \<Longrightarrow> start_stops env req cctx (StartCall (request_guest req) (Inr u) # TaskWait u out # r)"
proof -
  have gen: "start_stops env req cctx (w @ r)" if "not_powered req w" "removal env cctx r" for w
    using that unfolding start_stops_def by blast
  show "removal env cctx r \<Longrightarrow> start_stops env req cctx (StartCall (request_guest req) (Inl x) # r)"
    using gen[of "[StartCall (request_guest req) (Inl x)]"] by (simp add: not_powered_def)
  show "\<lbrakk>\<not> successful out; removal env cctx r\<rbrakk> \<Longrightarrow> start_stops env req cctx (StartCall (request_guest req) (Inr u) # TaskWait u out # r)"
    using gen[of "[StartCall (request_guest req) (Inr u), TaskWait u out]"] by (simp add: not_powered_def)
qed

lemma create_does:
  assumes "undisturbed env i"
  shows "does i ''running'' (create_phase env i req cctx) (\<lambda>p e st.
     p = GoesOn \<and> st = ''running'' \<and> created env cctx e \<or> p = Stopped \<and> st = ''failed'' \<and> create_stops env cctx e)"
  unfolding create_phase_def
  by (intro does_create does_task[OF assms] does_release does_remove does_finalize does_fail does_rules)
    (auto simp: created_def intro: create_stopsI)

lemma start_does:
  assumes "undisturbed env i"
  shows "does i ''running'' (start_phase env i req cctx) (\<lambda>p e st.
     p = GoesOn \<and> st = ''running'' \<and> powered req e \<or> p = Stopped \<and> st = ''failed'' \<and> start_stops env req cctx e)"
  unfolding start_phase_def
  by (intro does_task[OF assms] does_remove does_fail does_rules) (auto simp: powered_def intro: start_stopsI)

lemma provision_does:
  assumes "undisturbed env i"
  shows "does i ''running'' (provision env i req cctx) (\<lambda>p e st.
     p = GoesOn \<and> st = ''running'' \<and> (\<exists>e1 e2 e3. e = e1 @ e2 @ e3 \<and> prepared req cctx e1 \<and> created env cctx e2 \<and> powered req e3) \<or>
     p = Stopped \<and> st = ''failed'' \<and> protocol env req cctx e ''failed'')"
proof -
  have next_does: "does i ''running'' (next_phase m n) R"
    if "does i ''running'' m (\<lambda>p e st. p = GoesOn \<and> st = ''running'' \<and> P e \<or> p = Stopped \<and> st = ''failed'' \<and> S e)"
      "\<And>e. P e \<Longrightarrow> does i ''running'' n (\<lambda>p e'. R p (e @ e'))" "\<And>e. S e \<Longrightarrow> R Stopped e ''failed''" for m n P S R
    unfolding next_phase_def by (rule does_bind[OF that(1)]) (use that(2,3) in \<open>auto intro!: does_return\<close>)
  show ?thesis unfolding provision_def
  proof (rule next_does[OF prepare_does], rule next_does[OF create_does[OF assms]])
    fix e1 e2
    assume e: "prepared req cctx e1" "created env cctx e2"
    show "does i ''running'' (start_phase env i req cctx) (\<lambda>p e3 st.
       p = GoesOn \<and> st = ''running'' \<and> (\<exists>f1 f2 f3. e1 @ e2 @ e3 = f1 @ f2 @ f3 \<and> prepared req cctx f1 \<and> created env cctx f2 \<and> powered req f3) \<or>
       p = Stopped \<and> st = ''failed'' \<and> protocol env req cctx (e1 @ e2 @ e3) ''failed'')"
      by (rule does_mono[OF start_does[OF assms]]) (use e in \<open>auto simp: start_stops_def intro: protocol.NotStarted\<close>)
  next
    fix e1 e2
    assume "prepared req cctx e1" "create_stops env cctx e2"
    then show "Stopped = GoesOn \<and> ''failed'' = ''running'' \<and> (\<exists>f1 f2 f3. e1 @ e2 = f1 @ f2 @ f3 \<and> prepared req cctx f1 \<and> created env cctx f2 \<and> powered req f3) \<or>
       Stopped = Stopped \<and> ''failed'' = ''failed'' \<and> protocol env req cctx (e1 @ e2) ''failed''"
      by (auto simp: create_stops_def intro: protocol.NotCreated)
  qed simp
qed

section \<open>The polling loops\<close>

lemma call_step:
  "en_trace (snd (run_state (eng_call_pve g c) s)) = en_trace s @ [c (fst (run_state (eng_call_pve g c) s))]"
  "status_of i (snd (run_state (eng_call_pve g c) s)) = status_of i s"
  by (auto simp: eng_call_pve_def status_of_def get_run_def split: prod.split)

lemma sleep_keeps: "\<lbrakk>undisturbed env i; status_of i s = Some ''running''\<rbrakk> \<Longrightarrow> status_of i (de_sleep env b s) = Some ''running''"
  unfolding undisturbed_def status_of_def by metis

text \<open>What a loop that started in \<open>s\<close> has done when it returns \<open>y\<close>, if the deployment was running.\<close>

definition looped :: "'w eng_env \<Rightarrow> string \<Rightarrow> 'w eng \<Rightarrow> ('a \<Rightarrow> eng_call list \<Rightarrow> bool) \<Rightarrow> 'a \<times> 'w eng \<Rightarrow> bool" where
  "looped env i s Q y \<longleftrightarrow> (undisturbed env i \<longrightarrow> status_of i s = Some ''running'' \<longrightarrow>
     (\<exists>e. en_trace (snd y) = en_trace s @ e \<and> status_of i (snd y) = Some ''running'' \<and> Q (fst y) e))"

lemma looped_last:
  assumes "Q x [c (fst (run_state (eng_call_pve g c) s))]"
  shows "looped env i s Q (x, snd (run_state (eng_call_pve g c) s))"
  using assms call_step[where g = g and c = c and s = s] unfolding looped_def by auto

lemma looped_again:
  assumes "looped env i (others (de_sleep env b) (snd (run_state (eng_call_pve g c) s))) Q y"
    "\<And>e. Q (fst y) e \<Longrightarrow> Q' (fst y) (c (fst (run_state (eng_call_pve g c) s)) # e)"
  shows "looped env i s Q' y"
  using assms call_step[where g = g and c = c and s = s] sleep_keeps[of env i "snd (run_state (eng_call_pve g c) s)" b] unfolding looped_def by force

abbreviation locating :: "guest_ref \<Rightarrow> string + string \<Rightarrow> eng_call list \<Rightarrow> bool" where
  "locating ref r e \<equiv> polls ref e \<and> (\<forall>ip. r = Inr ip \<longrightarrow> located ref ip e)"

lemma found_ip_routable: "found_ip r \<noteq> '''' \<Longrightarrow> \<exists>nics. r = Inr nics \<and> firstRoutableIPv4 nics = found_ip r"
  by (cases r) (auto simp: found_ip_def)

lemma locating_cons: "locating ref r e \<Longrightarrow> locating ref r (AgentCall ref x # e)"
proof -
  assume e: "locating ref r e"
  have "located ref ip (AgentCall ref x # e)" if loc: "located ref ip e" for ip
  proof -
    obtain e' nics where "e = e' @ [AgentCall ref (Inr nics)]" "polls ref e'" "firstRoutableIPv4 nics = ip" "ip \<noteq> ''''"
      using loc unfolding located_def by blast
    then have "AgentCall ref x # e = (AgentCall ref x # e') @ [AgentCall ref (Inr nics)]" "polls ref (AgentCall ref x # e')"
      "firstRoutableIPv4 nics = ip" "ip \<noteq> ''''" by (simp_all add: polls_def)
    then show ?thesis unfolding located_def by blast
  qed
  with e show ?thesis by (simp add: polls_def)
qed

lemma awaitGuestIP_follows:
  assumes "awaitGuestIP env ref deadline s = Some y"
  shows "looped env i s (locating ref) y"
proof (rule awaitGuestIP.raw_induct[OF _ assms, of "\<lambda>env ref deadline s y. looped env i s (locating ref) y"])
  fix f :: "'a eng_env \<Rightarrow> guest_ref \<Rightarrow> int \<Rightarrow> 'a eng \<Rightarrow> ((string + string) \<times> 'a eng) option"
    and env :: "'a eng_env" and ref deadline s y
  assume IH: "\<And>env ref deadline s y. f env ref deadline s = Some y \<Longrightarrow> looped env i s (locating ref) y"
    and body: "(let rs = run_state (AgentInterfaces env ref) s; s1 = snd rs in
      if found_ip (fst rs) \<noteq> '''' then Some (Inr (found_ip (fst rs)), s1)
      else if \<not> de_now env (en_world s1) < deadline then Some (Inl (no_ip env), s1)
      else f env ref deadline (others (de_sleep env (configurePoll env)) s1)) = Some y"
  define r1 where "r1 = fst (run_state (AgentInterfaces env ref) s)"
  define s1 where "s1 = snd (run_state (AgentInterfaces env ref) s)"
  have yy: "(if found_ip r1 \<noteq> '''' then Some (Inr (found_ip r1), s1)
      else if \<not> de_now env (en_world s1) < deadline then Some (Inl (no_ip env), s1)
      else f env ref deadline (others (de_sleep env (configurePoll env)) s1)) = Some y"
    using body unfolding Let_def r1_def[symmetric] s1_def[symmetric] .
  consider "found_ip r1 \<noteq> ''''" "y = (Inr (found_ip r1), s1)" | "y = (Inl (no_ip env), s1)"
    | "f env ref deadline (others (de_sleep env (configurePoll env)) s1) = Some y"
    using yy by (metis option.inject)
  then show "looped env i s (locating ref) y"
  proof cases
    case 1
    then obtain nics where "r1 = Inr nics" "firstRoutableIPv4 nics = found_ip r1" using found_ip_routable by blast
    with 1(1) have "locating ref (Inr (found_ip r1)) [AgentCall ref r1]" by (simp add: polls_def located_def)
    then show ?thesis unfolding 1(2) s1_def r1_def AgentInterfaces_def by (rule looped_last)
  next
    case 2
    have "locating ref (Inl (no_ip env)) [AgentCall ref r1]" by (simp add: polls_def)
    then show ?thesis unfolding 2 s1_def r1_def AgentInterfaces_def by (rule looped_last)
  next
    case 3
    from IH[OF 3] show ?thesis unfolding s1_def AgentInterfaces_def by (rule looped_again) (rule locating_cons)
  qed
qed


definition probing :: "string \<Rightarrow> int \<Rightarrow> string option \<Rightarrow> eng_call list \<Rightarrow> bool" where
  "probing ip port r e \<longleftrightarrow> (if r = None then \<exists>e'. e = e' @ [ProbeCall ip port None] \<and> refused ip port e' else refused ip port e)"

lemma probing_cons: "probing ip port r e \<Longrightarrow> probing ip port r (ProbeCall ip port (Some m) # e)"
proof (cases r)
  case None
  assume "probing ip port r e"
  then obtain e' where "e = e' @ [ProbeCall ip port None]" "refused ip port e'" using None by (auto simp: probing_def)
  then have "ProbeCall ip port (Some m) # e = (ProbeCall ip port (Some m) # e') @ [ProbeCall ip port None]" "refused ip port (ProbeCall ip port (Some m) # e')"
    by (simp_all add: refused_def)
  then show ?thesis using None unfolding probing_def by auto
qed (simp add: probing_def refused_def)

lemma awaitReadyPort_follows:
  assumes "awaitReadyPort env ip port deadline s = Some y"
  shows "looped env i s (probing ip port) y"
proof (rule awaitReadyPort.raw_induct[OF _ assms, of "\<lambda>env ip port deadline s y. looped env i s (probing ip port) y"])
  fix f :: "'a eng_env \<Rightarrow> string \<Rightarrow> int \<Rightarrow> int \<Rightarrow> 'a eng \<Rightarrow> (string option \<times> 'a eng) option"
    and env :: "'a eng_env" and ip port deadline s y
  assume IH: "\<And>env ip port deadline s y. f env ip port deadline s = Some y \<Longrightarrow> looped env i s (probing ip port) y"
    and body: "(let rs = run_state (probe env ip port) s; s1 = snd rs in
      if fst rs = None then Some (None, s1)
      else if \<not> de_now env (en_world s1) < deadline then Some (Some (no_port env ip port), s1)
      else f env ip port deadline (others (de_sleep env (configurePoll env)) s1)) = Some y"
  define r1 where "r1 = fst (run_state (probe env ip port) s)"
  define s1 where "s1 = snd (run_state (probe env ip port) s)"
  have yy: "(if r1 = None then Some (None, s1)
      else if \<not> de_now env (en_world s1) < deadline then Some (Some (no_port env ip port), s1)
      else f env ip port deadline (others (de_sleep env (configurePoll env)) s1)) = Some y"
    using body unfolding Let_def r1_def[symmetric] s1_def[symmetric] .
  consider "r1 = None" "y = (None, s1)" | m where "r1 = Some m" "y = (Some (no_port env ip port), s1)"
    | m where "r1 = Some m" "f env ip port deadline (others (de_sleep env (configurePoll env)) s1) = Some y"
    using yy by (metis option.inject option.exhaust)
  then show "looped env i s (probing ip port) y"
  proof cases
    case 1
    then have "probing ip port None [ProbeCall ip port r1]" by (simp add: probing_def refused_def)
    then show ?thesis unfolding 1(2) s1_def r1_def probe_def by (rule looped_last)
  next
    case 2
    then have "probing ip port (Some (no_port env ip port)) [ProbeCall ip port r1]" by (simp add: probing_def refused_def)
    then show ?thesis unfolding 2(2) s1_def r1_def probe_def by (rule looped_last)
  next
    case 3
    from IH[OF 3(2)] show ?thesis unfolding s1_def probe_def
      by (rule looped_again) (unfold probe_def[symmetric] r1_def[symmetric] 3(1), rule probing_cons)
  qed
qed

section \<open>A whole run\<close>

lemma does_post: "\<lbrakk>does i st m Q; status_of i s = Some st\<rbrakk> \<Longrightarrow>
  \<exists>e st'. en_trace (snd (run_state m s)) = en_trace s @ e \<and> status_of i (snd (run_state m s)) = Some st' \<and> Q (fst (run_state m s)) e st'"
  by (auto simp: does_def post_fst_snd)

lemma does_failConfigure: "does i st (failConfigure env i cctx msg) (\<lambda>x e st'. removal env cctx e \<and> st' = ''failed'')"
proof -
  have "does i st (do { updateStep env i ''configuring'' ''failed'' '''' msg; removeSnippet env cctx; finish env i ''failed''; State_Monad.return () })
      (\<lambda>x e st'. removal env cctx e \<and> st' = ''failed'')"
    by (intro does_remove does_rules) simp
  then show ?thesis unfolding failConfigure_def by simp
qed

lemma does_configured: "does i st (configured env i req ip) (\<lambda>x e st'. e = [] \<and> st' = ''succeeded'')"
proof -
  have "does i st (do { setConnection env i ip (cr_catalog req); updateStep env i ''configuring'' ''succeeded'' '''' ''''; finish env i ''succeeded''; State_Monad.return () })
      (\<lambda>x e st'. e = [] \<and> st' = ''succeeded'')"
    by (intro does_rules) simp
  then show ?thesis unfolding configured_def by simp
qed

text \<open>The tail of the trace that configuring leaves.\<close>

definition configures :: "'w eng_env \<Rightarrow> create_guest_request \<Rightarrow> create_context \<Rightarrow> eng_call list \<Rightarrow> string \<Rightarrow> bool" where
  "configures env req cctx e st \<longleftrightarrow>
     st = ''failed'' \<and> (\<exists>a r. polls (request_guest req) a \<and> removal env cctx r \<and> e = a @ r) \<or>
     st = ''failed'' \<and> (\<exists>ip a t r. located (request_guest req) ip a \<and> refused ip (cc_readiness_port cctx) t \<and> removal env cctx r \<and> e = a @ t @ r) \<or>
     st = ''succeeded'' \<and> (\<exists>ip a t. located (request_guest req) ip a \<and> answered cctx ip t \<and> e = a @ t)"

lemma configuresI:
  "\<lbrakk>polls (request_guest req) a; removal env cctx r\<rbrakk> \<Longrightarrow> configures env req cctx (a @ r) ''failed''"
  "\<lbrakk>located (request_guest req) ip a; refused ip (cc_readiness_port cctx) t; removal env cctx r\<rbrakk> \<Longrightarrow> configures env req cctx (a @ t @ r) ''failed''"
  "\<lbrakk>located (request_guest req) ip a; answered cctx ip t\<rbrakk> \<Longrightarrow> configures env req cctx (a @ t) ''succeeded''"
  unfolding configures_def by blast+

lemma loopedD:
  "\<lbrakk>looped env i s Q (x, s'); undisturbed env i; status_of i s = Some ''running''\<rbrakk> \<Longrightarrow>
   \<exists>e. en_trace s' = en_trace s @ e \<and> status_of i s' = Some ''running'' \<and> Q x e"
  by (auto simp: looped_def)

lemma configure_follows:
  assumes "configure env i req cctx s = Some s'" "undisturbed env i" "status_of i s = Some ''running''"
  shows "\<exists>e st. en_trace s' = en_trace s @ e \<and> status_of i s' = Some st \<and> configures env req cctx e st"
proof -
  define s0 where "s0 = snd (run_state (updateStep env i ''configuring'' ''running'' '''' '''') s)"
  define dl where "dl = de_now env (en_world s0) + configureTimeout env"
  have s0: "en_trace s0 = en_trace s" "status_of i s0 = Some ''running''"
    using assms(3) by (auto simp: s0_def updateStep_def Let_def status_of_def get_change)
  note conf = assms(1)[unfolded configure_def Let_def s0_def[symmetric] dl_def[symmetric]]
  obtain r s1 where a: "awaitGuestIP env (request_guest req) dl s0 = Some (r, s1)" using conf by (auto split: option.splits)
  from loopedD[OF awaitGuestIP_follows[OF a] assms(2) s0(2)]
  obtain a where s1: "en_trace s1 = en_trace s @ a" "status_of i s1 = Some ''running''" "locating (request_guest req) r a" using s0(1) by auto
  have failed: "\<exists>e st. en_trace s' = en_trace s @ e \<and> status_of i s' = Some st \<and> configures env req cctx e st"
    if "s' = snd (run_state (failConfigure env i cctx msg) s2)" "en_trace s2 = en_trace s @ e2" "status_of i s2 = Some ''running''"
      "\<And>r. removal env cctx r \<Longrightarrow> configures env req cctx (e2 @ r) ''failed''" for msg s2 e2
    using does_post[OF does_failConfigure that(3), of env cctx msg] that(1,2,4) by auto
  have ready: "\<exists>e st. en_trace s' = en_trace s @ e \<and> status_of i s' = Some st \<and> configures env req cctx e st"
    if "s' = snd (run_state (configured env i req ip) s2)" "en_trace s2 = en_trace s @ e2" "status_of i s2 = Some ''running''"
      "configures env req cctx e2 ''succeeded''" for ip s2 e2
    using does_post[OF does_configured that(3), of env req ip] that(1,2,4) by auto
  show ?thesis
  proof (cases r)
    case (Inl msg)
    then have "s' = snd (run_state (failConfigure env i cctx msg) s1)" using conf a by simp
    then show ?thesis using s1 by (intro failed[OF _ s1(1,2)]) (auto intro: configuresI)
  next
    case (Inr ip)
    then have loc: "located (request_guest req) ip a" using s1(3) by simp
    show ?thesis
    proof (cases "0 < cc_readiness_port cctx")
      case False
      then have "s' = snd (run_state (configured env i req ip) s1)" using conf a Inr by simp
      moreover have "configures env req cctx a ''succeeded''"
        using configuresI(3)[OF loc, of cctx "[]"] False by (simp add: answered_def)
      ultimately show ?thesis by (rule ready[OF _ s1(1,2)])
    next
      case True
      then obtain x s2 where b: "awaitReadyPort env ip (cc_readiness_port cctx) dl s1 = Some (x, s2)"
        and s': "s' = (case x of Some msg \<Rightarrow> snd (run_state (failConfigure env i cctx msg) s2) | None \<Rightarrow> snd (run_state (configured env i req ip) s2))"
        using conf a Inr by (auto split: option.splits)
      from loopedD[OF awaitReadyPort_follows[OF b] assms(2) s1(2)]
      obtain t where s2: "en_trace s2 = en_trace s @ (a @ t)" "status_of i s2 = Some ''running''" "probing ip (cc_readiness_port cctx) x t"
        using s1(1) by auto
      show ?thesis
      proof (cases x)
        case None
        then have "answered cctx ip t" using s2(3) True by (simp add: answered_def probing_def)
        from configuresI(3)[OF loc this] show ?thesis using s' None by (intro ready[OF _ s2(1,2)]) simp_all
      next
        case (Some msg)
        then have "refused ip (cc_readiness_port cctx) t" using s2(3) by (simp add: probing_def)
        then show ?thesis using s' Some configuresI(2)[OF loc] by (intro failed[OF _ s2(1,2)]) simp_all
      qed
    qed
  qed
qed

lemma run_protocol:
  assumes "run env i req cctx s = Some (p, s')" "undisturbed env i" "status_of i s = Some ''running''"
  shows "p = Stopped \<and> (\<exists>evs st. en_trace s' = en_trace s @ evs \<and> status_of i s' = Some st \<and> protocol env req cctx evs st)"
proof -
  obtain p1 s1 where prov: "run_state (provision env i req cctx) s = (p1, s1)" by fastforce
  from does_post[OF provision_does[OF assms(2), of req cctx] assms(3)]
  obtain e st where e: "en_trace s1 = en_trace s @ e" "status_of i s1 = Some st"
    "p1 = GoesOn \<and> st = ''running'' \<and> (\<exists>e1 e2 e3. e = e1 @ e2 @ e3 \<and> prepared req cctx e1 \<and> created env cctx e2 \<and> powered req e3) \<or>
     p1 = Stopped \<and> st = ''failed'' \<and> protocol env req cctx e ''failed''" unfolding prov fst_conv snd_conv by blast
  show ?thesis
  proof (cases "p1 = GoesOn")
    case False
    then have "p = p1" "s' = s1" using assms(1) prov by (cases p1; simp add: run_def)+
    with e False show ?thesis by auto
  next
    case True
    then obtain e1 e2 e3 where e123: "e = e1 @ e2 @ e3" "prepared req cctx e1" "created env cctx e2" "powered req e3" and st: "st = ''running''"
      using e(3) by auto
    show ?thesis
    proof (cases "cr_catalog req = None")
      case cat: True
      then have s': "p = Stopped" "s' = snd (run_state (finish env i ''succeeded'') s1)" using assms(1) prov True by (auto simp: run_def)
      have "en_trace s' = en_trace s @ e" "status_of i s' = Some ''succeeded''"
        using e(1,2) unfolding s'(2) by (auto simp: finish_def status_of_def get_change)
      with s'(1) protocol.Started[OF cat e123(2-4)] e123(1) show ?thesis by blast
    next
      case cat: False
      then have conf: "p = Stopped" "configure env i req cctx s1 = Some s'" using assms(1) prov True by (auto simp: run_def)
      from configure_follows[OF conf(2) assms(2) e(2)[unfolded st]]
      obtain f st' where f: "en_trace s' = en_trace s @ (e1 @ e2 @ e3 @ f)" "status_of i s' = Some st'" "configures env req cctx f st'"
        using e(1) e123(1) by auto
      have "protocol env req cctx (e1 @ e2 @ e3 @ f) st'"
        using f(3) unfolding configures_def
        by (elim disjE conjE exE) (auto intro: protocol.NoAddress[OF cat e123(2-4)] protocol.NoAnswer[OF cat e123(2-4)] protocol.Ready[OF cat e123(2-4)])
      with conf(1) f show ?thesis by blast
    qed
  qed
qed

section \<open>Every run returns\<close>

text \<open>The clock does not run backwards across a call, and a sleep lasts at least as long as asked.\<close>

definition timely :: "'w eng_env \<Rightarrow> bool" where
  "timely env \<longleftrightarrow>
     (\<forall>ref w. de_now env w \<le> de_now env (snd (de_agent env ref w))) \<and>
     (\<forall>ip port b w. de_now env w \<le> de_now env (snd (de_probe env ip port b w))) \<and>
     (\<forall>b s. 0 < b \<longrightarrow> de_now env (en_world s) + b \<le> de_now env (en_world (de_sleep env b s)))"

lemma configurePoll_pos: "0 < configurePoll env"
  by (simp add: configurePoll_def configurePollDefault_def second_def)

lemma timely_sleep: "timely env \<Longrightarrow> de_now env (en_world s) + configurePoll env \<le> de_now env (en_world (de_sleep env (configurePoll env) s))"
  by (simp add: timely_def configurePoll_pos)

lemma call_world: "en_world (snd (run_state (eng_call_pve g c) s)) = snd (g (en_world s))"
  by (simp add: eng_call_pve_def split: prod.split)

lemma awaitGuestIP_returns:
  assumes "timely env"
  shows "\<exists>y. awaitGuestIP env ref dl s = Some y"
proof (induction "nat (dl - de_now env (en_world s))" arbitrary: s rule: less_induct)
  case less
  define s1 where "s1 = snd (run_state (AgentInterfaces env ref) s)"
  have now: "de_now env (en_world s) \<le> de_now env (en_world s1)"
    using assms by (simp add: s1_def AgentInterfaces_def call_world timely_def)
  show ?case
  proof (cases "found_ip (fst (run_state (AgentInterfaces env ref) s)) \<noteq> '''' \<or> \<not> de_now env (en_world s1) < dl")
    case True
    then show ?thesis by (subst awaitGuestIP.simps) (auto simp: Let_def s1_def)
  next
    case False
    let ?s2 = "others (de_sleep env (configurePoll env)) s1"
    have "de_now env (en_world s1) + configurePoll env \<le> de_now env (en_world ?s2)"
      using timely_sleep[OF assms] by simp
    then have "nat (dl - de_now env (en_world ?s2)) < nat (dl - de_now env (en_world s))"
      using now False configurePoll_pos[of env] by auto
    from less.hyps[OF this] False show ?thesis by (subst awaitGuestIP.simps) (auto simp: Let_def s1_def)
  qed
qed

lemma awaitReadyPort_returns:
  assumes "timely env"
  shows "\<exists>y. awaitReadyPort env ip port dl s = Some y"
proof (induction "nat (dl - de_now env (en_world s))" arbitrary: s rule: less_induct)
  case less
  define s1 where "s1 = snd (run_state (probe env ip port) s)"
  have now: "de_now env (en_world s) \<le> de_now env (en_world s1)"
    using assms by (simp add: s1_def probe_def call_world timely_def)
  show ?case
  proof (cases "fst (run_state (probe env ip port) s) = None \<or> \<not> de_now env (en_world s1) < dl")
    case True
    then show ?thesis by (subst awaitReadyPort.simps) (auto simp: Let_def s1_def)
  next
    case False
    let ?s2 = "others (de_sleep env (configurePoll env)) s1"
    have "de_now env (en_world s1) + configurePoll env \<le> de_now env (en_world ?s2)"
      using timely_sleep[OF assms] by simp
    then have "nat (dl - de_now env (en_world ?s2)) < nat (dl - de_now env (en_world s))"
      using now False configurePoll_pos[of env] by auto
    from less.hyps[OF this] False show ?thesis by (subst awaitReadyPort.simps) (auto simp: Let_def s1_def)
  qed
qed

lemma configure_returns:
  assumes "timely env"
  shows "\<exists>s'. configure env i req cctx s = Some s'"
proof -
  define s0 where "s0 = snd (run_state (updateStep env i ''configuring'' ''running'' '''' '''') s)"
  define dl where "dl = de_now env (en_world s0) + configureTimeout env"
  obtain r s1 where a: "awaitGuestIP env (request_guest req) dl s0 = Some (r, s1)" using awaitGuestIP_returns[OF assms] by (metis surj_pair)
  show ?thesis
  proof (cases r)
    case (Inr ip)
    obtain x s2 where "awaitReadyPort env ip (cc_readiness_port cctx) dl s1 = Some (x, s2)" using awaitReadyPort_returns[OF assms] by (metis surj_pair)
    with a Inr show ?thesis by (cases x) (simp_all add: configure_def Let_def s0_def[symmetric] dl_def[symmetric])
  qed (use a in \<open>simp add: configure_def Let_def s0_def[symmetric] dl_def[symmetric]\<close>)
qed

lemma run_returns:
  assumes "timely env"
  shows "\<exists>p s'. run env i req cctx s = Some (p, s')"
proof -
  obtain p1 s1 where "run_state (provision env i req cctx) s = (p1, s1)" by fastforce
  then show ?thesis using configure_returns[OF assms, of i req cctx s1] by (cases p1) (auto simp: run_def)
qed

text \<open>C35: a deployment follows its protocol. Every run that returns has made exactly a sequence of calls the protocol allows (snippet
  before create, reservation settled right after the create's outcome, start only after that, probes only of an
  address the guest reported, the snippet removed on every later failure), has not crashed, and has left the deployment in the
  status the protocol gives that sequence.\<close>

theorem run_follows_protocol:
  assumes "run env i req cctx s = Some (p, s')" "undisturbed env i" "status_of i s = Some ''running''"
  shows "p = Stopped \<and> (\<exists>evs st. en_trace s' = en_trace s @ evs \<and> status_of i s' = Some st \<and> protocol env req cctx evs st)"
  using assms by (rule run_protocol)

text \<open>C36: every deployment ends. Whatever the cluster, the guest agent and the probed port answer, the goroutine of a deployment
  returns, provided the clock advances, and leaves the deployment succeeded or failed, never running.\<close>

theorem deployment_ends:
  assumes "timely env" "undisturbed env i" "status_of i s = Some ''running''"
  shows "\<exists>s' st. run env i req cctx s = Some (Stopped, s') \<and> status_of i s' = Some st \<and> st \<in> {''succeeded'', ''failed''}"
proof -
  obtain p s' where r: "run env i req cctx s = Some (p, s')" using run_returns[OF assms(1)] by blast
  from run_protocol[OF r assms(2,3)] obtain evs st where "p = Stopped" "status_of i s' = Some st" "protocol env req cctx evs st" by blast
  moreover from this(3) have "st \<in> {''succeeded'', ''failed''}" by cases simp_all
  ultimately show ?thesis using r by blast
qed

section \<open>What the protocol guarantees\<close>

definition settlements :: "eng_call list \<Rightarrow> eng_call list" where
  "settlements evs = filter (\<lambda>c. case c of FinalizeCall _ _ \<Rightarrow> True | ReleaseCall _ \<Rightarrow> True | _ \<Rightarrow> False) evs"

text \<open>The create task reported successful, if any: the wait right after an accepted create.\<close>

fun created_task :: "eng_call list \<Rightarrow> string option" where
  "created_task (c # TaskWait u out # es) =
     (if create_result c = Some (Inr u) \<and> successful out then Some u else created_task (TaskWait u out # es))"
| "created_task (c # es) = created_task es"
| "created_task [] = None"

lemma settlements_append [simp]: "settlements (a @ b) = settlements a @ settlements b"
  by (simp add: settlements_def)

lemma settlements_quiet:
  "prepared req cctx p \<Longrightarrow> settlements p = []" "removal env cctx r \<Longrightarrow> settlements r = []" "not_created c \<Longrightarrow> settlements c = []"
  "powered req w \<Longrightarrow> settlements w = []" "not_powered req w \<Longrightarrow> settlements w = []" "polls ref a \<Longrightarrow> settlements a = []"
  "located ref ip a \<Longrightarrow> settlements a = []" "refused ip port t \<Longrightarrow> settlements t = []" "answered cctx ip t \<Longrightarrow> settlements t = []"
proof -
  show polls: "settlements a = []" if "polls ref a" for a using that by (auto simp: settlements_def polls_def filter_empty_conv split: eng_call.splits)
  show refused: "settlements t = []" if "refused ip port t" for ip port t using that by (auto simp: settlements_def refused_def filter_empty_conv split: eng_call.splits)
  show "located ref ip a \<Longrightarrow> settlements a = []" using polls by (auto simp: located_def) (simp add: settlements_def)
  show "answered cctx ip t \<Longrightarrow> settlements t = []" using refused by (auto simp: answered_def settlements_def split: if_splits)
  have "create_result c = Some r \<Longrightarrow> settlements [c] = []" for c r by (cases c) (simp_all add: settlements_def)
  then show "not_created c \<Longrightarrow> settlements c = []" by (fastforce simp: not_created_def settlements_def)
qed (auto simp: settlements_def prepared_def removal_def powered_def not_powered_def split: if_splits)

lemma created_task_created:
  assumes "prepared req cctx p" "created env cctx c"
  obtains u where "created_task (p @ c @ rest) = Some u" "settlements c = finalized env cctx u"
proof -
  obtain k u out where c: "create_result k = Some (Inr u)" "successful out" "c = [k, TaskWait u out] @ finalized env cctx u"
    using assms(2) unfolding created_def by blast
  have "created_task (p @ c @ rest) = Some u" using assms(1) c by (cases k) (auto simp: prepared_def)
  moreover have "settlements c = finalized env cctx u" using c by (cases k) (auto simp: settlements_def finalized_def)
  ultimately show ?thesis using that by blast
qed

lemma created_task_none: "\<forall>u out. TaskWait u out \<in> set evs \<longrightarrow> \<not> successful out \<Longrightarrow> created_task evs = None"
  by (induction evs rule: created_task.induct) auto

lemma created_task_released:
  assumes "prepared req cctx p" "not_created c" "removal env cctx r"
  shows "created_task (p @ c @ released env cctx @ r) = None"
proof (rule created_task_none, intro allI impI)
  fix u out
  assume "TaskWait u out \<in> set (p @ c @ released env cctx @ r)"
  then have "TaskWait u out \<in> set c" using assms(1,3) by (auto simp: prepared_def removal_def released_def split: if_splits)
  then show "\<not> successful out" using assms(2) by (auto simp: not_created_def)
qed

text \<open>C37: a reservation is settled exactly once. With the store hooks wired and a reservation given, a run makes exactly one settling
  call: it finalizes the reservation with the task that created the guest when such a task was reported successful, and
  releases it otherwise.\<close>

theorem reservation_settled_exactly_once:
  assumes "run env i req cctx s = Some (p, s')" "undisturbed env i" "status_of i s = Some ''running''"
    "de_finalize env" "de_release env" "cc_ownership_id cctx \<noteq> ''''"
  shows "\<exists>evs. en_trace s' = en_trace s @ evs \<and> settlements evs =
    (case created_task evs of Some u \<Rightarrow> [FinalizeCall (cc_ownership_id cctx) u] | None \<Rightarrow> [ReleaseCall (cc_ownership_id cctx)])"
proof -
  from run_protocol[OF assms(1-3)] obtain evs st where evs: "en_trace s' = en_trace s @ evs" "protocol env req cctx evs st" by blast
  have rel: "released env cctx = [ReleaseCall (cc_ownership_id cctx)]" "settlements [ReleaseCall (cc_ownership_id cctx)] = [ReleaseCall (cc_ownership_id cctx)]"
    and fin: "finalized env cctx u = [FinalizeCall (cc_ownership_id cctx) u]" for u
    using assms(4-6) by (simp_all add: released_def finalized_def settlements_def)
  from evs(2) have "settlements evs =
    (case created_task evs of Some u \<Rightarrow> [FinalizeCall (cc_ownership_id cctx) u] | None \<Rightarrow> [ReleaseCall (cc_ownership_id cctx)])"
  proof cases
    case (NotPrepared w)
    then show ?thesis using rel by (auto simp: settlements_def)
  next
    case (NotCreated p c r)
    then show ?thesis using created_task_released[OF NotCreated(3,4,5)] rel(1) settlements_append[of "[ReleaseCall (cc_ownership_id cctx)]" r] rel(2) by (simp add: settlements_quiet)
  next
    case (NotStarted p c w r)
    from created_task_created[OF NotStarted(3,4)] obtain u where "created_task evs = Some u" "settlements c = finalized env cctx u"
      using NotStarted(1) by metis
    then show ?thesis using NotStarted fin by (simp add: settlements_quiet)
  next
    case (Started p c w)
    from created_task_created[OF Started(4,5)] obtain u where "created_task evs = Some u" "settlements c = finalized env cctx u"
      using Started(1) by metis
    then show ?thesis using Started fin by (simp add: settlements_quiet)
  next
    case (NoAddress p c w a r)
    from created_task_created[OF NoAddress(4,5)] obtain u where "created_task evs = Some u" "settlements c = finalized env cctx u"
      using NoAddress(1) by metis
    then show ?thesis using NoAddress fin by (simp add: settlements_quiet)
  next
    case (NoAnswer p c w ip a t r)
    from created_task_created[OF NoAnswer(4,5)] obtain u where "created_task evs = Some u" "settlements c = finalized env cctx u"
      using NoAnswer(1) by metis
    then show ?thesis using NoAnswer fin by (simp add: settlements_quiet)
  next
    case (Ready p c w ip a t)
    from created_task_created[OF Ready(4,5)] obtain u where "created_task evs = Some u" "settlements c = finalized env cctx u"
      using Ready(1) by metis
    then show ?thesis using Ready fin by (simp add: settlements_quiet)
  qed
  with evs(1) show ?thesis by blast
qed

text \<open>C38: readiness is never made up. A catalog deployment with a readiness port that ends succeeded has had that port
  answer, at the first routable address the guest agent reported.\<close>

theorem succeeded_means_answered:
  assumes "run env i req cctx s = Some (p, s')" "undisturbed env i" "status_of i s = Some ''running''"
    "cr_catalog req \<noteq> None" "0 < cc_readiness_port cctx" "status_of i s' = Some ''succeeded''"
  shows "\<exists>pre nics mid. en_trace s' = en_trace s @ pre @ [AgentCall (request_guest req) (Inr nics)] @ mid @
      [ProbeCall (firstRoutableIPv4 nics) (cc_readiness_port cctx) None] \<and> firstRoutableIPv4 nics \<noteq> ''''"
proof -
  from run_protocol[OF assms(1-3)] obtain evs where evs: "en_trace s' = en_trace s @ evs" "protocol env req cctx evs ''succeeded''"
    using assms(6) by auto
  from evs(2) show ?thesis
  proof cases
    case (Ready p c w ip a t)
    obtain e' nics where a: "a = e' @ [AgentCall (request_guest req) (Inr nics)]" "firstRoutableIPv4 nics = ip" "ip \<noteq> ''''"
      using Ready(6) unfolding located_def by blast
    obtain t' where t: "t = t' @ [ProbeCall ip (cc_readiness_port cctx) None]" using Ready(7) assms(5) unfolding answered_def by auto
    have "en_trace s' = en_trace s @ (p @ c @ w @ e') @ [AgentCall (request_guest req) (Inr nics)] @ t' @ [ProbeCall (firstRoutableIPv4 nics) (cc_readiness_port cctx) None]"
      using evs(1) Ready(1) a t by simp
    with a show ?thesis by blast
  qed (use assms(4) in simp_all)
qed

section \<open>A concrete deployment\<close>

text \<open>The world is the clock. The guest agent answers after 5 seconds and the service after 10.\<close>

definition lab_env :: "int eng_env" where
  "lab_env = \<lparr>de_now = (\<lambda>w. w), de_random = (\<lambda>w. ([1, 2, 3, 4, 5, 171], w)),
     de_create_vm = (\<lambda>n p w. (Inr ''UPID:1'', w)), de_create_lxc = (\<lambda>n p w. (Inr ''UPID:1'', w)), de_clone = (\<lambda>g c w. (Inr ''UPID:1'', w)),
     de_action = (\<lambda>g a w. (Inr ''UPID:2'', w)),
     de_agent = (\<lambda>g w. (if w < 5 * second then Inl (PveError ''agent'') else Inr [\<lparr>gn_name = ''eth0'', gn_mac = '''', gn_ipv4 = [''127.0.0.1/8'', ''10.0.0.5/24''], gn_ipv6 = []\<rparr>], w)),
     de_probe = (\<lambda>ip p b w. (if w < 10 * second then Some ''refused'' else None, w)),
     de_write_snippet = (\<lambda>f c w. (None, w)), de_remove_snippet = (\<lambda>f w. (None, w)),
     de_wait = (\<lambda>u b s. s\<lparr>en_registry := snd (Complete u True ''OK'' (en_registry s)), en_world := en_world s + second\<rparr>),
     de_sleep = (\<lambda>b s. s\<lparr>en_world := en_world s + b\<rparr>),
     de_duration_text = (\<lambda>b. ''15m0s''), de_snippets = True, de_broker = False, de_finalize = True, de_release = True,
     de_configure_timeout = 0, de_configure_poll = 0, de_probe_timeout = 0\<rparr>"

definition lab_context :: create_context where
  "lab_context = \<lparr>cc_tenant_id = ''t1'', cc_project_id = ''p1'', cc_pool_id = ''pc-p1'', cc_actor_user_id = ''u1'', cc_ownership_id = ''o1'',
     cc_clone_source_ok = False, cc_snippet_content = ''#cloud-config'', cc_snippet_filename = ''proxcloud-db.yaml'', cc_readiness_port = 5432\<rparr>"

definition lab_state :: "int eng" where
  "lab_state = \<lparr>en_db = sample_db (sample_tables\<lparr>ownerships := [sample_ownership ''o1'' ''t1'' ''p1'' 120 Pending]\<rparr>),
     en_registry = NewRegistry, en_runs = [], en_started = [], en_world = 0, en_waiters = 0, en_published = [], en_trace = []\<rparr>"

definition lab_request :: create_guest_request where
  "lab_request = sample_request\<lparr>cr_name := ''w'', cr_node := ''n'', cr_pool := '''', cr_source := (cr_source sample_request)\<lparr>cs_image_vol := ''l:i''\<rparr>,
     cr_storage := ''l'', cr_bridge := ''b'', cr_vlan_tag := 0, cr_firewall := False, cr_ip_config := None, cr_cloud_init := None, cr_tags := [],
     cr_catalog := Some \<lparr>ca_service_id = ''d'', ca_snippet_ref = ''l:snippets/proxcloud-d.yaml'', ca_ports = [5432], ca_credential_hint = '''', ca_user_supplied = False\<rparr>\<rparr>"

definition lab_id :: string where "lab_id = ''dep_0102030405ab''"

definition lab_submitted :: "int eng" where
  "lab_submitted = snd (run_state (Submit lab_env lab_request lab_context) lab_state)"

definition lab_end :: "int eng" where
  "lab_end = snd (the (run lab_env lab_id lab_request lab_context lab_submitted))"

lemma lab_ok: "timely lab_env" "undisturbed lab_env i"
  by (auto simp: lab_env_def timely_def undisturbed_def get_run_def)

lemma lab_running: "status_of lab_id lab_submitted = Some ''running''"
  by code_simp

lemma lab_run: "run lab_env lab_id lab_request lab_context lab_submitted = Some (Stopped, lab_end)"
proof -
  obtain p s' where r: "run lab_env lab_id lab_request lab_context lab_submitted = Some (p, s')" using run_returns[OF lab_ok(1)] by blast
  with run_protocol[OF r lab_ok(2) lab_running] show ?thesis by (simp add: lab_end_def)
qed

definition lab_view :: "int eng \<Rightarrow> string option \<times> string option \<times> owner_status list" where
  "lab_view s = (status_of lab_id s, created_task (en_trace s), map o_status (ownerships (tabs (en_db s))))"

lemma lab_viewed: "lab_view lab_end = (Some ''succeeded'', Some ''UPID:1'', [Active])"
  by code_simp

lemma lab_evaluated:
  "status_of lab_id lab_end = Some ''succeeded''" "created_task (en_trace lab_end) = Some ''UPID:1''"
  "map o_status (ownerships (tabs (en_db lab_end))) = [Active]"
  using lab_viewed by (simp_all add: lab_view_def)

theorem run_follows_protocol_witness:
  "\<exists>evs st. en_trace lab_end = en_trace lab_submitted @ evs \<and> status_of lab_id lab_end = Some st \<and> protocol lab_env lab_request lab_context evs st"
  using run_follows_protocol[OF lab_run lab_ok(2) lab_running] by blast

theorem deployment_ends_witness:
  "\<exists>s' st. run lab_env lab_id lab_request lab_context lab_submitted = Some (Stopped, s') \<and> status_of lab_id s' = Some st \<and> st \<in> {''succeeded'', ''failed''}"
  using deployment_ends[OF lab_ok lab_running] .

theorem reservation_settled_exactly_once_witness:
  "settlements (en_trace lab_end) = [FinalizeCall ''o1'' ''UPID:1''] \<and> map o_status (ownerships (tabs (en_db lab_end))) = [Active]"
proof -
  have "en_trace lab_submitted = []" by code_simp
  moreover have "de_finalize lab_env" "de_release lab_env" "cc_ownership_id lab_context = ''o1''" by (simp_all add: lab_env_def lab_context_def)
  ultimately show ?thesis
    using reservation_settled_exactly_once[OF lab_run lab_ok(2) lab_running] lab_evaluated(2,3) by auto
qed

theorem succeeded_means_answered_witness:
  "\<exists>nics. firstRoutableIPv4 nics \<noteq> '''' \<and> ProbeCall (firstRoutableIPv4 nics) 5432 None \<in> set (en_trace lab_end)"
proof -
  have "cr_catalog lab_request \<noteq> None" "cc_readiness_port lab_context = 5432" by (simp_all add: lab_request_def lab_context_def)
  with succeeded_means_answered[OF lab_run lab_ok(2) lab_running _ _ lab_evaluated(1)] show ?thesis by auto
qed

end
