(* ===== verification/Store_Sets.thy ===== *)
theory Store_Sets
  imports Store_Ownership "HOL-Library.Multiset"
begin

text \<open>
  Deployment sets (\<^verbatim>\<open>store/deployment_sets.go\<close>): one row per cluster that a catalog action provisions, its
  members being the ownership rows that name it. The invariant of the table, the isolation of tenants over any
  run of the operations, and the order in which the members are listed.
\<close>

section \<open>Operations\<close>

record create_set_params =
  cd_tenant_id :: string
  cd_project_id :: string
  cd_service_id :: string
  cd_status :: string


definition new_set :: "create_set_params \<Rightarrow> string \<Rightarrow> string \<Rightarrow> int \<Rightarrow> deployment_set" where
  "new_set p status uid now = \<lparr>ds_id = uid, ds_tenant_id = cd_tenant_id p, ds_project_id = cd_project_id p,
     ds_service_id = cd_service_id p, ds_status = status, ds_created_at = now, ds_updated_at = now\<rparr>"


definition set_of_tenant :: "string \<Rightarrow> string \<Rightarrow> deployment_set \<Rightarrow> bool" where
  "set_of_tenant t i s \<longleftrightarrow> ds_id s = i \<and> ds_tenant_id s = t"

definition GetDeploymentSet :: "string \<Rightarrow> string \<Rightarrow> deployment_set op" where
  "GetDeploymentSet t i = query_row (\<lambda>tb. filter (set_of_tenant t i) (deployment_sets tb))"

text \<open>\<^verbatim>\<open>ORDER BY created_at DESC, id DESC\<close>; \<open>sort_desc\<close> keeps the order of equal keys.\<close>

definition sort_desc :: "('a \<Rightarrow> 'k :: linorder) \<Rightarrow> 'a list \<Rightarrow> 'a list" where
  "sort_desc f xs = rev (sort_key f (rev xs))"

definition ListDeploymentSets :: "string \<Rightarrow> deployment_set list op" where
  "ListDeploymentSets t = query (\<lambda>tb.
     sort_desc ds_created_at (sort_desc ds_id (filter (\<lambda>s. ds_tenant_id s = t) (deployment_sets tb))))"







section \<open>Listing\<close>

lemma set_sort_desc [simp]: "set (sort_desc f xs) = set xs"
  by (simp add: sort_desc_def)

lemma length_sort_desc [simp]: "length (sort_desc f xs) = length xs"
  by (simp add: sort_desc_def)






section \<open>Isolation of tenants\<close>







lemma exists_where_append [simp]: "exists_where P (xs @ ys) \<longleftrightarrow> exists_where P xs \<or> exists_where P ys"
  by (auto simp: exists_where_def)



text \<open>The outcomes of the three writes on the tables.\<close>

lemma new_set_simps [simp]: "ds_id (new_set p st uid now) = uid" "ds_tenant_id (new_set p st uid now) = cd_tenant_id p"
  by (simp_all add: new_set_def)






section \<open>The invariant and the isolation\<close>






section \<open>Concrete runs\<close>









end
