(* ===== verification/Deploy_Set.thy ===== *)
theory Deploy_Set
  imports Deploy_Engine Store_Sets
begin

text \<open>
  Provisioning a deployment set (\<^verbatim>\<open>internal/deploy/set.go\<close>, with \<^verbatim>\<open>AwaitDeployment\<close> of \<^verbatim>\<open>engine.go\<close>): the members
  one after the other, servers first, each through the single-guest engine; agents are skipped and their
  reservations released once a server failed; then the status of the set is stored. While the orchestrator polls a
  member, the member's own goroutine and the rest of the system run (\<open>de_sleep\<close>). Nothing the orchestrator calls
  panics in the model, so its deferred \<^verbatim>\<open>recover\<close> is not taken.
\<close>

section \<open>Data\<close>

record set_member =
  sm_role :: string
  sm_req :: create_guest_request
  sm_snippet_content :: string
  sm_snippet_filename :: string
  sm_readiness_port :: int
  sm_ownership_id :: string


record set_frame_member =
  fm_role :: string
  fm_vmid :: int
  fm_name :: string
  fm_node :: string
  fm_guest_type :: string
  fm_status :: string
  fm_connection :: string

record set_frame =
  fr_id :: string
  fr_service_id :: string
  fr_project_id :: string
  fr_status :: string
  fr_members :: "set_frame_member list"

text \<open>How one member ended: provisioned to a final snapshot, rejected by \<^verbatim>\<open>Submit\<close>, or skipped.\<close>

datatype member_end = Provisioned deployment | Rejected | Skipped

text \<open>The orchestrator's own view: the engine's state, the frames it published, the ends of the members so far and the
  statuses it asked the store to write.\<close>

record 'w set_run =
  sr_eng :: "'w eng"
  sr_frames :: "set_frame list"
  sr_ends :: "(set_member \<times> member_end) list"
  sr_statuses :: "string list"
  sr_finals :: "(int \<times> deployment) list"
  sr_server_failed :: bool
  sr_any_failed :: bool


definition setMemberTimeout :: int where
  "setMemberTimeout = stepTimeout + configureTimeoutDefault + 5 * minute"

section \<open>Waiting for a deployment\<close>




section \<open>Members\<close>








section \<open>The set\<close>



definition publishSetFrame :: "'w eng_env \<Rightarrow> set_frame \<Rightarrow> 'w set_run \<Rightarrow> 'w set_run" where
  "publishSetFrame env f r = (if \<not> de_broker env then r else r\<lparr>sr_frames := sr_frames r @ [f]\<rparr>)"






section \<open>Every wait returns\<close>



section \<open>What a set promises\<close>








section \<open>The loop\<close>




lemma publishSetFrame_simps [simp]:
  "sr_eng (publishSetFrame env f r) = sr_eng r" "sr_ends (publishSetFrame env f r) = sr_ends r" "sr_statuses (publishSetFrame env f r) = sr_statuses r"
  "sr_server_failed (publishSetFrame env f r) = sr_server_failed r" "sr_any_failed (publishSetFrame env f r) = sr_any_failed r"
  "sr_finals (publishSetFrame env f r) = sr_finals r"
  by (simp_all add: publishSetFrame_def)





section \<open>A concrete set\<close>









text \<open>The wait for a member is shorter than the time the engine allows its create and start tasks.\<close>

lemma member_wait_too_short: "setMemberTimeout < stepTimeout + stepTimeout + configureTimeoutDefault"
  by (simp add: setMemberTimeout_def stepTimeout_def configureTimeoutDefault_def minute_def second_def)

end
