(* ===== verification/Event_Stream.thy ===== *)
theory Event_Stream
  imports Deploy_Set Authz_Middleware
begin

text \<open>
  Live updates: the broker (\<^verbatim>\<open>internal/events/broker.go\<close>), the event stream of a connection with its tenant scope
  (\<^verbatim>\<open>internal/events/handler.go\<close>), the resolver of owned VMIDs (\<^verbatim>\<open>cmd/proxcloud/main.go\<close>) and the poller that completes
  tracked tasks (\<^verbatim>\<open>internal/tasks/watcher.go\<close>). A channel is a number with the queue of its unread events. A stream
  is a run over the cases its \<^verbatim>\<open>select\<close> takes, each with the database of that moment and with whether its write
  succeeded. The JSON of a payload is a parameter.
\<close>

section \<open>Events and the broker\<close>

datatype event_data =
    MetricsPayload string
  | TaskPayload string string string string "task_resource option"
  | DeploymentPayload deployment
  | SchedulePayload guest_ref string string string int
  | TtlPayload guest_ref string int string
  | SetPayload set_frame
  | OtherPayload string

record event =
  ev_name :: string
  ev_data :: event_data

record broker =
  br_subs :: "(nat \<times> event list) list"
  br_next :: nat

definition subscriberBuffer :: nat where "subscriberBuffer = 16"

definition NewBroker :: broker where "NewBroker = \<lparr>br_subs = [], br_next = 0\<rparr>"

definition Subscribe :: "broker \<Rightarrow> nat \<times> broker" where
  "Subscribe b = (br_next b, b\<lparr>br_subs := AList.update (br_next b) [] (br_subs b), br_next := Suc (br_next b)\<rparr>)"

definition Unsubscribe :: "nat \<Rightarrow> broker \<Rightarrow> broker" where
  "Unsubscribe c b = b\<lparr>br_subs := AList.delete c (br_subs b)\<rparr>"

text \<open>A full queue loses its oldest event.\<close>

definition offer :: "event \<Rightarrow> event list \<Rightarrow> event list" where
  "offer e q = (if length q < subscriberBuffer then q @ [e] else tl q @ [e])"

definition broker_Publish :: "event \<Rightarrow> broker \<Rightarrow> broker" where
  "broker_Publish e b = b\<lparr>br_subs := map (\<lambda>(c, q). (c, offer e q)) (br_subs b)\<rparr>"

definition SubscriberCount :: "broker \<Rightarrow> nat" where
  "SubscriberCount b = length (br_subs b)"

definition queue_of :: "nat \<Rightarrow> broker \<Rightarrow> event list option" where
  "queue_of c b = map_of (br_subs b) c"

definition publish_all :: "event list \<Rightarrow> broker \<Rightarrow> broker" where
  "publish_all es b = foldl (\<lambda>b e. broker_Publish e b) b es"

section \<open>The limit on streams\<close>

record conn_limiter =
  cn_count :: "(string \<times> int) list"
  cn_max :: int

definition maxSSEPerUser :: int where "maxSSEPerUser = 10"

definition newConnLimiter :: "int \<Rightarrow> conn_limiter" where
  "newConnLimiter n = \<lparr>cn_count = [], cn_max = n\<rparr>"

definition streams_of :: "string \<Rightarrow> conn_limiter \<Rightarrow> int" where
  "streams_of k l = (case map_of (cn_count l) k of None \<Rightarrow> 0 | Some n \<Rightarrow> n)"

definition conn_acquire :: "string \<Rightarrow> conn_limiter \<Rightarrow> bool \<times> conn_limiter" where
  "conn_acquire k l = (if streams_of k l \<ge> cn_max l then (False, l)
     else (True, l\<lparr>cn_count := AList.update k (streams_of k l + 1) (cn_count l)\<rparr>))"

definition conn_release :: "string \<Rightarrow> conn_limiter \<Rightarrow> conn_limiter" where
  "conn_release k l = (if streams_of k l > 0
     then (if streams_of k l = 1 then l\<lparr>cn_count := AList.delete k (cn_count l)\<rparr>
           else l\<lparr>cn_count := AList.update k (streams_of k l - 1) (cn_count l)\<rparr>)
     else l)"

section \<open>The tenant scope\<close>

text \<open>A nil map owns nothing.\<close>

type_synonym owned_set = "(int \<times> bool) list"

definition owns_vmid :: "owned_set \<Rightarrow> int \<Rightarrow> bool" where
  "owns_vmid m v \<longleftrightarrow> map_of m v = Some True"

definition deliver :: "event \<Rightarrow> bool \<Rightarrow> owned_set \<Rightarrow> bool" where
  "deliver e admin owned =
     (if ev_name e = ''metrics'' then admin
      else if ev_name e = ''task'' then
        admin \<or> (case ev_data e of TaskPayload u a st x (Some res) \<Rightarrow> owns_vmid owned (re_vmid res) | _ \<Rightarrow> False)
      else if ev_name e = ''deployment'' then
        admin \<or> (case ev_data e of DeploymentPayload d \<Rightarrow> owns_vmid owned (dp_vmid d) | _ \<Rightarrow> False)
      else if ev_name e = ''schedule_warning'' then
        admin \<or> (case ev_data e of SchedulePayload g k t d at \<Rightarrow> owns_vmid owned (gr_vmid g) | _ \<Rightarrow> False)
      else if ev_name e = ''ttl_warning'' then
        admin \<or> (case ev_data e of TtlPayload g w at a \<Rightarrow> owns_vmid owned (gr_vmid g) | _ \<Rightarrow> False)
      else if ev_name e = ''deployment_set'' then
        admin \<or> (case ev_data e of SetPayload f \<Rightarrow> fr_members f \<noteq> [] \<and> list_all (\<lambda>m. owns_vmid owned (fm_vmid m)) (fr_members f) | _ \<Rightarrow> False)
      else True)"

definition ownedVMIDsResolver :: "string \<Rightarrow> owned_set op" where
  "ownedVMIDsResolver t = bind_op (ListOwnershipByTenant t) (\<lambda>rows.
     ret (fold (\<lambda>r m. if o_status r = Active \<or> o_status r = Pending then AList.update (o_vmid r) True m else m) rows []))"

section \<open>A stream\<close>

record stream =
  sm_admin :: bool
  sm_tenant :: string
  sm_owned :: owned_set
  sm_written :: "event list"
  sm_open :: bool

datatype select_case = CtxDone | RefreshTick | HeartbeatTick | Incoming "event option"

record turn =
  tn_db :: db
  tn_case :: select_case
  tn_write_ok :: bool

text \<open>A failed refresh keeps the set there was.\<close>

definition refresh :: "db \<Rightarrow> stream \<Rightarrow> stream" where
  "refresh d st = (if sm_admin st \<or> sm_tenant st = '''' then st
     else (case fst (ownedVMIDsResolver (sm_tenant st) d) of Inl e \<Rightarrow> st | Inr m \<Rightarrow> st\<lparr>sm_owned := m\<rparr>))"

definition stream_turn :: "(event_data \<Rightarrow> string option) \<Rightarrow> turn \<Rightarrow> stream \<Rightarrow> stream" where
  "stream_turn marshal tn st = (if \<not> sm_open st then st
     else (case tn_case tn of
        CtxDone \<Rightarrow> st\<lparr>sm_open := False\<rparr>
      | RefreshTick \<Rightarrow> refresh (tn_db tn) st
      | HeartbeatTick \<Rightarrow> if tn_write_ok tn then st else st\<lparr>sm_open := False\<rparr>
      | Incoming None \<Rightarrow> st\<lparr>sm_open := False\<rparr>
      | Incoming (Some e) \<Rightarrow>
          if \<not> deliver e (sm_admin st) (sm_owned st) then st
          else if marshal (ev_data e) = None then st
          else if tn_write_ok tn then st\<lparr>sm_written := sm_written st @ [e]\<rparr>
          else st\<lparr>sm_open := False\<rparr>))"

text \<open>The start of the handler: the cap per user (HTTP 429), the first refresh and the first write.\<close>

definition open_stream :: "identity option \<Rightarrow> db \<Rightarrow> bool \<Rightarrow> conn_limiter \<Rightarrow> (int + stream) \<times> conn_limiter" where
  "open_stream idt d write_ok l =
     (let admin = (case idt of None \<Rightarrow> False | Some i \<Rightarrow> id_is_platform_admin i);
          tenant = (case idt of None \<Rightarrow> '''' | Some i \<Rightarrow> id_active_tenant i);
          user = (case idt of None \<Rightarrow> '''' | Some i \<Rightarrow> id_user_id i);
          al = (if user = '''' then (True, l) else conn_acquire user l) in
      if \<not> fst al then (Inl 429, snd al)
      else (Inr (refresh d \<lparr>sm_admin = admin, sm_tenant = tenant, sm_owned = [], sm_written = [], sm_open = write_ok\<rparr>), snd al))"

definition stream_run :: "(event_data \<Rightarrow> string option) \<Rightarrow> turn list \<Rightarrow> stream \<Rightarrow> stream" where
  "stream_run marshal tns st = foldl (\<lambda>st tn. stream_turn marshal tn st) st tns"

section \<open>The task poller\<close>

record task_info =
  ti_end_time :: int
  ti_exit_status :: string

definition task_succeeded :: "string \<Rightarrow> bool" where
  "task_succeeded x \<longleftrightarrow> EqualFold x ''OK'' \<or> HasPrefix (lower_str x) ''warnings:''"

definition watch_one :: "(string \<Rightarrow> 'w \<Rightarrow> (string + task_info) \<times> 'w) \<Rightarrow> string \<Rightarrow> task_registry \<times> broker \<times> 'w \<Rightarrow> task_registry \<times> broker \<times> 'w" where
  "watch_one status upid s = (case s of (r, b, w) \<Rightarrow>
     case status upid w of
       (Inl e, w1) \<Rightarrow> (r, b, w1)
     | (Inr info, w1) \<Rightarrow>
         if ti_end_time info = 0 then (r, b, w1)
         else let ok = task_succeeded (ti_exit_status info) in
           (case Complete upid ok (ti_exit_status info) r of
              (None, r1) \<Rightarrow> (r1, b, w1)
            | (Some tr, r1) \<Rightarrow> (r1, broker_Publish \<lparr>ev_name = ''task'', ev_data = TaskPayload upid (tr_action tr)
                (if ok then ''succeeded'' else ''failed'') (ti_exit_status info) (Some (tr_resource tr))\<rparr> b, w1)))"

definition watcher_tick :: "(string \<Rightarrow> 'w \<Rightarrow> (string + task_info) \<times> 'w) \<Rightarrow> task_registry \<times> broker \<times> 'w \<Rightarrow> task_registry \<times> broker \<times> 'w" where
  "watcher_tick status s = foldl (\<lambda>s upid. watch_one status upid s) s (Running_tasks (fst s))"

section \<open>Queues\<close>

lemma queue_publish: "queue_of c (broker_Publish e b) = map_option (offer e) (queue_of c b)"
  unfolding queue_of_def broker_Publish_def by (induction "br_subs b" arbitrary: b) (auto simp: map_of_map)

definition last_n :: "nat \<Rightarrow> 'a list \<Rightarrow> 'a list" where
  "last_n n xs = drop (length xs - n) xs"

lemma offer_last_n: "length q \<le> subscriberBuffer \<Longrightarrow> offer e q = last_n subscriberBuffer (q @ [e])"
  by (cases q) (auto simp: offer_def last_n_def subscriberBuffer_def Suc_diff_le)

lemma last_n_step: "last_n n (last_n n xs @ [e]) = last_n n (xs @ [e])"
proof (cases "n \<le> length xs")
  case True
  then have "Suc (length xs) - (length xs - n + n) + (length xs - n) = Suc (length xs) - n" by simp
  with True show ?thesis by (simp add: last_n_def Suc_diff_le)
qed (simp add: last_n_def)

lemma length_last_n: "length (last_n n xs) \<le> n"
  by (simp add: last_n_def)

text \<open>A subscriber that does not read keeps exactly the newest events: after any events were published, its queue is the last sixteen
  of what it had and what came.\<close>

theorem subscriber_keeps_newest:
  assumes "queue_of c b = Some q" "length q \<le> subscriberBuffer"
  shows "queue_of c (publish_all es b) = Some (last_n subscriberBuffer (q @ es))"
proof (induction es rule: rev_induct)
  case Nil
  then show ?case using assms by (simp add: publish_all_def last_n_def)
next
  case (snoc e es)
  have "queue_of c (publish_all (es @ [e]) b) = map_option (offer e) (queue_of c (publish_all es b))"
    by (simp add: publish_all_def queue_publish)
  then show ?case using snoc offer_last_n[OF length_last_n, of e] last_n_step[of subscriberBuffer "q @ es" e] by simp
qed

section \<open>Isolation of the stream\<close>

definition live_vmids :: "string \<Rightarrow> db \<Rightarrow> int set" where
  "live_vmids t d = {o_vmid r | r. r \<in> set (ownerships (tabs d)) \<and> o_tenant_id r = t \<and> live_status (o_status r)}"

definition stream_kinds :: "string list" where
  "stream_kinds = [''metrics'', ''task'', ''deployment'', ''schedule_warning'', ''ttl_warning'', ''deployment_set'']"

definition guests_named :: "event \<Rightarrow> int list" where
  "guests_named e = (case ev_data e of
      TaskPayload u a st x (Some res) \<Rightarrow> [re_vmid res]
    | DeploymentPayload d \<Rightarrow> [dp_vmid d]
    | SchedulePayload g k t d at \<Rightarrow> [gr_vmid g]
    | TtlPayload g w at a \<Rightarrow> [gr_vmid g]
    | SetPayload f \<Rightarrow> map fm_vmid (fr_members f)
    | _ \<Rightarrow> [])"

lemma deliver_owned:
  assumes "deliver e False owned" "ev_name e \<in> set stream_kinds"
  shows "ev_name e \<noteq> ''metrics'' \<and> guests_named e \<noteq> [] \<and> (\<forall>v \<in> set (guests_named e). owns_vmid owned v)"
  using assms unfolding stream_kinds_def deliver_def guests_named_def
  by (auto simp: list_all_iff split: event_data.splits option.splits)

lemma resolver_fold:
  "owns_vmid (fold (\<lambda>r m. if o_status r = Active \<or> o_status r = Pending then AList.update (o_vmid r) True m else m) rows m) v \<longleftrightarrow>
   owns_vmid m v \<or> (\<exists>r \<in> set rows. o_vmid r = v \<and> live_status (o_status r))"
  by (induction rows arbitrary: m) (auto simp: owns_vmid_def update_conv' live_status_def)

lemma resolver_live:
  assumes "fst (ownedVMIDsResolver t d) = Inr m"
  shows "owns_vmid m v \<longleftrightarrow> v \<in> live_vmids t d"
proof -
  obtain d' where "ownedVMIDsResolver t d = (Inr m, d')" using assms by (metis prod.collapse)
  then have "m = fold (\<lambda>r m. if o_status r = Active \<or> o_status r = Pending then AList.update (o_vmid r) True m else m)
      (sort_key o_vmid (filter (\<lambda>r. o_tenant_id r = t) (ownerships (tabs d)))) []"
    by (auto simp: ownedVMIDsResolver_def ListOwnershipByTenant_def op_elims)
  moreover have "\<not> owns_vmid [] v" by (simp add: owns_vmid_def)
  ultimately show ?thesis by (auto simp: resolver_fold live_vmids_def)
qed

text \<open>What a stream may know: its set is empty or was the tenant's at some refresh, and so for every event it wrote.\<close>

definition knows :: "string \<Rightarrow> db set \<Rightarrow> stream \<Rightarrow> bool" where
  "knows t D st \<longleftrightarrow> \<not> sm_admin st \<and> sm_tenant st = t \<and>
     ((\<forall>v. \<not> owns_vmid (sm_owned st) v) \<or> (\<exists>d \<in> D. \<forall>v. owns_vmid (sm_owned st) v \<longrightarrow> v \<in> live_vmids t d)) \<and>
     (\<forall>e \<in> set (sm_written st). ev_name e \<in> set stream_kinds \<longrightarrow>
        ev_name e \<noteq> ''metrics'' \<and> guests_named e \<noteq> [] \<and> (\<exists>d \<in> D. set (guests_named e) \<subseteq> live_vmids t d))"

lemma knows_mono: "\<lbrakk>knows t D st; D \<subseteq> D'\<rbrakk> \<Longrightarrow> knows t D' st"
  unfolding knows_def by blast

lemma knows_refresh: "\<lbrakk>knows t D st; d \<in> D\<rbrakk> \<Longrightarrow> knows t D (refresh d st)"
proof (cases "sm_admin st \<or> sm_tenant st = '''' \<or> (\<exists>e. fst (ownedVMIDsResolver (sm_tenant st) d) = Inl e)")
  case True
  moreover assume "knows t D st"
  ultimately show ?thesis by (auto simp: refresh_def)
next
  case False
  assume k: "knows t D st" "d \<in> D"
  obtain m where m: "fst (ownedVMIDsResolver (sm_tenant st) d) = Inr m" using False by (cases "fst (ownedVMIDsResolver (sm_tenant st) d)") auto
  have "sm_tenant st = t" using k(1) by (simp add: knows_def)
  with m have "\<forall>v. owns_vmid m v \<longrightarrow> v \<in> live_vmids t d" using resolver_live by blast
  moreover have "refresh d st = st\<lparr>sm_owned := m\<rparr>" using False m by (simp add: refresh_def)
  ultimately show ?thesis using k unfolding knows_def by auto
qed

lemma knows_written:
  assumes "knows t D st" "deliver e False (sm_owned st)"
  shows "knows t D (st\<lparr>sm_written := sm_written st @ [e]\<rparr>)"
proof -
  have "ev_name e \<noteq> ''metrics'' \<and> guests_named e \<noteq> [] \<and> (\<exists>d \<in> D. set (guests_named e) \<subseteq> live_vmids t d)" if "ev_name e \<in> set stream_kinds"
  proof -
    have e: "ev_name e \<noteq> ''metrics''" "guests_named e \<noteq> []" "\<forall>v \<in> set (guests_named e). owns_vmid (sm_owned st) v"
      using deliver_owned[OF assms(2) that] by blast+
    then have "\<exists>v. owns_vmid (sm_owned st) v" by (meson last_in_set)
    with assms(1) obtain d where "d \<in> D" "\<forall>v. owns_vmid (sm_owned st) v \<longrightarrow> v \<in> live_vmids t d" unfolding knows_def by blast
    with e show ?thesis by blast
  qed
  with assms(1) show ?thesis unfolding knows_def by auto
qed

definition turn_dbs :: "turn list \<Rightarrow> db set" where
  "turn_dbs tns = tn_db ` {tn \<in> set tns. tn_case tn = RefreshTick}"

lemma knows_turn:
  assumes "knows t D st" "tn_case tn = RefreshTick \<Longrightarrow> tn_db tn \<in> D"
  shows "knows t D (stream_turn marshal tn st)"
proof -
  have admin: "\<not> sm_admin st" using assms(1) by (simp add: knows_def)
  have closed: "knows t D (st\<lparr>sm_open := b\<rparr>)" for b using assms(1) by (simp add: knows_def)
  show ?thesis
  proof (cases "tn_case tn")
    case RefreshTick
    then show ?thesis using assms knows_refresh by (simp add: stream_turn_def)
  next
    case (Incoming x)
    then show ?thesis using assms(1) closed admin knows_written by (cases x) (simp_all add: stream_turn_def)
  qed (use assms(1) closed in \<open>simp_all add: stream_turn_def\<close>)
qed

lemma knows_run:
  assumes "knows t D st" "turn_dbs tns \<subseteq> D"
  shows "knows t D (stream_run marshal tns st)"
  using assms unfolding stream_run_def
  by (induction tns arbitrary: st) (auto simp: turn_dbs_def intro: knows_turn)

text \<open>C40: an event stream stays with its tenant. Whatever is published and however the stream goes, a subscriber who is not a platform admin is
  written no node metrics, and every frame of a known kind that it is written names guests, all of which the
  subscriber's tenant owned (active or pending) at one of the stream's own refreshes.\<close>

theorem stream_stays_with_tenant:
  assumes "fst (open_stream idt d0 ok l) = Inr st" "\<not> sm_admin st"
    "e \<in> set (sm_written (stream_run marshal tns st))" "ev_name e \<in> set stream_kinds"
  shows "ev_name e \<noteq> ''metrics'' \<and> guests_named e \<noteq> [] \<and>
    (\<exists>d \<in> insert d0 (turn_dbs tns). set (guests_named e) \<subseteq> live_vmids (sm_tenant st) d)"
proof -
  obtain a t where st: "st = refresh d0 \<lparr>sm_admin = a, sm_tenant = t, sm_owned = [], sm_written = [], sm_open = ok\<rparr>"
    using assms(1) by (auto simp: open_stream_def Let_def split: if_splits)
  have same: "sm_admin st = a" "sm_tenant st = t" unfolding st by (auto simp: refresh_def split: sum.split)
  let ?s = "\<lparr>sm_admin = a, sm_tenant = t, sm_owned = [], sm_written = [], sm_open = ok\<rparr>"
  have "knows t (insert d0 (turn_dbs tns)) ?s" using assms(2) same by (simp add: knows_def owns_vmid_def)
  then have "knows t (insert d0 (turn_dbs tns)) st" unfolding st by (rule knows_refresh) simp
  then have "knows t (insert d0 (turn_dbs tns)) (stream_run marshal tns st)" by (rule knows_run) auto
  then show ?thesis using assms(3,4) unfolding knows_def same(2) by simp
qed

section \<open>The limit\<close>

datatype conn_op = Acquire string | Release string

fun conn_step :: "conn_limiter \<Rightarrow> conn_op \<Rightarrow> conn_limiter" where
  "conn_step l (Acquire k) = snd (conn_acquire k l)"
| "conn_step l (Release k) = conn_release k l"

text \<open>No user holds more than the cap, whatever the order of opening and closing.\<close>

theorem streams_bounded:
  assumes "0 \<le> n"
  shows "0 \<le> streams_of k (foldl conn_step (newConnLimiter n) ops) \<and> streams_of k (foldl conn_step (newConnLimiter n) ops) \<le> n"
proof -
  have step: "cn_max (conn_step l op) = cn_max l \<and> (\<forall>k. 0 \<le> streams_of k (conn_step l op) \<and> streams_of k (conn_step l op) \<le> cn_max l)"
    if "\<forall>k. 0 \<le> streams_of k l \<and> streams_of k l \<le> cn_max l" for l op
  proof -
    have mx: "0 \<le> v \<and> v \<le> cn_max l" if "map_of (cn_count l) k = Some v" for k v
      using \<open>\<forall>k. 0 \<le> streams_of k l \<and> streams_of k l \<le> cn_max l\<close>[rule_format, of k] that by (simp add: streams_of_def)
    have "0 \<le> cn_max l" using that order_trans by blast
    then show ?thesis using that mx by (cases op) (auto simp: conn_acquire_def conn_release_def streams_of_def update_conv' delete_conv' split: option.splits dest: mx)
  qed
  have "cn_max (foldl conn_step (newConnLimiter n) ops) = n \<and>
      (\<forall>k. 0 \<le> streams_of k (foldl conn_step (newConnLimiter n) ops) \<and> streams_of k (foldl conn_step (newConnLimiter n) ops) \<le> n)"
  proof (induction ops rule: rev_induct)
    case Nil
    then show ?case using assms by (simp add: newConnLimiter_def streams_of_def)
  next
    case (snoc op ops)
    then show ?case using step[of "foldl conn_step (newConnLimiter n) ops" op] by simp
  qed
  then show ?thesis by blast
qed

section \<open>The poller\<close>

definition task_ended :: "string + task_info \<Rightarrow> bool" where
  "task_ended x \<longleftrightarrow> (case x of Inl e \<Rightarrow> False | Inr info \<Rightarrow> ti_end_time info \<noteq> 0)"

lemma watch_one_running:
  assumes "\<And>w. status u w = (ans u, w)" "u \<in> set (Running_tasks r)"
  shows "Running_tasks (fst (watch_one status u (r, b, w))) = (if task_ended (ans u) then filter (\<lambda>v. v \<noteq> u) (Running_tasks r) else Running_tasks r)"
proof (cases "task_ended (ans u)")
  case False
  then show ?thesis using assms(1) by (auto simp: watch_one_def task_ended_def split: sum.splits)
next
  case True
  then obtain info where info: "ans u = Inr info" "ti_end_time info \<noteq> 0" by (auto simp: task_ended_def split: sum.splits)
  obtain tr where tr: "map_of (rg_running r) u = Some tr" using assms(2) by (auto simp: Running_tasks_def dest: weak_map_of_SomeI)
  have "Running_tasks (snd (Complete u ok x r)) = filter (\<lambda>v. v \<noteq> u) (Running_tasks r)" for ok x
    using tr by (simp add: Complete_def Running_tasks_def Let_def delete_keys removeAll_filter_not_eq) (metis)
  moreover have "fst (watch_one status u (r, b, w)) = snd (Complete u (task_succeeded (ti_exit_status info)) (ti_exit_status info) r)"
    using info assms(1) by (auto simp: watch_one_def Let_def split: prod.split option.split)
  ultimately show ?thesis using True by simp
qed

lemma watch_all_running:
  assumes "\<And>u w. status u w = (ans u, w)" "distinct us" "set us \<subseteq> set (Running_tasks (fst s))"
  shows "Running_tasks (fst (foldl (\<lambda>s u. watch_one status u s) s us)) = filter (\<lambda>v. v \<notin> set us \<or> \<not> task_ended (ans v)) (Running_tasks (fst s))"
  using assms(2,3)
proof (induction us arbitrary: s)
  case (Cons u us)
  obtain r b w where s: "s = (r, b, w)" by (cases s)
  let ?s1 = "watch_one status u s"
  have one: "Running_tasks (fst ?s1) = (if task_ended (ans u) then filter (\<lambda>v. v \<noteq> u) (Running_tasks r) else Running_tasks r)"
    unfolding s using watch_one_running[of status u ans r b w] assms(1) Cons.prems by (simp add: s)
  have "set us \<subseteq> set (Running_tasks (fst ?s1))" using Cons.prems one by (auto simp: s)
  from Cons.IH[OF _ this] Cons.prems(1) one show ?case by (auto simp: s intro!: filter_cong)
qed simp

text \<open>One tick of the poller completes exactly the tracked tasks Proxmox reports ended, and keeps polling the others, those it could not
  read included.\<close>

theorem watcher_tick_exact:
  assumes "\<And>u w. status u w = (ans u, w)" "distinct (Running_tasks r)"
  shows "Running_tasks (fst (watcher_tick status (r, b, w))) = filter (\<lambda>u. \<not> task_ended (ans u)) (Running_tasks r)"
  using watch_all_running[where status = status and ans = ans and s = "(r, b, w)" and us = "Running_tasks r"] assms
  by (simp add: watcher_tick_def cong: filter_cong)

section \<open>A concrete stream\<close>

definition viewer :: identity where
  "viewer = \<lparr>id_user_id = ''u1'', id_email = ''ann@example.org'', id_is_platform_admin = False, id_session_id = ''x'', id_active_tenant = ''t1'',
     id_tenant_role = ''viewer'', id_resolved_project = '''', id_effective_role = ''''\<rparr>"

definition stream_db :: db where
  "stream_db = sample_db (sample_tables\<lparr>ownerships := [sample_ownership ''o1'' ''t1'' ''p1'' 120 Active, sample_ownership ''o2'' ''t2'' ''p2'' 130 Active]\<rparr>)"

definition task_event :: "int \<Rightarrow> event" where
  "task_event v = \<lparr>ev_name = ''task'', ev_data = TaskPayload ''UPID:1'' ''Start'' ''running'' '''' (Some \<lparr>re_type = ''qemu'', re_vmid = v, re_node = ''n'', re_name = ''w''\<rparr>)\<rparr>"

definition viewer_turns :: "turn list" where
  "viewer_turns = map (\<lambda>c. \<lparr>tn_db = stream_db, tn_case = c, tn_write_ok = True\<rparr>)
     [Incoming (Some (task_event 130)), Incoming (Some (task_event 120)), RefreshTick, HeartbeatTick, Incoming (Some \<lparr>ev_name = ''metrics'', ev_data = MetricsPayload ''{}''\<rparr>)]"

definition viewer_stream :: stream where
  "viewer_stream = projr (fst (open_stream (Some viewer) stream_db True (newConnLimiter maxSSEPerUser)))"

lemma viewer_opened: "fst (open_stream (Some viewer) stream_db True (newConnLimiter maxSSEPerUser)) = Inr viewer_stream"
proof -
  have "isl (fst (open_stream (Some viewer) stream_db True (newConnLimiter maxSSEPerUser))) = False" by code_simp
  then show ?thesis by (simp add: viewer_stream_def)
qed

lemma viewer_written: "sm_written (stream_run (\<lambda>x. Some ''{}'') viewer_turns viewer_stream) = [task_event 120]"
  by code_simp

theorem stream_stays_with_tenant_witness:
  "sm_written (stream_run (\<lambda>x. Some ''{}'') viewer_turns viewer_stream) = [task_event 120] \<and>
   (\<exists>d \<in> insert stream_db (turn_dbs viewer_turns). set (guests_named (task_event 120)) \<subseteq> live_vmids ''t1'' d)"
proof -
  have "\<not> sm_admin viewer_stream" "sm_tenant viewer_stream = ''t1''" by code_simp+
  moreover have "ev_name (task_event 120) \<in> set stream_kinds" by (simp add: task_event_def stream_kinds_def)
  ultimately show ?thesis
    using stream_stays_with_tenant[OF viewer_opened, of "task_event 120" "\<lambda>x. Some ''{}''" viewer_turns] viewer_written by simp
qed

end
