(* ===== verification/Spec2Isabelle.thy ===== *)
theory Spec2Isabelle
  imports Store_Reserve Scheduler Reconciler Auth_Runs Lifecycle_Jobs Lifecycle_Expiry Event_Stream
begin

text \<open>
  \<^bold>\<open>Proxcloud backend.\<close> Proxcloud is a multi-tenant front end to Proxmox VE. Its Go backend
  (\<^verbatim>\<open>src/backend\<close>) keeps tenants, projects, memberships, guest ownership, quotas, sessions, the audit log
  and the job queue in Postgres; an HTTP layer authorizes and audits requests; background loops run
  jobs and reclaim stale reservations. This library models that core.

  \<^bold>\<open>Theories.\<close>
  \<^item> \<open>Prelude\<close>: 64-bit wrap-around, ASCII case, tables as lists of rows.
  \<^item> \<open>Store_Model\<close>: the row types of \<^verbatim>\<open>store/store.go\<close>, the database, the statement shapes of
    \<^verbatim>\<open>store/postgres.go\<close>, \<open>WithTx\<close> and \<open>AdvisoryLock\<close>. \<open>Samples\<close>: concrete databases for the witnesses.
    \<open>Go_Lib\<close>: what the code uses of Go's standard library.
  \<^item> \<open>Store_Ownership\<close>: the \<^verbatim>\<open>resource_ownership\<close> aggregate of \<^verbatim>\<open>postgres.go\<close>: its table
    invariant, the life cycle of a row, and the locale \<open>ownership_store\<close> its clients rely on.
  \<^item> \<open>Store_Quota\<close>, \<open>Store_Reserve\<close>: \<^verbatim>\<open>store/quota.go\<close>, usage, the two quota gates (locale \<open>quota_gate\<close>,
    interpreted for creation and for growth) and the three reservations: within the caps, atomic,
    tenant-respecting; usage sums are exact modulo 2^64.
  \<^item> \<open>Store_Tenancy\<close>: users, tenants, projects, memberships and effective roles.
  \<^item> \<open>Store_Audit\<close>: the audit writes and listing and the recorder of \<^verbatim>\<open>internal/auditz\<close>.
  \<^item> \<open>Authz_Roles\<close>, \<open>Authz_Permissions\<close>, \<open>Authz_Middleware\<close>: \<^verbatim>\<open>internal/authz\<close>, the role order, the route
    tables entry by entry, and the middleware chain (locales \<open>guard\<close> and \<open>guard_pair\<close>).
  \<^item> \<open>Store_Jobs\<close>, \<open>Scheduler\<close>: \<^verbatim>\<open>store/jobs.go\<close> (locale \<open>work_queue\<close>) and \<^verbatim>\<open>internal/scheduler\<close>.
  \<^item> \<open>Reconciler\<close>: \<^verbatim>\<open>internal/reconciler\<close>.
  \<^item> \<open>Login_Limiter\<close>: \<^verbatim>\<open>internal/auth/ratelimit.go\<close> (locale \<open>lock_policy\<close>, interpreted for accounts and
    for the second factor).

  \<^bold>\<open>Abstractions.\<close> An operation is a function on the database; runs are sequences of operations, so
  advisory locks are recorded but block nobody, and concurrency appears as the order of whole statements
  or transactions. Every statement may fail: the fault script of the state decides which, and theorems
  without a hypothesis on it hold for every script. Identifiers come from an injective
  sequence. Text is ASCII and ordered bytewise. Cron, time zones, SHA-256 and address parsing are
  parameters. Logging, tracing, request timeouts and the ticker loops are not modelled.
\<close>

end
